(* ===== verification/CB_Prelude.thy ===== *)
theory CB_Prelude
  imports Main "HOL-Library.Word"
begin

text \<open>
  Shared vocabulary of the development: the result type of code that may raise an error with
  \<^verbatim>\<open>elog\<close>, the machine types, and the lemmas on list search, array update and
  word bits that the component theories use.
\<close>

unbundle bit_operations_syntax

section \<open>Types\<close>

text \<open>A call of \<^verbatim>\<open>elog(ERROR, msg)\<close>, \<^verbatim>\<open>elog(FATAL, msg)\<close> or
  \<^verbatim>\<open>elog(PANIC, msg)\<close> does not return: the model of a function that may make one returns
  \<open>Inl\<close> of the level with the message, and \<open>Inr\<close> of its value otherwise.\<close>

datatype elog = ERROR string | FATAL string | PANIC string

type_synonym 'a result = "elog + 'a"

type_synonym uint8 = "8 word"
type_synonym uint16 = "16 word"
type_synonym uint32 = "32 word"
type_synonym uint64 = "64 word"

text \<open>Collections: \<open>bit_facts\<close> turns word equations into facts on single bits;
  \<open>branch_splits\<close> holds the split rules that follow the branches of the code.\<close>

named_theorems bit_facts
named_theorems branch_splits

declare option.splits [branch_splits]
declare sum.splits [branch_splits]
declare prod.splits [branch_splits]
declare if_splits [branch_splits]

section \<open>Search loops\<close>

text \<open>A loop \<^verbatim>\<open>for (i = lo; i < hi; i++) if (P(i)) return ...;\<close> is
  \<open>find P [lo..<hi]\<close>; its two outcomes are characterised here once.\<close>

lemma find_upt_None [simp]:
  "find P [lo..<hi] = None \<longleftrightarrow> (\<forall>i. lo \<le> i \<and> i < hi \<longrightarrow> \<not> P i)"
  by (auto simp: find_None_iff)

lemma find_upt_Some:
  "find P [lo..<hi] = Some i \<longleftrightarrow>
     lo \<le> i \<and> i < hi \<and> P i \<and> (\<forall>j. lo \<le> j \<and> j < i \<longrightarrow> \<not> P j)"
proof
  assume "find P [lo..<hi] = Some i"
  then obtain k where k: "k < hi - lo" "P (lo + k)" "i = lo + k" "\<forall>j<k. \<not> P (lo + j)"
    by (auto simp: find_Some_iff)
  have "\<not> P j" if "lo \<le> j" "j < i" for j
    using k(3,4) that by (metis add_less_cancel_left le_Suc_ex)
  then show "lo \<le> i \<and> i < hi \<and> P i \<and> (\<forall>j. lo \<le> j \<and> j < i \<longrightarrow> \<not> P j)"
    using k by auto
next
  assume a: "lo \<le> i \<and> i < hi \<and> P i \<and> (\<forall>j. lo \<le> j \<and> j < i \<longrightarrow> \<not> P j)"
  then show "find P [lo..<hi] = Some i"
    by (auto simp: find_Some_iff intro!: exI [of _ "i - lo"])
qed

lemma empty_index_range [simp]: "((n::nat) \<le> i \<and> i < n) = False"
  by auto

lemma case_find_upt [simp]:
  "(case find P [lo..<hi] of None \<Rightarrow> x | Some _ \<Rightarrow> y) =
     (if \<forall>i. lo \<le> i \<and> i < hi \<longrightarrow> \<not> P i then x else y)"
  by (metis (mono_tags, lifting) find_upt_None option.case_eq_if)

lemma find_rev_upt_None [simp]:
  "find P (rev [0..<n]) = None \<longleftrightarrow> (\<forall>i<n. \<not> P i)"
  by (auto simp: find_None_iff)

lemma find_rev_upt_Some:
  "find P (rev [0..<n]) = Some i \<longleftrightarrow> i < n \<and> P i \<and> (\<forall>j. i < j \<and> j < n \<longrightarrow> \<not> P j)"
proof (induction n)
  case 0
  then show ?case by simp
next
  case (Suc n)
  show ?case
  proof (cases "P n")
    case True
    then show ?thesis by (auto simp: not_less_eq less_Suc_eq)
  next
    case False
    with Suc show ?thesis by (auto simp: less_Suc_eq)
  qed
qed

section \<open>Array update loops\<close>

text \<open>A loop \<^verbatim>\<open>for (i = lo; i < hi; i++) a[i] = f(i, a[i]);\<close> is a fold of
  \<open>list_update\<close> over \<open>[lo..<hi]\<close>; every cell in range is updated exactly once.\<close>

lemma find_SomeD: "find P xs = Some x \<Longrightarrow> P x \<and> x \<in> set xs"
  by (induction xs) (auto split: if_splits)

lemma find_append:
  "find P (xs @ ys) = (case find P xs of Some x \<Rightarrow> Some x | None \<Rightarrow> find P ys)"
  by (induction xs) auto

lemma length_fold_update [simp]:
  "length (fold (\<lambda>i xs. xs[i := f i (xs ! i)]) is xs) = length xs"
  by (induction "is" arbitrary: xs) auto

lemma nth_fold_update:
  "distinct is \<Longrightarrow> k < length xs \<Longrightarrow>
   fold (\<lambda>i xs. xs[i := f i (xs ! i)]) is xs ! k = (if k \<in> set is then f k (xs ! k) else xs ! k)"
proof (induction "is" arbitrary: xs)
  case Nil
  then show ?case by simp
next
  case (Cons a "is")
  then show ?case by (cases "a = k") auto
qed

lemma nth_fold_update_upt:
  "k < length xs \<Longrightarrow>
   fold (\<lambda>i xs. xs[i := f i (xs ! i)]) [lo..<hi] xs ! k =
     (if lo \<le> k \<and> k < hi then f k (xs ! k) else xs ! k)"
  by (simp add: nth_fold_update)

section \<open>Bits of words\<close>

lemma word_eq_zero_iff_bit [bit_facts]: "(w :: 'a::len word) = 0 \<longleftrightarrow> (\<forall>n. \<not> bit w n)"
  by (metis bit_0_eq bit_eqI bot_apply bot_bool_def)

lemma word_neq_zero_iff_bit: "(w :: 'a::len word) \<noteq> 0 \<longleftrightarrow> (\<exists>n<LENGTH('a). bit w n)"
  by (metis bit_imp_le_length word_eq_zero_iff_bit)

text \<open>The shift \<^verbatim>\<open>(bitmapword) 1 << m\<close> simplifies to \<open>2 ^ m\<close>.\<close>

lemma bit_two_power [bit_facts]: "bit (2 ^ m :: 'a::len word) n \<longleftrightarrow> n = m \<and> n < LENGTH('a)"
  by (auto simp: bit_exp_iff)

lemma and_two_power_neq_zero [bit_facts]:
  "m < LENGTH('a) \<Longrightarrow> (w :: 'a::len word) AND 2 ^ m = 0 \<longleftrightarrow> \<not> bit w m"
  by (auto simp: word_eq_zero_iff_bit bit_and_iff bit_two_power)

lemma bit_low_mask [bit_facts]:
  "bit (2 ^ m - 1 :: 'a::len word) n \<longleftrightarrow> n < m \<and> n < LENGTH('a)"
  by (auto simp: bit_mask_iff simp flip: mask_eq_exp_minus_1)

lemma unat_two_power:
  assumes "n < LENGTH('a)"
  shows "unat (2 ^ n :: 'a::len word) = 2 ^ n"
proof -
  have "unat (of_nat (2 ^ n) :: 'a word) = 2 ^ n mod 2 ^ LENGTH('a)"
    by (rule unat_of_nat)
  then show ?thesis using assms by simp
qed

lemma and_not_eq_zero_iff [bit_facts]:
  "(w :: 'a::len word) AND NOT v = 0 \<longleftrightarrow> (\<forall>k. bit w k \<longrightarrow> bit v k)"
  using bit_imp_possible_bit [of w]
  by (auto simp: word_eq_zero_iff_bit bit_and_iff bit_not_iff)

end
