(* ===== verification/BitUtils.thy ===== *)
theory BitUtils
  imports CB_Prelude
begin

text \<open>
  The bit-twiddling primitives of \<^verbatim>\<open>src/port/pg_bitutils.c\<close> and
  \<^verbatim>\<open>src/include/port/pg_bitutils.h\<close>, in their portable form (the branches taken when
  the compiler offers no builtin): the three byte tables, the loops that consume a word byte by
  byte, and the power-of-two helpers built on them.  Each primitive is proved equal to its
  bit-level meaning, which is what the users of the builtins rely on as well.
\<close>

section \<open>The byte tables\<close>

definition pg_leftmost_one_pos :: "nat list" where
  "pg_leftmost_one_pos =
  [0, 0, 1, 1, 2, 2, 2, 2, 3, 3, 3, 3, 3, 3, 3, 3,
   4, 4, 4, 4, 4, 4, 4, 4, 4, 4, 4, 4, 4, 4, 4, 4,
   5, 5, 5, 5, 5, 5, 5, 5, 5, 5, 5, 5, 5, 5, 5, 5,
   5, 5, 5, 5, 5, 5, 5, 5, 5, 5, 5, 5, 5, 5, 5, 5,
   6, 6, 6, 6, 6, 6, 6, 6, 6, 6, 6, 6, 6, 6, 6, 6,
   6, 6, 6, 6, 6, 6, 6, 6, 6, 6, 6, 6, 6, 6, 6, 6,
   6, 6, 6, 6, 6, 6, 6, 6, 6, 6, 6, 6, 6, 6, 6, 6,
   6, 6, 6, 6, 6, 6, 6, 6, 6, 6, 6, 6, 6, 6, 6, 6,
   7, 7, 7, 7, 7, 7, 7, 7, 7, 7, 7, 7, 7, 7, 7, 7,
   7, 7, 7, 7, 7, 7, 7, 7, 7, 7, 7, 7, 7, 7, 7, 7,
   7, 7, 7, 7, 7, 7, 7, 7, 7, 7, 7, 7, 7, 7, 7, 7,
   7, 7, 7, 7, 7, 7, 7, 7, 7, 7, 7, 7, 7, 7, 7, 7,
   7, 7, 7, 7, 7, 7, 7, 7, 7, 7, 7, 7, 7, 7, 7, 7,
   7, 7, 7, 7, 7, 7, 7, 7, 7, 7, 7, 7, 7, 7, 7, 7,
   7, 7, 7, 7, 7, 7, 7, 7, 7, 7, 7, 7, 7, 7, 7, 7,
   7, 7, 7, 7, 7, 7, 7, 7, 7, 7, 7, 7, 7, 7, 7, 7]"

definition pg_rightmost_one_pos :: "nat list" where
  "pg_rightmost_one_pos =
  [0, 0, 1, 0, 2, 0, 1, 0, 3, 0, 1, 0, 2, 0, 1, 0,
   4, 0, 1, 0, 2, 0, 1, 0, 3, 0, 1, 0, 2, 0, 1, 0,
   5, 0, 1, 0, 2, 0, 1, 0, 3, 0, 1, 0, 2, 0, 1, 0,
   4, 0, 1, 0, 2, 0, 1, 0, 3, 0, 1, 0, 2, 0, 1, 0,
   6, 0, 1, 0, 2, 0, 1, 0, 3, 0, 1, 0, 2, 0, 1, 0,
   4, 0, 1, 0, 2, 0, 1, 0, 3, 0, 1, 0, 2, 0, 1, 0,
   5, 0, 1, 0, 2, 0, 1, 0, 3, 0, 1, 0, 2, 0, 1, 0,
   4, 0, 1, 0, 2, 0, 1, 0, 3, 0, 1, 0, 2, 0, 1, 0,
   7, 0, 1, 0, 2, 0, 1, 0, 3, 0, 1, 0, 2, 0, 1, 0,
   4, 0, 1, 0, 2, 0, 1, 0, 3, 0, 1, 0, 2, 0, 1, 0,
   5, 0, 1, 0, 2, 0, 1, 0, 3, 0, 1, 0, 2, 0, 1, 0,
   4, 0, 1, 0, 2, 0, 1, 0, 3, 0, 1, 0, 2, 0, 1, 0,
   6, 0, 1, 0, 2, 0, 1, 0, 3, 0, 1, 0, 2, 0, 1, 0,
   4, 0, 1, 0, 2, 0, 1, 0, 3, 0, 1, 0, 2, 0, 1, 0,
   5, 0, 1, 0, 2, 0, 1, 0, 3, 0, 1, 0, 2, 0, 1, 0,
   4, 0, 1, 0, 2, 0, 1, 0, 3, 0, 1, 0, 2, 0, 1, 0]"

definition pg_number_of_ones :: "nat list" where
  "pg_number_of_ones =
  [0, 1, 1, 2, 1, 2, 2, 3, 1, 2, 2, 3, 2, 3, 3, 4,
   1, 2, 2, 3, 2, 3, 3, 4, 2, 3, 3, 4, 3, 4, 4, 5,
   1, 2, 2, 3, 2, 3, 3, 4, 2, 3, 3, 4, 3, 4, 4, 5,
   2, 3, 3, 4, 3, 4, 4, 5, 3, 4, 4, 5, 4, 5, 5, 6,
   1, 2, 2, 3, 2, 3, 3, 4, 2, 3, 3, 4, 3, 4, 4, 5,
   2, 3, 3, 4, 3, 4, 4, 5, 3, 4, 4, 5, 4, 5, 5, 6,
   2, 3, 3, 4, 3, 4, 4, 5, 3, 4, 4, 5, 4, 5, 5, 6,
   3, 4, 4, 5, 4, 5, 5, 6, 4, 5, 5, 6, 5, 6, 6, 7,
   1, 2, 2, 3, 2, 3, 3, 4, 2, 3, 3, 4, 3, 4, 4, 5,
   2, 3, 3, 4, 3, 4, 4, 5, 3, 4, 4, 5, 4, 5, 5, 6,
   2, 3, 3, 4, 3, 4, 4, 5, 3, 4, 4, 5, 4, 5, 5, 6,
   3, 4, 4, 5, 4, 5, 5, 6, 4, 5, 5, 6, 5, 6, 6, 7,
   2, 3, 3, 4, 3, 4, 4, 5, 3, 4, 4, 5, 4, 5, 5, 6,
   3, 4, 4, 5, 4, 5, 5, 6, 4, 5, 5, 6, 5, 6, 6, 7,
   3, 4, 4, 5, 4, 5, 5, 6, 4, 5, 5, 6, 5, 6, 6, 7,
   4, 5, 5, 6, 5, 6, 6, 7, 5, 6, 6, 7, 6, 7, 7, 8]"

section \<open>The loops\<close>

text \<open>\<^verbatim>\<open>Assert(word != 0)\<close> is the callers' obligation; with it the conjunct
  \<open>word \<noteq> 0\<close> of the loop guards below is always true, and it is what makes the loops
  total functions.\<close>

lemma unat_drop_8_less: "(w :: 'a::len word) \<noteq> 0 \<Longrightarrow> unat (drop_bit 8 w) < unat w"
  by (subst unat_drop_bit_eq) (simp add: drop_bit_eq_div unat_gt_0)

function rightmost_one_loop :: "'a::len word \<Rightarrow> nat \<Rightarrow> nat" where
  "rightmost_one_loop word result =
     (if word \<noteq> 0 \<and> word AND 255 = 0
      then rightmost_one_loop (drop_bit 8 word) (result + 8)
      else result + pg_rightmost_one_pos ! unat (word AND 255))"
  by pat_completeness auto
termination
  by (relation "measure (\<lambda>(word, result). unat word)") (auto simp: unat_drop_8_less)

function leftmost_one_loop :: "'a::len word \<Rightarrow> nat \<Rightarrow> nat" where
  "leftmost_one_loop word shift =
     (if word \<noteq> 0 \<and> drop_bit shift word = 0
      then leftmost_one_loop word (shift - 8)
      else shift + pg_leftmost_one_pos ! unat (drop_bit shift word AND 255))"
  by pat_completeness auto
termination
  by (relation "measure (\<lambda>(word, shift). shift)") (auto intro!: diff_less gr0I)

function popcount_loop :: "'a::len word \<Rightarrow> nat \<Rightarrow> nat" where
  "popcount_loop word result =
     (if word \<noteq> 0
      then popcount_loop (drop_bit 8 word) (result + pg_number_of_ones ! unat (word AND 255))
      else result)"
  by pat_completeness auto
termination
  by (relation "measure (\<lambda>(word, result). unat word)") (auto simp: unat_drop_8_less)

declare rightmost_one_loop.simps [simp del]
declare leftmost_one_loop.simps [simp del]
declare popcount_loop.simps [simp del]

definition pg_leftmost_one_pos32 :: "uint32 \<Rightarrow> nat" where
  "pg_leftmost_one_pos32 word = leftmost_one_loop word (32 - 8)"

definition pg_leftmost_one_pos64 :: "uint64 \<Rightarrow> nat" where
  "pg_leftmost_one_pos64 word = leftmost_one_loop word (64 - 8)"

definition pg_rightmost_one_pos32 :: "uint32 \<Rightarrow> nat" where
  "pg_rightmost_one_pos32 word = rightmost_one_loop word 0"

definition pg_rightmost_one_pos64 :: "uint64 \<Rightarrow> nat" where
  "pg_rightmost_one_pos64 word = rightmost_one_loop word 0"

definition pg_popcount32_slow :: "uint32 \<Rightarrow> nat" where
  "pg_popcount32_slow word = popcount_loop word 0"

definition pg_popcount64_slow :: "uint64 \<Rightarrow> nat" where
  "pg_popcount64_slow word = popcount_loop word 0"

definition pg_nextpower2_32 :: "uint32 \<Rightarrow> uint32" where
  "pg_nextpower2_32 num =
     (if num AND (num - 1) = 0 then num
      else push_bit (pg_leftmost_one_pos32 num + 1) 1)"

definition pg_nextpower2_64 :: "uint64 \<Rightarrow> uint64" where
  "pg_nextpower2_64 num =
     (if num AND (num - 1) = 0 then num
      else push_bit (pg_leftmost_one_pos64 num + 1) 1)"

definition pg_prevpower2_32 :: "uint32 \<Rightarrow> uint32" where
  "pg_prevpower2_32 num = push_bit (pg_leftmost_one_pos32 num) 1"

definition pg_prevpower2_64 :: "uint64 \<Rightarrow> uint64" where
  "pg_prevpower2_64 num = push_bit (pg_leftmost_one_pos64 num) 1"

definition pg_ceil_log2_32 :: "uint32 \<Rightarrow> nat" where
  "pg_ceil_log2_32 num = (if num < 2 then 0 else pg_leftmost_one_pos32 (num - 1) + 1)"

definition pg_ceil_log2_64 :: "uint64 \<Rightarrow> nat" where
  "pg_ceil_log2_64 num = (if num < 2 then 0 else pg_leftmost_one_pos64 (num - 1) + 1)"

definition pg_rotate_right32 :: "uint32 \<Rightarrow> nat \<Rightarrow> uint32" where
  "pg_rotate_right32 word n = (drop_bit n word) OR (push_bit (4 * 8 - n) word)"

section \<open>The tables are right\<close>

lemma rightmost_table_int:
  "pg_rightmost_one_pos =
     map (\<lambda>b::int. case find (bit b) [0..<8] of None \<Rightarrow> 0 | Some p \<Rightarrow> p) [0..255]"
  by code_simp

lemma leftmost_table_int:
  "pg_leftmost_one_pos =
     map (\<lambda>b::int. case find (bit b) (rev [0..<8]) of None \<Rightarrow> 0 | Some p \<Rightarrow> p) [0..255]"
  by code_simp

lemma ones_table_int:
  "pg_number_of_ones = map (\<lambda>b::int. length (filter (bit b) [0..<8])) [0..255]"
  by code_simp

lemma nth_upto_255: "b < 256 \<Longrightarrow> [0..255] ! b = int b"
  by (subst nth_upto) auto

lemma bit_int_nat: "bit (int b) = bit b"
  by (simp add: fun_eq_iff bit_of_nat_iff_bit)

lemmas byte_table = nth_map length_upto nth_upto_255 bit_int_nat

lemma rightmost_table:
  assumes "b < 256" and "b \<noteq> 0"
  shows "pg_rightmost_one_pos ! b < 8" and "bit b (pg_rightmost_one_pos ! b)"
    and "k < pg_rightmost_one_pos ! b \<Longrightarrow> \<not> bit b k"
proof -
  have "\<exists>k<8. bit b k"
  proof (rule ccontr)
    assume "\<not> ?thesis"
    then have "take_bit 8 b = 0" by (auto simp: bit_eq_iff bit_take_bit_iff)
    with assms show False by (simp add: take_bit_nat_eq_self)
  qed
  then obtain p where p: "find (bit b) [0..<8] = Some p"
    by (metis find_upt_None not_None_eq zero_le)
  moreover have "pg_rightmost_one_pos ! b = p"
    using assms p by (simp add: rightmost_table_int byte_table)
  ultimately show "pg_rightmost_one_pos ! b < 8" "bit b (pg_rightmost_one_pos ! b)"
    "k < pg_rightmost_one_pos ! b \<Longrightarrow> \<not> bit b k"
    by (simp_all add: find_upt_Some)
qed

lemma leftmost_table:
  assumes "b < 256" and "b \<noteq> 0"
  shows "pg_leftmost_one_pos ! b < 8" and "bit b (pg_leftmost_one_pos ! b)"
    and "pg_leftmost_one_pos ! b < k \<Longrightarrow> k < 8 \<Longrightarrow> \<not> bit b k"
proof -
  have "\<exists>k<8. bit b k"
    using rightmost_table(1,2) [OF assms] by blast
  then obtain p where p: "find (bit b) (rev [0..<8]) = Some p"
    by (metis find_rev_upt_None not_None_eq)
  moreover have "pg_leftmost_one_pos ! b = p"
    using assms p by (simp add: leftmost_table_int byte_table)
  ultimately show "pg_leftmost_one_pos ! b < 8" "bit b (pg_leftmost_one_pos ! b)"
    "pg_leftmost_one_pos ! b < k \<Longrightarrow> k < 8 \<Longrightarrow> \<not> bit b k"
    by (simp_all add: find_rev_upt_Some)
qed

lemma ones_table:
  assumes "b < 256"
  shows "pg_number_of_ones ! b = card {k. k < 8 \<and> bit b k}"
proof -
  have "{k. k < 8 \<and> bit b k} = set (filter (bit b) [0..<8])" by auto
  then have "card {k. k < 8 \<and> bit b k} = length (filter (bit b) [0..<8])"
    by (metis distinct_card distinct_filter distinct_upt)
  then show ?thesis using assms by (simp add: ones_table_int byte_table)
qed

section \<open>The loops are right\<close>

text \<open>The low byte of a word, as an index of a table.\<close>

lemma low_byte:
  fixes w :: "'a::len word"
  shows "unat (w AND 255) < 256" and "bit (unat (w AND 255)) k \<longleftrightarrow> bit w k \<and> k < 8"
    and "w AND 255 = 0 \<longleftrightarrow> (\<forall>k<8. \<not> bit w k)"
proof -
  have m: "w AND 255 = take_bit 8 w"
    by (simp add: take_bit_eq_mask mask_eq_exp_minus_1)
  show bits: "bit (unat (w AND 255)) k \<longleftrightarrow> bit w k \<and> k < 8" for k
    by (auto simp: m bit_unsigned_iff bit_take_bit_iff)
  have "take_bit 8 (unat (w AND 255)) = unat (w AND 255)"
    by (auto simp: bit_eq_iff bit_take_bit_iff bits)
  then show "unat (w AND 255) < 256"
    using take_bit_nat_less_exp [of 8 "unat (w AND 255)"] by simp
  show "w AND 255 = 0 \<longleftrightarrow> (\<forall>k<8. \<not> bit w k)"
    by (auto simp: m word_eq_zero_iff_bit bit_take_bit_iff)
qed

lemma rightmost_one_loop_spec:
  fixes w :: "'a::len word"
  assumes "w \<noteq> 0"
  shows "\<exists>p. rightmost_one_loop w r = r + p \<and> bit w p \<and> (\<forall>k<p. \<not> bit w k)"
  using assms
proof (induction w r rule: rightmost_one_loop.induct)
  case (1 w r)
  let ?b = "unat (w AND 255)"
  show ?case
  proof (cases "w AND 255 = 0")
    case True
    then have low: "\<not> bit w k" if "k < 8" for k
      using that by (simp add: low_byte)
    have "drop_bit 8 w \<noteq> 0"
    proof
      assume z: "drop_bit 8 w = 0"
      have "\<not> bit w k" for k
        using low [of k] arg_cong [OF z, of "\<lambda>v. bit v (k - 8)"]
        by (cases "k < 8") (auto simp: bit_drop_bit_eq)
      with \<open>w \<noteq> 0\<close> show False by (simp add: word_eq_zero_iff_bit)
    qed
    with 1 True obtain p where p: "rightmost_one_loop (drop_bit 8 w) (r + 8) = r + 8 + p"
      "bit w (8 + p)" "\<forall>k<p. \<not> bit w (8 + k)"
      by (auto simp: bit_drop_bit_eq)
    have "\<not> bit w k" if "k < 8 + p" for k
      using that low [of k] p(3) [rule_format, of "k - 8"] by (cases "k < 8") auto
    with True \<open>w \<noteq> 0\<close> p show ?thesis
      by (auto simp: rightmost_one_loop.simps [of w] intro!: exI [of _ "8 + p"])
  next
    case False
    then have "?b \<noteq> 0" by (simp add: unat_eq_zero)
    note t = rightmost_table [OF low_byte(1) this]
    from False have "rightmost_one_loop w r = r + pg_rightmost_one_pos ! ?b"
      by (simp add: rightmost_one_loop.simps [of w])
    moreover have "bit w (pg_rightmost_one_pos ! ?b)"
      using t(2) by (simp add: low_byte)
    moreover have "\<forall>k < pg_rightmost_one_pos ! ?b. \<not> bit w k"
      using t(1) t(3) by (meson low_byte(2) less_trans)
    ultimately show ?thesis by blast
  qed
qed

lemma leftmost_one_loop_spec:
  fixes w :: "'a::len word"
  assumes "w \<noteq> 0" and "\<forall>k. bit w k \<longrightarrow> k < shift + 8" and "8 dvd shift"
  shows "bit w (leftmost_one_loop w shift) \<and> (\<forall>k. bit w k \<longrightarrow> k \<le> leftmost_one_loop w shift)"
  using assms
proof (induction w shift rule: leftmost_one_loop.induct)
  case (1 w s)
  let ?v = "drop_bit s w"
  let ?b = "unat (?v AND 255)"
  show ?case
  proof (cases "?v = 0")
    case True
    then have "s \<noteq> 0" using \<open>w \<noteq> 0\<close> by (metis drop_bit_0 id_apply)
    then have "8 \<le> s" using \<open>8 dvd s\<close> by (auto dest: dvd_imp_le)
    have "k < s - 8 + 8" if "bit w k" for k
    proof (rule ccontr)
      assume "\<not> k < s - 8 + 8"
      with \<open>8 \<le> s\<close> that have "bit ?v (k - s)" by (auto simp: bit_drop_bit_eq)
      with True show False by simp
    qed
    moreover have "8 dvd s - 8" using \<open>8 dvd s\<close> by simp
    ultimately show ?thesis
      using 1 True by (simp add: leftmost_one_loop.simps [of w s])
  next
    case False
    have v: "\<forall>k. bit ?v k \<longrightarrow> k < 8" using 1(3) by (auto simp: bit_drop_bit_eq)
    moreover obtain k where "bit ?v k" using False by (auto simp: word_neq_zero_iff_bit)
    ultimately have "?v AND 255 \<noteq> 0" by (auto simp: low_byte(3))
    then have "?b \<noteq> 0" by (simp add: unat_eq_zero)
    note t = leftmost_table [OF low_byte(1) this]
    let ?p = "pg_leftmost_one_pos ! ?b"
    have e: "leftmost_one_loop w s = s + ?p"
      using False by (simp add: leftmost_one_loop.simps [of w s])
    have "bit w (s + ?p)"
      using t(2) by (simp add: low_byte bit_drop_bit_eq)
    moreover have "k \<le> s + ?p" if "bit w k" for k
    proof (rule ccontr)
      assume "\<not> k \<le> s + ?p"
      with that have "bit ?v (k - s)" "?p < k - s" by (auto simp: bit_drop_bit_eq)
      with v t(3) [of "k - s"] show False by (simp add: low_byte)
    qed
    ultimately show ?thesis using e by auto
  qed
qed

lemma popcount_loop_spec: "popcount_loop (w :: 'a::len word) r = r + card {k. bit w k}"
proof (induction w r rule: popcount_loop.induct)
  case (1 w r)
  show ?case
  proof (cases "w = 0")
    case True
    then show ?thesis by (simp add: popcount_loop.simps)
  next
    case False
    let ?b = "unat (w AND 255)"
    have split: "{k. bit w k} = {k. k < 8 \<and> bit ?b k} \<union> (+) 8 ` {k. bit (drop_bit 8 w) k}"
    proof (intro set_eqI iffI)
      fix k assume "k \<in> {k. bit w k}"
      then show "k \<in> {k. k < 8 \<and> bit ?b k} \<union> (+) 8 ` {k. bit (drop_bit 8 w) k}"
        by (cases "k < 8") (auto simp: low_byte bit_drop_bit_eq image_iff intro!: exI [of _ "k - 8"])
    qed (auto simp: low_byte bit_drop_bit_eq)
    have "card {k. bit w k} = card {k. k < 8 \<and> bit ?b k} + card {k. bit (drop_bit 8 w) k}"
      unfolding split by (subst card_Un_disjoint) (auto simp: card_image finite_bit_word)
    then show ?thesis
      using 1 False by (simp add: popcount_loop.simps [of w] ones_table low_byte)
  qed
qed

section \<open>What the primitives compute\<close>

lemma pg_rightmost_one_pos64_spec:
  assumes "w \<noteq> 0"
  shows "bit w (pg_rightmost_one_pos64 w)" and "k < pg_rightmost_one_pos64 w \<Longrightarrow> \<not> bit w k"
    and "pg_rightmost_one_pos64 w < 64"
proof -
  show b: "bit w (pg_rightmost_one_pos64 w)" and "k < pg_rightmost_one_pos64 w \<Longrightarrow> \<not> bit w k"
    using rightmost_one_loop_spec [OF assms, of 0] by (auto simp: pg_rightmost_one_pos64_def)
  show "pg_rightmost_one_pos64 w < 64"
    using bit_imp_le_length [OF b] by simp
qed

lemma word_bits_bounded: "\<forall>k. bit (w :: 'a::len word) k \<longrightarrow> k < LENGTH('a)"
  using bit_imp_le_length by blast

lemma pg_leftmost_one_pos64_spec:
  assumes "w \<noteq> 0"
  shows "bit w (pg_leftmost_one_pos64 w)" and "bit w k \<Longrightarrow> k \<le> pg_leftmost_one_pos64 w"
    and "pg_leftmost_one_pos64 w < 64"
proof -
  have s: "bit w (leftmost_one_loop w 56) \<and> (\<forall>k. bit w k \<longrightarrow> k \<le> leftmost_one_loop w 56)"
    using word_bits_bounded [of w] by (intro leftmost_one_loop_spec assms) auto
  then show b: "bit w (pg_leftmost_one_pos64 w)" and "bit w k \<Longrightarrow> k \<le> pg_leftmost_one_pos64 w"
    by (auto simp: pg_leftmost_one_pos64_def)
  show "pg_leftmost_one_pos64 w < 64"
    using bit_imp_le_length [OF b] by simp
qed

lemma pg_leftmost_one_pos32_spec:
  assumes "w \<noteq> 0"
  shows "bit w (pg_leftmost_one_pos32 w)" and "bit w k \<Longrightarrow> k \<le> pg_leftmost_one_pos32 w"
    and "pg_leftmost_one_pos32 w < 32"
proof -
  have s: "bit w (leftmost_one_loop w 24) \<and> (\<forall>k. bit w k \<longrightarrow> k \<le> leftmost_one_loop w 24)"
    using word_bits_bounded [of w] by (intro leftmost_one_loop_spec assms) auto
  then show b: "bit w (pg_leftmost_one_pos32 w)" and "bit w k \<Longrightarrow> k \<le> pg_leftmost_one_pos32 w"
    by (auto simp: pg_leftmost_one_pos32_def)
  show "pg_leftmost_one_pos32 w < 32"
    using bit_imp_le_length [OF b] by simp
qed

lemma pg_popcount64_slow_card: "pg_popcount64_slow w = card {k. bit w k}"
  by (simp add: pg_popcount64_slow_def popcount_loop_spec)

lemma pg_popcount32_slow_card: "pg_popcount32_slow w = card {k. bit w k}"
  by (simp add: pg_popcount32_slow_def popcount_loop_spec)

lemma pg_rightmost_one_pos32_spec:
  assumes "w \<noteq> 0"
  shows "bit w (pg_rightmost_one_pos32 w)" and "k < pg_rightmost_one_pos32 w \<Longrightarrow> \<not> bit w k"
  using rightmost_one_loop_spec [OF assms, of 0] by (auto simp: pg_rightmost_one_pos32_def)

text \<open>The leftmost one is the binary logarithm: it brackets the value between two powers.\<close>

lemma msb_bounds:
  fixes w :: "'a::len word"
  assumes "bit w p" and "\<And>k. bit w k \<Longrightarrow> k \<le> p"
  shows "2 ^ p \<le> unat w" and "unat w < 2 ^ Suc p"
proof -
  have b: "bit (unat w) k \<longleftrightarrow> bit w k" for k by (simp add: bit_unsigned_iff)
  have "take_bit (Suc p) (unat w) = unat w"
    using assms(2) by (auto simp: bit_eq_iff bit_take_bit_iff b less_Suc_eq_le)
  then show "unat w < 2 ^ Suc p" by (metis take_bit_nat_less_exp)
  have "bit (unat w) p" using assms(1) by (simp add: b)
  then have "odd (unat w div 2 ^ p)" by (simp add: bit_iff_odd)
  then have "0 < unat w div 2 ^ p" by (auto intro!: gr0I)
  then show "2 ^ p \<le> unat w" by (simp add: div_greater_zero_iff)
qed

lemmas pos32_bounds = msb_bounds [OF pg_leftmost_one_pos32_spec(1,2)]

lemma pg_prevpower2_32_spec:
  assumes "num \<noteq> 0"
  shows "unat (pg_prevpower2_32 num) = 2 ^ pg_leftmost_one_pos32 num"
    and "unat (pg_prevpower2_32 num) \<le> unat num" and "unat num < 2 * unat (pg_prevpower2_32 num)"
proof -
  show e: "unat (pg_prevpower2_32 num) = 2 ^ pg_leftmost_one_pos32 num"
    using pg_leftmost_one_pos32_spec(3) [OF assms] by (simp add: pg_prevpower2_32_def unat_two_power)
  show "unat (pg_prevpower2_32 num) \<le> unat num" "unat num < 2 * unat (pg_prevpower2_32 num)"
    using pos32_bounds [OF assms assms] by (simp_all add: e)
qed

text \<open>Clearing the lowest one leaves zero exactly for the powers of two.\<close>

lemma and_minus_one_eq_zero:
  fixes w :: "'a::len word"
  assumes "w \<noteq> 0" and "w AND (w - 1) = 0" and "bit w p" and "\<And>k. bit w k \<Longrightarrow> k \<le> p"
  shows "unat w = 2 ^ p"
proof (rule ccontr)
  assume "unat w \<noteq> 2 ^ p"
  note bounds = msb_bounds [OF assms(3,4)]
  with \<open>unat w \<noteq> 2 ^ p\<close> have "2 ^ p \<le> unat w - 1" "unat w - 1 < 2 ^ Suc p" by auto
  then have "(unat w - 1) div 2 ^ p = 1"
    by (intro div_nat_eqI) auto
  then have "bit (unat w - 1) p" by (simp add: bit_iff_odd)
  moreover have "unat (w - 1) = unat w - 1"
    using \<open>w \<noteq> 0\<close> by (simp add: unat_minus_one)
  ultimately have "bit (w - 1) p" by (metis bit_unsigned_iff possible_bit_nat)
  with assms(3) have "bit (w AND (w - 1)) p" by (simp add: bit_and_iff)
  with assms(2) show False by simp
qed

lemma two_power_and_minus_one: "(2 ^ p :: 'a::len word) AND (2 ^ p - 1) = 0"
  by (auto simp: word_eq_zero_iff_bit bit_and_iff bit_two_power bit_low_mask)

text \<open>for every argument its comment allows (above 0 and at most 2 to the 31),
  \<^verbatim>\<open>pg_nextpower2_32\<close> returns a power of two that is at least the argument and less than
  twice it: the next power of two, or the argument itself when it is one.\<close>

theorem pg_nextpower2_32_correct:
  assumes "0 < unat num" and "unat num \<le> 2 ^ 31"
  shows "\<exists>k. unat (pg_nextpower2_32 num) = 2 ^ k \<and> unat num \<le> 2 ^ k \<and> 2 ^ k < 2 * unat num"
proof -
  have nz: "num \<noteq> 0" using assms(1) by auto
  let ?p = "pg_leftmost_one_pos32 num"
  note b = pos32_bounds [OF nz nz]
  show ?thesis
  proof (cases "num AND (num - 1) = 0")
    case True
    have "unat num = 2 ^ ?p"
      using and_minus_one_eq_zero [OF nz True] pg_leftmost_one_pos32_spec [OF nz] by blast
    with True assms show ?thesis by (intro exI [of _ ?p]) (simp add: pg_nextpower2_32_def)
  next
    case False
    have ne: "unat num \<noteq> 2 ^ ?p"
    proof
      assume "unat num = 2 ^ ?p"
      then have "num = 2 ^ ?p"
        using pg_leftmost_one_pos32_spec(3) [OF nz]
        by (simp add: word_unat_eq_iff unat_two_power)
      then have "num AND (num - 1) = 0"
        by (metis two_power_and_minus_one)
      with False show False ..
    qed
    have "?p \<noteq> 31" using ne b assms(2) by auto
    then have "Suc ?p < 32" using pg_leftmost_one_pos32_spec(3) [OF nz] by simp
    then have "unat (pg_nextpower2_32 num) = 2 ^ Suc ?p"
      using False unat_two_power [of "Suc ?p", where 'a = 32]
      by (simp add: pg_nextpower2_32_def)
    then show ?thesis using b ne by (intro exI [of _ "Suc ?p"]) auto
  qed
qed

theorem pg_nextpower2_32_correct_witness:
  "unat (1000 :: uint32) \<le> 2 ^ 31 \<and> unat (pg_nextpower2_32 1000) = 1024"
proof -
  obtain k where k: "unat (pg_nextpower2_32 1000) = 2 ^ k" "1000 \<le> (2::nat) ^ k" "(2::nat) ^ k < 2000"
    using pg_nextpower2_32_correct [of 1000] by auto
  have "k = 10"
  proof (rule ccontr)
    assume "k \<noteq> 10"
    then consider "k \<le> 9" | "11 \<le> k" by linarith
    then show False
    proof cases
      case 1
      then have "(2::nat) ^ k \<le> 2 ^ 9" by (rule power_increasing) simp
      with k(2) show False by simp
    next
      case 2
      then have "(2::nat) ^ 11 \<le> 2 ^ k" by (rule power_increasing) simp
      with k(3) show False by simp
    qed
  qed
  with k(1) show ?thesis by simp
qed

end
