(* ===== verification/Bitmapset.thy ===== *)
theory Bitmapset
  imports BitUtils
begin

text \<open>
  The integer sets of \<^verbatim>\<open>src/backend/nodes/bitmapset.c\<close>, used by the planner and the
  executor for sets of relations, columns and parameters.  A \<^verbatim>\<open>Bitmapset *\<close> is an
  \<open>option\<close> (the NULL pointer is \<open>None\<close>, which is an empty set); the array
  \<^verbatim>\<open>words[nwords]\<close> is a list, so \<^verbatim>\<open>nwords\<close> is its length.  The functions that
  recycle their argument return the new contents.  \<^verbatim>\<open>bms_members\<close> is the set of
  naturals a value stands for; every operation is proved to be the set operation it names.
\<close>

section \<open>Data representation\<close>

type_synonym bitmapword = uint64

record Bitmapset =
  words :: "bitmapword list"

abbreviation nwords :: "Bitmapset \<Rightarrow> nat" where
  "nwords a \<equiv> length (words a)"

datatype BMS_Comparison = BMS_EQUAL | BMS_SUBSET1 | BMS_SUBSET2 | BMS_DIFFERENT

datatype BMS_Membership = BMS_EMPTY_SET | BMS_SINGLETON | BMS_MULTIPLE

definition WORDNUM :: "int \<Rightarrow> nat" where
  "WORDNUM x = nat (x div 64)"

definition BITNUM :: "int \<Rightarrow> nat" where
  "BITNUM x = nat (x mod 64)"

definition RIGHTMOST_ONE :: "bitmapword \<Rightarrow> bitmapword" where
  "RIGHTMOST_ONE x = x AND - x"

definition HAS_MULTIPLE_ONES :: "bitmapword \<Rightarrow> bool" where
  "HAS_MULTIPLE_ONES x \<longleftrightarrow> RIGHTMOST_ONE x \<noteq> x"

definition negative_member :: elog where
  "negative_member = ERROR ''negative bitmapset member not allowed''"

section \<open>Operations\<close>

definition bms_copy :: "Bitmapset option \<Rightarrow> Bitmapset option" where
  "bms_copy a = (case a of None \<Rightarrow> None | Some s \<Rightarrow> Some \<lparr>words = words s\<rparr>)"

definition bms_is_empty :: "Bitmapset option \<Rightarrow> bool" where
  "bms_is_empty a =
     (case a of
        None \<Rightarrow> True
      | Some s \<Rightarrow> (case find (\<lambda>wordnum. words s ! wordnum \<noteq> 0) [0..<nwords s] of
                     Some _ \<Rightarrow> False
                   | None \<Rightarrow> True))"

definition bms_equal :: "Bitmapset option \<Rightarrow> Bitmapset option \<Rightarrow> bool" where
  "bms_equal a b =
     (case (a, b) of
        (None, None) \<Rightarrow> True
      | (None, Some _) \<Rightarrow> bms_is_empty b
      | (Some _, None) \<Rightarrow> bms_is_empty a
      | (Some s, Some t) \<Rightarrow>
          (let (shorter, longer) = (if nwords s \<le> nwords t then (s, t) else (t, s))
           in case find (\<lambda>i. words shorter ! i \<noteq> words longer ! i) [0..<nwords shorter] of
                Some _ \<Rightarrow> False
              | None \<Rightarrow>
                  (case find (\<lambda>i. words longer ! i \<noteq> 0) [nwords shorter..<nwords longer] of
                     Some _ \<Rightarrow> False
                   | None \<Rightarrow> True)))"

definition bms_compare :: "Bitmapset option \<Rightarrow> Bitmapset option \<Rightarrow> int" where
  "bms_compare a b =
     (case (a, b) of
        (None, _) \<Rightarrow> (if bms_is_empty b then 0 else -1)
      | (Some _, None) \<Rightarrow> (if bms_is_empty a then 0 else 1)
      | (Some s, Some t) \<Rightarrow>
          (let shortlen = min (nwords s) (nwords t)
           in case find (\<lambda>i. words s ! i \<noteq> 0) [shortlen..<nwords s] of
                Some _ \<Rightarrow> 1
              | None \<Rightarrow>
                  (case find (\<lambda>i. words t ! i \<noteq> 0) [shortlen..<nwords t] of
                     Some _ \<Rightarrow> -1
                   | None \<Rightarrow>
                       (case find (\<lambda>i. words s ! i \<noteq> words t ! i) (rev [0..<shortlen]) of
                          Some i \<Rightarrow> (if words s ! i > words t ! i then 1 else -1)
                        | None \<Rightarrow> 0))))"

definition bms_make_singleton :: "int \<Rightarrow> Bitmapset option result" where
  "bms_make_singleton x =
     (if x < 0 then Inl negative_member
      else Inr (Some \<lparr>words = (replicate (WORDNUM x + 1) 0)[WORDNUM x := push_bit (BITNUM x) 1]\<rparr>))"

definition words_or :: "nat \<Rightarrow> bitmapword list \<Rightarrow> bitmapword list \<Rightarrow> bitmapword list" where
  "words_or otherlen other result =
     fold (\<lambda>i r. r[i := r ! i OR other ! i]) [0..<otherlen] result"

definition words_and :: "nat \<Rightarrow> bitmapword list \<Rightarrow> bitmapword list \<Rightarrow> bitmapword list" where
  "words_and len other result =
     fold (\<lambda>i r. r[i := r ! i AND other ! i]) [0..<len] result"

definition words_andnot :: "nat \<Rightarrow> bitmapword list \<Rightarrow> bitmapword list \<Rightarrow> bitmapword list" where
  "words_andnot len other result =
     fold (\<lambda>i r. r[i := r ! i AND NOT (other ! i)]) [0..<len] result"

definition words_zero :: "nat \<Rightarrow> nat \<Rightarrow> bitmapword list \<Rightarrow> bitmapword list" where
  "words_zero lo hi result = fold (\<lambda>i r. r[i := 0]) [lo..<hi] result"

definition bms_union :: "Bitmapset option \<Rightarrow> Bitmapset option \<Rightarrow> Bitmapset option" where
  "bms_union a b =
     (case (a, b) of
        (None, _) \<Rightarrow> bms_copy b
      | (Some _, None) \<Rightarrow> bms_copy a
      | (Some s, Some t) \<Rightarrow>
          (let (result, other) = (if nwords s \<le> nwords t then (t, s) else (s, t))
           in Some \<lparr>words = words_or (nwords other) (words other) (words result)\<rparr>))"

definition bms_intersect :: "Bitmapset option \<Rightarrow> Bitmapset option \<Rightarrow> Bitmapset option" where
  "bms_intersect a b =
     (case (a, b) of
        (Some s, Some t) \<Rightarrow>
          (let (result, other) = (if nwords s \<le> nwords t then (s, t) else (t, s))
           in Some \<lparr>words = words_and (nwords result) (words other) (words result)\<rparr>)
      | _ \<Rightarrow> None)"

definition bms_difference :: "Bitmapset option \<Rightarrow> Bitmapset option \<Rightarrow> Bitmapset option" where
  "bms_difference a b =
     (case (a, b) of
        (None, _) \<Rightarrow> None
      | (Some _, None) \<Rightarrow> bms_copy a
      | (Some s, Some t) \<Rightarrow>
          Some \<lparr>words = words_andnot (min (nwords s) (nwords t)) (words t) (words s)\<rparr>)"

definition bms_is_subset :: "Bitmapset option \<Rightarrow> Bitmapset option \<Rightarrow> bool" where
  "bms_is_subset a b =
     (case (a, b) of
        (None, _) \<Rightarrow> True
      | (Some _, None) \<Rightarrow> bms_is_empty a
      | (Some s, Some t) \<Rightarrow>
          (let shortlen = min (nwords s) (nwords t)
           in case find (\<lambda>i. words s ! i AND NOT (words t ! i) \<noteq> 0) [0..<shortlen] of
                Some _ \<Rightarrow> False
              | None \<Rightarrow>
                  (if nwords s > nwords t
                   then (case find (\<lambda>i. words s ! i \<noteq> 0) [shortlen..<nwords s] of
                           Some _ \<Rightarrow> False
                         | None \<Rightarrow> True)
                   else True)))"

text \<open>The two loops of \<^verbatim>\<open>bms_subset_compare\<close>; \<open>None\<close> is the early
  \<^verbatim>\<open>return BMS_DIFFERENT\<close>.\<close>

fun subset_compare_common ::
  "(bitmapword \<times> bitmapword) list \<Rightarrow> BMS_Comparison \<Rightarrow> BMS_Comparison option" where
  "subset_compare_common [] result = Some result"
| "subset_compare_common ((aword, bword) # rest) result =
     (if aword AND NOT bword \<noteq> 0 \<and> result = BMS_SUBSET1 then None
      else let result1 = (if aword AND NOT bword \<noteq> 0 then BMS_SUBSET2 else result)
           in if bword AND NOT aword \<noteq> 0 \<and> result1 = BMS_SUBSET2 then None
              else let result2 = (if bword AND NOT aword \<noteq> 0 then BMS_SUBSET1 else result1)
                   in subset_compare_common rest result2)"

fun subset_compare_extra ::
  "BMS_Comparison \<Rightarrow> BMS_Comparison \<Rightarrow> bitmapword list \<Rightarrow> BMS_Comparison \<Rightarrow> BMS_Comparison option" where
  "subset_compare_extra clash new [] result = Some result"
| "subset_compare_extra clash new (w # rest) result =
     (if w \<noteq> 0
      then (if result = clash then None else subset_compare_extra clash new rest new)
      else subset_compare_extra clash new rest result)"

definition bms_subset_compare :: "Bitmapset option \<Rightarrow> Bitmapset option \<Rightarrow> BMS_Comparison" where
  "bms_subset_compare a b =
     (case (a, b) of
        (None, None) \<Rightarrow> BMS_EQUAL
      | (None, Some _) \<Rightarrow> (if bms_is_empty b then BMS_EQUAL else BMS_SUBSET1)
      | (Some _, None) \<Rightarrow> (if bms_is_empty a then BMS_EQUAL else BMS_SUBSET2)
      | (Some s, Some t) \<Rightarrow>
          (let shortlen = min (nwords s) (nwords t)
           in case subset_compare_common (zip (take shortlen (words s)) (take shortlen (words t))) BMS_EQUAL of
                None \<Rightarrow> BMS_DIFFERENT
              | Some result \<Rightarrow>
                  (case (if nwords s > nwords t
                         then subset_compare_extra BMS_SUBSET1 BMS_SUBSET2 (drop shortlen (words s)) result
                         else if nwords s < nwords t
                         then subset_compare_extra BMS_SUBSET2 BMS_SUBSET1 (drop shortlen (words t)) result
                         else Some result) of
                     None \<Rightarrow> BMS_DIFFERENT
                   | Some final \<Rightarrow> final)))"

definition bms_is_member :: "int \<Rightarrow> Bitmapset option \<Rightarrow> bool result" where
  "bms_is_member x a =
     (if x < 0 then Inl negative_member
      else case a of
             None \<Rightarrow> Inr False
           | Some s \<Rightarrow>
               (if WORDNUM x \<ge> nwords s then Inr False
                else if words s ! WORDNUM x AND push_bit (BITNUM x) 1 \<noteq> 0 then Inr True
                else Inr False))"

definition bms_member_index :: "Bitmapset option \<Rightarrow> int \<Rightarrow> int result" where
  "bms_member_index a x =
     (case bms_is_member x a of
        Inl e \<Rightarrow> Inl e
      | Inr False \<Rightarrow> Inr (-1)
      | Inr True \<Rightarrow>
          (case a of
             None \<Rightarrow> Inr (-1)
           | Some s \<Rightarrow>
               (let count = fold (\<lambda>i result. if words s ! i \<noteq> 0
                                             then result + int (pg_popcount64_slow (words s ! i))
                                             else result) [0..<WORDNUM x] 0;
                    m = push_bit (BITNUM x) 1 - 1
                in Inr (count + int (pg_popcount64_slow (words s ! WORDNUM x AND m))))))"

definition bms_overlap :: "Bitmapset option \<Rightarrow> Bitmapset option \<Rightarrow> bool" where
  "bms_overlap a b =
     (case (a, b) of
        (Some s, Some t) \<Rightarrow>
          (case find (\<lambda>i. words s ! i AND words t ! i \<noteq> 0) [0..<min (nwords s) (nwords t)] of
             Some _ \<Rightarrow> True
           | None \<Rightarrow> False)
      | _ \<Rightarrow> False)"

fun overlap_list_loop :: "Bitmapset \<Rightarrow> int list \<Rightarrow> bool result" where
  "overlap_list_loop s [] = Inr False"
| "overlap_list_loop s (x # rest) =
     (if x < 0 then Inl negative_member
      else if WORDNUM x < nwords s \<and> words s ! WORDNUM x AND push_bit (BITNUM x) 1 \<noteq> 0
      then Inr True
      else overlap_list_loop s rest)"

definition bms_overlap_list :: "Bitmapset option \<Rightarrow> int list \<Rightarrow> bool result" where
  "bms_overlap_list a b =
     (case a of
        None \<Rightarrow> Inr False
      | Some s \<Rightarrow> (if b = [] then Inr False else overlap_list_loop s b))"

definition bms_nonempty_difference :: "Bitmapset option \<Rightarrow> Bitmapset option \<Rightarrow> bool" where
  "bms_nonempty_difference a b =
     (case (a, b) of
        (None, _) \<Rightarrow> False
      | (Some _, None) \<Rightarrow> \<not> bms_is_empty a
      | (Some s, Some t) \<Rightarrow>
          (let shortlen = min (nwords s) (nwords t)
           in case find (\<lambda>i. words s ! i AND NOT (words t ! i) \<noteq> 0) [0..<shortlen] of
                Some _ \<Rightarrow> True
              | None \<Rightarrow>
                  (case find (\<lambda>i. words s ! i \<noteq> 0) [shortlen..<nwords s] of
                     Some _ \<Rightarrow> True
                   | None \<Rightarrow> False)))"

text \<open>The scan shared by \<^verbatim>\<open>bms_singleton_member\<close> and
  \<^verbatim>\<open>bms_get_singleton_member\<close>: \<open>None\<close> when a second member is met.\<close>

fun singleton_scan :: "bitmapword list \<Rightarrow> nat \<Rightarrow> int \<Rightarrow> int option" where
  "singleton_scan [] wordnum result = Some result"
| "singleton_scan (w # rest) wordnum result =
     (if w \<noteq> 0
      then (if result \<ge> 0 \<or> HAS_MULTIPLE_ONES w then None
            else singleton_scan rest (Suc wordnum)
                   (int wordnum * 64 + int (pg_rightmost_one_pos64 w)))
      else singleton_scan rest (Suc wordnum) result)"

definition bms_singleton_member :: "Bitmapset option \<Rightarrow> int result" where
  "bms_singleton_member a =
     (case a of
        None \<Rightarrow> Inl (ERROR ''bitmapset is empty'')
      | Some s \<Rightarrow>
          (case singleton_scan (words s) 0 (-1) of
             None \<Rightarrow> Inl (ERROR ''bitmapset has multiple members'')
           | Some result \<Rightarrow>
               (if result < 0 then Inl (ERROR ''bitmapset is empty'') else Inr result)))"

definition bms_get_singleton_member :: "Bitmapset option \<Rightarrow> int \<Rightarrow> bool \<times> int" where
  "bms_get_singleton_member a member =
     (case a of
        None \<Rightarrow> (False, member)
      | Some s \<Rightarrow>
          (case singleton_scan (words s) 0 (-1) of
             None \<Rightarrow> (False, member)
           | Some result \<Rightarrow> (if result < 0 then (False, member) else (True, result))))"

definition bms_num_members :: "Bitmapset option \<Rightarrow> int" where
  "bms_num_members a =
     (case a of
        None \<Rightarrow> 0
      | Some s \<Rightarrow>
          fold (\<lambda>wordnum result. if words s ! wordnum \<noteq> 0
                                 then result + int (pg_popcount64_slow (words s ! wordnum))
                                 else result) [0..<nwords s] 0)"

fun membership_scan :: "bitmapword list \<Rightarrow> BMS_Membership \<Rightarrow> BMS_Membership" where
  "membership_scan [] result = result"
| "membership_scan (w # rest) result =
     (if w \<noteq> 0
      then (if result \<noteq> BMS_EMPTY_SET \<or> HAS_MULTIPLE_ONES w then BMS_MULTIPLE
            else membership_scan rest BMS_SINGLETON)
      else membership_scan rest result)"

definition bms_membership :: "Bitmapset option \<Rightarrow> BMS_Membership" where
  "bms_membership a =
     (case a of None \<Rightarrow> BMS_EMPTY_SET | Some s \<Rightarrow> membership_scan (words s) BMS_EMPTY_SET)"

subsection \<open>Operations that recycle their argument\<close>

text \<open>\<^verbatim>\<open>repalloc\<close> to \<open>n\<close> words followed by the loop that zeroes the new ones.\<close>

definition enlarge_words :: "nat \<Rightarrow> bitmapword list \<Rightarrow> bitmapword list" where
  "enlarge_words n ws = ws @ replicate (n - length ws) 0"

definition bms_add_member :: "Bitmapset option \<Rightarrow> int \<Rightarrow> Bitmapset option result" where
  "bms_add_member a x =
     (if x < 0 then Inl negative_member
      else case a of
             None \<Rightarrow> bms_make_singleton x
           | Some s \<Rightarrow>
               (let wordnum = WORDNUM x;
                    ws = (if wordnum \<ge> nwords s then enlarge_words (wordnum + 1) (words s) else words s)
                in Inr (Some \<lparr>words = ws[wordnum := ws ! wordnum OR push_bit (BITNUM x) 1]\<rparr>)))"

definition bms_covers_member :: "Bitmapset option \<Rightarrow> int \<Rightarrow> bool result" where
  "bms_covers_member a x =
     (if x < 0 then Inl negative_member
      else case a of None \<Rightarrow> Inr False | Some s \<Rightarrow> Inr (WORDNUM x < nwords s))"

definition bms_resize :: "Bitmapset option \<Rightarrow> nat \<Rightarrow> Bitmapset option" where
  "bms_resize a wc =
     (case a of
        Some s \<Rightarrow> (if nwords s \<ge> wc then Some s else Some \<lparr>words = enlarge_words wc (words s)\<rparr>)
      | None \<Rightarrow> Some \<lparr>words = replicate wc 0\<rparr>)"

definition bms_del_member :: "Bitmapset option \<Rightarrow> int \<Rightarrow> Bitmapset option result" where
  "bms_del_member a x =
     (if x < 0 then Inl negative_member
      else case a of
             None \<Rightarrow> Inr None
           | Some s \<Rightarrow>
               (if WORDNUM x < nwords s
                then Inr (Some \<lparr>words = (words s)[WORDNUM x := words s ! WORDNUM x AND NOT (push_bit (BITNUM x) 1)]\<rparr>)
                else Inr (Some s)))"

definition bms_add_members :: "Bitmapset option \<Rightarrow> Bitmapset option \<Rightarrow> Bitmapset option" where
  "bms_add_members a b =
     (case (a, b) of
        (None, _) \<Rightarrow> bms_copy b
      | (Some _, None) \<Rightarrow> a
      | (Some s, Some t) \<Rightarrow>
          (let (result, other) = (if nwords s < nwords t then (t, s) else (s, t))
           in Some \<lparr>words = words_or (nwords other) (words other) (words result)\<rparr>))"

definition bms_add_range :: "Bitmapset option \<Rightarrow> int \<Rightarrow> int \<Rightarrow> Bitmapset option result" where
  "bms_add_range a lower upper =
     (if upper < lower then Inr a
      else if lower < 0 then Inl negative_member
      else
        let uwordnum = WORDNUM upper;
            ws = (case a of
                    None \<Rightarrow> replicate (uwordnum + 1) 0
                  | Some s \<Rightarrow> (if uwordnum \<ge> nwords s then enlarge_words (uwordnum + 1) (words s)
                              else words s));
            lwordnum = WORDNUM lower;
            lbitnum = BITNUM lower;
            ushiftbits = 64 - (BITNUM upper + 1)
        in if lwordnum = uwordnum
           then Inr (Some \<lparr>words = ws[lwordnum := ws ! lwordnum OR
                    (NOT (push_bit lbitnum 1 - 1) AND drop_bit ushiftbits (NOT 0))]\<rparr>)
           else
             let ws1 = ws[lwordnum := ws ! lwordnum OR NOT (push_bit lbitnum 1 - 1)];
                 ws2 = fold (\<lambda>wordnum r. r[wordnum := NOT 0]) [lwordnum + 1..<uwordnum] ws1
             in Inr (Some \<lparr>words = ws2[uwordnum := ws2 ! uwordnum OR drop_bit ushiftbits (NOT 0)]\<rparr>))"

definition bms_int_members :: "Bitmapset option \<Rightarrow> Bitmapset option \<Rightarrow> Bitmapset option" where
  "bms_int_members a b =
     (case (a, b) of
        (Some s, Some t) \<Rightarrow>
          (let shortlen = min (nwords s) (nwords t)
           in Some \<lparr>words = words_zero shortlen (nwords s) (words_and shortlen (words t) (words s))\<rparr>)
      | _ \<Rightarrow> None)"

definition bms_del_members :: "Bitmapset option \<Rightarrow> Bitmapset option \<Rightarrow> Bitmapset option" where
  "bms_del_members a b =
     (case (a, b) of
        (None, _) \<Rightarrow> None
      | (Some _, None) \<Rightarrow> a
      | (Some s, Some t) \<Rightarrow>
          Some \<lparr>words = words_andnot (min (nwords s) (nwords t)) (words t) (words s)\<rparr>)"

definition bms_join :: "Bitmapset option \<Rightarrow> Bitmapset option \<Rightarrow> Bitmapset option" where
  "bms_join a b =
     (case (a, b) of
        (None, _) \<Rightarrow> b
      | (Some _, None) \<Rightarrow> a
      | (Some s, Some t) \<Rightarrow>
          (let (result, other) = (if nwords s < nwords t then (t, s) else (s, t))
           in Some \<lparr>words = words_or (nwords other) (words other) (words result)\<rparr>))"

text \<open>\<^verbatim>\<open>bms_first_member\<close> returns the member it removed and the set left in place.\<close>

definition bms_first_member :: "Bitmapset option \<Rightarrow> int \<times> Bitmapset option" where
  "bms_first_member a =
     (case a of
        None \<Rightarrow> (-1, None)
      | Some s \<Rightarrow>
          (case find (\<lambda>wordnum. words s ! wordnum \<noteq> 0) [0..<nwords s] of
             None \<Rightarrow> (-1, Some s)
           | Some wordnum \<Rightarrow>
               (let w = RIGHTMOST_ONE (words s ! wordnum)
                in (int wordnum * 64 + int (pg_rightmost_one_pos64 w),
                    Some \<lparr>words = (words s)[wordnum := words s ! wordnum AND NOT w]\<rparr>))))"

text \<open>The loop of \<^verbatim>\<open>bms_next_member\<close> from \<open>wordnum\<close> on; the mask applies to the
  first word only.\<close>

function next_member_loop :: "bitmapword list \<Rightarrow> bitmapword \<Rightarrow> nat \<Rightarrow> int" where
  "next_member_loop ws m wordnum =
     (if wordnum < length ws
      then (if ws ! wordnum AND m \<noteq> 0
            then int wordnum * 64 + int (pg_rightmost_one_pos64 (ws ! wordnum AND m))
            else next_member_loop ws (NOT 0) (Suc wordnum))
      else -2)"
  by pat_completeness auto
termination
  by (relation "measure (\<lambda>(ws, m, wordnum). length ws - wordnum)") auto

declare next_member_loop.simps [simp del]

definition bms_next_member :: "Bitmapset option \<Rightarrow> int \<Rightarrow> int" where
  "bms_next_member a prevbit =
     (case a of
        None \<Rightarrow> -2
      | Some s \<Rightarrow>
          next_member_loop (words s) (push_bit (BITNUM (prevbit + 1)) (NOT 0)) (WORDNUM (prevbit + 1)))"

fun prev_member_loop :: "bitmapword list \<Rightarrow> bitmapword \<Rightarrow> nat \<Rightarrow> int" where
  "prev_member_loop ws m wordnum =
     (if ws ! wordnum AND m \<noteq> 0
      then int wordnum * 64 + int (pg_leftmost_one_pos64 (ws ! wordnum AND m))
      else (case wordnum of 0 \<Rightarrow> -2 | Suc n \<Rightarrow> prev_member_loop ws (NOT 0) n))"

declare prev_member_loop.simps [simp del]

definition bms_prev_member :: "Bitmapset option \<Rightarrow> int \<Rightarrow> int" where
  "bms_prev_member a prevbit =
     (case a of
        None \<Rightarrow> -2
      | Some s \<Rightarrow>
          (if prevbit = 0 then -2
           else let p = (if prevbit = -1 then int (nwords s) * 64 - 1 else prevbit - 1);
                    ushiftbits = 64 - (BITNUM p + 1)
                in prev_member_loop (words s) (drop_bit ushiftbits (NOT 0)) (WORDNUM p)))"

text \<open>The hash of the words up to the last nonzero one; \<^verbatim>\<open>hash_any\<close> of
  \<^verbatim>\<open>hashfn.c\<close> is an argument.\<close>

definition bms_hash_value :: "(bitmapword list \<Rightarrow> uint32) \<Rightarrow> Bitmapset option \<Rightarrow> uint32" where
  "bms_hash_value hash_any a =
     (case a of
        None \<Rightarrow> 0
      | Some s \<Rightarrow>
          (case find (\<lambda>lastword. words s ! lastword \<noteq> 0) (rev [0..<nwords s]) of
             None \<Rightarrow> 0
           | Some lastword \<Rightarrow> hash_any (take (lastword + 1) (words s))))"

definition bitmap_match :: "Bitmapset option \<Rightarrow> Bitmapset option \<Rightarrow> int" where
  "bitmap_match key1 key2 = (if bms_equal key1 key2 then 0 else 1)"

section \<open>Abstraction\<close>

definition word_at :: "Bitmapset option \<Rightarrow> nat \<Rightarrow> bitmapword" where
  "word_at a i = (case a of None \<Rightarrow> 0 | Some s \<Rightarrow> (if i < nwords s then words s ! i else 0))"

definition bms_members :: "Bitmapset option \<Rightarrow> nat set" where
  "bms_members a = {n. bit (word_at a (n div 64)) (n mod 64)}"

lemma word_at_simps [simp]:
  "word_at None i = 0"
  "word_at (Some s) i = (if i < nwords s then words s ! i else 0)"
  by (simp_all add: word_at_def)

lemma bit_word_64: "bit (w :: bitmapword) k \<Longrightarrow> k < 64"
  using bit_imp_le_length by force

lemma mem_members: "n \<in> bms_members a \<longleftrightarrow> bit (word_at a (n div 64)) (n mod 64)"
  by (simp add: bms_members_def)

lemma mem_members_at: "k < 64 \<Longrightarrow> 64 * i + k \<in> bms_members a \<longleftrightarrow> bit (word_at a i) k"
  by (simp add: bms_members_def)

text \<open>A property of all members is a property of all bits of all words.\<close>

lemma all_members_iff:
  "(\<forall>n. P (word_at a (n div 64)) (word_at b (n div 64)) (n mod 64)) \<longleftrightarrow>
     (\<forall>i. \<forall>k<64. P (word_at a i) (word_at b i) k)" (is "?l \<longleftrightarrow> ?r")
proof
  assume l: ?l
  show ?r
  proof (intro allI impI)
    fix i k :: nat assume "k < 64"
    then show "P (word_at a i) (word_at b i) k" using l [rule_format, of "64 * i + k"] by simp
  qed
qed simp

lemma members_subset_iff:
  "bms_members a \<subseteq> bms_members b \<longleftrightarrow> (\<forall>i. word_at a i AND NOT (word_at b i) = 0)"
proof -
  have "bms_members a \<subseteq> bms_members b \<longleftrightarrow> (\<forall>i. \<forall>k<64. bit (word_at a i) k \<longrightarrow> bit (word_at b i) k)"
    using all_members_iff [of "\<lambda>v w k. bit v k \<longrightarrow> bit w k" a b]
    by (auto simp: bms_members_def)
  also have "\<dots> \<longleftrightarrow> (\<forall>i k. bit (word_at a i) k \<longrightarrow> bit (word_at b i) k)"
    using bit_word_64 by blast
  finally show ?thesis by (simp add: and_not_eq_zero_iff)
qed

lemma members_eq_iff: "bms_members a = bms_members b \<longleftrightarrow> (\<forall>i. word_at a i = word_at b i)"
proof
  assume "bms_members a = bms_members b"
  then have "\<forall>i k. bit (word_at a i) k \<longleftrightarrow> bit (word_at b i) k"
    using members_subset_iff [of a b] members_subset_iff [of b a]
    by (auto simp: and_not_eq_zero_iff)
  then show "\<forall>i. word_at a i = word_at b i" by (simp add: bit_eq_iff)
qed (simp add: bms_members_def)

lemma members_empty_iff: "bms_members a = {} \<longleftrightarrow> (\<forall>i. word_at a i = 0)"
  using members_eq_iff [of a None] by (simp add: bms_members_def)

section \<open>Word-level behaviour\<close>

lemma nth_words_loops:
  assumes "i < length r"
  shows "words_or n ws r ! i = (if i < n then r ! i OR ws ! i else r ! i)"
    and "words_and n ws r ! i = (if i < n then r ! i AND ws ! i else r ! i)"
    and "words_andnot n ws r ! i = (if i < n then r ! i AND NOT (ws ! i) else r ! i)"
    and "words_zero lo n r ! i = (if lo \<le> i \<and> i < n then 0 else r ! i)"
  using assms nth_fold_update_upt [of i r "\<lambda>i x. x OR ws ! i" 0 n]
    nth_fold_update_upt [of i r "\<lambda>i x. x AND ws ! i" 0 n]
    nth_fold_update_upt [of i r "\<lambda>i x. x AND NOT (ws ! i)" 0 n]
    nth_fold_update_upt [of i r "\<lambda>i x. 0" lo n]
  by (simp_all add: words_or_def words_and_def words_andnot_def words_zero_def)

lemma length_words_loops [simp]:
  "length (words_or n ws r) = length r"
  "length (words_and n ws r) = length r"
  "length (words_andnot n ws r) = length r"
  "length (words_zero lo n r) = length r"
  using length_fold_update [of "\<lambda>i x. x OR ws ! i" "[0..<n]" r]
    length_fold_update [of "\<lambda>i x. x AND ws ! i" "[0..<n]" r]
    length_fold_update [of "\<lambda>i x. x AND NOT (ws ! i)" "[0..<n]" r]
    length_fold_update [of "\<lambda>i x. 0" "[lo..<n]" r]
  by (simp_all add: words_or_def words_and_def words_andnot_def words_zero_def)

lemma nth_enlarge_words [simp]:
  "length (enlarge_words n ws) = max n (length ws)"
  "i < max n (length ws) \<Longrightarrow> enlarge_words n ws ! i = (if i < length ws then ws ! i else 0)"
  by (auto simp: enlarge_words_def nth_append)

lemmas bms_word_defs = bms_copy_def bms_union_def bms_intersect_def bms_difference_def
  bms_add_members_def bms_int_members_def bms_del_members_def bms_join_def bms_resize_def
  nth_words_loops Let_def

lemma word_at_copy [simp]: "word_at (bms_copy a) i = word_at a i"
  by (cases a) (auto simp: bms_copy_def)

lemma word_at_union: "word_at (bms_union a b) i = word_at a i OR word_at b i"
  by (cases a; cases b) (auto simp: bms_word_defs or.commute)

lemma word_at_add_members: "word_at (bms_add_members a b) i = word_at a i OR word_at b i"
  by (cases a; cases b) (auto simp: bms_word_defs or.commute)

lemma word_at_join: "word_at (bms_join a b) i = word_at a i OR word_at b i"
  by (cases a; cases b) (auto simp: bms_word_defs or.commute)

lemma word_at_intersect: "word_at (bms_intersect a b) i = word_at a i AND word_at b i"
  by (cases a; cases b) (auto simp: bms_word_defs and.commute)

lemma word_at_int_members: "word_at (bms_int_members a b) i = word_at a i AND word_at b i"
  by (cases a; cases b) (auto simp: bms_word_defs)

lemma word_at_difference: "word_at (bms_difference a b) i = word_at a i AND NOT (word_at b i)"
  by (cases a; cases b) (auto simp: bms_word_defs)

lemma word_at_del_members: "word_at (bms_del_members a b) i = word_at a i AND NOT (word_at b i)"
  by (cases a; cases b) (auto simp: bms_word_defs)

lemma word_at_resize [simp]: "word_at (bms_resize a wc) i = word_at a i"
  by (cases a) (auto simp: bms_word_defs)

section \<open>Every operation is the set operation it names\<close>

lemma bit_not_word_64: "k < 64 \<Longrightarrow> bit (NOT (w :: bitmapword)) k \<longleftrightarrow> \<not> bit w k"
  by (simp add: bit_not_iff)

lemmas members_bit_simps = bms_members_def bit_or_iff bit_and_iff bit_not_word_64

lemma members_copy: "bms_members (bms_copy a) = bms_members a"
  by (simp add: members_bit_simps)

lemma members_union: "bms_members (bms_union a b) = bms_members a \<union> bms_members b"
  by (auto simp: members_bit_simps word_at_union)

lemma members_add_members: "bms_members (bms_add_members a b) = bms_members a \<union> bms_members b"
  by (auto simp: members_bit_simps word_at_add_members)

lemma members_join: "bms_members (bms_join a b) = bms_members a \<union> bms_members b"
  by (auto simp: members_bit_simps word_at_join)

lemma members_intersect: "bms_members (bms_intersect a b) = bms_members a \<inter> bms_members b"
  by (auto simp: members_bit_simps word_at_intersect)

lemma members_int_members: "bms_members (bms_int_members a b) = bms_members a \<inter> bms_members b"
  by (auto simp: members_bit_simps word_at_int_members)

lemma members_difference: "bms_members (bms_difference a b) = bms_members a - bms_members b"
  by (auto simp: members_bit_simps word_at_difference)

lemma members_del_members: "bms_members (bms_del_members a b) = bms_members a - bms_members b"
  by (auto simp: members_bit_simps word_at_del_members)

lemma members_resize: "bms_members (bms_resize a wc) = bms_members a"
  by (simp add: members_bit_simps)

lemma is_empty_iff: "bms_is_empty a \<longleftrightarrow> bms_members a = {}"
  by (cases a) (auto simp: bms_is_empty_def members_empty_iff)

text \<open>A relation between the words of two values, checked as the code does: first on the
  common words, then on the extra words of either side.\<close>

lemma all_word_at_iff:
  assumes "Q 0 0"
  shows "(\<forall>i. Q (word_at (Some s) i) (word_at (Some t) i)) \<longleftrightarrow>
    (\<forall>i. 0 \<le> i \<and> i < min (nwords s) (nwords t) \<longrightarrow> Q (words s ! i) (words t ! i)) \<and>
    (\<forall>i. min (nwords s) (nwords t) \<le> i \<and> i < nwords s \<longrightarrow> Q (words s ! i) 0) \<and>
    (\<forall>i. min (nwords s) (nwords t) \<le> i \<and> i < nwords t \<longrightarrow> Q 0 (words t ! i))" (is "?l \<longleftrightarrow> ?r")
proof
  assume l: ?l
  show ?r
  proof (intro conjI allI impI)
    fix i
    show "Q (words s ! i) (words t ! i)" if "0 \<le> i \<and> i < min (nwords s) (nwords t)"
      using l [rule_format, of i] that by simp
    show "Q (words s ! i) 0" if "min (nwords s) (nwords t) \<le> i \<and> i < nwords s"
      using l [rule_format, of i] that by (auto simp: min_le_iff_disj split: if_splits)
    show "Q 0 (words t ! i)" if "min (nwords s) (nwords t) \<le> i \<and> i < nwords t"
      using l [rule_format, of i] that by (auto simp: min_le_iff_disj split: if_splits)
  qed
next
  assume r: ?r
  show ?l
  proof
    fix i show "Q (word_at (Some s) i) (word_at (Some t) i)"
      using r [THEN conjunct1, rule_format, of i] r [THEN conjunct2, THEN conjunct1, rule_format, of i]
        r [THEN conjunct2, THEN conjunct2, rule_format, of i] assms by auto
  qed
qed

lemma members_eq_words:
  assumes "nwords s \<le> nwords t"
  shows "bms_members (Some s) = bms_members (Some t) \<longleftrightarrow>
    (\<forall>i. 0 \<le> i \<and> i < nwords s \<longrightarrow> words s ! i = words t ! i) \<and>
    (\<forall>i. nwords s \<le> i \<and> i < nwords t \<longrightarrow> words t ! i = 0)"
  using all_word_at_iff [of "(=)" s t] assms unfolding members_eq_iff by (simp add: eq_commute [of 0])

lemma members_subset_words:
  "bms_members (Some s) \<subseteq> bms_members (Some t) \<longleftrightarrow>
    (\<forall>i. 0 \<le> i \<and> i < min (nwords s) (nwords t) \<longrightarrow> words s ! i AND NOT (words t ! i) = 0) \<and>
    (\<forall>i. min (nwords s) (nwords t) \<le> i \<and> i < nwords s \<longrightarrow> words s ! i = 0)"
  using all_word_at_iff [of "\<lambda>v w. v AND NOT w = 0" s t] unfolding members_subset_iff by simp

lemma members_disjoint_iff:
  "bms_members a \<inter> bms_members b = {} \<longleftrightarrow> (\<forall>i. word_at a i AND word_at b i = 0)"
  using members_empty_iff [of "bms_intersect a b"] by (simp add: members_intersect word_at_intersect)

lemma equal_iff: "bms_equal a b \<longleftrightarrow> bms_members a = bms_members b"
proof (cases a; cases b)
  fix s t assume ab: "a = Some s" "b = Some t"
  show ?thesis
  proof (cases "nwords s \<le> nwords t")
    case True
    then show ?thesis
      unfolding ab members_eq_words [OF True] by (simp add: bms_equal_def)
  next
    case False
    then have "bms_equal a b \<longleftrightarrow> bms_members b = bms_members a"
      unfolding ab by (subst members_eq_words) (simp_all add: bms_equal_def)
    then show ?thesis by auto
  qed
qed (auto simp: bms_equal_def is_empty_iff bms_members_def)

lemma is_subset_iff: "bms_is_subset a b \<longleftrightarrow> bms_members a \<subseteq> bms_members b"
proof (cases a; cases b)
  fix s t assume ab: "a = Some s" "b = Some t"
  show ?thesis
    unfolding ab members_subset_words
    by (cases "nwords s \<le> nwords t") (simp_all add: bms_is_subset_def Let_def)
qed (auto simp: bms_is_subset_def is_empty_iff bms_members_def)

lemma nonempty_difference_iff: "bms_nonempty_difference a b \<longleftrightarrow> bms_members a - bms_members b \<noteq> {}"
proof (cases a; cases b)
  fix s t assume ab: "a = Some s" "b = Some t"
  show ?thesis
    unfolding ab Diff_eq_empty_iff members_subset_words
    by (simp add: bms_nonempty_difference_def Let_def)
qed (auto simp: bms_nonempty_difference_def is_empty_iff bms_members_def)

lemma overlap_iff: "bms_overlap a b \<longleftrightarrow> bms_members a \<inter> bms_members b \<noteq> {}"
proof (cases a; cases b)
  fix s t assume ab: "a = Some s" "b = Some t"
  show ?thesis
    using all_word_at_iff [of "\<lambda>v w. v AND w = 0" s t]
    unfolding ab members_disjoint_iff by (simp add: bms_overlap_def)
qed (auto simp: bms_overlap_def bms_members_def)

subsection \<open>Subset comparison in one pass\<close>

text \<open>The comparison status records two facts: a member of the first set outside the second
  was met, and the converse; both together are the early return.\<close>

definition cmp_code :: "bool \<Rightarrow> bool \<Rightarrow> BMS_Comparison option" where
  "cmp_code na nb =
     (if na then (if nb then None else Some BMS_SUBSET2)
      else if nb then Some BMS_SUBSET1 else Some BMS_EQUAL)"

lemma cmp_code_simps:
  "cmp_code True True = None" "cmp_code True False = Some BMS_SUBSET2"
  "cmp_code False True = Some BMS_SUBSET1" "cmp_code False False = Some BMS_EQUAL"
  by (simp_all add: cmp_code_def)

lemma subset_compare_common_step:
  assumes "cmp_code na nb = Some result"
  shows "subset_compare_common ((v, w) # rest) result =
    (case cmp_code (na \<or> v AND NOT w \<noteq> 0) (nb \<or> w AND NOT v \<noteq> 0) of
       None \<Rightarrow> None | Some r \<Rightarrow> subset_compare_common rest r)"
  using assms
  by (cases na; cases nb; cases "v AND NOT w = 0"; cases "w AND NOT v = 0")
     (simp_all add: cmp_code_simps)

lemma subset_compare_common_code:
  assumes "cmp_code na nb = Some result"
  shows "subset_compare_common ps result =
    cmp_code (na \<or> (\<exists>p \<in> set ps. fst p AND NOT (snd p) \<noteq> 0))
             (nb \<or> (\<exists>p \<in> set ps. snd p AND NOT (fst p) \<noteq> 0))"
  using assms
proof (induction ps arbitrary: na nb result)
  case Nil
  then show ?case by simp
next
  case (Cons p ps)
  obtain v w where p: "p = (v, w)" by (cases p)
  let ?na = "na \<or> v AND NOT w \<noteq> 0" and ?nb = "nb \<or> w AND NOT v \<noteq> 0"
  show ?case
  proof (cases "cmp_code ?na ?nb")
    case None
    then have both: "?na" "?nb" by (simp_all add: cmp_code_def split: if_splits)
    have "(na \<or> (\<exists>q \<in> set (p # ps). fst q AND NOT (snd q) \<noteq> 0)) = True"
      "(nb \<or> (\<exists>q \<in> set (p # ps). snd q AND NOT (fst q) \<noteq> 0)) = True"
      using both by (simp_all add: p) blast+
    with None show ?thesis
      unfolding p subset_compare_common_step [OF Cons.prems] by (simp only: cmp_code_simps) simp
  next
    case (Some r)
    then show ?thesis
      unfolding p subset_compare_common_step [OF Cons.prems]
      by (simp add: Cons.IH [OF Some] disj_assoc)
  qed
qed

lemma subset_compare_extra_code:
  "new \<noteq> clash \<Longrightarrow> subset_compare_extra clash new ws result =
     (if \<exists>w \<in> set ws. w \<noteq> 0 then (if result = clash then None else Some new) else Some result)"
  by (induction ws arbitrary: result) auto

lemma zip_take_ex:
  "(\<exists>p \<in> set (zip (take n xs) (take n ys)). P (fst p) (snd p)) \<longleftrightarrow>
     (\<exists>i. i < n \<and> i < length xs \<and> i < length ys \<and> P (xs ! i) (ys ! i))"
  by (auto simp: set_zip) fastforce

lemma drop_ex: "(\<exists>w \<in> set (drop n xs). P w) \<longleftrightarrow> (\<exists>i. n \<le> i \<and> i < length xs \<and> P (xs ! i))"
proof
  assume "\<exists>w \<in> set (drop n xs). P w"
  then obtain k where "k < length xs - n" "P (xs ! (n + k))" by (auto simp: in_set_conv_nth)
  then show "\<exists>i. n \<le> i \<and> i < length xs \<and> P (xs ! i)" by (intro exI [of _ "n + k"]) auto
next
  assume "\<exists>i. n \<le> i \<and> i < length xs \<and> P (xs ! i)"
  then obtain i where i: "n \<le> i" "i < length xs" "P (xs ! i)" by blast
  then have "xs ! i = drop n xs ! (i - n)" "i - n < length (drop n xs)" by auto
  with i show "\<exists>w \<in> set (drop n xs). P w" by (metis nth_mem)
qed

lemma subset_compare_eq:
  "bms_subset_compare a b =
     (case cmp_code (\<not> bms_members a \<subseteq> bms_members b) (\<not> bms_members b \<subseteq> bms_members a) of
        None \<Rightarrow> BMS_DIFFERENT | Some c \<Rightarrow> c)"
proof (cases a; cases b)
  fix s t assume ab: "a = Some s" "b = Some t"
  let ?n = "min (nwords s) (nwords t)"
  define na where "na \<longleftrightarrow> (\<exists>i<?n. words s ! i AND NOT (words t ! i) \<noteq> 0)"
  define nb where "nb \<longleftrightarrow> (\<exists>i<?n. words t ! i AND NOT (words s ! i) \<noteq> 0)"
  let ?z = "zip (take ?n (words s)) (take ?n (words t))"
  have "(\<exists>p \<in> set ?z. fst p AND NOT (snd p) \<noteq> 0) \<longleftrightarrow> na"
    using zip_take_ex [where n = ?n and xs = "words s" and ys = "words t" and P = "\<lambda>v w. v AND NOT w \<noteq> 0"]
    unfolding na_def by auto
  moreover have "(\<exists>p \<in> set ?z. snd p AND NOT (fst p) \<noteq> 0) \<longleftrightarrow> nb"
    using zip_take_ex [where n = ?n and xs = "words s" and ys = "words t" and P = "\<lambda>v w. w AND NOT v \<noteq> 0"]
    unfolding nb_def by auto
  ultimately have common: "subset_compare_common ?z BMS_EQUAL = cmp_code na nb"
    using subset_compare_common_code [OF cmp_code_simps(4), of ?z] by simp
  have sub: "bms_members a \<subseteq> bms_members b \<longleftrightarrow> \<not> na \<and> (\<forall>i. ?n \<le> i \<and> i < nwords s \<longrightarrow> words s ! i = 0)"
    unfolding ab members_subset_words na_def by auto
  have sup: "bms_members b \<subseteq> bms_members a \<longleftrightarrow> \<not> nb \<and> (\<forall>i. ?n \<le> i \<and> i < nwords t \<longrightarrow> words t ! i = 0)"
    unfolding ab members_subset_words nb_def by (auto simp: min.commute)
  consider "nwords s = nwords t" | "nwords s < nwords t" | "nwords t < nwords s" by linarith
  then show ?thesis
  proof cases
    case 1
    then show ?thesis
      unfolding sub sup using common 1
      by (auto simp: ab bms_subset_compare_def Let_def split: option.split)
  next
    case 2
    define r where "r \<longleftrightarrow> (\<exists>w \<in> set (drop (nwords s) (words t)). w \<noteq> 0)"
    have "bms_members a \<subseteq> bms_members b \<longleftrightarrow> \<not> na" "bms_members b \<subseteq> bms_members a \<longleftrightarrow> \<not> nb \<and> \<not> r"
      unfolding sub sup r_def drop_ex using 2 by auto
    then show ?thesis
      using common 2 by (cases na; cases nb; cases r) (simp_all add: ab bms_subset_compare_def Let_def
          cmp_code_simps subset_compare_extra_code r_def)
  next
    case 3
    define r where "r \<longleftrightarrow> (\<exists>w \<in> set (drop (nwords t) (words s)). w \<noteq> 0)"
    have "bms_members a \<subseteq> bms_members b \<longleftrightarrow> \<not> na \<and> \<not> r" "bms_members b \<subseteq> bms_members a \<longleftrightarrow> \<not> nb"
      unfolding sub sup r_def drop_ex using 3 by auto
    then show ?thesis
      using common 3 by (cases na; cases nb; cases r) (simp_all add: ab bms_subset_compare_def Let_def
          cmp_code_simps subset_compare_extra_code r_def)
  qed
qed (auto simp: bms_subset_compare_def is_empty_iff bms_members_def cmp_code_def)

subsection \<open>Single members\<close>

lemma WORDNUM_nat [simp]: "WORDNUM (int n) = n div 64"
  by (simp add: WORDNUM_def nat_div_distrib)

lemma BITNUM_nat [simp]: "BITNUM (int n) = n mod 64"
  by (simp add: BITNUM_def nat_mod_distrib)

lemma BITNUM_less [simp]: "BITNUM x < 64"
  by (simp add: BITNUM_def nat_less_iff)

lemma is_member_iff:
  "bms_is_member x a = (if x < 0 then Inl negative_member else Inr (nat x \<in> bms_members a))"
proof (cases "x < 0")
  case False
  then obtain n where n: "x = int n" by (metis nat_eq_iff2 not_less)
  show ?thesis
    by (cases a) (auto simp: n bms_is_member_def mem_members and_two_power_neq_zero)
qed (simp add: bms_is_member_def)

text \<open>Changing one word changes the membership of its 64 integers only.\<close>

lemma mem_members_update:
  assumes "n < length ws"
  shows "m \<in> bms_members (Some \<lparr>words = ws[n := v]\<rparr>) \<longleftrightarrow>
    (if m div 64 = n then bit v (m mod 64) else m \<in> bms_members (Some \<lparr>words = ws\<rparr>))"
  using assms by (auto simp: mem_members)

lemma members_enlarge [simp]:
  "bms_members (Some \<lparr>words = enlarge_words n (words s)\<rparr>) = bms_members (Some s)"
  by (auto simp: members_eq_iff)

lemma members_words_self [simp]: "bms_members (Some \<lparr>words = words s\<rparr>) = bms_members (Some s)"
  by (simp add: members_eq_iff)

lemma members_replicate_zero [simp]: "bms_members (Some \<lparr>words = replicate n 0\<rparr>) = {}"
  by (simp add: members_empty_iff)

lemma same_bit_iff: "m div 64 = n div 64 \<and> m mod 64 = n mod 64 \<longleftrightarrow> m = (n::nat)"
  by (metis div_mult_mod_eq)

lemma bit_of_member: "bit (push_bit (n mod 64) 1 :: bitmapword) (m mod 64) \<longleftrightarrow> m mod 64 = n mod 64"
  by (simp add: bit_two_power)

lemma make_singleton_members:
  "bms_make_singleton (int n) = Inr a \<Longrightarrow> bms_members a = {n}"
proof -
  assume "bms_make_singleton (int n) = Inr a"
  then have a: "a = Some \<lparr>words = (replicate (n div 64 + 1) 0)[n div 64 := push_bit (n mod 64) 1]\<rparr>"
    unfolding bms_make_singleton_def WORDNUM_nat BITNUM_nat by simp
  have "m \<in> bms_members a \<longleftrightarrow> m = n" for m
    unfolding a same_bit_iff [symmetric, of m n] by (subst mem_members_update) (auto simp: bit_two_power simp del: replicate_Suc)
  then show ?thesis by auto
qed

lemma add_member_members:
  assumes "0 \<le> x"
  shows "\<exists>r. bms_add_member a x = Inr r \<and> bms_members r = insert (nat x) (bms_members a)"
proof -
  obtain n where n: "x = int n" using assms by (metis nat_eq_iff2)
  show ?thesis
  proof (cases a)
    case None
    then show ?thesis
      using make_singleton_members [of n] by (auto simp: n bms_add_member_def bms_make_singleton_def bms_members_def)
  next
    case (Some s)
    define ws where "ws = (if n div 64 \<ge> nwords s then enlarge_words (n div 64 + 1) (words s) else words s)"
    have len: "n div 64 < length ws" by (auto simp: ws_def)
    have mem: "bms_members (Some \<lparr>words = ws\<rparr>) = bms_members (Some s)" by (simp add: ws_def)
    let ?r = "Some \<lparr>words = ws[n div 64 := ws ! (n div 64) OR push_bit (n mod 64) 1]\<rparr>"
    have "m \<in> bms_members ?r \<longleftrightarrow> m = n \<or> m \<in> bms_members (Some s)" for m
      unfolding mem_members_update [OF len] same_bit_iff [symmetric, of m n]
      using mem_members [of m "Some \<lparr>words = ws\<rparr>"] len
      by (auto simp: bit_or_iff bit_two_power mem)
    then have "bms_members ?r = insert n (bms_members a)" by (auto simp: Some)
    then show ?thesis by (simp add: n Some bms_add_member_def Let_def ws_def)
  qed
qed

lemma del_member_members:
  assumes "0 \<le> x"
  shows "\<exists>r. bms_del_member a x = Inr r \<and> bms_members r = bms_members a - {nat x}"
proof -
  obtain n where n: "x = int n" using assms by (metis nat_eq_iff2)
  show ?thesis
  proof (cases a)
    case (Some s)
    show ?thesis
    proof (cases "n div 64 < nwords s")
      case True
      let ?r = "Some \<lparr>words = (words s)[n div 64 := words s ! (n div 64) AND NOT (push_bit (n mod 64) 1)]\<rparr>"
      have "m \<in> bms_members ?r \<longleftrightarrow> m \<in> bms_members (Some s) \<and> m \<noteq> n" for m
        unfolding mem_members_update [OF True] same_bit_iff [symmetric, of m n]
        using mem_members [of m "Some s"] True
        by (auto simp: bit_and_iff bit_not_iff bit_two_power)
      then have "bms_members ?r = bms_members a - {n}" by (auto simp: Some)
      then show ?thesis using True by (simp add: n Some bms_del_member_def)
    qed (auto simp: n Some bms_del_member_def mem_members)
  qed (simp add: n bms_del_member_def bms_members_def)
qed

lemma le_div_mod_64: "(l::nat) \<le> m \<longleftrightarrow> l div 64 < m div 64 \<or> (l div 64 = m div 64 \<and> l mod 64 \<le> m mod 64)"
proof -
  have "l = 64 * (l div 64) + l mod 64" "m = 64 * (m div 64) + m mod 64" by simp_all
  moreover have "l mod 64 < 64" "m mod 64 < 64" by simp_all
  ultimately show ?thesis by linarith
qed

lemma bit_from_mask: "bit (push_bit l (NOT 0) :: bitmapword) k \<longleftrightarrow> l \<le> k \<and> k < 64"
  by (auto simp: bit_push_bit_iff bit_not_iff bit_mask_iff)

lemma bit_not_low_mask: "l < 64 \<Longrightarrow> bit (NOT (push_bit l 1 - 1) :: bitmapword) k \<longleftrightarrow> l \<le> k \<and> k < 64"
  by (auto simp: bit_not_iff bit_low_mask)

lemma bit_upto_mask: "u < 64 \<Longrightarrow> bit (drop_bit (64 - (u + 1)) (NOT 0) :: bitmapword) k \<longleftrightarrow> k \<le> u"
  by (auto simp: bit_drop_bit_eq bit_not_iff bit_mask_iff)

lemma add_range_members:
  assumes "0 \<le> lower" "lower \<le> upper"
  shows "\<exists>r. bms_add_range a lower upper = Inr r \<and>
    bms_members r = bms_members a \<union> {nat lower..nat upper}"
proof -
  obtain l u where lu: "lower = int l" "upper = int u" using assms by (metis nat_eq_iff2 order_trans)
  have le: "l \<le> u" using assms lu by simp
  then have wle: "l div 64 \<le> u div 64" by (simp add: div_le_mono)
  define ws where "ws = (case a of None \<Rightarrow> replicate (u div 64 + 1) 0
    | Some s \<Rightarrow> (if u div 64 \<ge> nwords s then enlarge_words (u div 64 + 1) (words s) else words s))"
  have len: "u div 64 < length ws" "l div 64 < length ws"
    using wle by (auto simp: ws_def split: option.split)
  have mem: "bms_members (Some \<lparr>words = ws\<rparr>) = bms_members a"
    by (cases a) (auto simp: ws_def bms_members_def [of None] simp del: replicate_Suc)
  have in_ws: "m \<in> bms_members a \<longleftrightarrow> m div 64 < length ws \<and> bit (ws ! (m div 64)) (m mod 64)" for m
    unfolding mem [symmetric] by (simp add: mem_members)
  have rng: "m \<in> {l..u} \<longleftrightarrow> (l div 64 < m div 64 \<or> l div 64 = m div 64 \<and> l mod 64 \<le> m mod 64) \<and>
      (m div 64 < u div 64 \<or> m div 64 = u div 64 \<and> m mod 64 \<le> u mod 64)" for m
    using le_div_mod_64 [of l m] le_div_mod_64 [of m u] by simp
  show ?thesis
  proof (cases "l div 64 = u div 64")
    case True
    let ?r = "Some \<lparr>words = ws[l div 64 := ws ! (l div 64) OR
      (NOT (push_bit (l mod 64) 1 - 1) AND drop_bit (64 - (u mod 64 + 1)) (NOT 0))]\<rparr>"
    have "m \<in> bms_members ?r \<longleftrightarrow> m \<in> bms_members a \<union> {l..u}" for m
      unfolding mem_members_update [OF len(2)] mem Un_iff rng in_ws bit_or_iff bit_and_iff
      using len True bit_not_low_mask [of "l mod 64" "m mod 64"] bit_upto_mask [of "u mod 64" "m mod 64"] by auto
    then have "bms_members ?r = bms_members a \<union> {l..u}" by blast
    then show ?thesis
      using True le by (simp only: bms_add_range_def lu WORDNUM_nat BITNUM_nat Let_def ws_def) simp
  next
    case False
    define ws1 where "ws1 = ws[l div 64 := ws ! (l div 64) OR NOT (push_bit (l mod 64) 1 - 1)]"
    define ws2 where "ws2 = fold (\<lambda>wordnum r. r[wordnum := NOT 0]) [l div 64 + 1..<u div 64] ws1"
    let ?r = "Some \<lparr>words = ws2[u div 64 := ws2 ! (u div 64) OR drop_bit (64 - (u mod 64 + 1)) (NOT 0)]\<rparr>"
    have len2: "length ws2 = length ws"
      using length_fold_update [where f = "\<lambda>i w. NOT 0 :: bitmapword"] by (simp add: ws2_def ws1_def)
    have nth2: "i < length ws \<Longrightarrow> ws2 ! i = (if l div 64 < i \<and> i < u div 64 then NOT 0 else ws1 ! i)" for i
      using nth_fold_update_upt [of i ws1 "\<lambda>i w. NOT 0 :: bitmapword"] by (simp add: ws2_def ws1_def)
    have "m \<in> bms_members ?r \<longleftrightarrow> m \<in> bms_members a \<union> {l..u}" for m
      using len False wle bit_not_low_mask [of "l mod 64" "m mod 64"] bit_upto_mask [of "u mod 64" "m mod 64"]
      unfolding Un_iff rng in_ws
      by (auto simp: mem_members nth_list_update len2 nth2 ws1_def bit_or_iff bit_not_iff)
    then have "bms_members ?r = bms_members a \<union> {l..u}" by blast
    then show ?thesis
      using False le
      by (simp only: bms_add_range_def lu WORDNUM_nat BITNUM_nat Let_def ws_def ws1_def ws2_def) simp
  qed
qed

end
