(* ===== verification/BitmapsetScan.thy ===== *)
theory BitmapsetScan
  imports Bitmapset
begin

text \<open>The operations of \<^verbatim>\<open>src/backend/nodes/bitmapset.c\<close> that look into the words of a
  set: counting (\<^verbatim>\<open>bms_num_members\<close>, \<^verbatim>\<open>bms_member_index\<close>), the searches for a
  single member (\<^verbatim>\<open>bms_membership\<close>, \<^verbatim>\<open>bms_singleton_member\<close>,
  \<^verbatim>\<open>bms_get_singleton_member\<close>), the iterators (\<^verbatim>\<open>bms_first_member\<close>,
  \<^verbatim>\<open>bms_next_member\<close>, \<^verbatim>\<open>bms_prev_member\<close>), the order
  (\<^verbatim>\<open>bms_compare\<close>) and the hash. Each is characterised by the set of members
  \<^const>\<open>bms_members\<close> of its argument.\<close>

unbundle bit_operations_syntax

section \<open>The rightmost one bit of a word\<close>

abbreviation bits_of :: "bitmapword \<Rightarrow> nat set" where
  "bits_of w \<equiv> {k. bit w k}"

lemma bits_of_empty_iff [simp]: "bits_of w = {} \<longleftrightarrow> w = 0"
  using word_eq_zero_iff_bit [of w] by auto

lemma finite_bits_of [simp]: "finite (bits_of w)"
  by (rule finite_subset [of _ "{..<64}"]) (auto dest: bit_word_64)

lemma bits_of_eq_iff: "bits_of v = bits_of w \<longleftrightarrow> v = w"
proof
  assume "bits_of v = bits_of w"
  then have "bit v k = bit w k" for k by (metis mem_Collect_eq)
  then show "v = w" by (simp add: bit_word_eqI)
qed simp

lemma bits_of_two_power: "p < 64 \<Longrightarrow> bits_of (2 ^ p) = {p}"
  by (auto simp: bit_two_power)

lemma odd_and_minus: "bit (y :: bitmapword) 0 \<Longrightarrow> y AND - y = 1"
proof -
  assume odd: "bit y 0"
  then have "y = 2 * (y div 2) + 1"
    using mult_div_mod_eq [of 2 y] by (simp add: bit_0 odd_iff_mod_2_eq_one)
  then have "y - 1 = 2 * (y div 2)" by (metis add_diff_cancel_right')
  then have "- y = NOT (unset_bit 0 y)"
    by (simp add: minus_eq_not_minus_1 unset_bit_0)
  then have neg: "y AND - y = y AND NOT (unset_bit 0 y)" by simp
  show ?thesis
    unfolding neg
    by (rule bit_word_eqI)
       (use odd in \<open>auto simp: bit_and_iff bit_not_iff bit_unset_bit_iff bit_1_iff simp del: bit_0\<close>)
qed

lemma RIGHTMOST_ONE_eq:
  assumes "x \<noteq> 0"
  shows "RIGHTMOST_ONE x = 2 ^ pg_rightmost_one_pos64 x"
proof -
  define p where "p = pg_rightmost_one_pos64 x"
  define y where "y = drop_bit p x"
  note spec = pg_rightmost_one_pos64_spec [OF assms, folded p_def]
  have low: "bit x k \<Longrightarrow> p \<le> k" for k using spec(2) [of k] by (meson not_le)
  have x: "x = push_bit p y"
    by (rule bit_word_eqI) (auto simp: y_def bit_push_bit_iff bit_drop_bit_eq low)
  have y: "bit y 0" using spec(1) by (simp add: y_def bit_drop_bit_eq)
  have "RIGHTMOST_ONE x = push_bit p (y AND - y)"
    by (simp add: RIGHTMOST_ONE_def x push_bit_minus)
  then show ?thesis using odd_and_minus [OF y] by (simp add: p_def)
qed

lemma HAS_MULTIPLE_ONES_iff:
  assumes "x \<noteq> 0"
  shows "HAS_MULTIPLE_ONES x \<longleftrightarrow> bits_of x \<noteq> {pg_rightmost_one_pos64 x}"
proof -
  have "pg_rightmost_one_pos64 x < 64" by (rule pg_rightmost_one_pos64_spec(3) [OF assms])
  then have "2 ^ pg_rightmost_one_pos64 x = x \<longleftrightarrow> bits_of x = {pg_rightmost_one_pos64 x}"
    by (simp add: bits_of_eq_iff [symmetric] bits_of_two_power eq_commute)
  then show ?thesis by (simp add: HAS_MULTIPLE_ONES_def RIGHTMOST_ONE_eq [OF assms])
qed

section \<open>Searches for a single member\<close>

text \<open>The members stored in the words from number \<open>i\<close> on.\<close>

fun members_from :: "nat \<Rightarrow> bitmapword list \<Rightarrow> nat set" where
  "members_from i [] = {}"
| "members_from i (w # ws) = (\<lambda>k. 64 * i + k) ` bits_of w \<union> members_from (Suc i) ws"

lemma mem_members_from:
  "m \<in> members_from i ws \<longleftrightarrow> i \<le> m div 64 \<and> m div 64 < i + length ws \<and> bit (ws ! (m div 64 - i)) (m mod 64)"
proof (induction ws arbitrary: i)
  case (Cons w ws)
  have head: "m \<in> (\<lambda>k. 64 * i + k) ` bits_of w \<longleftrightarrow> m div 64 = i \<and> bit w (m mod 64)"
  proof
    assume "m div 64 = i \<and> bit w (m mod 64)"
    then have "m = 64 * i + m mod 64" "m mod 64 \<in> bits_of w" by (auto simp: mult_div_mod_eq)
    then show "m \<in> (\<lambda>k. 64 * i + k) ` bits_of w" by blast
  next
    assume "m \<in> (\<lambda>k. 64 * i + k) ` bits_of w"
    then obtain k where "m = 64 * i + k" "bit w k" by auto
    then show "m div 64 = i \<and> bit w (m mod 64)" using bit_word_64 [of w k] by simp
  qed
  show ?case
  proof (cases "m div 64 = i")
    case False
    then show ?thesis
      unfolding members_from.simps Un_iff head Cons.IH
      by (cases "i \<le> m div 64") (auto simp: nth_Cons' Suc_diff_Suc)
  qed (simp add: head Cons.IH)
qed simp

lemma members_words: "bms_members (Some s) = members_from 0 (words s)"
  by (auto simp: mem_members mem_members_from split: if_splits)

lemma finite_members_from [simp]: "finite (members_from i ws)"
  by (induction ws arbitrary: i) auto

lemma finite_members [simp]: "finite (bms_members a)"
  by (cases a) (simp_all add: members_words bms_members_def [of None])

text \<open>The members of one word and those of the words after it are disjoint, so a union of the two
  is a singleton only when one of them is empty.\<close>

lemma members_from_cons:
  assumes "w \<noteq> 0"
  shows "members_from i (w # ws) = {x} \<longleftrightarrow>
    \<not> HAS_MULTIPLE_ONES w \<and> members_from (Suc i) ws = {} \<and> x = 64 * i + pg_rightmost_one_pos64 w"
proof -
  let ?p = "pg_rightmost_one_pos64 w"
  have p: "?p \<in> bits_of w" "?p < 64" using pg_rightmost_one_pos64_spec [OF assms] by auto
  have disj: "m \<in> members_from (Suc i) ws \<Longrightarrow> m \<noteq> 64 * i + ?p" for m
    using p(2) by (auto simp: mem_members_from)
  show ?thesis
  proof
    assume l: "members_from i (w # ws) = {x}"
    then have x: "x = 64 * i + ?p" using p(1) by auto
    have "k = ?p" if "bit w k" for k
    proof -
      have "64 * i + k \<in> members_from i (w # ws)" using that by simp
      then show ?thesis unfolding l x by simp
    qed
    then have "bits_of w = {?p}" using p(1) by blast
    moreover have "members_from (Suc i) ws = {}"
    proof (rule equals0I)
      fix m assume m: "m \<in> members_from (Suc i) ws"
      then have "m \<in> members_from i (w # ws)" by simp
      then show False using disj [OF m] unfolding l x by simp
    qed
    ultimately show "\<not> HAS_MULTIPLE_ONES w \<and> members_from (Suc i) ws = {} \<and> x = 64 * i + ?p"
      using x by (simp add: HAS_MULTIPLE_ONES_iff [OF assms])
  next
    assume r: "\<not> HAS_MULTIPLE_ONES w \<and> members_from (Suc i) ws = {} \<and> x = 64 * i + ?p"
    then have "bits_of w = {?p}" by (simp add: HAS_MULTIPLE_ONES_iff [OF assms])
    then show "members_from i (w # ws) = {x}" using r by simp
  qed
qed

lemma members_from_cons_empty:
  "members_from i (w # ws) = {} \<longleftrightarrow> w = 0 \<and> members_from (Suc i) ws = {}"
  using bits_of_empty_iff [of w] by (simp only: members_from.simps Un_empty image_is_empty)

lemma members_from_zero [simp]: "members_from i (0 # ws) = members_from (Suc i) ws"
  by (auto simp: bot_fun_def)

declare members_from_cons_empty [simp] members_from.simps(2) [simp del]

lemma singleton_scan_found:
  "0 \<le> r \<Longrightarrow> singleton_scan ws i r = (if members_from i ws = {} then Some r else None)"
  by (induction ws arbitrary: i) simp_all

lemma singleton_scan_spec:
  "singleton_scan ws i (-1) =
     (if members_from i ws = {} then Some (-1)
      else if \<exists>x. members_from i ws = {x} then Some (int (THE x. members_from i ws = {x}))
      else None)"
proof (induction ws arbitrary: i)
  case (Cons w ws)
  show ?case
  proof (cases "w = 0")
    case True
    then show ?thesis by (simp add: Cons.IH)
  next
    case False
    then have ne: "members_from i (w # ws) \<noteq> {}" by simp
    show ?thesis
      unfolding members_from_cons [OF False] if_not_P [OF ne]
      using False by (auto simp: singleton_scan_found)
  qed
qed simp

lemma membership_scan_found:
  "membership_scan ws BMS_SINGLETON = (if members_from i ws = {} then BMS_SINGLETON else BMS_MULTIPLE)"
proof (induction ws arbitrary: i)
  case (Cons w ws)
  then show ?case using Cons.IH [of "Suc i"] by (cases "w = 0") auto
qed simp

lemma membership_scan_spec:
  "membership_scan ws BMS_EMPTY_SET =
     (if members_from i ws = {} then BMS_EMPTY_SET
      else if \<exists>x. members_from i ws = {x} then BMS_SINGLETON else BMS_MULTIPLE)"
proof (induction ws arbitrary: i)
  case (Cons w ws)
  show ?case
  proof (cases "w = 0")
    case True
    then show ?thesis by (simp add: Cons.IH [of "Suc i"])
  next
    case False
    then have ne: "members_from i (w # ws) \<noteq> {}" by simp
    show ?thesis
      unfolding members_from_cons [OF False] if_not_P [OF ne]
      using False by (auto simp: membership_scan_found [of _ "Suc i"])
  qed
qed simp

section \<open>Counting\<close>

lemma members_below_words:
  "int (card {m \<in> bms_members a. m < 64 * n}) = (\<Sum>i<n. int (card (bits_of (word_at a i))))"
proof (induction n)
  case (Suc n)
  let ?new = "(\<lambda>k. 64 * n + k) ` bits_of (word_at a n)"
  have in_new: "m \<in> ?new \<longleftrightarrow> m \<in> bms_members a \<and> 64 * n \<le> m \<and> m < 64 * Suc n" for m
  proof
    assume "m \<in> bms_members a \<and> 64 * n \<le> m \<and> m < 64 * Suc n"
    then have "m div 64 = n" "bit (word_at a (m div 64)) (m mod 64)" by (auto simp: mem_members)
    then show "m \<in> ?new" by (metis (mono_tags, lifting) image_eqI mem_Collect_eq mult_div_mod_eq)
  next
    assume "m \<in> ?new"
    then obtain k where "m = 64 * n + k" "bit (word_at a n) k" by auto
    then show "m \<in> bms_members a \<and> 64 * n \<le> m \<and> m < 64 * Suc n"
      using bit_word_64 [of "word_at a n" k] mem_members_at [of k n a] by simp
  qed
  have split: "{m \<in> bms_members a. m < 64 * Suc n} = {m \<in> bms_members a. m < 64 * n} \<union> ?new"
    by (rule set_eqI, unfold Un_iff in_new mem_Collect_eq) auto
  have "card ?new = card (bits_of (word_at a n))" by (intro card_image) (simp add: inj_on_def)
  moreover have "{m \<in> bms_members a. m < 64 * n} \<inter> ?new = {}" using in_new by fastforce
  ultimately show ?case
    unfolding split by (subst card_Un_disjoint) (simp_all add: Suc.IH)
qed simp

lemma popcount_fold:
  "fold (\<lambda>i r. if f i \<noteq> 0 then r + int (pg_popcount64_slow (f i)) else r) [0..<n] c =
     c + (\<Sum>i<n. int (card (bits_of (f i))))"
  by (induction n) (auto simp: pg_popcount64_slow_card bot_fun_def)

lemma num_members_card: "bms_num_members a = int (card (bms_members a))"
proof (cases a)
  case (Some s)
  have "m \<in> bms_members a \<Longrightarrow> m < 64 * nwords s" for m
    using mem_members [of m a] by (auto simp: Some split: if_splits)
  then have "bms_members a = {m \<in> bms_members a. m < 64 * nwords s}" by auto
  then have "int (card (bms_members a)) = (\<Sum>i<nwords s. int (card (bits_of (word_at a i))))"
    by (metis members_below_words)
  then show ?thesis unfolding bms_num_members_def by (simp add: Some popcount_fold)
qed (simp add: bms_num_members_def bms_members_def)

lemma member_index_card:
  assumes "n \<in> bms_members a"
  shows "bms_member_index a (int n) = Inr (int (card {m \<in> bms_members a. m < n}))"
proof -
  obtain s where s: "a = Some s" using assms by (cases a) (auto simp: bms_members_def)
  let ?q = "n div 64" and ?r = "n mod 64"
  have q: "?q < nwords s" using assms by (auto simp: s mem_members split: if_splits)
  let ?low = "(\<lambda>k. 64 * ?q + k) ` bits_of (words s ! ?q AND (2 ^ ?r - 1))"
  have in_low: "m \<in> ?low \<longleftrightarrow> m \<in> bms_members a \<and> 64 * ?q \<le> m \<and> m < n" for m
  proof
    assume m: "m \<in> bms_members a \<and> 64 * ?q \<le> m \<and> m < n"
    then have "m div 64 = ?q" by linarith
    then have "m div 64 = ?q" "m mod 64 < ?r" "bit (words s ! ?q) (m mod 64)"
      using m le_div_mod_64 [of n m] q by (auto simp: mem_members s)
    then show "m \<in> ?low"
      using mult_div_mod_eq [of 64 m]
      by (intro image_eqI [of _ _ "m mod 64"]) (auto simp: bit_and_iff bit_low_mask)
  next
    assume "m \<in> ?low"
    then obtain k where k: "m = 64 * ?q + k" "bit (words s ! ?q) k" "k < ?r"
      by (auto simp: bit_and_iff bit_low_mask)
    then have "m < n" using mult_div_mod_eq [of 64 n] by linarith
    with k show "m \<in> bms_members a \<and> 64 * ?q \<le> m \<and> m < n"
      using bit_word_64 [of "words s ! ?q" k] mem_members_at [of k ?q a] q s by auto
  qed
  have split: "{m \<in> bms_members a. m < n} = {m \<in> bms_members a. m < 64 * ?q} \<union> ?low"
    using mult_div_mod_eq [of 64 n] by (intro set_eqI, unfold Un_iff in_low mem_Collect_eq) auto
  have "card ?low = pg_popcount64_slow (words s ! ?q AND (2 ^ ?r - 1))"
    unfolding pg_popcount64_slow_card by (intro card_image) (simp add: inj_on_def)
  moreover have "{m \<in> bms_members a. m < 64 * ?q} \<inter> ?low = {}" using in_low by fastforce
  ultimately have "int (card {m \<in> bms_members a. m < n}) =
      (\<Sum>i<?q. int (card (bits_of (words s ! i)))) + int (pg_popcount64_slow (words s ! ?q AND (2 ^ ?r - 1)))"
    unfolding split using q by (subst card_Un_disjoint) (simp_all add: members_below_words s)
  then show ?thesis
    using assms by (simp add: bms_member_index_def is_member_iff s popcount_fold Let_def)
qed

section \<open>Iterators\<close>

lemma mem_at_least:
  "m \<in> bms_members (Some s) \<and> 64 * i + b \<le> m \<and> b < 64 \<longleftrightarrow>
     b < 64 \<and> m div 64 < nwords s \<and> bit (words s ! (m div 64)) (m mod 64) \<and>
     (i < m div 64 \<or> i = m div 64 \<and> b \<le> m mod 64)"
  using le_div_mod_64 [of "64 * i + b" m] by (auto simp: mem_members split: if_splits)

lemma Min_word:
  assumes w: "w \<noteq> 0" and S: "\<And>m. m \<in> S \<Longrightarrow> i < m div 64 \<or> (i = m div 64 \<and> bit w (m mod 64))"
    and mem: "64 * i + pg_rightmost_one_pos64 w \<in> S" and fin: "finite S"
  shows "Min S = 64 * i + pg_rightmost_one_pos64 w"
proof (rule Min_eqI [OF fin _ mem])
  fix m assume "m \<in> S"
  then consider "i < m div 64" | "i = m div 64" "bit w (m mod 64)" using S by blast
  then show "64 * i + pg_rightmost_one_pos64 w \<le> m"
  proof cases
    case 1
    then show ?thesis using pg_rightmost_one_pos64_spec(3) [OF w] by linarith
  next
    case 2
    then have "pg_rightmost_one_pos64 w \<le> m mod 64"
      using pg_rightmost_one_pos64_spec(2) [OF w, of "m mod 64"] by (meson not_le)
    then show ?thesis using 2 mult_div_mod_eq [of 64 m] by linarith
  qed
qed

lemma next_member_loop_spec:
  assumes "b < 64"
  shows "next_member_loop (words s) (push_bit b (NOT 0)) i =
    (let S = {m \<in> bms_members (Some s). 64 * i + b \<le> m} in if S = {} then -2 else int (Min S))"
  using assms
proof (induction "nwords s - i" arbitrary: i b)
  case 0
  then have "{m \<in> bms_members (Some s). 64 * i + b \<le> m} = {}"
    using mem_at_least [of _ s i b] by auto
  then show ?case using 0 by (simp add: next_member_loop.simps)
next
  case (Suc d)
  define w where "w = words s ! i AND push_bit b (NOT 0)"
  let ?S = "{m \<in> bms_members (Some s). 64 * i + b \<le> m}"
  have i: "i < nwords s" using Suc.hyps by simp
  have S: "m \<in> ?S \<longleftrightarrow> m div 64 < nwords s \<and> bit (words s ! (m div 64)) (m mod 64) \<and>
      (i < m div 64 \<or> i = m div 64 \<and> b \<le> m mod 64)" for m
    using mem_at_least [of m s i b] Suc.prems by simp
  have bit_w: "bit w k \<longleftrightarrow> bit (words s ! i) k \<and> b \<le> k \<and> k < 64" for k
    by (simp only: w_def bit_and_iff bit_from_mask)
  show ?case
  proof (cases "w = 0")
    case False
    note spec = pg_rightmost_one_pos64_spec [OF False]
    have mem: "64 * i + pg_rightmost_one_pos64 w \<in> ?S"
      unfolding S using spec(1,3) i by (simp add: bit_w)
    have "Min ?S = 64 * i + pg_rightmost_one_pos64 w"
      by (rule Min_word [OF False _ mem]) (unfold S bit_w, auto)
    moreover have "?S \<noteq> {}" using mem by blast
    ultimately show ?thesis
      using i False by (subst next_member_loop.simps) (simp only: w_def [symmetric] Let_def, simp)
  next
    case True
    have none: "\<not> (bit (words s ! i) k \<and> b \<le> k \<and> k < 64)" for k
      using bit_w [of k] unfolding True by simp
    have "?S = {m \<in> bms_members (Some s). 64 * Suc i + 0 \<le> m}"
    proof (rule set_eqI)
      fix m
      show "m \<in> ?S \<longleftrightarrow> m \<in> {m \<in> bms_members (Some s). 64 * Suc i + 0 \<le> m}"
        unfolding S using mem_at_least [of m s "Suc i" 0] none [of "m mod 64"] by auto
    qed
    moreover have "next_member_loop (words s) (push_bit b (NOT 0)) i =
        next_member_loop (words s) (push_bit 0 (NOT 0)) (Suc i)"
      using i True by (subst next_member_loop.simps) (simp only: w_def [symmetric], simp)
    moreover have "d = nwords s - Suc i" "(0::nat) < 64" using Suc.hyps by simp_all
    ultimately show ?thesis using Suc.hyps(1) [of "Suc i" 0] by (simp only:)
  qed
qed

lemma next_member_spec:
  assumes "-1 \<le> prevbit"
  shows "bms_next_member a prevbit =
    (let S = {m \<in> bms_members a. prevbit < int m} in if S = {} then -2 else int (Min S))"
proof (cases a)
  case (Some s)
  obtain n where n: "prevbit + 1 = int n" using assms by (metis add.commute add_mono_thms_linordered_semiring(2) nonneg_int_cases add_neg_numeral_special(7))
  have S: "{m \<in> bms_members a. prevbit < int m} = {m \<in> bms_members (Some s). 64 * (n div 64) + n mod 64 \<le> m}"
    using n by (auto simp: Some)
  show ?thesis
    unfolding S using next_member_loop_spec [of "n mod 64" s "n div 64"]
    by (simp add: bms_next_member_def Some n del: mult_div_mod_eq push_bit_minus_one_eq_not_mask)
qed (simp add: bms_next_member_def bms_members_def)

lemma mem_at_most:
  "m \<in> bms_members (Some s) \<and> m \<le> 64 * i + u \<and> u < 64 \<longleftrightarrow>
     u < 64 \<and> m div 64 < nwords s \<and> bit (words s ! (m div 64)) (m mod 64) \<and>
     (m div 64 < i \<or> m div 64 = i \<and> m mod 64 \<le> u)"
  using le_div_mod_64 [of m "64 * i + u"] by (auto simp: mem_members split: if_splits)

lemma Max_word:
  assumes w: "w \<noteq> 0" and S: "\<And>m. m \<in> S \<Longrightarrow> m div 64 < i \<or> (m div 64 = i \<and> bit w (m mod 64))"
    and mem: "64 * i + pg_leftmost_one_pos64 w \<in> S" and fin: "finite S"
  shows "Max S = 64 * i + pg_leftmost_one_pos64 w"
proof (rule Max_eqI [OF fin _ mem])
  fix m assume "m \<in> S"
  then consider "m div 64 < i" | "m div 64 = i" "bit w (m mod 64)" using S by blast
  then show "m \<le> 64 * i + pg_leftmost_one_pos64 w"
  proof cases
    case 1
    then show ?thesis by linarith
  next
    case 2
    then have "m mod 64 \<le> pg_leftmost_one_pos64 w"
      using pg_leftmost_one_pos64_spec(2) [OF w] by blast
    then show ?thesis using 2 mult_div_mod_eq [of 64 m] by linarith
  qed
qed

lemma prev_member_loop_spec:
  assumes "u < 64" "i < nwords s"
  shows "prev_member_loop (words s) (drop_bit (64 - (u + 1)) (NOT 0)) i =
    (let S = {m \<in> bms_members (Some s). m \<le> 64 * i + u} in if S = {} then -2 else int (Max S))"
  using assms
proof (induction i arbitrary: u rule: less_induct)
  case (less i)
  note u = less.prems(1) and i = less.prems(2)
  define w where "w = words s ! i AND drop_bit (64 - (u + 1)) (NOT 0)"
  let ?S = "{m \<in> bms_members (Some s). m \<le> 64 * i + u}"
  have S: "m \<in> ?S \<longleftrightarrow> m div 64 < nwords s \<and> bit (words s ! (m div 64)) (m mod 64) \<and>
      (m div 64 < i \<or> m div 64 = i \<and> m mod 64 \<le> u)" for m
    using mem_at_most [of m s i u] u by simp
  have bit_w: "bit w k \<longleftrightarrow> bit (words s ! i) k \<and> k \<le> u" for k
    unfolding w_def bit_and_iff bit_upto_mask [OF u] by simp
  show ?case
  proof (cases "w = 0")
    case False
    note spec = pg_leftmost_one_pos64_spec [OF False]
    have mem: "64 * i + pg_leftmost_one_pos64 w \<in> ?S"
      unfolding S using spec(1,3) i by (simp add: bit_w)
    have "Max ?S = 64 * i + pg_leftmost_one_pos64 w"
      by (rule Max_word [OF False _ mem]) (unfold S bit_w, auto)
    moreover have "?S \<noteq> {}" using mem by blast
    ultimately show ?thesis
      using False by (subst prev_member_loop.simps) (simp only: w_def [symmetric] Let_def, simp)
  next
    case True
    have none: "\<not> (bit (words s ! i) k \<and> k \<le> u)" for k
      using bit_w [of k] unfolding True by simp
    have full: "drop_bit (64 - (63 + 1)) (NOT 0) = (NOT 0 :: bitmapword)" by simp
    have step: "prev_member_loop (words s) (drop_bit (64 - (u + 1)) (NOT 0)) i =
        (case i of 0 \<Rightarrow> -2 | Suc n \<Rightarrow> prev_member_loop (words s) (drop_bit (64 - (63 + 1)) (NOT 0)) n)"
      unfolding full using True by (subst prev_member_loop.simps) (simp only: w_def [symmetric], simp)
    have S': "?S = {m \<in> bms_members (Some s). m < 64 * i}"
      by (rule set_eqI, unfold S)
         (use none i in \<open>auto simp: mem_members dest: less_mult_imp_div_less split: if_splits\<close>)
    show ?thesis
    proof (cases i)
      case 0
      then show ?thesis unfolding step S' by simp
    next
      case (Suc n)
      then have "?S = {m \<in> bms_members (Some s). m \<le> 64 * n + 63}" unfolding S' by auto
      moreover have "prev_member_loop (words s) (drop_bit (64 - (u + 1)) (NOT 0)) i =
          prev_member_loop (words s) (drop_bit (64 - (63 + 1)) (NOT 0)) n"
        unfolding step by (simp add: Suc)
      moreover have "n < i" "n < nwords s" "(63::nat) < 64" using i Suc by simp_all
      ultimately show ?thesis using less.IH [of n 63] by (simp only:)
    qed
  qed
qed

end
