(* ===== verification/BitmapsetProps.thy ===== *)
theory BitmapsetProps
  imports BitmapsetScan
begin

text \<open>What \<^verbatim>\<open>bitmapset.c\<close> promises its callers: the remaining iterators, the order and
  the hash, the interfaces (an iteration contract and a set contract, both interpreted on the
  operations of \<^verbatim>\<open>Bitmapset\<close>) and the properties of the component.\<close>

unbundle bit_operations_syntax

section \<open>The remaining iterators\<close>

lemma prev_member_spec:
  assumes "0 < nwords s" "prevbit = -1 \<or> 0 \<le> prevbit \<and> prevbit \<le> 64 * int (nwords s)"
  shows "bms_prev_member (Some s) prevbit =
    (let S = {m \<in> bms_members (Some s). prevbit = -1 \<or> int m < prevbit}
     in if S = {} then -2 else int (Max S))"
proof (cases "prevbit = 0")
  case False
  define n where "n = (if prevbit = -1 then 64 * nwords s - 1 else nat prevbit - 1)"
  have n: "(if prevbit = -1 then int (nwords s) * 64 - 1 else prevbit - 1) = int n"
    using assms False by (cases "nwords s") (auto simp: n_def)
  have bound: "n < 64 * nwords s" using assms False by (auto simp: n_def)
  then have i: "n div 64 < nwords s" by (simp add: less_mult_imp_div_less mult.commute)
  have "m < 64 * nwords s" if "m \<in> bms_members (Some s)" for m
    using that by (auto simp: mem_members split: if_splits)
  then have S: "{m \<in> bms_members (Some s). prevbit = -1 \<or> int m < prevbit} =
      {m \<in> bms_members (Some s). m \<le> 64 * (n div 64) + n mod 64}"
    using assms False by (fastforce simp: n_def)
  have "bms_prev_member (Some s) prevbit =
      prev_member_loop (words s) (drop_bit (64 - (n mod 64 + 1)) (NOT 0)) (n div 64)"
    using False unfolding bms_prev_member_def Let_def n by (simp only: option.case n WORDNUM_nat BITNUM_nat if_False)
  then show ?thesis
    unfolding S using prev_member_loop_spec [OF _ i, of "n mod 64"] by (simp only: mod_less_divisor zero_less_numeral)
qed (simp add: bms_prev_member_def)

lemma first_member_spec:
  "bms_first_member a =
     (if bms_members a = {} then (-1, a)
      else (int (Min (bms_members a)), snd (bms_first_member a)))"
  "bms_members (snd (bms_first_member a)) = bms_members a - {Min (bms_members a)}"
proof -
  have "bms_first_member a = (if bms_members a = {} then (-1, a)
      else (int (Min (bms_members a)), snd (bms_first_member a))) \<and>
    bms_members (snd (bms_first_member a)) = bms_members a - {Min (bms_members a)}"
  proof (cases "bms_members a = {}")
    case True
    then have "\<forall>i. word_at a i = 0" by (simp add: members_empty_iff)
    then have "bms_first_member a = (-1, a)"
    proof (cases a)
      case (Some s)
      then have "find (\<lambda>i. words s ! i \<noteq> 0) [0..<nwords s] = None"
        using \<open>\<forall>i. word_at a i = 0\<close> by (auto split: if_splits)
      then show ?thesis by (simp only: bms_first_member_def Some option.case)
    qed (simp add: bms_first_member_def)
    then show ?thesis using True by simp
  next
    case False
    then obtain s where s: "a = Some s" by (cases a) (auto simp: bms_members_def)
    obtain i where i: "i < nwords s" "words s ! i \<noteq> 0" "\<And>j. j < i \<Longrightarrow> words s ! j = 0"
      and find: "find (\<lambda>i. words s ! i \<noteq> 0) [0..<nwords s] = Some i"
      using False members_empty_iff [of a] find_upt_Some [of "\<lambda>i. words s ! i \<noteq> 0" 0 "nwords s"]
      by (cases "find (\<lambda>i. words s ! i \<noteq> 0) [0..<nwords s]") (auto simp: s split: if_splits)
    define p where "p = pg_rightmost_one_pos64 (words s ! i)"
    note spec = pg_rightmost_one_pos64_spec [OF i(2), folded p_def]
    have mem: "64 * i + p \<in> bms_members a" using spec i by (simp add: s mem_members)
    have Min: "Min (bms_members a) = 64 * i + p"
      unfolding p_def
    proof (rule Min_word [OF i(2) _ mem [unfolded p_def]])
      fix m assume "m \<in> bms_members a"
      then show "i < m div 64 \<or> i = m div 64 \<and> bit (words s ! i) (m mod 64)"
        using i(3) [of "m div 64"] by (cases "m div 64 < i") (auto simp: s mem_members split: if_splits)
    qed simp
    have pos: "pg_rightmost_one_pos64 (2 ^ p) = p"
      using pg_rightmost_one_pos64_spec(1) [of "2 ^ p"] spec(3) by (auto simp: bit_two_power)
    have first: "bms_first_member a =
        (int (64 * i + p), Some \<lparr>words = (words s)[i := words s ! i AND NOT (2 ^ p)]\<rparr>)"
      by (simp add: bms_first_member_def s find Let_def RIGHTMOST_ONE_eq [OF i(2), folded p_def] pos)
    have "bms_members (snd (bms_first_member a)) = bms_members a - {64 * i + p}"
    proof -
      have "bms_del_member a (int (64 * i + p)) = Inr (snd (bms_first_member a))"
        unfolding first using i(1) spec(3) by (simp only: bms_del_member_def s WORDNUM_nat BITNUM_nat) simp
      moreover obtain r where "bms_del_member a (int (64 * i + p)) = Inr r"
        "bms_members r = bms_members a - {nat (int (64 * i + p))}"
        using del_member_members [OF of_nat_0_le_iff] by blast
      ultimately show ?thesis by (simp only: sum.inject nat_int)
    qed
    then show ?thesis using False by (simp add: Min first)
  qed
  then show "bms_first_member a = (if bms_members a = {} then (-1, a)
      else (int (Min (bms_members a)), snd (bms_first_member a)))"
    "bms_members (snd (bms_first_member a)) = bms_members a - {Min (bms_members a)}" by simp_all
qed

lemma overlap_list_spec:
  "\<forall>x \<in> set xs. 0 \<le> x \<Longrightarrow> bms_overlap_list a xs = Inr (\<exists>x \<in> set xs. nat x \<in> bms_members a)"
proof (cases a)
  case (Some s)
  have mem: "0 \<le> x \<Longrightarrow> (WORDNUM x < nwords s \<and> words s ! WORDNUM x AND push_bit (BITNUM x) 1 \<noteq> 0) \<longleftrightarrow>
      nat x \<in> bms_members a" for x
    using is_member_iff [of x a] by (auto simp: bms_is_member_def Some split: if_splits)
  have "\<forall>x \<in> set xs. 0 \<le> x \<Longrightarrow> overlap_list_loop s xs = Inr (\<exists>x \<in> set xs. nat x \<in> bms_members a)"
    by (induction xs) (auto simp: mem simp del: push_bit_of_1)
  moreover assume "\<forall>x \<in> set xs. 0 \<le> x"
  ultimately show ?thesis by (simp add: bms_overlap_list_def Some)
qed (simp add: bms_overlap_list_def bms_members_def)

section \<open>The order and the hash\<close>

text \<open>Unsigned comparison of two words is decided by the highest bit in which they differ.\<close>

lemma word_less_bits:
  fixes v w :: bitmapword
  assumes p: "\<not> bit v p" "bit w p" and high: "\<And>k. p < k \<Longrightarrow> bit v k = bit w k"
  shows "v < w"
proof -
  have "p < 64" using p(2) by (rule bit_word_64)
  have eq: "drop_bit (Suc p) v = drop_bit (Suc p) w"
    by (rule bit_word_eqI) (simp add: bit_drop_bit_eq high)
  have split: "unat x = 2 ^ Suc p * unat (drop_bit (Suc p) x) + unat (take_bit (Suc p) x)" for x :: bitmapword
    unfolding unat_drop_bit_eq unsigned_take_bit_eq
    by (simp only: drop_bit_eq_div take_bit_eq_mod mult_div_mod_eq)
  have "take_bit (Suc p) v = take_bit p v"
    by (rule bit_word_eqI) (use p(1) in \<open>auto simp: bit_take_bit_iff less_Suc_eq\<close>)
  then have low: "unat (take_bit (Suc p) v) < 2 ^ p"
    by (simp add: unsigned_take_bit_eq take_bit_nat_less_exp)
  have "bit (take_bit (Suc p) (unat w)) p" using p(2) \<open>p < 64\<close> by (simp add: bit_take_bit_iff bit_unsigned_iff)
  then have "2 ^ p \<le> take_bit (Suc p) (unat w)"
    by (metis bit_iff_odd div_less even_zero not_le)
  then have "unat (take_bit (Suc p) v) < unat (take_bit (Suc p) w)"
    using low by (simp add: unsigned_take_bit_eq)
  then have "unat v < unat w" using split [of v] split [of w] eq by simp
  then show ?thesis by (simp add: word_less_nat_alt)
qed

lemma highest_difference:
  assumes "bms_members a \<noteq> bms_members b"
  obtains i where "word_at a i \<noteq> word_at b i" "\<And>j. i < j \<Longrightarrow> word_at a j = word_at b j"
    "Max (sym_diff (bms_members a) (bms_members b)) \<in> bms_members a \<longleftrightarrow> word_at b i < word_at a i"
proof -
  let ?D = "sym_diff (bms_members a) (bms_members b)"
  define m where "m = Max ?D"
  have m: "m \<in> ?D" unfolding m_def using assms by (intro Max_in) auto
  have above: "n \<in> bms_members a \<longleftrightarrow> n \<in> bms_members b" if "m < n" for n
    using Max_ge [of ?D n] that unfolding m_def [symmetric] by auto
  have bits: "bit (word_at a j) k = bit (word_at b j) k" if "m < 64 * j + k" "k < 64" for j k
    using above [OF that(1)] mem_members_at [OF that(2)] by simp
  define i p where "i = m div 64" and "p = m mod 64"
  have mi: "m = 64 * i + p" "p < 64" by (simp_all add: i_def p_def)
  have at: "bit (word_at a i) p \<noteq> bit (word_at b i) p"
    using m mem_members_at [OF mi(2)] unfolding mi(1) by auto
  have high: "bit (word_at a i) k = bit (word_at b i) k" if "p < k" for k
  proof (cases "k < 64")
    case True
    then show ?thesis using bits [of i k] that mi(1) by simp
  next
    case False
    then show ?thesis using bit_word_64 by blast
  qed
  have rest: "word_at a j = word_at b j" if "i < j" for j
  proof (rule bit_word_eqI)
    fix k assume "k < LENGTH(64)"
    then show "bit (word_at a j) k = bit (word_at b j) k" using bits [of j k] that mi by simp
  qed
  have "m \<in> bms_members a \<longleftrightarrow> bit (word_at a i) p"
    using mem_members_at [OF mi(2), of i a] mi(1) by simp
  also have "\<dots> \<longleftrightarrow> word_at b i < word_at a i"
  proof (cases "bit (word_at a i) p")
    case True
    then show ?thesis using at word_less_bits [of "word_at b i" p "word_at a i"] high by simp
  next
    case False
    then have "word_at a i < word_at b i" using at by (intro word_less_bits [of _ p]) (simp_all add: high)
    then show ?thesis using False by simp
  qed
  finally have "Max ?D \<in> bms_members a \<longleftrightarrow> word_at b i < word_at a i" unfolding m_def .
  moreover have "word_at a i \<noteq> word_at b i" using at by metis
  ultimately show ?thesis using that [OF _ rest] by blast
qed

lemma equal_tails:
  assumes eq: "\<And>j. min (nwords s) (nwords t) \<le> j \<Longrightarrow> word_at (Some s) j = word_at (Some t) j"
  shows "find (\<lambda>i. words s ! i \<noteq> 0) [min (nwords s) (nwords t)..<nwords s] = None"
    and "find (\<lambda>i. words t ! i \<noteq> 0) [min (nwords s) (nwords t)..<nwords t] = None"
proof -
  have "words s ! i = 0" if "min (nwords s) (nwords t) \<le> i" "i < nwords s" for i
    using eq [OF that(1)] that by (simp split: if_splits)
  moreover have "words t ! i = 0" if "min (nwords s) (nwords t) \<le> i" "i < nwords t" for i
    using eq [OF that(1)] that by (simp split: if_splits)
  ultimately show "find (\<lambda>i. words s ! i \<noteq> 0) [min (nwords s) (nwords t)..<nwords s] = None"
    and "find (\<lambda>i. words t ! i \<noteq> 0) [min (nwords s) (nwords t)..<nwords t] = None"
    unfolding find_upt_None by blast+
qed

lemma compare_spec:
  "bms_compare a b =
     (if bms_members a = bms_members b then 0
      else if Max (sym_diff (bms_members a) (bms_members b)) \<in> bms_members a then 1 else -1)"
proof (cases "bms_members a = bms_members b")
  case True
  then have eq: "word_at a i = word_at b i" for i by (simp add: members_eq_iff)
  show ?thesis
  proof (cases a; cases b)
    fix s t assume ab: "a = Some s" "b = Some t"
    let ?n = "min (nwords s) (nwords t)"
    have "find (\<lambda>i. words s ! i \<noteq> words t ! i) (rev [0..<?n]) = None"
      unfolding find_rev_upt_None using eq [unfolded ab word_at_simps] by (metis min_less_iff_conj)
    then show ?thesis using True equal_tails [OF eq [unfolded ab]]
      by (simp only: bms_compare_def ab prod.case option.case Let_def simp_thms if_True)
  qed (use True in \<open>auto simp: bms_compare_def is_empty_iff bms_members_def [of None]\<close>)
next
  case False
  then obtain i where i: "word_at a i \<noteq> word_at b i" "\<And>j. i < j \<Longrightarrow> word_at a j = word_at b j"
    "Max (sym_diff (bms_members a) (bms_members b)) \<in> bms_members a \<longleftrightarrow> word_at b i < word_at a i"
    by (rule highest_difference) blast
  have "bms_compare a b = (if word_at b i < word_at a i then 1 else -1)"
  proof (cases a; cases b)
    fix s t assume ab: "a = Some s" "b = Some t"
    let ?n = "min (nwords s) (nwords t)"
    note at = i(1,2) [unfolded ab word_at_simps]
    show ?thesis
    proof (cases "i < ?n")
      case True
      have tails: "word_at (Some s) j = word_at (Some t) j" if "?n \<le> j" for j
        using i(2) [of j] True that by (simp add: ab)
      have "words s ! i \<noteq> words t ! i" using at(1) True by simp
      moreover have "words s ! j = words t ! j" if "i < j" "j < ?n" for j using at(2) [OF that(1)] that by simp
      ultimately have "find (\<lambda>i. words s ! i \<noteq> words t ! i) (rev [0..<?n]) = Some i"
        unfolding find_rev_upt_Some using True by blast
      moreover have "words t ! i < words s ! i \<longleftrightarrow> word_at b i < word_at a i" using True by (simp add: ab)
      ultimately show ?thesis
        using equal_tails [OF tails] by (simp only: bms_compare_def ab prod.case option.case Let_def)
    next
      case False
      then consider "nwords t \<le> i" "i < nwords s" "words s ! i \<noteq> 0" | "nwords s \<le> i" "i < nwords t" "words t ! i \<noteq> 0"
        using at(1) by (cases "nwords s \<le> nwords t") (auto split: if_splits)
      then show ?thesis
      proof cases
        case 1
        then show ?thesis
          by (auto simp: bms_compare_def ab Let_def word_gt_0)
      next
        case 2
        then show ?thesis
          by (auto simp: bms_compare_def ab Let_def word_gt_0)
      qed
    qed
  qed (use False i in \<open>auto simp: bms_compare_def is_empty_iff bms_members_def [of None] word_gt_0 split: if_splits\<close>)
  then show ?thesis using False i(3) by simp
qed

text \<open>The hash reads the words up to the last nonzero one, which are determined by the members.\<close>

lemma hash_value_words:
  "bms_hash_value hash_any a =
     (if \<forall>i. word_at a i = 0 then 0
      else hash_any (map (word_at a) [0..<Suc (GREATEST i. word_at a i \<noteq> 0)]))"
proof (cases a)
  case (Some s)
  show ?thesis
  proof (cases "find (\<lambda>i. words s ! i \<noteq> 0) (rev [0..<nwords s])")
    case None
    moreover have "\<forall>i. word_at a i = 0" using None by (simp add: Some)
    ultimately show ?thesis by (simp only: bms_hash_value_def Some option.case simp_thms if_True)
  next
    case (Some l)
    then have l: "l < nwords s" "words s ! l \<noteq> 0" "\<And>j. l < j \<Longrightarrow> j < nwords s \<Longrightarrow> words s ! j = 0"
      by (auto simp: find_rev_upt_Some)
    have "(GREATEST i. word_at a i \<noteq> 0) = l"
    proof (rule Greatest_equality)
      fix i assume "word_at a i \<noteq> 0"
      then show "i \<le> l" using l(3) [of i] by (auto simp: \<open>a = Some s\<close> not_le [symmetric] split: if_splits)
    qed (simp add: \<open>a = Some s\<close> l)
    moreover have "take (l + 1) (words s) = map (word_at a) [0..<Suc l]"
      using l(1) by (intro nth_equalityI) (simp_all add: \<open>a = Some s\<close> nth_append del: upt_Suc)
    moreover have "\<not> (\<forall>i. word_at a i = 0)" using l by (auto simp: \<open>a = Some s\<close> intro!: exI [of _ l])
    ultimately show ?thesis
      by (simp only: bms_hash_value_def \<open>a = Some s\<close> Some option.case if_False)
  qed
qed (simp add: bms_hash_value_def)

section \<open>Interfaces\<close>

text \<open>The loop \<^verbatim>\<open>x = -1; while ((x = bms_next_member(s, x)) >= 0) ...\<close> over any such iterator,
  as the list of values its body sees; \<open>None\<close> when the fuel is used up.\<close>

fun member_loop :: "('s \<Rightarrow> int \<Rightarrow> int) \<Rightarrow> nat \<Rightarrow> 's \<Rightarrow> int \<Rightarrow> int list option" where
  "member_loop next 0 s x = None"
| "member_loop next (Suc fuel) s x =
     (if next s x \<ge> 0 then map_option (Cons (next s x)) (member_loop next fuel s (next s x)) else Some [])"

locale member_iterator =
  fixes members :: "'s \<Rightarrow> nat set" and next_of :: "'s \<Rightarrow> int \<Rightarrow> int"
  assumes finite_members_of: "finite (members s)"
    and next_of: "-1 \<le> p \<Longrightarrow> next_of s p =
      (let S = {m \<in> members s. p < int m} in if S = {} then -2 else int (Min S))"
begin

lemma loop_from:
  "-1 \<le> p \<Longrightarrow> card {m \<in> members s. p < int m} < fuel \<Longrightarrow>
   member_loop next_of fuel s p = Some (map int (sorted_list_of_set {m \<in> members s. p < int m}))"
proof (induction fuel arbitrary: p)
  case (Suc fuel)
  let ?S = "{m \<in> members s. p < int m}"
  have fin: "finite ?S" by (simp add: finite_members_of)
  show ?case
  proof (cases "?S = {}")
    case True
    then show ?thesis using next_of [OF Suc.prems(1)] by (simp only: member_loop.simps Let_def if_True) simp
  next
    case False
    have nxt: "next_of s p = int (Min ?S)" using next_of [OF Suc.prems(1)] False by (simp only: Let_def if_False)
    have rest: "{m \<in> members s. int (Min ?S) < int m} = ?S - {Min ?S}"
      using Min_in [OF fin False] Min_le [OF fin] by (auto simp: order_less_le)
    have "card (?S - {Min ?S}) < fuel"
      using Suc.prems(2) card_Diff1_less [OF fin Min_in [OF fin False]] by linarith
    then have "member_loop next_of fuel s (int (Min ?S)) = Some (map int (sorted_list_of_set (?S - {Min ?S})))"
      using Suc.IH [of "int (Min ?S)"] unfolding rest by simp
    then show ?thesis
      using sorted_list_of_set_nonempty [OF fin False] by (simp only: member_loop.simps nxt) simp
  qed
qed simp

lemma loop_all:
  "card (members s) < fuel \<Longrightarrow>
   member_loop next_of fuel s (-1) = Some (map int (sorted_list_of_set (members s)))"
  using loop_from [of "-1" s fuel] by simp

end

interpretation bms_iter: member_iterator bms_members bms_next_member
  by unfold_locales (simp_all add: next_member_spec)

text \<open>The contract of a family of set operations; it is met both by the operations that build a new
  set and by those that recycle their first argument.\<close>

locale set_operations =
  fixes members :: "'s \<Rightarrow> nat set"
    and union inter diff :: "'s \<Rightarrow> 's \<Rightarrow> 's"
    and equal subset overlap :: "'s \<Rightarrow> 's \<Rightarrow> bool"
  assumes union: "members (union a b) = members a \<union> members b"
    and inter: "members (inter a b) = members a \<inter> members b"
    and diff: "members (diff a b) = members a - members b"
    and equal: "equal a b \<longleftrightarrow> members a = members b"
    and subset: "subset a b \<longleftrightarrow> members a \<subseteq> members b"
    and overlap: "overlap a b \<longleftrightarrow> members a \<inter> members b \<noteq> {}"
begin

lemmas set_laws = union inter diff equal subset overlap

lemma distrib: "equal (inter a (union b c)) (union (inter a b) (inter a c))"
  by (auto simp: set_laws)

lemma diff_inter: "equal (diff a (inter a b)) (diff a b)"
  by (auto simp: set_laws)

lemma subset_union: "subset a b \<longleftrightarrow> equal (union a b) b"
  by (auto simp: set_laws)

lemma overlap_diff: "overlap a b \<longleftrightarrow> \<not> equal (diff a b) a"
  by (auto simp: set_laws)

end

lemmas bms_laws = members_union members_intersect members_difference members_add_members
  members_int_members members_del_members equal_iff is_subset_iff overlap_iff

interpretation bms_new: set_operations bms_members bms_union bms_intersect bms_difference
    bms_equal bms_is_subset bms_overlap
  by unfold_locales (simp_all add: bms_laws)

interpretation bms_recycled: set_operations bms_members bms_add_members bms_int_members bms_del_members
    bms_equal bms_is_subset bms_overlap
  by unfold_locales (simp_all add: bms_laws)

section \<open>Properties\<close>

text \<open>C40: Every set operation of \<^verbatim>\<open>bitmapset.c\<close> computes the mathematical operation on the
  sets of members, whatever the two lengths and whether the arguments are null: the operations that
  build a new set, those that recycle their first argument, \<^verbatim>\<open>bms_copy\<close> and the Cloudberry
  addition \<^verbatim>\<open>bms_resize\<close>.\<close>

theorem bms_set_operations_correct:
  "bms_members (bms_copy a) = bms_members a \<and>
   bms_members (bms_union a b) = bms_members a \<union> bms_members b \<and>
   bms_members (bms_intersect a b) = bms_members a \<inter> bms_members b \<and>
   bms_members (bms_difference a b) = bms_members a - bms_members b \<and>
   bms_members (bms_add_members a b) = bms_members a \<union> bms_members b \<and>
   bms_members (bms_int_members a b) = bms_members a \<inter> bms_members b \<and>
   bms_members (bms_del_members a b) = bms_members a - bms_members b \<and>
   bms_members (bms_join a b) = bms_members a \<union> bms_members b \<and>
   bms_members (bms_resize a wc) = bms_members a"
  by (simp add: bms_laws members_copy members_join members_resize)

text \<open>The comparisons decide the relations on the sets of members. In particular the single
  pass of \<^verbatim>\<open>bms_subset_compare\<close>, which refines its verdict word by word and gives up early,
  returns exactly one of equal, proper subset, proper superset and incomparable.\<close>

theorem bms_comparisons_correct:
  "bms_is_empty a = (bms_members a = {}) \<and>
   bms_equal a b = (bms_members a = bms_members b) \<and>
   bms_is_subset a b = (bms_members a \<subseteq> bms_members b) \<and>
   bms_overlap a b = (bms_members a \<inter> bms_members b \<noteq> {}) \<and>
   bms_nonempty_difference a b = (\<not> bms_members a \<subseteq> bms_members b) \<and>
   bms_subset_compare a b =
     (if bms_members a = bms_members b then BMS_EQUAL
      else if bms_members a \<subset> bms_members b then BMS_SUBSET1
      else if bms_members b \<subset> bms_members a then BMS_SUBSET2
      else BMS_DIFFERENT)"
  by (auto simp: bms_laws is_empty_iff nonempty_difference_iff subset_compare_eq cmp_code_def)

text \<open>\<^verbatim>\<open>bms_add_member\<close>, \<^verbatim>\<open>bms_del_member\<close>, \<^verbatim>\<open>bms_is_member\<close> and
  \<^verbatim>\<open>bms_add_range\<close> raise the error on a negative argument (for a nonempty range) and otherwise
  insert, remove, test or add the whole interval, enlarging the set when it is too short.\<close>

theorem bms_member_updates_correct:
  "(case bms_add_member a x of
      Inl e \<Rightarrow> x < 0 \<and> e = negative_member
    | Inr r \<Rightarrow> 0 \<le> x \<and> bms_members r = insert (nat x) (bms_members a)) \<and>
   (case bms_del_member a x of
      Inl e \<Rightarrow> x < 0 \<and> e = negative_member
    | Inr r \<Rightarrow> 0 \<le> x \<and> bms_members r = bms_members a - {nat x}) \<and>
   (case bms_is_member x a of
      Inl e \<Rightarrow> x < 0 \<and> e = negative_member
    | Inr r \<Rightarrow> 0 \<le> x \<and> r = (nat x \<in> bms_members a)) \<and>
   (case bms_add_range a lower upper of
      Inl e \<Rightarrow> lower < 0 \<and> lower \<le> upper \<and> e = negative_member
    | Inr r \<Rightarrow> bms_members r = bms_members a \<union> {n. lower \<le> int n \<and> int n \<le> upper})"
proof -
  have "{nat lower..nat upper} = {n. lower \<le> int n \<and> int n \<le> upper}" if "0 \<le> lower" "lower \<le> upper"
    using that by (auto simp: le_nat_iff nat_le_iff)
  moreover have "{n. lower \<le> int n \<and> int n \<le> upper} = {}" if "upper < lower" using that by auto
  ultimately have "case bms_add_range a lower upper of
      Inl e \<Rightarrow> lower < 0 \<and> lower \<le> upper \<and> e = negative_member
    | Inr r \<Rightarrow> bms_members r = bms_members a \<union> {n. lower \<le> int n \<and> int n \<le> upper}"
    using add_range_members [of lower upper a]
    by (cases "upper < lower"; cases "lower < 0") (auto simp: bms_add_range_def [of _ lower upper])
  then show ?thesis
    using add_member_members [of x a] del_member_members [of x a]
    by (cases "x < 0") (auto simp: is_member_iff bms_add_member_def [of _ x] bms_del_member_def [of _ x])
qed

text \<open>The loop \<^verbatim>\<open>x = -1; while ((x = bms_next_member(s, x)) >= 0)\<close> ends and visits every
  member exactly once, in increasing order; one more call than there are members suffices.\<close>

theorem bms_next_member_loop_visits_all:
  "member_loop bms_next_member (Suc (nat (bms_num_members a))) a (-1) =
     Some (map int (sorted_list_of_set (bms_members a)))"
  by (rule bms_iter.loop_all) (simp add: num_members_card)

text \<open>\<^verbatim>\<open>bms_num_members\<close> is the cardinality of the set, and \<^verbatim>\<open>bms_member_index\<close> is
  the rank of a member (the number of smaller members), \<open>-1\<close> for a number that is not a member and
  an error for a negative one.\<close>

theorem bms_counts_correct:
  "bms_num_members a = int (card (bms_members a)) \<and>
   bms_member_index a x =
     (if x < 0 then Inl negative_member
      else if nat x \<notin> bms_members a then Inr (-1)
      else Inr (int (card {m \<in> bms_members a. int m < x})))"
proof -
  have "bms_member_index a x = Inr (int (card {m \<in> bms_members a. int m < x}))"
    if "0 \<le> x" "nat x \<in> bms_members a"
  proof -
    have "{m \<in> bms_members a. m < nat x} = {m \<in> bms_members a. int m < x}" using that(1) by auto
    then show ?thesis using member_index_card [OF that(2)] that(1) by simp
  qed
  then show ?thesis by (auto simp: num_members_card bms_member_index_def [of a x] is_member_iff)
qed

text \<open>\<^verbatim>\<open>bms_membership\<close>, \<^verbatim>\<open>bms_singleton_member\<close> and
  \<^verbatim>\<open>bms_get_singleton_member\<close> agree: all three tell the empty set, a singleton and a larger set
  apart by one scan, and the last two return the member of a singleton.\<close>

theorem bms_singleton_tests_agree:
  "bms_membership a =
     (if card (bms_members a) = 0 then BMS_EMPTY_SET
      else if card (bms_members a) = 1 then BMS_SINGLETON else BMS_MULTIPLE) \<and>
   bms_singleton_member a =
     (if card (bms_members a) = 0 then Inl (ERROR ''bitmapset is empty'')
      else if card (bms_members a) = 1 then Inr (int (Min (bms_members a)))
      else Inl (ERROR ''bitmapset has multiple members'')) \<and>
   bms_get_singleton_member a member =
     (if card (bms_members a) = 1 then (True, int (Min (bms_members a))) else (False, member))"
proof (cases a)
  case (Some s)
  let ?A = "members_from 0 (words s)"
  have scan: "singleton_scan (words s) 0 (-1) =
      (if card ?A = 0 then Some (-1) else if card ?A = 1 then Some (int (Min ?A)) else None)"
    unfolding singleton_scan_spec by (auto simp: card_1_singleton_iff)
  have mem: "membership_scan (words s) BMS_EMPTY_SET =
      (if card ?A = 0 then BMS_EMPTY_SET else if card ?A = 1 then BMS_SINGLETON else BMS_MULTIPLE)"
    unfolding membership_scan_spec [of _ 0] by (auto simp: card_1_singleton_iff)
  show ?thesis
    unfolding Some members_words bms_membership_def bms_singleton_member_def bms_get_singleton_member_def
      option.case scan mem by auto
qed (simp_all add: bms_membership_def bms_singleton_member_def bms_get_singleton_member_def
    bms_members_def)

text \<open>\<^verbatim>\<open>bms_compare\<close> orders two sets by the largest number that is in one of them only,
  is zero exactly on equal sets, and changes sign when its arguments are swapped.\<close>

theorem bms_compare_is_order:
  "bms_compare a b =
     (if bms_equal a b then 0
      else if Max (sym_diff (bms_members a) (bms_members b)) \<in> bms_members a then 1 else -1) \<and>
   bms_compare b a = - bms_compare a b"
proof -
  let ?D = "sym_diff (bms_members a) (bms_members b)"
  have "Max ?D \<in> ?D" if "bms_members a \<noteq> bms_members b" using that by (intro Max_in) auto
  then show ?thesis by (auto simp: compare_spec bms_laws Un_commute)
qed

text \<open>Sets that are equal for \<^verbatim>\<open>bms_equal\<close> have the same hash for every \<^verbatim>\<open>hash_any\<close>,
  though they may have different numbers of words; so \<^verbatim>\<open>bitmap_hash\<close> and
  \<^verbatim>\<open>bitmap_match\<close> make a consistent hash table.\<close>

theorem bms_hash_respects_match:
  assumes "bitmap_match a b = 0"
  shows "bms_hash_value hash_any a = bms_hash_value hash_any b"
proof -
  have "word_at a = word_at b"
    using assms by (auto simp: bitmap_match_def equal_iff members_eq_iff split: if_splits)
  then show ?thesis by (simp add: hash_value_words)
qed

theorem bms_hash_respects_match_witness:
  "bms_hash_value (\<lambda>ws. of_nat (length ws)) (Some \<lparr>words = [1]\<rparr>) =
   bms_hash_value (\<lambda>ws. of_nat (length ws)) (Some \<lparr>words = [1, 0]\<rparr>)"
  by (rule bms_hash_respects_match) (simp add: bitmap_match_def bms_equal_def)

text \<open>The operations that recycle their first argument are interchangeable with those that build
  a new set: every nested expression built from one family equals the other's, up to
  \<^verbatim>\<open>bms_equal\<close>, and both satisfy the set identities callers rely on.\<close>

lemma bms_families_interchangeable:
  "bms_equal (bms_add_members (bms_int_members a b) (bms_del_members a b)) a \<and>
   bms_equal (bms_union (bms_intersect a b) (bms_difference a b)) a \<and>
   bms_equal (bms_int_members a (bms_add_members b c)) (bms_union (bms_intersect a b) (bms_intersect a c)) \<and>
   bms_equal (bms_del_members a (bms_int_members a b)) (bms_difference a b) \<and>
   bms_is_subset a b = bms_equal (bms_add_members a b) b \<and>
   bms_overlap a b = (\<not> bms_equal (bms_difference a b) a)"
  using bms_recycled.subset_union [of a b] bms_new.overlap_diff [of a b]
    bms_recycled.distrib [of a b c] bms_recycled.diff_inter [of a b]
  by (auto simp: bms_laws)

end
