(* ===== verification/FsmPage.thy ===== *)
theory FsmPage
  imports CB_Prelude
begin

text \<open>One page of the free space map, \<^verbatim>\<open>src/backend/storage/freespace/fsmpage.c\<close> with the
  layout of \<^verbatim>\<open>src/include/storage/fsm_internals.h\<close>: a complete binary tree of bytes stored
  in an array, each upper node the maximum of its children, the leaves one byte per heap page.

  The block size is an argument of every operation, as \<^verbatim>\<open>BLCKSZ\<close> is a compile-time
  constant; the proofs hold for every power of two from 64 on, the default being 32768. Node numbers
  are natural numbers; \<^verbatim>\<open>fp_next_slot\<close> is an integer because it is an unlocked hint that may
  hold anything, and the \<^verbatim>\<open>uint16\<close> variable of the search is written out modulo \<open>2 ^ 16\<close>.

  When the search meets a torn page without the exclusive lock it drops the lock and takes it again;
  what other backends did to the page in between is the argument \<open>relock\<close>.\<close>

unbundle bit_operations_syntax

section \<open>Layout\<close>

record FSMPageData =
  fp_next_slot :: int
  fp_nodes :: "uint8 list"

text \<open>\<^verbatim>\<open>MAXALIGN(SizeOfPageHeaderData)\<close> is 24 and \<^verbatim>\<open>fp_nodes\<close> is at offset 4.\<close>

definition NodesPerPage :: "nat \<Rightarrow> nat" where
  "NodesPerPage BLCKSZ = BLCKSZ - 24 - 4"

definition NonLeafNodesPerPage :: "nat \<Rightarrow> nat" where
  "NonLeafNodesPerPage BLCKSZ = BLCKSZ div 2 - 1"

definition LeafNodesPerPage :: "nat \<Rightarrow> nat" where
  "LeafNodesPerPage BLCKSZ = NodesPerPage BLCKSZ - NonLeafNodesPerPage BLCKSZ"

definition leftchild :: "nat \<Rightarrow> nat" where
  "leftchild x = 2 * x + 1"

definition rightchild :: "nat \<Rightarrow> nat" where
  "rightchild x = 2 * x + 2"

definition parentof :: "nat \<Rightarrow> nat" where
  "parentof x = (x - 1) div 2"

definition rightneighbor :: "nat \<Rightarrow> nat" where
  "rightneighbor x =
     (let x = x + 1
      in if (x + 1) AND x = 0 then parentof x else x)"

section \<open>Operations\<close>

text \<open>One iteration of \<^verbatim>\<open>fsm_rebuild_page\<close> on the nodes and the flag \<open>changed\<close>.\<close>

definition rebuild_node :: "nat \<Rightarrow> nat \<Rightarrow> uint8 list \<times> bool \<Rightarrow> uint8 list \<times> bool" where
  "rebuild_node BLCKSZ nodeno st =
     (let (nodes, changed) = st;
          lchild = leftchild nodeno;
          rchild = lchild + 1;
          newvalue = (if lchild < NodesPerPage BLCKSZ then nodes ! lchild else 0);
          newvalue = (if rchild < NodesPerPage BLCKSZ then max newvalue (nodes ! rchild) else newvalue)
      in if nodes ! nodeno \<noteq> newvalue then (nodes[nodeno := newvalue], True) else (nodes, changed))"

definition fsm_rebuild_page :: "nat \<Rightarrow> FSMPageData \<Rightarrow> bool \<times> FSMPageData" where
  "fsm_rebuild_page BLCKSZ page =
     (let (nodes, changed) =
            fold (rebuild_node BLCKSZ) (rev [0..<NonLeafNodesPerPage BLCKSZ]) (fp_nodes page, False)
      in (changed, page\<lparr>fp_nodes := nodes\<rparr>))"

text \<open>The \<^verbatim>\<open>do ... while\<close> loop of \<^verbatim>\<open>fsm_set_avail\<close>, entered with the number of the node
  just changed.\<close>

lemma parentof_less: "0 < parentof x \<Longrightarrow> parentof x < x"
  by (simp add: parentof_def)

function propagate_up :: "nat \<Rightarrow> uint8 list \<Rightarrow> nat \<Rightarrow> uint8 list" where
  "propagate_up BLCKSZ nodes child =
     (let nodeno = parentof child;
          lchild = leftchild nodeno;
          rchild = lchild + 1;
          newvalue = nodes ! lchild;
          newvalue = (if rchild < NodesPerPage BLCKSZ then max newvalue (nodes ! rchild) else newvalue)
      in if nodes ! nodeno = newvalue then nodes
         else if nodeno > 0 then propagate_up BLCKSZ (nodes[nodeno := newvalue]) nodeno
         else nodes[nodeno := newvalue])"
  by pat_completeness auto
termination
  by (relation "measure (\<lambda>(b, nodes, child). child)") (auto simp: parentof_less)

declare propagate_up.simps [simp del]

definition fsm_set_avail :: "nat \<Rightarrow> FSMPageData \<Rightarrow> nat \<Rightarrow> uint8 \<Rightarrow> bool \<times> FSMPageData" where
  "fsm_set_avail BLCKSZ page slot value =
     (let nodeno = NonLeafNodesPerPage BLCKSZ + slot;
          oldvalue = fp_nodes page ! nodeno
      in if oldvalue = value \<and> value \<le> fp_nodes page ! 0 then (False, page)
         else
           let page = page\<lparr>fp_nodes := propagate_up BLCKSZ ((fp_nodes page)[nodeno := value]) nodeno\<rparr>
           in if value > fp_nodes page ! 0 then (True, snd (fsm_rebuild_page BLCKSZ page))
              else (True, page))"

definition fsm_get_avail :: "nat \<Rightarrow> FSMPageData \<Rightarrow> nat \<Rightarrow> uint8" where
  "fsm_get_avail BLCKSZ page slot = fp_nodes page ! (NonLeafNodesPerPage BLCKSZ + slot)"

definition fsm_get_max_avail :: "FSMPageData \<Rightarrow> uint8" where
  "fsm_get_max_avail page = fp_nodes page ! 0"

text \<open>The three parts of \<^verbatim>\<open>fsm_search_avail\<close>: where to start, the climb to a node with enough
  space, and the descent, whose result is \<open>None\<close> when a node promises more than its children have.\<close>

definition search_target :: "nat \<Rightarrow> FSMPageData \<Rightarrow> nat" where
  "search_target BLCKSZ page =
     (let target = fp_next_slot page
      in if target < 0 \<or> target \<ge> int (LeafNodesPerPage BLCKSZ) then 0 else nat target)"

lemma parentof_rightneighbor_less: "0 < x \<Longrightarrow> parentof (rightneighbor x) < x"
  by (auto simp: rightneighbor_def parentof_def Let_def)

function search_climb :: "uint8 list \<Rightarrow> uint8 \<Rightarrow> nat \<Rightarrow> nat" where
  "search_climb nodes minvalue nodeno =
     (if nodeno > 0
      then (if nodes ! nodeno \<ge> minvalue then nodeno
            else search_climb nodes minvalue (parentof (rightneighbor nodeno)))
      else nodeno)"
  by pat_completeness auto
termination
  by (relation "measure (\<lambda>(nodes, minvalue, nodeno). nodeno)") (auto simp: parentof_rightneighbor_less)

declare search_climb.simps [simp del]

function search_descend :: "nat \<Rightarrow> uint8 list \<Rightarrow> uint8 \<Rightarrow> nat \<Rightarrow> nat option" where
  "search_descend BLCKSZ nodes minvalue nodeno =
     (if nodeno < NonLeafNodesPerPage BLCKSZ
      then (let childnodeno = leftchild nodeno
            in if childnodeno < NodesPerPage BLCKSZ \<and> nodes ! childnodeno \<ge> minvalue
               then search_descend BLCKSZ nodes minvalue childnodeno
               else let childnodeno = childnodeno + 1
                    in if childnodeno < NodesPerPage BLCKSZ \<and> nodes ! childnodeno \<ge> minvalue
                       then search_descend BLCKSZ nodes minvalue childnodeno
                       else None)
      else Some nodeno)"
  by pat_completeness auto
termination
  by (relation "measure (\<lambda>(b, nodes, minvalue, nodeno). NonLeafNodesPerPage b - nodeno)")
     (auto simp: leftchild_def)

declare search_descend.simps [simp del]

text \<open>The result is the slot, or -1, and the page as the search leaves it; the label
  \<^verbatim>\<open>restart\<close> is the recursive call, so a search that restarts forever has the value \<open>None\<close>.\<close>

partial_function (option) fsm_search_avail ::
  "nat \<Rightarrow> (FSMPageData \<Rightarrow> FSMPageData) \<Rightarrow> uint8 \<Rightarrow> bool \<Rightarrow> bool \<Rightarrow> FSMPageData \<Rightarrow> (int \<times> FSMPageData) option" where
  "fsm_search_avail BLCKSZ relock minvalue advancenext exclusive_lock_held page =
     (if fp_nodes page ! 0 < minvalue then Some (-1, page)
      else
        let target = search_target BLCKSZ page + NonLeafNodesPerPage BLCKSZ;
            nodeno = search_climb (fp_nodes page) minvalue target
        in case search_descend BLCKSZ (fp_nodes page) minvalue nodeno of
             Some nodeno \<Rightarrow>
               (let slot = (nodeno - NonLeafNodesPerPage BLCKSZ) mod 2 ^ 16
                in Some (int slot, page\<lparr>fp_next_slot := int slot + (if advancenext then 1 else 0)\<rparr>))
           | None \<Rightarrow>
               (let page = (if exclusive_lock_held then page else relock page)
                in fsm_search_avail BLCKSZ relock minvalue advancenext True
                     (snd (fsm_rebuild_page BLCKSZ page))))"

text \<open>The loop of \<^verbatim>\<open>fsm_truncate_avail\<close> over the leaves from \<open>nslots\<close> on.\<close>

definition truncate_leaf :: "nat \<Rightarrow> uint8 list \<times> bool \<Rightarrow> uint8 list \<times> bool" where
  "truncate_leaf i st = (let (nodes, changed) = st in (nodes[i := 0], changed \<or> nodes ! i \<noteq> 0))"

definition fsm_truncate_avail :: "nat \<Rightarrow> FSMPageData \<Rightarrow> nat \<Rightarrow> bool \<times> FSMPageData" where
  "fsm_truncate_avail BLCKSZ page nslots =
     (let (nodes, changed) =
            fold truncate_leaf [NonLeafNodesPerPage BLCKSZ + nslots..<NodesPerPage BLCKSZ] (fp_nodes page, False);
          page = page\<lparr>fp_nodes := nodes\<rparr>
      in (changed, if changed then snd (fsm_rebuild_page BLCKSZ page) else page))"

section \<open>The invariant\<close>

text \<open>The maximum of the children that exist, and the pages all of whose upper nodes hold it.\<close>

definition children_max :: "nat \<Rightarrow> uint8 list \<Rightarrow> nat \<Rightarrow> uint8" where
  "children_max BLCKSZ nodes x =
     max (if leftchild x < NodesPerPage BLCKSZ then nodes ! leftchild x else 0)
         (if rightchild x < NodesPerPage BLCKSZ then nodes ! rightchild x else 0)"

definition fsm_consistent :: "nat \<Rightarrow> uint8 list \<Rightarrow> bool" where
  "fsm_consistent BLCKSZ nodes \<longleftrightarrow>
     length nodes = NodesPerPage BLCKSZ \<and>
     (\<forall>x < NonLeafNodesPerPage BLCKSZ. nodes ! x = children_max BLCKSZ nodes x)"

lemma word_max_zero [simp]: "max (w :: uint8) 0 = w" "max 0 (w :: uint8) = w"
  by (simp_all add: max_def)

lemma rebuild_node_eq:
  "rebuild_node BLCKSZ k (nodes, changed) =
     (nodes[k := children_max BLCKSZ nodes k], changed \<or> nodes ! k \<noteq> children_max BLCKSZ nodes k)"
proof -
  have "rebuild_node BLCKSZ k (nodes, changed) =
      (if nodes ! k \<noteq> children_max BLCKSZ nodes k then (nodes[k := children_max BLCKSZ nodes k], True)
       else (nodes, changed))"
    by (simp add: rebuild_node_def children_max_def Let_def leftchild_def rightchild_def)
  then show ?thesis using list_update_id [of nodes k] by (cases "nodes ! k = children_max BLCKSZ nodes k") auto
qed

lemma child_indices [simp]:
  "leftchild x \<noteq> x" "rightchild x \<noteq> x" "x < leftchild x" "x < rightchild x"
  by (simp_all add: leftchild_def rightchild_def)

lemma children_max_update:
  "leftchild x \<noteq> k \<Longrightarrow> rightchild x \<noteq> k \<Longrightarrow>
   children_max BLCKSZ (nodes[k := v]) x = children_max BLCKSZ nodes x"
  by (simp add: children_max_def)

text \<open>Rebuilding from the last upper node down to the root makes every upper node the maximum of
  its children, touches no leaf, and reports whether it changed anything.\<close>

lemma rebuild_fold:
  assumes "length nodes = NodesPerPage BLCKSZ" "n \<le> NonLeafNodesPerPage BLCKSZ"
    "\<And>x. n \<le> x \<Longrightarrow> x < NonLeafNodesPerPage BLCKSZ \<Longrightarrow> nodes ! x = children_max BLCKSZ nodes x"
    "fold (rebuild_node BLCKSZ) (rev [0..<n]) (nodes, changed) = (nodes', changed')"
    "NonLeafNodesPerPage BLCKSZ \<le> NodesPerPage BLCKSZ"
  shows "fsm_consistent BLCKSZ nodes' \<and> (\<forall>x\<ge>n. nodes' ! x = nodes ! x) \<and>
    (changed' \<longleftrightarrow> changed \<or> nodes' \<noteq> nodes)"
  using assms
proof (induction n arbitrary: nodes changed)
  case 0
  then show ?case by (auto simp: fsm_consistent_def)
next
  case (Suc n)
  define v where "v = children_max BLCKSZ nodes n"
  let ?ns = "nodes[n := v]"
  have n: "n < length nodes" using Suc.prems by simp
  have cons: "?ns ! x = children_max BLCKSZ ?ns x" if "n \<le> x" "x < NonLeafNodesPerPage BLCKSZ" for x
  proof -
    have "leftchild x \<noteq> n" "rightchild x \<noteq> n" using that by (auto simp: leftchild_def rightchild_def)
    then show ?thesis
      using that n Suc.prems(3) [of x] by (cases "x = n") (simp_all add: v_def children_max_update)
  qed
  have step: "fold (rebuild_node BLCKSZ) (rev [0..<n]) (?ns, changed \<or> nodes ! n \<noteq> v) = (nodes', changed')"
    using Suc.prems(4) by (simp add: rebuild_node_eq v_def)
  have IH: "fsm_consistent BLCKSZ nodes' \<and> (\<forall>x\<ge>n. nodes' ! x = ?ns ! x) \<and>
      (changed' \<longleftrightarrow> (changed \<or> nodes ! n \<noteq> v) \<or> nodes' \<noteq> ?ns)"
    using Suc.prems cons by (intro Suc.IH [OF _ _ _ step]) auto
  then have len: "nodes' ! n = v" using n by auto
  have "nodes' = nodes \<longleftrightarrow> nodes ! n = v \<and> nodes' = ?ns"
    using len by (metis list_update_id)
  then show ?case using IH by auto
qed

lemma propagate_up_length [simp]: "length (propagate_up BLCKSZ nodes child) = length nodes"
proof (induction BLCKSZ nodes child rule: propagate_up.induct)
  case (1 BLCKSZ nodes child)
  show ?case by (subst propagate_up.simps) (auto simp: Let_def 1)
qed

lemma propagate_up_other:
  "parentof child < x \<Longrightarrow> propagate_up BLCKSZ nodes child ! x = nodes ! x"
proof (induction BLCKSZ nodes child rule: propagate_up.induct)
  case (1 BLCKSZ nodes child)
  have "parentof (parentof child) < x" using 1(2) by (auto simp: parentof_def)
  then show ?case using 1(2) by (subst propagate_up.simps) (auto simp: Let_def 1(1))
qed

lemma search_descend_leaf [simp]:
  "NonLeafNodesPerPage BLCKSZ \<le> x \<Longrightarrow> search_descend BLCKSZ nodes m x = Some x"
  by (simp add: search_descend.simps)

section \<open>Positions in the tree\<close>

text \<open>Numbering nodes from 1, the node \<open>y\<close> at distance \<open>d\<close> from the leaf level of a tree of height
  \<open>h\<close> stands above the leaves \<open>i\<close> with \<open>y * 2 ^ d \<le> i + 2 ^ h < (y + 1) * 2 ^ d\<close>.\<close>

definition at_level :: "nat \<Rightarrow> nat \<Rightarrow> nat \<Rightarrow> bool" where
  "at_level h d y \<longleftrightarrow> d \<le> h \<and> 2 ^ h \<le> y * 2 ^ d \<and> y * 2 ^ d < 2 ^ Suc h"

definition above_leaf :: "nat \<Rightarrow> nat \<Rightarrow> nat \<Rightarrow> nat \<Rightarrow> bool" where
  "above_leaf h d y i \<longleftrightarrow> y * 2 ^ d \<le> i + 2 ^ h \<and> i + 2 ^ h < (y + 1) * 2 ^ d"

definition node_value :: "nat \<Rightarrow> uint8 list \<Rightarrow> nat \<Rightarrow> uint8" where
  "node_value BLCKSZ nodes y = (if y - 1 < NodesPerPage BLCKSZ then nodes ! (y - 1) else 0)"

text \<open>What the climb has established when it stands at \<open>y\<close>: no leaf from the target \<open>t\<close> to the first
  leaf below \<open>y\<close> has enough space, or the climb has wrapped around and no leaf from \<open>t\<close> on has.\<close>

definition search_inv :: "nat \<Rightarrow> nat \<Rightarrow> uint8 list \<Rightarrow> uint8 \<Rightarrow> nat \<Rightarrow> nat \<Rightarrow> nat \<Rightarrow> bool" where
  "search_inv BLCKSZ h nodes m t d y \<longleftrightarrow>
     (t + 2 ^ h \<le> y * 2 ^ d \<and>
       (\<forall>i < LeafNodesPerPage BLCKSZ. t \<le> i \<and> i + 2 ^ h < y * 2 ^ d \<longrightarrow> nodes ! (NonLeafNodesPerPage BLCKSZ + i) < m)) \<or>
     (y * 2 ^ d = 2 ^ h \<and>
       (\<forall>i < LeafNodesPerPage BLCKSZ. t \<le> i \<longrightarrow> nodes ! (NonLeafNodesPerPage BLCKSZ + i) < m))"

lemma at_level_range: "at_level h d y \<longleftrightarrow> d \<le> h \<and> 2 ^ (h - d) \<le> y \<and> y < 2 ^ Suc (h - d)"
proof (cases "d \<le> h")
  case True
  have "(2::nat) ^ h = 2 ^ (h - d) * 2 ^ d" "(2::nat) ^ Suc h = 2 ^ Suc (h - d) * 2 ^ d"
    using True by (simp_all flip: power_add)
  then show ?thesis unfolding at_level_def by simp
qed (simp add: at_level_def)

lemma at_level_pos: "at_level h d y \<Longrightarrow> 0 < y"
  by (rule ccontr) (simp add: at_level_def)

lemma at_level_end: "at_level h d y \<Longrightarrow> (y + 1) * 2 ^ d \<le> 2 ^ Suc h"
proof -
  assume l: "at_level h d y"
  then have "y + 1 \<le> 2 ^ Suc (h - d)" "(2::nat) ^ Suc h = 2 ^ Suc (h - d) * 2 ^ d"
    by (auto simp: at_level_range simp flip: power_add)
  then show ?thesis using mult_le_mono1 [of "y + 1"] by metis
qed

lemma at_level_upper: "at_level h (Suc d) y \<Longrightarrow> y < 2 ^ h"
proof -
  assume "at_level h (Suc d) y"
  then have "y * 2 ^ d < 2 ^ h" by (simp add: at_level_def)
  moreover have "y \<le> y * 2 ^ d" by simp
  ultimately show ?thesis by linarith
qed

lemma at_level_two:
  assumes "at_level h d y" "d < h"
  shows "2 \<le> y"
proof (rule ccontr)
  assume "\<not> 2 \<le> y"
  then have "y * 2 ^ d \<le> 1 * 2 ^ d" by (intro mult_le_mono1) simp
  moreover have "(2::nat) ^ d < 2 ^ h" using assms(2) by simp
  ultimately show False using assms(1) unfolding at_level_def by linarith
qed

lemma at_level_children:
  "at_level h (Suc d) y \<Longrightarrow> at_level h d (2 * y) \<and> at_level h d (2 * y + 1)"
  using at_level_end [of h "Suc d" y] by (auto simp: at_level_def algebra_simps)

lemma above_leaf_children:
  "above_leaf h (Suc d) y i \<longleftrightarrow> above_leaf h d (2 * y) i \<or> above_leaf h d (2 * y + 1) i"
  by (auto simp: above_leaf_def algebra_simps)

lemma above_leaf_order:
  "above_leaf h d (2 * y) i \<Longrightarrow> above_leaf h d (2 * y + 1) j \<Longrightarrow> i < j"
  by (auto simp: above_leaf_def algebra_simps)

lemma adjacent_and_zero:
  assumes "2 ^ k \<le> y" "y < 2 ^ Suc k"
  shows "(y + 1) AND y = 0 \<longleftrightarrow> y + 1 = (2::nat) ^ Suc k"
proof
  assume zero: "(y + 1) AND y = 0"
  show "y + 1 = 2 ^ Suc k"
  proof (rule ccontr)
    assume "y + 1 \<noteq> 2 ^ Suc k"
    then have "y div 2 ^ k = 1" "(y + 1) div 2 ^ k = 1" using assms by (auto intro!: div_nat_eqI)
    then have "bit (y + 1) k" "bit y k" by (simp_all add: bit_iff_odd)
    then have "bit ((y + 1) AND y) k" unfolding bit_and_iff by blast
    then show False unfolding zero by simp
  qed
next
  assume "y + 1 = 2 ^ Suc k"
  then have "y = mask (Suc k)" by (simp add: mask_eq_exp_minus_1)
  moreover have "(y + 1) AND mask (Suc k) = 0"
    unfolding \<open>y + 1 = 2 ^ Suc k\<close> by (simp add: take_bit_eq_mod flip: take_bit_eq_mask)
  ultimately show "(y + 1) AND y = 0" by simp
qed

lemma rightneighbor_eq:
  assumes "2 ^ k \<le> y" "y < 2 ^ Suc k"
  shows "rightneighbor (y - 1) = (if y + 1 = 2 ^ Suc k then 2 ^ k else y + 1) - 1"
proof -
  have "0 < y" using assms(1) by (metis gr0I not_le zero_less_numeral zero_less_power)
  then show ?thesis
    using adjacent_and_zero [OF assms] by (auto simp: rightneighbor_def Let_def parentof_def)
qed

lemma parentof_eq: "2 \<le> y \<Longrightarrow> parentof (y - 1) = y div 2 - 1"
  by (auto simp: parentof_def)

text \<open>The block sizes the proofs cover.\<close>

locale fsm_shape =
  fixes BLCKSZ h :: nat
  assumes block_size: "BLCKSZ = 2 ^ Suc h" and height: "5 \<le> h"
begin

lemma two_h: "32 \<le> (2::nat) ^ h"
  using power_increasing [OF height, of "2::nat"] by simp

lemma sizes:
  "NonLeafNodesPerPage BLCKSZ = 2 ^ h - 1" "NodesPerPage BLCKSZ = 2 ^ Suc h - 28"
  "LeafNodesPerPage BLCKSZ = 2 ^ h - 27"
  using two_h by (simp_all add: NonLeafNodesPerPage_def NodesPerPage_def LeafNodesPerPage_def block_size)

lemma size_bounds:
  "0 < NonLeafNodesPerPage BLCKSZ" "NonLeafNodesPerPage BLCKSZ < NodesPerPage BLCKSZ"
  "0 < LeafNodesPerPage BLCKSZ"
  "NonLeafNodesPerPage BLCKSZ + LeafNodesPerPage BLCKSZ = NodesPerPage BLCKSZ"
  using two_h by (simp_all add: sizes)

lemma rebuild_page:
  assumes "length (fp_nodes page) = NodesPerPage BLCKSZ" "fsm_rebuild_page BLCKSZ page = (changed, page')"
  shows "fsm_consistent BLCKSZ (fp_nodes page')"
    and "\<And>x. NonLeafNodesPerPage BLCKSZ \<le> x \<Longrightarrow> fp_nodes page' ! x = fp_nodes page ! x"
    and "fp_next_slot page' = fp_next_slot page"
    and "changed \<longleftrightarrow> fp_nodes page' \<noteq> fp_nodes page"
proof -
  obtain nodes where f: "fold (rebuild_node BLCKSZ) (rev [0..<NonLeafNodesPerPage BLCKSZ]) (fp_nodes page, False)
      = (nodes, changed)" "page' = page\<lparr>fp_nodes := nodes\<rparr>"
    using assms(2) by (auto simp: fsm_rebuild_page_def split: prod.splits)
  note r = rebuild_fold [OF assms(1) order_refl _ f(1)]
  show "fsm_consistent BLCKSZ (fp_nodes page')" "changed \<longleftrightarrow> fp_nodes page' \<noteq> fp_nodes page"
    "\<And>x. NonLeafNodesPerPage BLCKSZ \<le> x \<Longrightarrow> fp_nodes page' ! x = fp_nodes page ! x"
    "fp_next_slot page' = fp_next_slot page"
    using r size_bounds by (simp_all add: f(2))
qed

text \<open>While a change is propagated only the parent of the node last written may be wrong.\<close>

lemma propagate_up_consistent:
  assumes "length nodes = NodesPerPage BLCKSZ" "0 < child" "child < NodesPerPage BLCKSZ"
    "\<And>x. x < NonLeafNodesPerPage BLCKSZ \<Longrightarrow> x \<noteq> parentof child \<Longrightarrow> nodes ! x = children_max BLCKSZ nodes x"
  shows "fsm_consistent BLCKSZ (propagate_up BLCKSZ nodes child)"
  using assms
proof (induction child arbitrary: nodes rule: less_induct)
  case (less child)
  let ?p = "parentof child"
  define v where "v = children_max BLCKSZ nodes ?p"
  have p: "?p < child" "leftchild ?p \<le> child" using less.prems(2) by (auto simp: parentof_def leftchild_def)
  have "?p < NonLeafNodesPerPage BLCKSZ"
    using less.prems(2,3) two_h by (auto simp: parentof_def sizes)
  have v: "(if leftchild ?p + 1 < NodesPerPage BLCKSZ then max (nodes ! leftchild ?p) (nodes ! (leftchild ?p + 1))
      else nodes ! leftchild ?p) = v"
    using p less.prems(3) by (auto simp: v_def children_max_def leftchild_def rightchild_def)
  have upd: "nodes[?p := v] ! x = children_max BLCKSZ (nodes[?p := v]) x"
    if "x < NonLeafNodesPerPage BLCKSZ" "?p = 0 \<or> x \<noteq> parentof ?p" for x
  proof -
    have "leftchild x \<noteq> ?p" "rightchild x \<noteq> ?p" using that(2) by (auto simp: leftchild_def rightchild_def parentof_def)
    then show ?thesis
      using that(1) less.prems(1) less.prems(4) [of x] p less.prems(3)
      by (cases "x = ?p") (simp_all add: v_def children_max_update)
  qed
  have unfold: "propagate_up BLCKSZ nodes child =
      (if nodes ! ?p = v then nodes
       else if ?p > 0 then propagate_up BLCKSZ (nodes[?p := v]) ?p else nodes[?p := v])"
    by (subst propagate_up.simps) (simp only: Let_def v)
  show ?case
  proof (cases "nodes ! ?p = v")
    case True
    then have "\<forall>x < NonLeafNodesPerPage BLCKSZ. nodes ! x = children_max BLCKSZ nodes x"
      using less.prems(4) v_def by blast
    then show ?thesis using less.prems(1) True by (simp add: unfold fsm_consistent_def)
  next
    case False
    then show ?thesis
      using upd less.IH [OF p(1), of "nodes[?p := v]"] less.prems p(1)
      by (cases "?p = 0") (auto simp: unfold fsm_consistent_def)
  qed
qed

text \<open>A node has enough space exactly when a leaf below it has.\<close>

lemma subtree_has:
  assumes cons: "fsm_consistent BLCKSZ nodes" and m: "0 < m"
  shows "at_level h d y \<Longrightarrow> m \<le> node_value BLCKSZ nodes y \<longleftrightarrow>
    (\<exists>i < LeafNodesPerPage BLCKSZ. above_leaf h d y i \<and> m \<le> nodes ! (NonLeafNodesPerPage BLCKSZ + i))"
proof (induction d arbitrary: y)
  case 0
  then have y: "2 ^ h \<le> y" by (simp add: at_level_def)
  have above: "above_leaf h 0 y i \<longleftrightarrow> i = y - 2 ^ h" for i using y by (auto simp: above_leaf_def)
  have "y - 1 = NonLeafNodesPerPage BLCKSZ + (y - 2 ^ h)" using y two_h by (simp add: sizes)
  moreover have "y - 1 < NodesPerPage BLCKSZ \<longleftrightarrow> y - 2 ^ h < LeafNodesPerPage BLCKSZ"
    using y two_h by (auto simp: sizes)
  ultimately show ?case using m by (auto simp: node_value_def above)
next
  case (Suc d)
  have pos: "0 < y" by (rule at_level_pos [OF Suc.prems])
  have nl: "y - 1 < NonLeafNodesPerPage BLCKSZ" using pos at_level_upper [OF Suc.prems] by (simp add: sizes)
  have kids: "leftchild (y - 1) = 2 * y - 1" "rightchild (y - 1) = 2 * y + 1 - 1"
    using pos by (auto simp: leftchild_def rightchild_def)
  have "nodes ! (y - 1) = children_max BLCKSZ nodes (y - 1)" using cons nl by (simp add: fsm_consistent_def)
  also have "\<dots> = max (node_value BLCKSZ nodes (2 * y)) (node_value BLCKSZ nodes (2 * y + 1))"
    unfolding children_max_def kids node_value_def ..
  finally have "nodes ! (y - 1) = max (node_value BLCKSZ nodes (2 * y)) (node_value BLCKSZ nodes (2 * y + 1))" .
  moreover have "node_value BLCKSZ nodes y = nodes ! (y - 1)"
    using nl size_bounds(2) by (simp add: node_value_def)
  ultimately have "m \<le> node_value BLCKSZ nodes y \<longleftrightarrow>
      m \<le> node_value BLCKSZ nodes (2 * y) \<or> m \<le> node_value BLCKSZ nodes (2 * y + 1)"
    by (simp add: le_max_iff_disj)
  then show ?case
    unfolding above_leaf_children
    using Suc.IH [of "2 * y"] Suc.IH [of "2 * y + 1"] at_level_children [OF Suc.prems] by blast
qed

lemma root_has:
  assumes "fsm_consistent BLCKSZ nodes" "0 < m"
  shows "m \<le> nodes ! 0 \<longleftrightarrow>
    (\<exists>i < LeafNodesPerPage BLCKSZ. m \<le> nodes ! (NonLeafNodesPerPage BLCKSZ + i))"
proof -
  have "at_level h h 1" by (simp add: at_level_def)
  moreover have "above_leaf h h 1 i" if "i < LeafNodesPerPage BLCKSZ" for i
    using that by (auto simp: above_leaf_def sizes)
  moreover have "node_value BLCKSZ nodes 1 = nodes ! 0" using size_bounds by (simp add: node_value_def)
  ultimately show ?thesis using subtree_has [OF assms, of h 1] by auto
qed

lemma leaf_le_root:
  assumes "fsm_consistent BLCKSZ nodes" "i < LeafNodesPerPage BLCKSZ"
  shows "nodes ! (NonLeafNodesPerPage BLCKSZ + i) \<le> nodes ! 0"
  using root_has [OF assms(1), of "nodes ! (NonLeafNodesPerPage BLCKSZ + i)"] assms(2)
  by (cases "nodes ! (NonLeafNodesPerPage BLCKSZ + i) = 0") (auto simp: word_gt_0)

text \<open>The descent ends at the leftmost leaf with enough space.\<close>

lemma search_descend_leftmost:
  assumes cons: "fsm_consistent BLCKSZ nodes" and m: "0 < m"
  shows "at_level h d y \<Longrightarrow> m \<le> node_value BLCKSZ nodes y \<Longrightarrow>
    \<exists>i < LeafNodesPerPage BLCKSZ. above_leaf h d y i \<and> m \<le> nodes ! (NonLeafNodesPerPage BLCKSZ + i) \<and>
      (\<forall>j < i. above_leaf h d y j \<longrightarrow> nodes ! (NonLeafNodesPerPage BLCKSZ + j) < m) \<and>
      search_descend BLCKSZ nodes m (y - 1) = Some (NonLeafNodesPerPage BLCKSZ + i)"
proof (induction d arbitrary: y)
  case 0
  then have y: "2 ^ h \<le> y" by (simp add: at_level_def)
  obtain i where i: "i < LeafNodesPerPage BLCKSZ" "above_leaf h 0 y i"
    "m \<le> nodes ! (NonLeafNodesPerPage BLCKSZ + i)"
    using subtree_has [OF cons m 0(1)] 0(2) by blast
  then have "i = y - 2 ^ h" using y by (auto simp: above_leaf_def)
  then have "y - 1 = NonLeafNodesPerPage BLCKSZ + i" using y two_h by (simp add: sizes)
  then show ?case using i by (intro exI [of _ i]) (auto simp: above_leaf_def)
next
  case (Suc d)
  have pos: "0 < y" by (rule at_level_pos [OF Suc.prems(1)])
  have nl: "y - 1 < NonLeafNodesPerPage BLCKSZ" using pos at_level_upper [OF Suc.prems(1)] by (simp add: sizes)
  have enough: "c - 1 < NodesPerPage BLCKSZ \<and> nodes ! (c - 1) \<ge> m \<longleftrightarrow> m \<le> node_value BLCKSZ nodes c" for c
    using m by (auto simp: node_value_def)
  have kids: "leftchild (y - 1) = 2 * y - 1" "2 * y - 1 + 1 = 2 * y + 1 - 1"
    using pos by (auto simp: leftchild_def)
  have unfold: "search_descend BLCKSZ nodes m (y - 1) =
      (if m \<le> node_value BLCKSZ nodes (2 * y) then search_descend BLCKSZ nodes m (2 * y - 1)
       else if m \<le> node_value BLCKSZ nodes (2 * y + 1) then search_descend BLCKSZ nodes m (2 * y + 1 - 1)
       else None)"
    using nl by (subst search_descend.simps) (simp only: kids enough Let_def if_True)
  note lev = at_level_children [OF Suc.prems(1)]
  show ?case
  proof (cases "m \<le> node_value BLCKSZ nodes (2 * y)")
    case True
    then show ?thesis
      using Suc.IH [of "2 * y"] lev above_leaf_order [of h d y]
      unfolding unfold above_leaf_children by (auto dest: less_asym)
  next
    case False
    then have none: "j < LeafNodesPerPage BLCKSZ \<Longrightarrow> above_leaf h d (2 * y) j \<Longrightarrow>
        nodes ! (NonLeafNodesPerPage BLCKSZ + j) < m" for j
      using subtree_has [OF cons m, of d "2 * y"] lev by (auto simp: not_le [symmetric])
    have right: "m \<le> node_value BLCKSZ nodes (2 * y + 1)"
      using False subtree_has [OF cons m Suc.prems(1)] Suc.prems(2) subtree_has [OF cons m, of d "2 * y"]
        subtree_has [OF cons m, of d "2 * y + 1"] lev unfolding above_leaf_children by blast
    obtain i where "i < LeafNodesPerPage BLCKSZ" "above_leaf h d (2 * y + 1) i"
      "m \<le> nodes ! (NonLeafNodesPerPage BLCKSZ + i)"
      "\<forall>j < i. above_leaf h d (2 * y + 1) j \<longrightarrow> nodes ! (NonLeafNodesPerPage BLCKSZ + j) < m"
      "search_descend BLCKSZ nodes m (2 * y + 1 - 1) = Some (NonLeafNodesPerPage BLCKSZ + i)"
      using Suc.IH [OF _ right] lev by blast
    then show ?thesis
      unfolding unfold above_leaf_children using False right none by (intro exI [of _ i]) auto
  qed
qed

text \<open>One step of the climb, to the parent of the right neighbour.\<close>

lemma climb_step:
  assumes cons: "fsm_consistent BLCKSZ nodes" and m: "0 < m" and d: "d < h"
    and lev: "at_level h d y" and inv: "search_inv BLCKSZ h nodes m t d y"
    and small: "\<not> m \<le> node_value BLCKSZ nodes y"
  shows "\<exists>z. at_level h (Suc d) z \<and> search_inv BLCKSZ h nodes m t (Suc d) z \<and>
    parentof (rightneighbor (y - 1)) = z - 1"
proof -
  obtain k where k: "h - d = Suc k" using d by (metis Suc_diff_Suc)
  have range: "2 ^ Suc k \<le> y" "y < 2 ^ Suc (Suc k)" using lev by (simp_all add: at_level_range k)
  have two: "2 \<le> y" by (rule at_level_two [OF lev d])
  have span: "nodes ! (NonLeafNodesPerPage BLCKSZ + i) < m"
    if "i < LeafNodesPerPage BLCKSZ" "y * 2 ^ d \<le> i + 2 ^ h" "i + 2 ^ h < (y + 1) * 2 ^ d" for i
    using small that subtree_has [OF cons m lev] by (auto simp: above_leaf_def not_le)
  have h: "h = Suc k + d" using k d by simp
  have top: "(2::nat) ^ Suc h = 2 ^ Suc (Suc k) * 2 ^ d" "(2::nat) ^ h = 2 ^ Suc k * 2 ^ d"
    by (simp_all add: h power_add)
  show ?thesis
  proof (cases "even y")
    case True
    then obtain z where z: "y = 2 * z" by blast
    have "y + 1 \<noteq> 2 ^ Suc (Suc k)" using True by (metis even_plus_one_iff even_power even_numeral zero_less_Suc)
    then have "parentof (rightneighbor (y - 1)) = z - 1"
      using rightneighbor_eq [OF range] two by (simp add: parentof_def z)
    moreover have zd: "z * 2 ^ Suc d = y * 2 ^ d" by (simp add: z)
    have "at_level h (Suc d) z" using lev d unfolding at_level_def zd by simp
    moreover have "search_inv BLCKSZ h nodes m t (Suc d) z" using inv unfolding search_inv_def zd .
    ultimately show ?thesis by blast
  next
    case False
    then have not_first: "y * 2 ^ d \<noteq> 2 ^ h" by (auto simp: top)
    then have inv': "t + 2 ^ h \<le> y * 2 ^ d"
      "\<And>i. i < LeafNodesPerPage BLCKSZ \<Longrightarrow> t \<le> i \<Longrightarrow> i + 2 ^ h < y * 2 ^ d \<Longrightarrow>
        nodes ! (NonLeafNodesPerPage BLCKSZ + i) < m"
      using inv by (auto simp: search_inv_def)
    have none: "nodes ! (NonLeafNodesPerPage BLCKSZ + i) < m"
      if "i < LeafNodesPerPage BLCKSZ" "t \<le> i" "i + 2 ^ h < (y + 1) * 2 ^ d" for i
      using inv'(2) [OF that(1,2)] span [OF that(1) _ that(3)] by (meson not_le)
    show ?thesis
    proof (cases "y + 1 = 2 ^ Suc (Suc k)")
      case True
      then have "parentof (rightneighbor (y - 1)) = 2 ^ k - 1"
        using rightneighbor_eq [OF range] parentof_eq [of "2 ^ Suc k"] by simp
      moreover have "2 ^ k * 2 ^ Suc d = (2::nat) ^ h" by (simp add: top)
      moreover have "search_inv BLCKSZ h nodes m t (Suc d) (2 ^ k)"
      proof -
        have "i + 2 ^ h < (y + 1) * 2 ^ d" if "i < LeafNodesPerPage BLCKSZ" for i
          using that unfolding True top(1) [symmetric] by (simp add: sizes)
        then show ?thesis using none \<open>2 ^ k * 2 ^ Suc d = 2 ^ h\<close> unfolding search_inv_def by blast
      qed
      moreover have "at_level h (Suc d) (2 ^ k)" using d unfolding at_level_def \<open>2 ^ k * 2 ^ Suc d = 2 ^ h\<close> by simp
      ultimately show ?thesis by blast
    next
      case ne: False
      obtain z where z: "y + 1 = 2 * z" using False by (metis even_plus_one_iff evenE)
      have zd: "z * 2 ^ Suc d = (y + 1) * 2 ^ d" unfolding z by simp
      have "parentof (rightneighbor (y - 1)) = z - 1"
        using rightneighbor_eq [OF range] ne parentof_eq [of "2 * z"] two z by simp
      moreover have "(y + 1) * 2 ^ d \<noteq> 2 ^ Suc h" using ne unfolding top mult_cancel2 by simp
      then have "at_level h (Suc d) z"
        using at_level_end [OF lev] lev d unfolding at_level_def zd by simp
      moreover have "search_inv BLCKSZ h nodes m t (Suc d) z"
        using inv'(1) none unfolding search_inv_def zd by simp
      ultimately show ?thesis by blast
    qed
  qed
qed

lemma search_climb_finds:
  assumes cons: "fsm_consistent BLCKSZ nodes" and m: "0 < m" "m \<le> nodes ! 0"
  shows "at_level h d y \<Longrightarrow> search_inv BLCKSZ h nodes m t d y \<Longrightarrow> y - 1 < NodesPerPage BLCKSZ \<Longrightarrow>
    \<exists>d' y'. at_level h d' y' \<and> search_inv BLCKSZ h nodes m t d' y' \<and> m \<le> node_value BLCKSZ nodes y' \<and>
      search_climb nodes m (y - 1) = y' - 1"
proof (induction "h - d" arbitrary: d y)
  case 0
  then have "y = 1" by (auto simp: at_level_range)
  moreover have "node_value BLCKSZ nodes 1 = nodes ! 0" using size_bounds by (simp add: node_value_def)
  ultimately show ?case using 0 m by (intro exI [of _ d] exI [of _ 1]) (simp add: search_climb.simps)
next
  case (Suc k)
  have d: "d < h" using Suc.hyps(2) by simp
  have val: "node_value BLCKSZ nodes y = nodes ! (y - 1)" using Suc.prems(3) by (simp add: node_value_def)
  have "2 \<le> y" by (rule at_level_two [OF Suc.prems(1) d])
  then have unfold: "search_climb nodes m (y - 1) =
      (if m \<le> node_value BLCKSZ nodes y then y - 1
       else search_climb nodes m (parentof (rightneighbor (y - 1))))"
    unfolding val by (subst search_climb.simps) simp
  show ?case
  proof (cases "m \<le> node_value BLCKSZ nodes y")
    case True
    then show ?thesis using Suc.prems unfolding unfold by (intro exI [of _ d] exI [of _ y]) simp
  next
    case False
    then obtain z where z: "at_level h (Suc d) z" "search_inv BLCKSZ h nodes m t (Suc d) z"
      "parentof (rightneighbor (y - 1)) = z - 1"
      using climb_step [OF cons m(1) d Suc.prems(1,2)] by blast
    have "k = h - Suc d" using Suc.hyps(2) by simp
    moreover have "z - 1 < NodesPerPage BLCKSZ" using at_level_upper [OF z(1)] two_h by (simp add: sizes)
    moreover have "search_climb nodes m (y - 1) = search_climb nodes m (z - 1)"
      using False unfolding unfold z(3) by simp
    ultimately show ?thesis using Suc.hyps(1) [OF _ z(1,2)] by (simp only:)
  qed
qed

text \<open>From the first suitable node the descent ends at the first suitable leaf in cyclic order from
  the target.\<close>

lemma first_in_cyclic_order:
  assumes inv: "search_inv BLCKSZ h nodes m t d y" and t: "t \<le> LeafNodesPerPage BLCKSZ"
    and i: "i < LeafNodesPerPage BLCKSZ" "above_leaf h d y i" "m \<le> nodes ! (NonLeafNodesPerPage BLCKSZ + i)"
    and least: "\<forall>j < i. above_leaf h d y j \<longrightarrow> nodes ! (NonLeafNodesPerPage BLCKSZ + j) < m"
  shows "find (\<lambda>i. m \<le> nodes ! (NonLeafNodesPerPage BLCKSZ + i)) ([t..<LeafNodesPerPage BLCKSZ] @ [0..<t]) = Some i"
    (is "find ?P _ = _")
proof -
  have before: "\<not> ?P j" if "j < i" "y * 2 ^ d \<le> j + 2 ^ h" for j
    using least that i(2) by (auto simp: above_leaf_def not_le)
  from inv consider
      (ahead) "t + 2 ^ h \<le> y * 2 ^ d" "\<And>j. j < LeafNodesPerPage BLCKSZ \<Longrightarrow> t \<le> j \<Longrightarrow> j + 2 ^ h < y * 2 ^ d \<Longrightarrow> \<not> ?P j"
    | (wrapped) "y * 2 ^ d = 2 ^ h" "\<And>j. j < LeafNodesPerPage BLCKSZ \<Longrightarrow> t \<le> j \<Longrightarrow> \<not> ?P j"
    unfolding search_inv_def not_le by blast
  then show ?thesis
  proof cases
    case ahead
    have "t \<le> i" using ahead(1) i(2) by (simp add: above_leaf_def)
    moreover have "\<not> ?P j" if "t \<le> j" "j < i" for j
      using ahead(2) [of j] before [OF that(2)] that i(1) by (meson less_trans not_le)
    ultimately have "find ?P [t..<LeafNodesPerPage BLCKSZ] = Some i"
      unfolding find_upt_Some using i by blast
    then show ?thesis by (simp add: find_append)
  next
    case wrapped
    have "find ?P [t..<LeafNodesPerPage BLCKSZ] = None"
      unfolding find_upt_None using wrapped(2) by blast
    moreover have "i < t" using wrapped(2) [OF i(1)] i(3) by (meson not_le)
    then have "find ?P [0..<t] = Some i"
      unfolding find_upt_Some using i(3) before wrapped(1) by simp
    ultimately show ?thesis unfolding find_append by (simp only: option.case)
  qed
qed

lemma search_target_less: "search_target BLCKSZ page < LeafNodesPerPage BLCKSZ"
  using size_bounds(3) by (auto simp: search_target_def Let_def)

lemma search_consistent:
  assumes cons: "fsm_consistent BLCKSZ (fp_nodes page)" and small: "h \<le> 16"
  shows "fsm_search_avail BLCKSZ relock m advancenext exclusive page =
    Some (case find (\<lambda>i. m \<le> fsm_get_avail BLCKSZ page i)
                 ([search_target BLCKSZ page..<LeafNodesPerPage BLCKSZ] @ [0..<search_target BLCKSZ page]) of
            None \<Rightarrow> (-1, page)
          | Some i \<Rightarrow> (int i, page\<lparr>fp_next_slot := int i + (if advancenext then 1 else 0)\<rparr>))"
proof -
  let ?t = "search_target BLCKSZ page" and ?nodes = "fp_nodes page" and ?NL = "NonLeafNodesPerPage BLCKSZ"
  have found: "fsm_search_avail BLCKSZ relock m advancenext exclusive page =
      Some (int i, page\<lparr>fp_next_slot := int i + (if advancenext then 1 else 0)\<rparr>)"
    if "m \<le> ?nodes ! 0" "i < LeafNodesPerPage BLCKSZ"
      "search_descend BLCKSZ ?nodes m (search_climb ?nodes m (?t + ?NL)) = Some (?NL + i)" for i
  proof -
    have "i < 2 ^ 16"
      using that(2) power_increasing [OF small, of "2::nat"] by (simp add: sizes)
    then show ?thesis
      using that by (subst fsm_search_avail.simps) (simp add: Let_def not_less [symmetric])
  qed
  show ?thesis
  proof (cases "m = 0")
    case True
    have "search_climb ?nodes m (?t + ?NL) = ?t + ?NL"
      using True size_bounds(1) by (subst search_climb.simps) simp
    then have "fsm_search_avail BLCKSZ relock m advancenext exclusive page =
        Some (int ?t, page\<lparr>fp_next_slot := int ?t + (if advancenext then 1 else 0)\<rparr>)"
      using found [of ?t] True search_target_less by (simp add: add.commute)
    moreover have "find (\<lambda>i. m \<le> fsm_get_avail BLCKSZ page i) [?t..<LeafNodesPerPage BLCKSZ] = Some ?t"
      unfolding find_upt_Some using True search_target_less by simp
    ultimately show ?thesis by (simp add: find_append)
  next
    case False
    then have m: "0 < m" by (simp add: word_gt_0)
    show ?thesis
    proof (cases "m \<le> ?nodes ! 0")
      case True
      have "at_level h 0 (?t + 2 ^ h)"
        using search_target_less [of page] by (simp add: at_level_def sizes)
      moreover have "search_inv BLCKSZ h ?nodes m ?t 0 (?t + 2 ^ h)" by (simp add: search_inv_def)
      moreover have start: "?t + 2 ^ h - 1 = ?t + ?NL" "?t + ?NL < NodesPerPage BLCKSZ"
        using search_target_less [of page] size_bounds by (simp_all add: sizes)
      ultimately obtain d y where y: "at_level h d y" "search_inv BLCKSZ h ?nodes m ?t d y"
        "m \<le> node_value BLCKSZ ?nodes y" "search_climb ?nodes m (?t + ?NL) = y - 1"
        using search_climb_finds [OF cons m True, of 0 "?t + 2 ^ h" ?t] by auto
      then obtain i where i: "i < LeafNodesPerPage BLCKSZ" "above_leaf h d y i" "m \<le> ?nodes ! (?NL + i)"
        "\<forall>j < i. above_leaf h d y j \<longrightarrow> ?nodes ! (?NL + j) < m"
        "search_descend BLCKSZ ?nodes m (y - 1) = Some (?NL + i)"
        using search_descend_leftmost [OF cons m y(1,3)] by blast
      have "find (\<lambda>i. m \<le> fsm_get_avail BLCKSZ page i) ([?t..<LeafNodesPerPage BLCKSZ] @ [0..<?t]) = Some i"
        unfolding fsm_get_avail_def
        by (rule first_in_cyclic_order [OF y(2) _ i(1-4)]) (simp add: search_target_less less_imp_le)
      then show ?thesis using found [OF True i(1)] i(5) y(4) by simp
    next
      case False
      then have "\<not> m \<le> fsm_get_avail BLCKSZ page i" if "i < LeafNodesPerPage BLCKSZ" for i
        using root_has [OF cons m] that by (auto simp: fsm_get_avail_def)
      then have "find (\<lambda>i. m \<le> fsm_get_avail BLCKSZ page i) ([?t..<LeafNodesPerPage BLCKSZ] @ [0..<?t]) = None"
        using search_target_less [of page] unfolding find_None_iff by auto
      then show ?thesis
        using False by (subst fsm_search_avail.simps) (simp add: not_le)
    qed
  qed
qed

text \<open>On any page, consistent or torn, a slot that the search returns without restarting has enough
  space.\<close>

lemma search_climb_sound:
  "x < NodesPerPage BLCKSZ \<Longrightarrow> m \<le> nodes ! 0 \<Longrightarrow>
   search_climb nodes m x < NodesPerPage BLCKSZ \<and> m \<le> nodes ! search_climb nodes m x"
proof (induction x rule: less_induct)
  case (less x)
  show ?case
    using less parentof_rightneighbor_less [of x] less.IH [of "parentof (rightneighbor x)"]
    by (cases "x = 0"; cases "m \<le> nodes ! x") (simp_all add: search_climb.simps [of nodes m x] search_climb.simps [of nodes m 0])
qed

lemma search_descend_sound:
  "x < NodesPerPage BLCKSZ \<Longrightarrow> m \<le> nodes ! x \<Longrightarrow> search_descend BLCKSZ nodes m x = Some y \<Longrightarrow>
   NonLeafNodesPerPage BLCKSZ \<le> y \<and> y < NodesPerPage BLCKSZ \<and> m \<le> nodes ! y"
proof (induction "NonLeafNodesPerPage BLCKSZ - x" arbitrary: x rule: less_induct)
  case less
  show ?case
  proof (cases "x < NonLeafNodesPerPage BLCKSZ")
    case True
    then have "NonLeafNodesPerPage BLCKSZ - leftchild x < NonLeafNodesPerPage BLCKSZ - x"
      "NonLeafNodesPerPage BLCKSZ - (leftchild x + 1) < NonLeafNodesPerPage BLCKSZ - x"
      by (auto simp: leftchild_def)
    note IH = less.hyps [OF this(1)] less.hyps [OF this(2)]
    show ?thesis
      using less.prems(3) True IH by (subst (asm) search_descend.simps) (auto simp: Let_def split: if_splits)
  next
    case False
    then show ?thesis using less.prems by simp
  qed
qed

lemma search_any_page:
  assumes len: "length (fp_nodes page) = NodesPerPage BLCKSZ"
    and relock: "\<And>p. length (fp_nodes (relock p)) = length (fp_nodes p)" and small: "h \<le> 16"
  obtains slot page' where
    "fsm_search_avail BLCKSZ relock m advancenext exclusive page = Some (slot, page')"
    "slot = -1 \<and> fsm_get_max_avail page' < m \<or>
     0 \<le> slot \<and> slot < int (LeafNodesPerPage BLCKSZ) \<and> m \<le> fsm_get_avail BLCKSZ page' (nat slot) \<and>
     fp_next_slot page' = slot + (if advancenext then 1 else 0)"
    "length (fp_nodes page') = NodesPerPage BLCKSZ"
proof -
  let ?run = "\<lambda>r. \<exists>slot page'. r = Some (slot, page') \<and> length (fp_nodes page') = NodesPerPage BLCKSZ \<and>
    (slot = -1 \<and> fsm_get_max_avail page' < m \<or>
     0 \<le> slot \<and> slot < int (LeafNodesPerPage BLCKSZ) \<and> m \<le> fsm_get_avail BLCKSZ page' (nat slot) \<and>
     fp_next_slot page' = slot + (if advancenext then 1 else 0))"
  let ?nodes = "fp_nodes page" and ?NL = "NonLeafNodesPerPage BLCKSZ"
  have "?run (fsm_search_avail BLCKSZ relock m advancenext exclusive page)"
  proof (cases "fp_nodes page ! 0 < m")
    case True
    then show ?thesis using len by (subst fsm_search_avail.simps) (simp add: fsm_get_max_avail_def)
  next
    case False
    define start where "start = search_climb ?nodes m (search_target BLCKSZ page + ?NL)"
    have s: "start < NodesPerPage BLCKSZ" "m \<le> ?nodes ! start"
      unfolding start_def using search_climb_sound [of "search_target BLCKSZ page + ?NL" m ?nodes] False
        search_target_less [of page] size_bounds by auto
    show ?thesis
    proof (cases "search_descend BLCKSZ ?nodes m start")
      case (Some y)
      note y = search_descend_sound [OF s Some]
      obtain i where i: "y = ?NL + i" using y le_Suc_ex by blast
      then have "i < LeafNodesPerPage BLCKSZ" using y size_bounds(4) by simp
      moreover from this have "i < 2 ^ 16" using power_increasing [OF small, of "2::nat"] by (simp add: sizes)
      ultimately show ?thesis
        using y False Some [unfolded start_def] i len
        by (subst fsm_search_avail.simps) (simp add: Let_def fsm_get_avail_def)
    next
      case None
      define q where "q = snd (fsm_rebuild_page BLCKSZ (if exclusive then page else relock page))"
      have cons: "fsm_consistent BLCKSZ (fp_nodes q)"
        unfolding q_def using rebuild_page(1) len relock by (metis prod.collapse)
      then have lenq: "length (fp_nodes q) = NodesPerPage BLCKSZ" by (simp add: fsm_consistent_def)
      have "fsm_search_avail BLCKSZ relock m advancenext exclusive page =
          fsm_search_avail BLCKSZ relock m advancenext True q"
        using False None unfolding start_def q_def by (subst fsm_search_avail.simps) (simp add: Let_def)
      moreover have "?run (fsm_search_avail BLCKSZ relock m advancenext True q)"
      proof (cases "find (\<lambda>i. m \<le> fsm_get_avail BLCKSZ q i)
          ([search_target BLCKSZ q..<LeafNodesPerPage BLCKSZ] @ [0..<search_target BLCKSZ q])")
        case None
        then have "\<not> m \<le> fsm_get_avail BLCKSZ q i" if "i < LeafNodesPerPage BLCKSZ" for i
          using that unfolding find_None_iff by (metis UnCI atLeastLessThan_iff le0 not_le set_append set_upt)
        moreover have "0 < m"
          using calculation [of 0] size_bounds(3) by (cases "m = 0") (simp_all add: word_gt_0)
        ultimately have "fsm_get_max_avail q < m"
          using root_has [OF cons, of m] unfolding fsm_get_max_avail_def fsm_get_avail_def by (meson not_le)
        then show ?thesis unfolding search_consistent [OF cons small] None using lenq by simp
      next
        case (Some i)
        then have "m \<le> fsm_get_avail BLCKSZ q i" "i < LeafNodesPerPage BLCKSZ"
          using search_target_less [of q] find_SomeD [OF Some] by auto
        then show ?thesis
          unfolding search_consistent [OF cons small] Some using lenq by (simp add: fsm_get_avail_def)
      qed
      ultimately show ?thesis by simp
    qed
  qed
  then show ?thesis using that by blast
qed

lemma set_avail:
  assumes len: "length (fp_nodes page) = NodesPerPage BLCKSZ" and slot: "slot < LeafNodesPerPage BLCKSZ"
    and set: "fsm_set_avail BLCKSZ page slot value = (changed, page')"
  shows "length (fp_nodes page') = NodesPerPage BLCKSZ"
    and "i < LeafNodesPerPage BLCKSZ \<Longrightarrow>
      fsm_get_avail BLCKSZ page' i = (if i = slot then value else fsm_get_avail BLCKSZ page i)"
    and "value \<le> fsm_get_max_avail page'"
    and "fsm_consistent BLCKSZ (fp_nodes page) \<Longrightarrow> fsm_consistent BLCKSZ (fp_nodes page')"
    and "\<not> changed \<Longrightarrow> page' = page"
proof -
  let ?NL = "NonLeafNodesPerPage BLCKSZ" and ?n = "NonLeafNodesPerPage BLCKSZ + slot"
  define page1 where "page1 = page\<lparr>fp_nodes := propagate_up BLCKSZ ((fp_nodes page)[?n := value]) ?n\<rparr>"
  have n: "?n < NodesPerPage BLCKSZ" "0 < ?n" using slot size_bounds by auto
  have parent: "parentof ?n < ?NL" using slot by (auto simp: parentof_def sizes)
  have leaf1: "fp_nodes page1 ! (?NL + i) = (if i = slot then value else fp_nodes page ! (?NL + i))" for i
    using n len parent by (simp add: page1_def propagate_up_other)
  have len1: "length (fp_nodes page1) = NodesPerPage BLCKSZ" using len by (simp add: page1_def)
  have cons1: "fsm_consistent BLCKSZ (fp_nodes page1)" if "fsm_consistent BLCKSZ (fp_nodes page)"
    unfolding page1_def
  proof (simp, rule propagate_up_consistent)
    fix x assume "x < ?NL" "x \<noteq> parentof ?n"
    then have "leftchild x \<noteq> ?n" "rightchild x \<noteq> ?n" by (auto simp: leftchild_def rightchild_def parentof_def)
    then show "(fp_nodes page)[?n := value] ! x = children_max BLCKSZ ((fp_nodes page)[?n := value]) x"
      using that \<open>x < ?NL\<close> by (simp add: children_max_update fsm_consistent_def)
  qed (use n len in auto)
  define page2 where "page2 = snd (fsm_rebuild_page BLCKSZ page1)"
  have reb: "fsm_rebuild_page BLCKSZ page1 = (fst (fsm_rebuild_page BLCKSZ page1), page2)"
    by (simp add: page2_def)
  note reb = rebuild_page [OF len1 reb]
  have eq: "fsm_set_avail BLCKSZ page slot value =
      (if fp_nodes page ! ?n = value \<and> value \<le> fp_nodes page ! 0 then (False, page)
       else if value > fp_nodes page1 ! 0 then (True, page2) else (True, page1))"
    unfolding fsm_set_avail_def Let_def page1_def page2_def by (rule refl)
  have "length (fp_nodes page') = NodesPerPage BLCKSZ \<and>
    (\<forall>i. fsm_get_avail BLCKSZ page' i = (if i = slot then value else fsm_get_avail BLCKSZ page i)) \<and>
    value \<le> fsm_get_max_avail page' \<and>
    (fsm_consistent BLCKSZ (fp_nodes page) \<longrightarrow> fsm_consistent BLCKSZ (fp_nodes page')) \<and>
    (\<not> changed \<longrightarrow> page' = page)"
  proof (cases "fp_nodes page ! ?n = value \<and> value \<le> fp_nodes page ! 0")
    case True
    then have "page' = page" using set by (simp add: eq)
    then show ?thesis using True len by (simp add: fsm_get_avail_def fsm_get_max_avail_def)
  next
    case not_same: False
    show ?thesis
    proof (cases "value > fp_nodes page1 ! 0")
      case False
      then have "page' = page1" "changed" using not_same set by (auto simp: eq)
      then show ?thesis using False len1 leaf1 cons1 by (simp add: fsm_get_avail_def fsm_get_max_avail_def)
    next
      case True
      then have rebuilt: "page' = page2" "changed" using not_same set by (auto simp: eq)
      have "value \<le> fp_nodes page2 ! 0"
      using leaf_le_root [OF reb(1) slot] reb(2) [of ?n] leaf1 [of slot] by simp
    moreover have "length (fp_nodes page2) = NodesPerPage BLCKSZ" using reb(1) by (simp add: fsm_consistent_def)
    ultimately show ?thesis
      using rebuilt reb(1,2) leaf1 by (simp add: fsm_get_avail_def fsm_get_max_avail_def)
    qed
  qed
  then show "length (fp_nodes page') = NodesPerPage BLCKSZ"
    and "i < LeafNodesPerPage BLCKSZ \<Longrightarrow>
      fsm_get_avail BLCKSZ page' i = (if i = slot then value else fsm_get_avail BLCKSZ page i)"
    and "value \<le> fsm_get_max_avail page'"
    and "fsm_consistent BLCKSZ (fp_nodes page) \<Longrightarrow> fsm_consistent BLCKSZ (fp_nodes page')"
    and "\<not> changed \<Longrightarrow> page' = page"
    by blast+
qed

lemma truncate_fold:
  "hi \<le> length nodes \<Longrightarrow>
   fold truncate_leaf [lo..<hi] (nodes, changed) =
     (map (\<lambda>i. if lo \<le> i \<and> i < hi then 0 else nodes ! i) [0..<length nodes],
      changed \<or> (\<exists>i. lo \<le> i \<and> i < hi \<and> nodes ! i \<noteq> 0))"
proof (induction hi)
  case 0
  then show ?case by (simp add: map_nth)
next
  case (Suc hi)
  show ?case
  proof (cases "lo \<le> hi")
    case True
    have "(map (\<lambda>i. if lo \<le> i \<and> i < hi then 0 else nodes ! i) [0..<length nodes])[hi := 0] =
        map (\<lambda>i. if lo \<le> i \<and> i < Suc hi then 0 else nodes ! i) [0..<length nodes]"
      using Suc.prems True by (intro nth_equalityI) (auto simp: nth_list_update)
    then show ?thesis
      using Suc True by (auto simp: truncate_leaf_def less_Suc_eq)
  next
    case False
    then show ?thesis by (auto simp: map_nth intro!: nth_equalityI)
  qed
qed

lemma truncate_avail:
  assumes len: "length (fp_nodes page) = NodesPerPage BLCKSZ" and nslots: "nslots < LeafNodesPerPage BLCKSZ"
    and trunc: "fsm_truncate_avail BLCKSZ page nslots = (changed, page')"
  shows "i < LeafNodesPerPage BLCKSZ \<Longrightarrow>
      fsm_get_avail BLCKSZ page' i = (if i < nslots then fsm_get_avail BLCKSZ page i else 0)"
    and "fsm_consistent BLCKSZ (fp_nodes page) \<Longrightarrow> fsm_consistent BLCKSZ (fp_nodes page')"
    and "\<not> changed \<Longrightarrow> page' = page"
proof -
  let ?NL = "NonLeafNodesPerPage BLCKSZ"
  define cleared where "cleared = map (\<lambda>i. if ?NL + nslots \<le> i \<and> i < NodesPerPage BLCKSZ then 0
    else fp_nodes page ! i) [0..<NodesPerPage BLCKSZ]"
  define page1 where "page1 = page\<lparr>fp_nodes := cleared\<rparr>"
  have len1: "length (fp_nodes page1) = NodesPerPage BLCKSZ" by (simp add: page1_def cleared_def)
  note reb = rebuild_page [OF len1 prod.collapse [symmetric]]
  define c where "c \<longleftrightarrow> (\<exists>i. ?NL + nslots \<le> i \<and> i < NodesPerPage BLCKSZ \<and> fp_nodes page ! i \<noteq> 0)"
  have "fold truncate_leaf [?NL + nslots..<NodesPerPage BLCKSZ] (fp_nodes page, False) = (cleared, c)"
    using truncate_fold [of "NodesPerPage BLCKSZ" "fp_nodes page" "?NL + nslots" False] len
    unfolding cleared_def c_def by (simp only: order_refl simp_thms)
  then have eq: "fsm_truncate_avail BLCKSZ page nslots =
      (c, if c then snd (fsm_rebuild_page BLCKSZ page1) else page1)"
    by (simp add: fsm_truncate_avail_def page1_def)
  have leaf1: "fp_nodes page1 ! (?NL + i) = (if i < nslots then fp_nodes page ! (?NL + i) else 0)"
    if "i < LeafNodesPerPage BLCKSZ" for i
    using that size_bounds(4) by (auto simp: page1_def cleared_def)
  have same: "page1 = page" if "\<not> c"
  proof -
    have "cleared = fp_nodes page"
      unfolding cleared_def using that len by (intro nth_equalityI) (auto simp: c_def)
    then show ?thesis by (simp add: page1_def)
  qed
  show "i < LeafNodesPerPage BLCKSZ \<Longrightarrow>
      fsm_get_avail BLCKSZ page' i = (if i < nslots then fsm_get_avail BLCKSZ page i else 0)"
    using trunc leaf1 reb(2) [of "?NL + i"] by (auto simp: eq Let_def fsm_get_avail_def split: if_splits)
  show "fsm_consistent BLCKSZ (fp_nodes page) \<Longrightarrow> fsm_consistent BLCKSZ (fp_nodes page')"
    using trunc same reb(1) by (auto simp: eq Let_def split: if_splits)
  show "\<not> changed \<Longrightarrow> page' = page"
    using trunc same by (auto simp: eq Let_def split: if_splits)
qed

end

text \<open>The default block size of the build, and the smallest one.\<close>

interpretation fsm_default: fsm_shape 32768 14
  by unfold_locales simp_all

interpretation fsm_small: fsm_shape 64 5
  by unfold_locales simp_all

section \<open>Properties\<close>

text \<open>C28: On a consistent page \<^verbatim>\<open>fsm_search_avail\<close> returns, without restarting, exactly what a
  linear scan would: the first slot with at least the requested space going right from
  \<^verbatim>\<open>fp_next_slot\<close> and wrapping around at the end of the page, or -1 when no slot has it. The
  climb to the right neighbour's parent and the leftmost descent, which look at a logarithmic number
  of nodes, never skip an earlier suitable slot.\<close>

theorem fsm_search_is_cyclic_scan:
  assumes "BLCKSZ = 2 ^ Suc h" "5 \<le> h" "h \<le> 16" "fsm_consistent BLCKSZ (fp_nodes page)"
  shows "fsm_search_avail BLCKSZ relock minvalue advancenext exclusive page =
    Some (case find (\<lambda>slot. minvalue \<le> fsm_get_avail BLCKSZ page slot)
                 ([search_target BLCKSZ page..<LeafNodesPerPage BLCKSZ] @ [0..<search_target BLCKSZ page]) of
            None \<Rightarrow> (-1, page)
          | Some slot \<Rightarrow> (int slot, page\<lparr>fp_next_slot := int slot + (if advancenext then 1 else 0)\<rparr>))"
  by (rule fsm_shape.search_consistent [OF fsm_shape.intro]) (use assms in auto)

text \<open>A page of the smallest size with five slots, of which only slot 3 has space.\<close>

definition sample_page :: FSMPageData where
  "sample_page = \<lparr>fp_next_slot = 4,
     fp_nodes = (replicate 36 0)[0 := 7, 1 := 7, 3 := 7, 7 := 7, 16 := 7, 34 := 7]\<rparr>"

lemma sample_page_consistent: "fsm_consistent 64 (fp_nodes sample_page)"
proof -
  have "list_all (\<lambda>x. fp_nodes sample_page ! x = children_max 64 (fp_nodes sample_page) x) [0..<31]"
    by code_simp
  then have "\<forall>x \<in> set [0..<31]. fp_nodes sample_page ! x = children_max 64 (fp_nodes sample_page) x"
    by (simp only: list_all_iff)
  then show ?thesis
    by (simp add: fsm_consistent_def NonLeafNodesPerPage_def NodesPerPage_def) (simp add: sample_page_def)
qed

theorem fsm_search_is_cyclic_scan_witness:
  "fsm_search_avail 64 id 6 True False sample_page = Some (3, sample_page\<lparr>fp_next_slot := 4\<rparr>)"
proof -
  have "find (\<lambda>slot. 6 \<le> fsm_get_avail 64 sample_page slot)
      ([search_target 64 sample_page..<LeafNodesPerPage 64] @ [0..<search_target 64 sample_page]) = Some 3"
    by code_simp
  then show ?thesis
    using fsm_search_is_cyclic_scan [of 64 5 sample_page id 6 True False] sample_page_consistent by simp
qed

text \<open>C29: On any page of the right size, torn or not, and whatever other backends did to the page
  while the lock was exchanged, \<^verbatim>\<open>fsm_search_avail\<close> returns (the \<^verbatim>\<open>goto restart\<close> loop ends,
  because a rebuilt page is consistent). If it returns a slot, the slot exists and has the
  requested space on the page it leaves, and \<^verbatim>\<open>fp_next_slot\<close> points to it or past it; if it
  returns -1 the root has less than the requested space.\<close>

theorem fsm_search_torn_page:
  assumes "BLCKSZ = 2 ^ Suc h" "5 \<le> h" "h \<le> 16" "length (fp_nodes page) = NodesPerPage BLCKSZ"
    "\<And>p. length (fp_nodes (relock p)) = length (fp_nodes p)"
  shows "\<exists>slot page'. fsm_search_avail BLCKSZ relock minvalue advancenext exclusive page = Some (slot, page') \<and>
    (slot = -1 \<and> fsm_get_max_avail page' < minvalue \<or>
     0 \<le> slot \<and> slot < int (LeafNodesPerPage BLCKSZ) \<and> minvalue \<le> fsm_get_avail BLCKSZ page' (nat slot) \<and>
     fp_next_slot page' = slot + (if advancenext then 1 else 0))"
  by (rule fsm_shape.search_any_page [OF fsm_shape.intro [of BLCKSZ h], of page relock minvalue advancenext exclusive])
     (use assms in auto)

theorem fsm_search_torn_page_witness:
  "\<exists>slot page'. fsm_search_avail 64 id 6 True False
       \<lparr>fp_next_slot = 0, fp_nodes = (replicate 36 0)[0 := 9]\<rparr> = Some (slot, page') \<and>
    (slot = -1 \<and> fsm_get_max_avail page' < 6 \<or>
     0 \<le> slot \<and> slot < int (LeafNodesPerPage 64) \<and> 6 \<le> fsm_get_avail 64 page' (nat slot) \<and>
     fp_next_slot page' = slot + (if True then 1 else 0))"
  by (rule fsm_search_torn_page [of 64 5]) (simp_all add: NodesPerPage_def)

text \<open>\<^verbatim>\<open>fsm_set_avail\<close> stores the value in its slot and in no other, keeps a consistent
  page consistent, returns false only when it changed nothing, and leaves the root at least as large
  as the value even if the page was inconsistent before.\<close>

theorem fsm_set_avail_correct:
  assumes "BLCKSZ = 2 ^ Suc h" "5 \<le> h" "length (fp_nodes page) = NodesPerPage BLCKSZ"
    "slot < LeafNodesPerPage BLCKSZ" "fsm_set_avail BLCKSZ page slot value = (changed, page')"
  shows "(\<forall>i < LeafNodesPerPage BLCKSZ.
       fsm_get_avail BLCKSZ page' i = (if i = slot then value else fsm_get_avail BLCKSZ page i)) \<and>
    value \<le> fsm_get_max_avail page' \<and>
    (fsm_consistent BLCKSZ (fp_nodes page) \<longrightarrow> fsm_consistent BLCKSZ (fp_nodes page')) \<and>
    (\<not> changed \<longrightarrow> page' = page)"
  using fsm_shape.set_avail [OF fsm_shape.intro [OF assms(1,2)] assms(3-5)] by blast

theorem fsm_set_avail_correct_witness:
  "let page' = snd (fsm_set_avail 64 sample_page 1 9)
   in fsm_get_avail 64 page' 1 = 9 \<and> fsm_get_avail 64 page' 3 = 7 \<and> fsm_consistent 64 (fp_nodes page')"
proof -
  have "length (fp_nodes sample_page) = NodesPerPage 64" "(1::nat) < LeafNodesPerPage 64" "(3::nat) < LeafNodesPerPage 64"
    by (simp_all add: sample_page_def NodesPerPage_def LeafNodesPerPage_def NonLeafNodesPerPage_def)
  moreover have "fsm_get_avail 64 sample_page 3 = 7" by code_simp
  ultimately show ?thesis
    using fsm_set_avail_correct [of 64 5 sample_page 1 9, OF _ _ _ _ prod.collapse [symmetric]]
      sample_page_consistent by (simp add: Let_def)
qed

text \<open>\<^verbatim>\<open>fsm_rebuild_page\<close> makes any page of the right size consistent without touching a
  leaf, and returns whether it changed a node; \<^verbatim>\<open>fsm_truncate_avail\<close> zeroes exactly the slots
  from the given one on and keeps consistency.\<close>

theorem fsm_rebuild_and_truncate_correct:
  assumes "BLCKSZ = 2 ^ Suc h" "5 \<le> h" "length (fp_nodes page) = NodesPerPage BLCKSZ"
    "nslots < LeafNodesPerPage BLCKSZ"
  shows "(case fsm_rebuild_page BLCKSZ page of (changed, page') \<Rightarrow>
       fsm_consistent BLCKSZ (fp_nodes page') \<and>
       (\<forall>slot. fsm_get_avail BLCKSZ page' slot = fsm_get_avail BLCKSZ page slot) \<and>
       (changed \<longleftrightarrow> fp_nodes page' \<noteq> fp_nodes page)) \<and>
    (case fsm_truncate_avail BLCKSZ page nslots of (changed, page') \<Rightarrow>
       (\<forall>slot < LeafNodesPerPage BLCKSZ.
          fsm_get_avail BLCKSZ page' slot = (if slot < nslots then fsm_get_avail BLCKSZ page slot else 0)) \<and>
       (fsm_consistent BLCKSZ (fp_nodes page) \<longrightarrow> fsm_consistent BLCKSZ (fp_nodes page')))"
proof -
  note shape = fsm_shape.intro [OF assms(1,2)]
  show ?thesis
    using fsm_shape.rebuild_page [OF shape assms(3) prod.collapse [symmetric]]
      fsm_shape.truncate_avail [OF shape assms(3,4) prod.collapse [symmetric]]
    by (auto simp: case_prod_beta fsm_get_avail_def)
qed

theorem fsm_rebuild_and_truncate_correct_witness:
  "fsm_consistent 64 (fp_nodes (snd (fsm_rebuild_page 64 \<lparr>fp_next_slot = 0, fp_nodes = replicate 36 5\<rparr>))) \<and>
   fsm_get_avail 64 (snd (fsm_truncate_avail 64 \<lparr>fp_next_slot = 0, fp_nodes = replicate 36 5\<rparr> 2)) 3 = 0"
  using fsm_rebuild_and_truncate_correct [of 64 5 "\<lparr>fp_next_slot = 0, fp_nodes = replicate 36 5\<rparr>" 2]
  by (simp add: NodesPerPage_def LeafNodesPerPage_def NonLeafNodesPerPage_def case_prod_beta)

end
