(* ===== verification/FreeSpaceMap.thy ===== *)
theory FreeSpaceMap
  imports FsmPage
begin

text \<open>The free space map of a relation, \<^verbatim>\<open>src/backend/storage/freespace/freespace.c\<close>: a tree
  of pages whose nodes are the pages of \<^verbatim>\<open>FsmPage\<close>, kept in a fork of the relation in
  depth-first order.

  The fork is the list of its blocks as the buffer manager shows them, with the flag whether its file
  exists and the size cached in \<^verbatim>\<open>smgr_cached_nblocks\<close>, where \<open>None\<close> is
  \<^verbatim>\<open>InvalidBlockNumber\<close>. Heap block numbers are 32-bit words, so that a number that does not
  fit wraps around; levels, page numbers and blocks of the fork are natural numbers, for which the
  bounds are proved. A search that never ends has the outer value \<open>None\<close>, an error of the storage
  manager the value \<open>Inl\<close>.

  Other backends act through three arguments: \<open>relock\<close> changes a page whose lock
  \<^verbatim>\<open>fsm_search_avail\<close> exchanges, and \<open>others_before\<close> and \<open>others_between\<close> change the fork before a
  page is read in \<^verbatim>\<open>fsm_search\<close> and between the failure on a page and the update of its
  parent. The two are given the number of restarts and the level, which no two iterations share.\<close>

section \<open>The fork and its storage manager\<close>

type_synonym BlockNumber = uint32

definition InvalidBlockNumber :: BlockNumber where
  "InvalidBlockNumber = 0xFFFFFFFF"

record fsm_block =
  PageIsNew :: bool
  PageGetContents :: FSMPageData

record fsm_rel =
  smgr_exists :: bool
  fsm_blocks :: "fsm_block list"
  smgr_cached_nblocks :: "nat option"

record fsm_env =
  blcksz :: nat
  InRecovery :: bool
  relock :: "FSMPageData \<Rightarrow> FSMPageData"
  others_before :: "nat \<Rightarrow> nat \<Rightarrow> fsm_rel \<Rightarrow> fsm_rel"
  others_between :: "nat \<Rightarrow> nat \<Rightarrow> fsm_rel \<Rightarrow> fsm_rel"

definition zero_contents :: "nat \<Rightarrow> FSMPageData" where
  "zero_contents BLCKSZ = \<lparr>fp_next_slot = 0, fp_nodes = replicate (NodesPerPage BLCKSZ) 0\<rparr>"

definition PageInit :: "nat \<Rightarrow> fsm_block" where
  "PageInit BLCKSZ = \<lparr>PageIsNew = False, PageGetContents = zero_contents BLCKSZ\<rparr>"

text \<open>A block of zeroes, as a hole of the file reads.\<close>

definition zero_block :: "nat \<Rightarrow> fsm_block" where
  "zero_block BLCKSZ = \<lparr>PageIsNew = True, PageGetContents = zero_contents BLCKSZ\<rparr>"

definition smgrnblocks_cached :: "fsm_env \<Rightarrow> fsm_rel \<Rightarrow> nat option" where
  "smgrnblocks_cached env rel =
     (if InRecovery env \<and> smgr_cached_nblocks rel \<noteq> None then smgr_cached_nblocks rel else None)"

definition smgrnblocks :: "fsm_env \<Rightarrow> fsm_rel \<Rightarrow> (nat \<times> fsm_rel) result" where
  "smgrnblocks env rel =
     (case smgrnblocks_cached env rel of
        Some n \<Rightarrow> Inr (n, rel)
      | None \<Rightarrow>
          if smgr_exists rel
          then Inr (length (fsm_blocks rel), rel\<lparr>smgr_cached_nblocks := Some (length (fsm_blocks rel))\<rparr>)
          else Inl (ERROR ''could not open file''))"

text \<open>\<^verbatim>\<open>smgrextend\<close> writes at or beyond the end; what lies between becomes zeroes.\<close>

definition smgrextend :: "fsm_env \<Rightarrow> nat \<Rightarrow> fsm_block \<Rightarrow> fsm_rel \<Rightarrow> fsm_rel" where
  "smgrextend env blocknum block rel =
     (let blocks = fsm_blocks rel @ replicate (Suc blocknum - length (fsm_blocks rel)) (zero_block (blcksz env));
          rel = rel\<lparr>fsm_blocks := blocks[blocknum := block]\<rparr>
      in rel\<lparr>smgr_cached_nblocks :=
           (if smgr_cached_nblocks rel = Some blocknum then Some (blocknum + 1) else None)\<rparr>)"

definition smgrtruncate :: "nat \<Rightarrow> fsm_rel \<Rightarrow> fsm_rel" where
  "smgrtruncate nblocks rel =
     rel\<lparr>fsm_blocks := take nblocks (fsm_blocks rel), smgr_cached_nblocks := Some nblocks\<rparr>"

text \<open>The contents of a page whose buffer is pinned, and an assignment to them.\<close>

definition get_page :: "fsm_rel \<Rightarrow> nat \<Rightarrow> FSMPageData" where
  "get_page rel blkno = PageGetContents (fsm_blocks rel ! blkno)"

definition put_page :: "fsm_rel \<Rightarrow> nat \<Rightarrow> FSMPageData \<Rightarrow> fsm_rel" where
  "put_page rel blkno page =
     rel\<lparr>fsm_blocks := (fsm_blocks rel)[blkno := (fsm_blocks rel ! blkno)\<lparr>PageGetContents := page\<rparr>]\<rparr>"

section \<open>Categories of free space\<close>

definition FSM_CAT_STEP :: "nat \<Rightarrow> nat" where
  "FSM_CAT_STEP BLCKSZ = BLCKSZ div 256"

text \<open>\<^verbatim>\<open>MaxHeapTupleSize\<close>: the page header and one item identifier take 28 bytes, aligned 32.\<close>

definition MaxFSMRequestSize :: "nat \<Rightarrow> nat" where
  "MaxFSMRequestSize BLCKSZ = BLCKSZ - 32"

definition fsm_space_avail_to_cat :: "nat \<Rightarrow> nat \<Rightarrow> uint8" where
  "fsm_space_avail_to_cat BLCKSZ avail =
     (if avail \<ge> MaxFSMRequestSize BLCKSZ then 255
      else let cat = avail div FSM_CAT_STEP BLCKSZ
           in word_of_nat (if cat > 254 then 254 else cat))"

definition fsm_space_cat_to_avail :: "nat \<Rightarrow> uint8 \<Rightarrow> nat" where
  "fsm_space_cat_to_avail BLCKSZ cat =
     (if cat = 255 then MaxFSMRequestSize BLCKSZ else unat cat * FSM_CAT_STEP BLCKSZ)"

definition fsm_space_needed_to_cat :: "nat \<Rightarrow> nat \<Rightarrow> uint8 result" where
  "fsm_space_needed_to_cat BLCKSZ needed =
     (if needed > MaxFSMRequestSize BLCKSZ then Inl (ERROR ''invalid FSM request size'')
      else if needed = 0 then Inr 1
      else let cat = (needed + FSM_CAT_STEP BLCKSZ - 1) div FSM_CAT_STEP BLCKSZ
           in Inr (word_of_nat (if cat > 255 then 255 else cat)))"

section \<open>Addresses\<close>

definition FSM_TREE_DEPTH :: "nat \<Rightarrow> nat" where
  "FSM_TREE_DEPTH BLCKSZ = (if LeafNodesPerPage BLCKSZ \<ge> 1626 then 3 else 4)"

definition FSM_ROOT_LEVEL :: "nat \<Rightarrow> nat" where
  "FSM_ROOT_LEVEL BLCKSZ = FSM_TREE_DEPTH BLCKSZ - 1"

record FSMAddress =
  level :: nat
  logpageno :: nat

definition FSM_ROOT_ADDRESS :: "nat \<Rightarrow> FSMAddress" where
  "FSM_ROOT_ADDRESS BLCKSZ = \<lparr>level = FSM_ROOT_LEVEL BLCKSZ, logpageno = 0\<rparr>"

text \<open>The two loops: the first multiplies down to the leaf level, the second counts the pages up to
  the first leaf page below the address, one level at a time.\<close>

definition fsm_logical_to_physical :: "nat \<Rightarrow> FSMAddress \<Rightarrow> nat" where
  "fsm_logical_to_physical BLCKSZ addr =
     (let leafno = fold (\<lambda>_ leafno. leafno * LeafNodesPerPage BLCKSZ) [0..<level addr] (logpageno addr);
          (pages, leafno) =
            fold (\<lambda>_ (pages, leafno). (pages + leafno + 1, leafno div LeafNodesPerPage BLCKSZ))
              [0..<FSM_TREE_DEPTH BLCKSZ] (0, leafno);
          pages = pages - level addr
      in pages - 1)"

definition fsm_get_location :: "nat \<Rightarrow> BlockNumber \<Rightarrow> FSMAddress \<times> nat" where
  "fsm_get_location BLCKSZ heapblk =
     (\<lparr>level = 0, logpageno = unat heapblk div LeafNodesPerPage BLCKSZ\<rparr>,
      unat heapblk mod LeafNodesPerPage BLCKSZ)"

definition fsm_get_heap_blk :: "nat \<Rightarrow> FSMAddress \<Rightarrow> nat \<Rightarrow> BlockNumber" where
  "fsm_get_heap_blk BLCKSZ addr slot = word_of_nat (logpageno addr * LeafNodesPerPage BLCKSZ + slot)"

definition fsm_get_parent :: "nat \<Rightarrow> FSMAddress \<Rightarrow> FSMAddress \<times> nat" where
  "fsm_get_parent BLCKSZ child =
     (\<lparr>level = level child + 1, logpageno = logpageno child div LeafNodesPerPage BLCKSZ\<rparr>,
      logpageno child mod LeafNodesPerPage BLCKSZ)"

definition fsm_get_child :: "nat \<Rightarrow> FSMAddress \<Rightarrow> nat \<Rightarrow> FSMAddress" where
  "fsm_get_child BLCKSZ parent slot =
     \<lparr>level = level parent - 1, logpageno = logpageno parent * LeafNodesPerPage BLCKSZ + slot\<rparr>"

section \<open>Reading and extending the fork\<close>

definition smgrcreate :: "fsm_rel \<Rightarrow> fsm_rel" where
  "smgrcreate rel = rel\<lparr>smgr_exists := True\<rparr>"

definition fsm_extend :: "fsm_env \<Rightarrow> fsm_rel \<Rightarrow> nat \<Rightarrow> fsm_rel result" where
  "fsm_extend env rel fsm_nblocks =
     (let rel = (if (smgr_cached_nblocks rel = Some 0 \<or> smgr_cached_nblocks rel = None) \<and> \<not> smgr_exists rel
                 then smgrcreate rel else rel);
          rel = rel\<lparr>smgr_cached_nblocks := None\<rparr>
      in case smgrnblocks env rel of
           Inl e \<Rightarrow> Inl e
         | Inr (fsm_nblocks_now, rel) \<Rightarrow>
             Inr (fold (\<lambda>blkno rel. smgrextend env blkno (PageInit (blcksz env)) rel)
                    [fsm_nblocks_now..<fsm_nblocks] rel))"

text \<open>\<^verbatim>\<open>ReadBufferExtended\<close> in mode \<^verbatim>\<open>RBM_ZERO_ON_ERROR\<close>: a block past the end of the
  file cannot be read; a damaged one is shown as a block of zeroes.\<close>

definition ReadBufferExtended :: "fsm_rel \<Rightarrow> nat \<Rightarrow> nat result" where
  "ReadBufferExtended rel blkno =
     (if blkno < length (fsm_blocks rel) then Inr blkno
      else Inl (ERROR ''could not read block''))"

definition init_if_new :: "nat \<Rightarrow> fsm_rel \<Rightarrow> nat \<Rightarrow> fsm_rel" where
  "init_if_new BLCKSZ rel buf =
     (if PageIsNew (fsm_blocks rel ! buf)
      then rel\<lparr>fsm_blocks := (fsm_blocks rel)[buf := PageInit BLCKSZ]\<rparr> else rel)"

definition refresh_nblocks :: "fsm_env \<Rightarrow> nat \<Rightarrow> fsm_rel \<Rightarrow> fsm_rel result" where
  "refresh_nblocks env blkno rel =
     (if (case smgr_cached_nblocks rel of None \<Rightarrow> True | Some n \<Rightarrow> blkno \<ge> n)
      then let rel = rel\<lparr>smgr_cached_nblocks := None\<rparr>
           in if smgr_exists rel
              then (case smgrnblocks env rel of Inl e \<Rightarrow> Inl e | Inr (_, rel) \<Rightarrow> Inr rel)
              else Inr (rel\<lparr>smgr_cached_nblocks := Some 0\<rparr>)
      else Inr rel)"

text \<open>The result is the buffer, \<open>None\<close> for \<^verbatim>\<open>InvalidBuffer\<close>, and the fork.\<close>

definition fsm_readbuf :: "fsm_env \<Rightarrow> fsm_rel \<Rightarrow> FSMAddress \<Rightarrow> bool \<Rightarrow> (nat option \<times> fsm_rel) result" where
  "fsm_readbuf env rel addr extend_p =
     (let blkno = fsm_logical_to_physical (blcksz env) addr
      in case refresh_nblocks env blkno rel of
           Inl e \<Rightarrow> Inl e
         | Inr rel \<Rightarrow>
             let beyond_eof = (case smgr_cached_nblocks rel of None \<Rightarrow> False | Some n \<Rightarrow> blkno \<ge> n)
             in if beyond_eof \<and> \<not> extend_p then Inr (None, rel)
                else case (if beyond_eof then fsm_extend env rel (blkno + 1) else Inr rel) of
                       Inl e \<Rightarrow> Inl e
                     | Inr rel \<Rightarrow>
                         (case ReadBufferExtended rel blkno of
                            Inl e \<Rightarrow> Inl e
                          | Inr buf \<Rightarrow> Inr (Some buf, init_if_new (blcksz env) rel buf)))"

section \<open>Recording and searching\<close>

text \<open>With \<^verbatim>\<open>extend\<close> true the buffer is always valid.\<close>

definition fsm_set_and_search ::
  "fsm_env \<Rightarrow> fsm_rel \<Rightarrow> FSMAddress \<Rightarrow> nat \<Rightarrow> uint8 \<Rightarrow> uint8 \<Rightarrow> (int \<times> fsm_rel) result option" where
  "fsm_set_and_search env rel addr slot newValue minValue =
     (case fsm_readbuf env rel addr True of
        Inl e \<Rightarrow> Some (Inl e)
      | Inr (None, rel) \<Rightarrow> Some (Inr (-1, rel))
      | Inr (Some buf, rel) \<Rightarrow>
          let (changed, page) = fsm_set_avail (blcksz env) (get_page rel buf) slot newValue;
              rel = put_page rel buf page
          in if minValue \<noteq> 0
             then (case fsm_search_avail (blcksz env) (relock env) minValue (level addr = 0) True page of
                     None \<Rightarrow> None
                   | Some (newslot, page) \<Rightarrow> Some (Inr (newslot, put_page rel buf page)))
             else Some (Inr (-1, rel)))"

text \<open>The search within one page in \<^verbatim>\<open>fsm_search\<close>: the slot, or -1, and in that case the
  largest value of the page.\<close>

definition search_page ::
  "fsm_env \<Rightarrow> uint8 \<Rightarrow> FSMAddress \<Rightarrow> fsm_rel \<Rightarrow> (int \<times> uint8 \<times> fsm_rel) result option" where
  "search_page env min_cat addr rel =
     (case fsm_readbuf env rel addr False of
        Inl e \<Rightarrow> Some (Inl e)
      | Inr (None, rel) \<Rightarrow> Some (Inr (-1, 0, rel))
      | Inr (Some buf, rel) \<Rightarrow>
          (case fsm_search_avail (blcksz env) (relock env) min_cat (level addr = 0) False (get_page rel buf) of
             None \<Rightarrow> None
           | Some (slot, page) \<Rightarrow>
               Some (Inr (slot, if slot = -1 then fsm_get_max_avail page else 0, put_page rel buf page))))"

text \<open>The loop of \<^verbatim>\<open>fsm_search\<close>, entered with the number of restarts so far and the address
  of the page to look at.\<close>

function search_from ::
  "fsm_env \<Rightarrow> uint8 \<Rightarrow> nat \<Rightarrow> FSMAddress \<Rightarrow> fsm_rel \<Rightarrow> (BlockNumber \<times> fsm_rel) result option" where
  "search_from env min_cat restarts addr rel =
     (case search_page env min_cat addr (others_before env restarts (level addr) rel) of
        None \<Rightarrow> None
      | Some (Inl e) \<Rightarrow> Some (Inl e)
      | Some (Inr (slot, max_avail, rel)) \<Rightarrow>
          if slot \<noteq> -1
          then if level addr = 0
               then Some (Inr (fsm_get_heap_blk (blcksz env) addr (nat slot), rel))
               else search_from env min_cat restarts (fsm_get_child (blcksz env) addr (nat slot)) rel
          else if level addr = FSM_ROOT_LEVEL (blcksz env)
          then Some (Inr (InvalidBlockNumber, rel))
          else let (parent, parentslot) = fsm_get_parent (blcksz env) addr
               in case fsm_set_and_search env (others_between env restarts (level addr) rel)
                         parent parentslot max_avail 0 of
                    None \<Rightarrow> None
                  | Some (Inl e) \<Rightarrow> Some (Inl e)
                  | Some (Inr (_, rel)) \<Rightarrow>
                      if restarts > 10000 then Some (Inr (InvalidBlockNumber, rel))
                      else search_from env min_cat (restarts + 1) (FSM_ROOT_ADDRESS (blcksz env)) rel)"
  by pat_completeness auto
termination
  by (relation "measures [\<lambda>(env, min_cat, restarts, addr, rel). 10001 - restarts,
                          \<lambda>(env, min_cat, restarts, addr, rel). level addr]")
     (auto simp: fsm_get_child_def)

declare search_from.simps [simp del]

definition fsm_search :: "fsm_env \<Rightarrow> fsm_rel \<Rightarrow> uint8 \<Rightarrow> (BlockNumber \<times> fsm_rel) result option" where
  "fsm_search env rel min_cat = search_from env min_cat 0 (FSM_ROOT_ADDRESS (blcksz env)) rel"

definition GetPageWithFreeSpace ::
  "fsm_env \<Rightarrow> fsm_rel \<Rightarrow> nat \<Rightarrow> (BlockNumber \<times> fsm_rel) result option" where
  "GetPageWithFreeSpace env rel spaceNeeded =
     (case fsm_space_needed_to_cat (blcksz env) spaceNeeded of
        Inl e \<Rightarrow> Some (Inl e)
      | Inr min_cat \<Rightarrow> fsm_search env rel min_cat)"

definition RecordAndGetPageWithFreeSpace ::
  "fsm_env \<Rightarrow> fsm_rel \<Rightarrow> BlockNumber \<Rightarrow> nat \<Rightarrow> nat \<Rightarrow> (BlockNumber \<times> fsm_rel) result option" where
  "RecordAndGetPageWithFreeSpace env rel oldPage oldSpaceAvail spaceNeeded =
     (let old_cat = fsm_space_avail_to_cat (blcksz env) oldSpaceAvail
      in case fsm_space_needed_to_cat (blcksz env) spaceNeeded of
           Inl e \<Rightarrow> Some (Inl e)
         | Inr search_cat \<Rightarrow>
             let (addr, slot) = fsm_get_location (blcksz env) oldPage
             in case fsm_set_and_search env rel addr slot old_cat search_cat of
                  None \<Rightarrow> None
                | Some (Inl e) \<Rightarrow> Some (Inl e)
                | Some (Inr (search_slot, rel)) \<Rightarrow>
                    if search_slot \<noteq> -1
                    then Some (Inr (fsm_get_heap_blk (blcksz env) addr (nat search_slot), rel))
                    else fsm_search env rel search_cat)"

definition RecordPageWithFreeSpace ::
  "fsm_env \<Rightarrow> fsm_rel \<Rightarrow> BlockNumber \<Rightarrow> nat \<Rightarrow> fsm_rel result option" where
  "RecordPageWithFreeSpace env rel heapBlk spaceAvail =
     (let new_cat = fsm_space_avail_to_cat (blcksz env) spaceAvail;
          (addr, slot) = fsm_get_location (blcksz env) heapBlk
      in case fsm_set_and_search env rel addr slot new_cat 0 of
           None \<Rightarrow> None
         | Some (Inl e) \<Rightarrow> Some (Inl e)
         | Some (Inr (_, rel)) \<Rightarrow> Some (Inr rel))"

text \<open>\<^verbatim>\<open>XLogReadBufferExtended\<close> in mode \<^verbatim>\<open>RBM_ZERO_ON_ERROR\<close>: the file is created if
  need be and extended with blocks of zeroes up to the one asked for.\<close>

definition XLogReadBufferExtended :: "fsm_env \<Rightarrow> fsm_rel \<Rightarrow> nat \<Rightarrow> (nat \<times> fsm_rel) result" where
  "XLogReadBufferExtended env rel blkno =
     (case smgrnblocks env (smgrcreate rel) of
        Inl e \<Rightarrow> Inl e
      | Inr (lastblock, rel) \<Rightarrow>
          let rel = fold (\<lambda>b rel. smgrextend env b (zero_block (blcksz env)) rel) [lastblock..<blkno + 1] rel
          in case ReadBufferExtended rel blkno of Inl e \<Rightarrow> Inl e | Inr buf \<Rightarrow> Inr (buf, rel))"

definition XLogRecordPageWithFreeSpace ::
  "fsm_env \<Rightarrow> fsm_rel \<Rightarrow> BlockNumber \<Rightarrow> nat \<Rightarrow> fsm_rel result" where
  "XLogRecordPageWithFreeSpace env rel heapBlk spaceAvail =
     (let new_cat = fsm_space_avail_to_cat (blcksz env) spaceAvail;
          (addr, slot) = fsm_get_location (blcksz env) heapBlk;
          blkno = fsm_logical_to_physical (blcksz env) addr
      in case XLogReadBufferExtended env rel blkno of
           Inl e \<Rightarrow> Inl e
         | Inr (buf, rel) \<Rightarrow>
             let rel = init_if_new (blcksz env) rel buf
             in Inr (put_page rel buf (snd (fsm_set_avail (blcksz env) (get_page rel buf) slot new_cat))))"

definition GetRecordedFreeSpace :: "fsm_env \<Rightarrow> fsm_rel \<Rightarrow> BlockNumber \<Rightarrow> (nat \<times> fsm_rel) result" where
  "GetRecordedFreeSpace env rel heapBlk =
     (let (addr, slot) = fsm_get_location (blcksz env) heapBlk
      in case fsm_readbuf env rel addr False of
           Inl e \<Rightarrow> Inl e
         | Inr (None, rel) \<Rightarrow> Inr (0, rel)
         | Inr (Some buf, rel) \<Rightarrow>
             let cat = fsm_get_avail (blcksz env) (get_page rel buf) slot
             in Inr (fsm_space_cat_to_avail (blcksz env) cat, rel))"

section \<open>Vacuum\<close>

text \<open>The loop that moves the location of a heap block up to the level of the page, and the slots of
  the page that cover the blocks from \<open>start\<close> to \<open>end - 1\<close>.\<close>

function climb_to :: "nat \<Rightarrow> nat \<Rightarrow> FSMAddress \<times> nat \<Rightarrow> FSMAddress \<times> nat" where
  "climb_to BLCKSZ target loc =
     (if level (fst loc) < target then climb_to BLCKSZ target (fsm_get_parent BLCKSZ (fst loc)) else loc)"
  by pat_completeness auto
termination
  by (relation "measure (\<lambda>(b, target, loc). target - level (fst loc))") (auto simp: fsm_get_parent_def)

declare climb_to.simps [simp del]

definition vacuum_start_slot :: "nat \<Rightarrow> FSMAddress \<Rightarrow> BlockNumber \<Rightarrow> nat" where
  "vacuum_start_slot BLCKSZ addr start =
     (let (fsm_start, fsm_start_slot) = climb_to BLCKSZ (level addr) (fsm_get_location BLCKSZ start)
      in if logpageno fsm_start = logpageno addr then fsm_start_slot
         else if logpageno fsm_start > logpageno addr then LeafNodesPerPage BLCKSZ
         else 0)"

definition vacuum_end_slot :: "nat \<Rightarrow> FSMAddress \<Rightarrow> BlockNumber \<Rightarrow> int" where
  "vacuum_end_slot BLCKSZ addr end =
     (let (fsm_end, fsm_end_slot) = climb_to BLCKSZ (level addr) (fsm_get_location BLCKSZ (end - 1))
      in if logpageno fsm_end = logpageno addr then int fsm_end_slot
         else if logpageno fsm_end > logpageno addr then int (LeafNodesPerPage BLCKSZ) - 1
         else -1)"

definition vacuum_slots :: "nat \<Rightarrow> FSMAddress \<Rightarrow> BlockNumber \<Rightarrow> BlockNumber \<Rightarrow> nat list" where
  "vacuum_slots BLCKSZ addr start end =
     [vacuum_start_slot BLCKSZ addr start..<nat (vacuum_end_slot BLCKSZ addr end + 1)]"

text \<open>The update of one slot, given what the visit of the child returned.\<close>

definition vacuum_slot :: "nat \<Rightarrow> nat \<Rightarrow> nat \<Rightarrow> uint8 \<times> bool \<times> fsm_rel \<Rightarrow> bool \<times> fsm_rel" where
  "vacuum_slot BLCKSZ buf slot visit =
     (let (child_avail, eof, rel) = visit
      in if fsm_get_avail BLCKSZ (get_page rel buf) slot \<noteq> child_avail
         then (eof, put_page rel buf (snd (fsm_set_avail BLCKSZ (get_page rel buf) slot child_avail)))
         else (eof, rel))"

text \<open>The result is the largest value of the page, the flag \<open>eof\<close> and the fork.\<close>

function fsm_vacuum_page ::
  "fsm_env \<Rightarrow> fsm_rel \<Rightarrow> FSMAddress \<Rightarrow> BlockNumber \<Rightarrow> BlockNumber \<Rightarrow> (uint8 \<times> bool \<times> fsm_rel) result" where
  "fsm_vacuum_page env rel addr start end =
     (case fsm_readbuf env rel addr False of
        Inl e \<Rightarrow> Inl e
      | Inr (None, rel) \<Rightarrow> Inr (0, True, rel)
      | Inr (Some buf, rel) \<Rightarrow>
          case (if level addr > 0
                then fold (\<lambda>slot st.
                         case st of
                           Inl e \<Rightarrow> Inl e
                         | Inr (eof, rel) \<Rightarrow>
                             (case (if \<not> eof then fsm_vacuum_page env rel (fsm_get_child (blcksz env) addr slot) start end
                                    else Inr (0, eof, rel)) of
                                Inl e \<Rightarrow> Inl e
                              | Inr visit \<Rightarrow> Inr (vacuum_slot (blcksz env) buf slot visit)))
                       (vacuum_slots (blcksz env) addr start end) (Inr (False, rel))
                else Inr (False, rel)) of
            Inl e \<Rightarrow> Inl e
          | Inr (_, rel) \<Rightarrow>
              Inr (fsm_get_max_avail (get_page rel buf), False,
                   put_page rel buf ((get_page rel buf)\<lparr>fp_next_slot := 0\<rparr>)))"
  by pat_completeness auto
termination
  by (relation "measure (\<lambda>(env, rel, addr, start, end). level addr)") (auto simp: fsm_get_child_def)

declare fsm_vacuum_page.simps [simp del]

definition FreeSpaceMapVacuum :: "fsm_env \<Rightarrow> fsm_rel \<Rightarrow> fsm_rel result" where
  "FreeSpaceMapVacuum env rel =
     (case fsm_vacuum_page env rel (FSM_ROOT_ADDRESS (blcksz env)) 0 InvalidBlockNumber of
        Inl e \<Rightarrow> Inl e
      | Inr (_, _, rel) \<Rightarrow> Inr rel)"

definition FreeSpaceMapVacuumRange :: "fsm_env \<Rightarrow> fsm_rel \<Rightarrow> BlockNumber \<Rightarrow> BlockNumber \<Rightarrow> fsm_rel result" where
  "FreeSpaceMapVacuumRange env rel start end =
     (if end > start
      then (case fsm_vacuum_page env rel (FSM_ROOT_ADDRESS (blcksz env)) start end of
              Inl e \<Rightarrow> Inl e
            | Inr (_, _, rel) \<Rightarrow> Inr rel)
      else Inr rel)"

section \<open>Truncation\<close>

text \<open>The result is the new number of blocks of the fork, \<open>None\<close> for
  \<^verbatim>\<open>InvalidBlockNumber\<close>. Write-ahead logging of the page is not modelled.\<close>

definition FreeSpaceMapPrepareTruncateRel ::
  "fsm_env \<Rightarrow> fsm_rel \<Rightarrow> BlockNumber \<Rightarrow> (nat option \<times> fsm_rel) result" where
  "FreeSpaceMapPrepareTruncateRel env rel nblocks =
     (if \<not> smgr_exists rel then Inr (None, rel)
      else
        let (first_removed_address, first_removed_slot) = fsm_get_location (blcksz env) nblocks
        in if first_removed_slot > 0
           then (case fsm_readbuf env rel first_removed_address False of
                   Inl e \<Rightarrow> Inl e
                 | Inr (None, rel) \<Rightarrow> Inr (None, rel)
                 | Inr (Some buf, rel) \<Rightarrow>
                     Inr (Some (fsm_logical_to_physical (blcksz env) first_removed_address + 1),
                          put_page rel buf
                            (snd (fsm_truncate_avail (blcksz env) (get_page rel buf) first_removed_slot))))
           else
             let new_nfsmblocks = fsm_logical_to_physical (blcksz env) first_removed_address
             in case smgrnblocks env rel of
                  Inl e \<Rightarrow> Inl e
                | Inr (n, rel) \<Rightarrow>
                    if n \<le> new_nfsmblocks then Inr (None, rel) else Inr (Some new_nfsmblocks, rel))"

text \<open>What \<^verbatim>\<open>RelationTruncate\<close> of \<^verbatim>\<open>src/backend/catalog/storage.c\<close> does to the map:
  before the truncation of the files, and from the truncation on.\<close>

definition truncate_prepare_fsm :: "fsm_env \<Rightarrow> fsm_rel \<Rightarrow> BlockNumber \<Rightarrow> (nat option \<times> fsm_rel) result" where
  "truncate_prepare_fsm env rel nblocks =
     (let rel = rel\<lparr>smgr_cached_nblocks := None\<rparr>
      in if smgr_exists rel then FreeSpaceMapPrepareTruncateRel env rel nblocks else Inr (None, rel))"

definition truncate_finish_fsm :: "fsm_env \<Rightarrow> fsm_rel \<Rightarrow> BlockNumber \<Rightarrow> nat option \<Rightarrow> fsm_rel result" where
  "truncate_finish_fsm env rel nblocks blocks =
     (case blocks of
        None \<Rightarrow> Inr rel
      | Some n \<Rightarrow> FreeSpaceMapVacuumRange env (smgrtruncate n rel) nblocks InvalidBlockNumber)"

definition RelationTruncate_fsm :: "fsm_env \<Rightarrow> fsm_rel \<Rightarrow> BlockNumber \<Rightarrow> fsm_rel result" where
  "RelationTruncate_fsm env rel nblocks =
     (case truncate_prepare_fsm env rel nblocks of
        Inl e \<Rightarrow> Inl e
      | Inr (blocks, rel) \<Rightarrow> truncate_finish_fsm env rel nblocks blocks)"

end
