(* ===== verification/FreeSpaceMapProps.thy ===== *)
theory FreeSpaceMapProps
  imports FreeSpaceMap
begin

text \<open>Correctness of the free space map: the arithmetic of its addresses, the abstract view of the
  fork as a list of pages that the operations refine, and the laws of recording and searching. The
  laws of the vacuum follow in \<^verbatim>\<open>FreeSpaceMapTree\<close>.\<close>

section \<open>Addresses\<close>

text \<open>The first leaf page below an address, and the count of the pages up to a leaf page.\<close>

definition first_leaf :: "nat \<Rightarrow> FSMAddress \<Rightarrow> nat" where
  "first_leaf S addr = logpageno addr * S ^ level addr"

definition pages_upto :: "nat \<Rightarrow> nat \<Rightarrow> nat \<Rightarrow> nat" where
  "pages_upto S D x = (\<Sum>i<D. x div S ^ i)"

lemma fold_times: "fold (\<lambda>_ x. x * (S::nat)) [0..<l] p = p * S ^ l"
  by (induction l) (simp_all add: ac_simps)

lemma fold_count:
  "fold (\<lambda>_ (pages, leafno). (pages + leafno + 1, leafno div (S::nat))) [0..<n] (a, x) =
     (a + pages_upto S n x + n, x div S ^ n)"
  by (induction n) (simp_all add: pages_upto_def div_mult2_eq [symmetric] ac_simps)

lemma logical_to_physical_eq:
  assumes "level addr < FSM_TREE_DEPTH B"
  shows "fsm_logical_to_physical B addr =
    pages_upto (LeafNodesPerPage B) (FSM_TREE_DEPTH B) (first_leaf (LeafNodesPerPage B) addr)
      + (FSM_ROOT_LEVEL B - level addr)"
  using assms unfolding fsm_logical_to_physical_def fold_times fold_count Let_def prod.case
  by (simp add: first_leaf_def FSM_ROOT_LEVEL_def)

lemma div_power_less:
  assumes "x < y" "(S::nat) ^ l dvd y" "i \<le> l" "0 < S"
  shows "x div S ^ i < y div S ^ i"
proof -
  have "S ^ i dvd y" by (rule dvd_trans [OF le_imp_power_dvd [OF assms(3)] assms(2)])
  then obtain k where k: "y = k * S ^ i" by (metis dvdE mult.commute)
  then have "x div S ^ i < k" using assms(1) less_mult_imp_div_less by blast
  then show ?thesis using k assms(4) by simp
qed

lemma pages_upto_less:
  assumes "x < y" "(S::nat) ^ l dvd y" "l < D" "0 < S"
  shows "pages_upto S D x + Suc l \<le> pages_upto S D y"
proof -
  have "x div S ^ i + (if i < Suc l then 1 else 0) \<le> y div S ^ i" for i
    using div_power_less [OF assms(1,2) _ assms(4), of i] div_le_mono [of x y "S ^ i"] assms(1)
    by (cases "i \<le> l") auto
  then have "(\<Sum>i<D. x div S ^ i + (if i < Suc l then 1 else 0)) \<le> (\<Sum>i<D. y div S ^ i)"
    by (intro sum_mono) blast
  moreover have "(\<Sum>i<D. if i < Suc l then 1 else 0) = Suc l"
  proof -
    have "{i. i < D \<and> i < Suc l} = {..<Suc l}" using assms(3) by auto
    then show ?thesis by (simp add: sum.If_cases Int_def)
  qed
  ultimately show ?thesis by (simp add: pages_upto_def sum.distrib)
qed

text \<open>Pages are stored in depth-first order.\<close>

lemma physical_less:
  assumes "level a < FSM_TREE_DEPTH B" "level b < FSM_TREE_DEPTH B" "0 < LeafNodesPerPage B"
    and "first_leaf (LeafNodesPerPage B) a < first_leaf (LeafNodesPerPage B) b \<or>
      first_leaf (LeafNodesPerPage B) a = first_leaf (LeafNodesPerPage B) b \<and> level b < level a"
  shows "fsm_logical_to_physical B a < fsm_logical_to_physical B b"
  using assms(4)
proof
  let ?S = "LeafNodesPerPage B"
  assume "first_leaf ?S a < first_leaf ?S b"
  then have "pages_upto ?S (FSM_TREE_DEPTH B) (first_leaf ?S a) + Suc (level b)
      \<le> pages_upto ?S (FSM_TREE_DEPTH B) (first_leaf ?S b)"
    using assms by (intro pages_upto_less) (auto simp: first_leaf_def)
  then show ?thesis using assms by (simp add: logical_to_physical_eq FSM_ROOT_LEVEL_def)
next
  assume "first_leaf (LeafNodesPerPage B) a = first_leaf (LeafNodesPerPage B) b \<and> level b < level a"
  then show ?thesis using assms(1,2) by (simp add: logical_to_physical_eq FSM_ROOT_LEVEL_def diff_less_mono2)
qed

lemma physical_inject:
  assumes "level a < FSM_TREE_DEPTH B" "level b < FSM_TREE_DEPTH B" "0 < LeafNodesPerPage B"
    and "fsm_logical_to_physical B a = fsm_logical_to_physical B b"
  shows "a = b"
proof -
  let ?S = "LeafNodesPerPage B"
  have "first_leaf ?S a = first_leaf ?S b \<and> level a = level b"
    using physical_less [of a B b] physical_less [of b B a] assms by (metis less_irrefl linorder_neqE_nat)
  then show ?thesis using assms(3) by (cases a; cases b) (simp add: first_leaf_def)
qed

lemma tree_depth_cases: "FSM_TREE_DEPTH B = 3 \<or> FSM_TREE_DEPTH B = 4"
  by (simp add: FSM_TREE_DEPTH_def)

lemma root_level_less: "FSM_ROOT_LEVEL B < FSM_TREE_DEPTH B" "0 < FSM_ROOT_LEVEL B"
  "level (FSM_ROOT_ADDRESS B) = FSM_ROOT_LEVEL B" "logpageno (FSM_ROOT_ADDRESS B) = 0"
  by (simp_all add: FSM_ROOT_LEVEL_def FSM_TREE_DEPTH_def FSM_ROOT_ADDRESS_def)

section \<open>The fork as a list of pages\<close>

definition show_block :: "nat \<Rightarrow> fsm_block \<Rightarrow> FSMPageData" where
  "show_block B b = (if PageIsNew b then zero_contents B else PageGetContents b)"

definition fsm_view :: "nat \<Rightarrow> fsm_rel \<Rightarrow> FSMPageData list" where
  "fsm_view B rel = map (show_block B) (fsm_blocks rel)"

text \<open>The cached size is never larger than the file, a fork without a file is empty and every page
  has its nodes.\<close>

definition fsm_wf :: "nat \<Rightarrow> fsm_rel \<Rightarrow> bool" where
  "fsm_wf B rel \<longleftrightarrow>
     (\<forall>page \<in> set (fsm_view B rel). length (fp_nodes page) = NodesPerPage B) \<and>
     (case smgr_cached_nblocks rel of None \<Rightarrow> True | Some n \<Rightarrow> n \<le> length (fsm_blocks rel)) \<and>
     (smgr_exists rel \<or> fsm_blocks rel = [])"

definition grow :: "nat \<Rightarrow> nat \<Rightarrow> FSMPageData list \<Rightarrow> FSMPageData list" where
  "grow B n pages = pages @ replicate (n - length pages) (zero_contents B)"

lemma length_view [simp]: "length (fsm_view B rel) = length (fsm_blocks rel)"
  by (simp add: fsm_view_def)

lemma length_grow [simp]: "length (grow B n pages) = max n (length pages)"
  by (simp add: grow_def)

lemma nth_grow:
  "i < max n (length pages) \<Longrightarrow> grow B n pages ! i = (if i < length pages then pages ! i else zero_contents B)"
  by (simp add: grow_def nth_append)

lemma length_zero_contents [simp]: "length (fp_nodes (zero_contents B)) = NodesPerPage B"
  by (simp add: zero_contents_def)

lemma show_PageInit [simp]: "show_block B (PageInit B) = zero_contents B"
  "show_block B (zero_block B) = zero_contents B"
  by (simp_all add: show_block_def PageInit_def zero_block_def)

lemma fsm_view_cached [simp]: "fsm_view B (rel\<lparr>smgr_cached_nblocks := c\<rparr>) = fsm_view B rel"
  by (simp add: fsm_view_def)

lemma fork_of_page_update [simp]:
  "length (fsm_blocks (put_page rel n page)) = length (fsm_blocks rel)"
  "smgr_cached_nblocks (put_page rel n page) = smgr_cached_nblocks rel"
  "smgr_exists (put_page rel n page) = smgr_exists rel"
  "length (fsm_blocks (init_if_new B rel n)) = length (fsm_blocks rel)"
  "smgr_cached_nblocks (init_if_new B rel n) = smgr_cached_nblocks rel"
  "smgr_exists (init_if_new B rel n) = smgr_exists rel"
  by (simp_all add: put_page_def init_if_new_def)

lemma empty_fork_iff: "fsm_blocks rel = [] \<longleftrightarrow> length (fsm_blocks rel) = 0"
  by simp

lemma extend_loop:
  assumes "smgr_cached_nblocks rel = Some (length (fsm_blocks rel))"
  shows "fold (\<lambda>b rel. smgrextend env b blk rel) [length (fsm_blocks rel)..<m] rel =
    rel\<lparr>fsm_blocks := fsm_blocks rel @ replicate (m - length (fsm_blocks rel)) blk,
        smgr_cached_nblocks := Some (max (length (fsm_blocks rel)) m)\<rparr>"
proof (induction m)
  case 0
  then show ?case using assms by simp
next
  case (Suc m)
  show ?case
  proof (cases "length (fsm_blocks rel) \<le> m")
    case True
    then show ?thesis
      by (simp add: Suc) (simp add: smgrextend_def max_def Suc_diff_le list_update_append replicate_append_same)
  next
    case False
    then show ?thesis using assms by (simp add: max_def)
  qed
qed

lemma fsm_extend_spec:
  assumes "fsm_wf B rel" "blcksz env = B"
  obtains rel' where "fsm_extend env rel n = Inr rel'" "fsm_wf B rel'" "fsm_view B rel' = grow B n (fsm_view B rel)"
    "smgr_exists rel'"
proof -
  define rel1 where "rel1 = rel\<lparr>smgr_exists := True, smgr_cached_nblocks := Some (length (fsm_blocks rel))\<rparr>"
  define rel' where "rel' = rel1\<lparr>fsm_blocks := fsm_blocks rel1 @ replicate (n - length (fsm_blocks rel1)) (PageInit B),
        smgr_cached_nblocks := Some (max (length (fsm_blocks rel1)) n)\<rparr>"
  have "fsm_blocks rel1 = fsm_blocks rel" by (simp add: rel1_def)
  moreover have ex: "\<not> smgr_exists rel \<Longrightarrow> smgr_cached_nblocks rel = Some 0 \<or> smgr_cached_nblocks rel = None"
    using assms(1) by (cases "smgr_cached_nblocks rel") (auto simp: fsm_wf_def)
  have "fsm_extend env rel n = Inr (fold (\<lambda>b rel. smgrextend env b (PageInit B) rel) [length (fsm_blocks rel1)..<n] rel1)"
  proof (cases "smgr_exists rel")
    case True
    then have "rel1 = rel\<lparr>smgr_cached_nblocks := Some (length (fsm_blocks rel))\<rparr>" by (simp add: rel1_def)
    then show ?thesis using True assms(2)
      by (simp add: fsm_extend_def smgrnblocks_def smgrnblocks_cached_def Let_def)
  next
    case False
    then show ?thesis using ex assms(2)
      by (simp add: fsm_extend_def smgrnblocks_def smgrnblocks_cached_def smgrcreate_def rel1_def Let_def)
  qed
  then have "fsm_extend env rel n = Inr rel'"
    by (subst (asm) extend_loop) (simp_all add: rel1_def rel'_def)
  moreover have view: "fsm_view B rel' = grow B n (fsm_view B rel)"
    by (simp add: rel'_def rel1_def fsm_view_def grow_def)
  moreover have "fsm_wf B rel'"
    using assms(1) by (auto simp: fsm_wf_def view grow_def) (simp_all add: rel'_def rel1_def)
  ultimately show thesis using that by (simp add: rel'_def rel1_def)
qed

lemma init_if_new_spec:
  assumes "fsm_wf B rel" "n < length (fsm_blocks rel)"
  shows "fsm_view B (init_if_new B rel n) = fsm_view B rel" "fsm_wf B (init_if_new B rel n)"
    "get_page (init_if_new B rel n) n = fsm_view B rel ! n"
    "\<not> PageIsNew (fsm_blocks (init_if_new B rel n) ! n)"
proof -
  have "fsm_view B (init_if_new B rel n) = fsm_view B rel"
    using assms(2)
    by (auto simp: init_if_new_def fsm_view_def map_update list_eq_iff_nth_eq nth_list_update) (simp add: show_block_def)
  then show v: "fsm_view B (init_if_new B rel n) = fsm_view B rel" .
  show "fsm_wf B (init_if_new B rel n)"
    using assms(1) unfolding fsm_wf_def v empty_fork_iff by (simp split: option.splits)
  show "get_page (init_if_new B rel n) n = fsm_view B rel ! n"
    using assms(2) by (auto simp: init_if_new_def get_page_def fsm_view_def show_block_def PageInit_def)
  show "\<not> PageIsNew (fsm_blocks (init_if_new B rel n) ! n)"
    using assms(2) by (auto simp: init_if_new_def PageInit_def)
qed

lemma refresh_spec:
  assumes "fsm_wf B rel"
  obtains rel' n where "refresh_nblocks env blkno rel = Inr rel'" "fsm_wf B rel'" "fsm_view B rel' = fsm_view B rel"
    "smgr_cached_nblocks rel' = Some n" "n \<le> blkno \<longleftrightarrow> length (fsm_blocks rel) \<le> blkno"
    "fsm_blocks rel' = fsm_blocks rel"
proof (cases "case smgr_cached_nblocks rel of None \<Rightarrow> True | Some n \<Rightarrow> blkno \<ge> n")
  case True
  then show thesis
    using assms that [of "rel\<lparr>smgr_cached_nblocks := Some (length (fsm_blocks rel))\<rparr>" "length (fsm_blocks rel)"]
    by (cases "smgr_exists rel") (simp_all add: refresh_nblocks_def smgrnblocks_def smgrnblocks_cached_def fsm_wf_def)
next
  case False
  then obtain n where "smgr_cached_nblocks rel = Some n" "blkno < n"
    by (auto split: option.splits)
  then show thesis
    using assms that [of rel n] False by (simp add: refresh_nblocks_def fsm_wf_def)
qed

text \<open>Initialised pages stay initialised and the fork keeps its size.\<close>

definition keeps_init :: "fsm_rel \<Rightarrow> fsm_rel \<Rightarrow> bool" where
  "keeps_init rel rel' \<longleftrightarrow> length (fsm_blocks rel') = length (fsm_blocks rel) \<and>
     (\<forall>n < length (fsm_blocks rel). \<not> PageIsNew (fsm_blocks rel ! n) \<longrightarrow> \<not> PageIsNew (fsm_blocks rel' ! n))"

lemma keeps_init_refl [simp]: "keeps_init rel rel"
  by (simp add: keeps_init_def)

lemma keeps_init_trans: "keeps_init rel rel' \<Longrightarrow> keeps_init rel' rel'' \<Longrightarrow> keeps_init rel rel''"
  by (simp add: keeps_init_def)

lemma keeps_init_page: "keeps_init rel (put_page rel n page)" "keeps_init rel (init_if_new B rel n)"
  by (cases "n < length (fsm_blocks rel)";
      auto simp: keeps_init_def put_page_def init_if_new_def nth_list_update PageInit_def)+

lemma get_page_view:
  "n < length (fsm_blocks rel) \<Longrightarrow> \<not> PageIsNew (fsm_blocks rel ! n) \<Longrightarrow> get_page rel n = fsm_view B rel ! n"
  by (simp add: get_page_def fsm_view_def show_block_def)

lemma readbuf_spec:
  assumes wf: "fsm_wf B rel" and env: "blcksz env = B" and n: "n = fsm_logical_to_physical B addr"
  obtains rel' where
    "fsm_readbuf env rel addr False = Inr (if n < length (fsm_blocks rel) then Some n else None, rel')"
    "fsm_wf B rel'" "fsm_view B rel' = fsm_view B rel" "keeps_init rel rel'"
    "n < length (fsm_blocks rel) \<Longrightarrow> get_page rel' n = fsm_view B rel ! n \<and> \<not> PageIsNew (fsm_blocks rel' ! n)"
proof -
  obtain rel1 m where r: "refresh_nblocks env n rel = Inr rel1" "fsm_wf B rel1" "fsm_view B rel1 = fsm_view B rel"
    "smgr_cached_nblocks rel1 = Some m" "m \<le> n \<longleftrightarrow> length (fsm_blocks rel) \<le> n" "fsm_blocks rel1 = fsm_blocks rel"
    using refresh_spec [OF wf, of env n] by metis
  show thesis
  proof (cases "n < length (fsm_blocks rel)")
    case True
    have "keeps_init rel (init_if_new B rel1 n)"
      using keeps_init_page(2) [of rel1 B n] r(6) by (simp add: keeps_init_def)
    then show thesis
      using True r env n that [of "init_if_new B rel1 n"] init_if_new_spec [OF r(2), of n]
      by (simp add: fsm_readbuf_def ReadBufferExtended_def Let_def)
  next
    case False
    then show thesis using r env n that [of rel1] by (simp add: fsm_readbuf_def Let_def keeps_init_def)
  qed
qed

lemma readbuf_extend_spec:
  assumes wf: "fsm_wf B rel" and env: "blcksz env = B" and n: "n = fsm_logical_to_physical B addr"
  obtains rel' where "fsm_readbuf env rel addr True = Inr (Some n, rel')" "fsm_wf B rel'"
    "fsm_view B rel' = grow B (Suc n) (fsm_view B rel)" "n < length (fsm_blocks rel')"
    "get_page rel' n = fsm_view B rel' ! n" "\<not> PageIsNew (fsm_blocks rel' ! n)"
proof -
  obtain rel1 m where r: "refresh_nblocks env n rel = Inr rel1" "fsm_wf B rel1" "fsm_view B rel1 = fsm_view B rel"
    "smgr_cached_nblocks rel1 = Some m" "m \<le> n \<longleftrightarrow> length (fsm_blocks rel) \<le> n" "fsm_blocks rel1 = fsm_blocks rel"
    using refresh_spec [OF wf, of env n] by metis
  obtain rel2 where x: "fsm_extend env rel1 (Suc n) = Inr rel2" "fsm_wf B rel2"
    "fsm_view B rel2 = grow B (Suc n) (fsm_view B rel1)"
    using fsm_extend_spec [OF r(2) env] by blast
  show thesis
  proof (cases "n < length (fsm_blocks rel)")
    case True
    then have "grow B (Suc n) (fsm_view B rel) = fsm_view B rel" by (simp add: grow_def)
    then show thesis
      using True r env n that [of "init_if_new B rel1 n"] init_if_new_spec [OF r(2), of n]
      by (simp add: fsm_readbuf_def ReadBufferExtended_def Let_def)
  next
    case False
    have "length (fsm_blocks rel2) = max (Suc n) (length (fsm_blocks rel1))"
      using arg_cong [OF x(3), of length] by simp
    then have "n < length (fsm_blocks rel2)" by simp
    then show thesis
      using False r env n x that [of "init_if_new B rel2 n"] init_if_new_spec [OF x(2), of n]
      by (simp add: fsm_readbuf_def ReadBufferExtended_def Let_def)
  qed
qed

lemma put_page_spec:
  assumes "fsm_wf B rel" "n < length (fsm_blocks rel)" "\<not> PageIsNew (fsm_blocks rel ! n)"
    "length (fp_nodes page) = NodesPerPage B"
  shows "fsm_view B (put_page rel n page) = (fsm_view B rel)[n := page]" "fsm_wf B (put_page rel n page)"
    "get_page (put_page rel n page) n = page" "\<not> PageIsNew (fsm_blocks (put_page rel n page) ! n)"
proof -
  show v: "fsm_view B (put_page rel n page) = (fsm_view B rel)[n := page]"
    using assms(3) by (simp add: put_page_def fsm_view_def map_update show_block_def)
  show "fsm_wf B (put_page rel n page)"
    using assms(1,4) set_update_subset_insert [of "fsm_view B rel" n page]
    unfolding fsm_wf_def v empty_fork_iff by (auto split: option.splits)
qed (use assms in \<open>simp_all add: put_page_def get_page_def\<close>)

section \<open>Recording\<close>

text \<open>The value of a slot, the largest value of a page and the value of a heap block on a list of
  pages; what is not there has no space.\<close>

definition slot_value :: "nat \<Rightarrow> FSMPageData list \<Rightarrow> FSMAddress \<Rightarrow> nat \<Rightarrow> uint8" where
  "slot_value B pages addr slot =
     (if fsm_logical_to_physical B addr < length pages
      then fsm_get_avail B (pages ! fsm_logical_to_physical B addr) slot else 0)"

definition page_max :: "nat \<Rightarrow> FSMPageData list \<Rightarrow> FSMAddress \<Rightarrow> uint8" where
  "page_max B pages addr =
     (if fsm_logical_to_physical B addr < length pages
      then fsm_get_max_avail (pages ! fsm_logical_to_physical B addr) else 0)"

definition heap_value :: "nat \<Rightarrow> FSMPageData list \<Rightarrow> nat \<Rightarrow> uint8" where
  "heap_value B pages b =
     slot_value B pages \<lparr>level = 0, logpageno = b div LeafNodesPerPage B\<rparr> (b mod LeafNodesPerPage B)"

definition set_slot :: "nat \<Rightarrow> FSMAddress \<Rightarrow> nat \<Rightarrow> uint8 \<Rightarrow> FSMPageData list \<Rightarrow> FSMPageData list" where
  "set_slot B addr slot v pages =
     (let n = fsm_logical_to_physical B addr; pages = grow B (Suc n) pages
      in pages[n := snd (fsm_set_avail B (pages ! n) slot v)])"

definition sized :: "nat \<Rightarrow> FSMPageData list \<Rightarrow> bool" where
  "sized B pages \<longleftrightarrow> (\<forall>page \<in> set pages. length (fp_nodes page) = NodesPerPage B)"

definition consistent :: "nat \<Rightarrow> FSMPageData list \<Rightarrow> bool" where
  "consistent B pages \<longleftrightarrow> (\<forall>page \<in> set pages. fsm_consistent B (fp_nodes page))"

lemma fsm_wf_sized: "fsm_wf B rel \<Longrightarrow> sized B (fsm_view B rel)"
  by (simp add: fsm_wf_def sized_def)

lemma consistent_sized: "consistent B pages \<Longrightarrow> sized B pages"
  by (simp add: sized_def consistent_def fsm_consistent_def)

lemma sized_nth: "sized B pages \<Longrightarrow> n < length pages \<Longrightarrow> length (fp_nodes (pages ! n)) = NodesPerPage B"
  by (simp add: sized_def)

lemma consistent_nth: "consistent B pages \<Longrightarrow> n < length pages \<Longrightarrow> fsm_consistent B (fp_nodes (pages ! n))"
  by (simp add: consistent_def)

lemma sized_grow: "sized B pages \<Longrightarrow> sized B (grow B n pages)"
  by (auto simp: sized_def grow_def)

lemma consistent_update:
  "consistent B pages \<Longrightarrow> fsm_consistent B (fp_nodes page) \<Longrightarrow> consistent B (pages[n := page])"
  using set_update_subset_insert [of pages n page] by (auto simp: consistent_def)

text \<open>The block sizes and environments the laws hold for: the tree can be any of a supported block
  size, and other backends do not change the size of a page.\<close>

locale fsm_tree = fsm_shape +
  fixes env :: fsm_env
  assumes env_size: "blcksz env = BLCKSZ" and small: "h \<le> 16"
    and relock_size: "\<And>page. length (fp_nodes (relock env page)) = length (fp_nodes page)"
begin

lemma leaf_zero:
  "slot < LeafNodesPerPage BLCKSZ \<Longrightarrow> fsm_get_avail BLCKSZ (zero_contents BLCKSZ) slot = 0"
  using size_bounds by (simp add: fsm_get_avail_def zero_contents_def)

lemma zero_consistent: "fsm_consistent BLCKSZ (fp_nodes (zero_contents BLCKSZ))"
  using size_bounds by (auto simp: fsm_consistent_def zero_contents_def children_max_def)

lemma consistent_grow: "consistent BLCKSZ pages \<Longrightarrow> consistent BLCKSZ (grow BLCKSZ n pages)"
  using zero_consistent by (auto simp: consistent_def grow_def)

lemma slot_value_grow:
  "slot < LeafNodesPerPage BLCKSZ \<Longrightarrow> slot_value BLCKSZ (grow BLCKSZ n pages) addr slot = slot_value BLCKSZ pages addr slot"
  by (auto simp: slot_value_def nth_grow leaf_zero)

lemma page_max_grow: "page_max BLCKSZ (grow BLCKSZ n pages) addr = page_max BLCKSZ pages addr"
proof -
  have "fsm_get_max_avail (zero_contents BLCKSZ) = 0"
    using size_bounds by (simp add: fsm_get_max_avail_def zero_contents_def)
  then show ?thesis by (auto simp: page_max_def nth_grow)
qed

lemma slot_value_update:
  assumes "level a < FSM_TREE_DEPTH BLCKSZ" "level addr < FSM_TREE_DEPTH BLCKSZ"
    "fsm_logical_to_physical BLCKSZ addr < length pages"
  shows "slot_value BLCKSZ (pages[fsm_logical_to_physical BLCKSZ addr := page]) a slot =
      (if a = addr then fsm_get_avail BLCKSZ page slot else slot_value BLCKSZ pages a slot)"
    and "page_max BLCKSZ (pages[fsm_logical_to_physical BLCKSZ addr := page]) a =
      (if a = addr then fsm_get_max_avail page else page_max BLCKSZ pages a)"
  using physical_inject [OF assms(1,2)] size_bounds assms(3) by (auto simp: slot_value_def page_max_def nth_list_update)

lemma set_slot_values:
  assumes "sized BLCKSZ pages" "level a < FSM_TREE_DEPTH BLCKSZ" "level addr < FSM_TREE_DEPTH BLCKSZ"
    "s < LeafNodesPerPage BLCKSZ" "slot < LeafNodesPerPage BLCKSZ"
  shows "slot_value BLCKSZ (set_slot BLCKSZ addr slot v pages) a s =
      (if a = addr \<and> s = slot then v else slot_value BLCKSZ pages a s)"
proof -
  let ?n = "fsm_logical_to_physical BLCKSZ addr" and ?g = "grow BLCKSZ (Suc (fsm_logical_to_physical BLCKSZ addr)) pages"
  have len: "length (fp_nodes (?g ! ?n)) = NodesPerPage BLCKSZ"
    by (rule sized_nth [OF sized_grow [OF assms(1)]]) simp
  have "fsm_get_avail BLCKSZ (?g ! ?n) s = slot_value BLCKSZ pages addr s"
    using slot_value_grow [OF assms(4), of "Suc ?n" pages addr] by (simp add: slot_value_def less_max_iff_disj)
  then show ?thesis
    using set_avail(2) [OF len assms(5) prod.collapse [symmetric] assms(4), of v] slot_value_grow [OF assms(4)]
    by (cases "s = slot") (simp_all add: set_slot_def Let_def slot_value_update [OF assms(2,3)])
qed

lemma set_slot_consistent:
  assumes "consistent BLCKSZ pages" "slot < LeafNodesPerPage BLCKSZ"
  shows "consistent BLCKSZ (set_slot BLCKSZ addr slot v pages)"
proof -
  let ?n = "fsm_logical_to_physical BLCKSZ addr" and ?g = "grow BLCKSZ (Suc (fsm_logical_to_physical BLCKSZ addr)) pages"
  have g: "consistent BLCKSZ ?g" by (rule consistent_grow [OF assms(1)])
  then have "fsm_consistent BLCKSZ (fp_nodes (?g ! ?n))" by (simp add: consistent_nth)
  then have "fsm_consistent BLCKSZ (fp_nodes (snd (fsm_set_avail BLCKSZ (?g ! ?n) slot v)))"
    using set_avail(4) [OF _ assms(2) prod.collapse [symmetric]] by (simp add: fsm_consistent_def)
  then show ?thesis using g by (simp add: set_slot_def Let_def consistent_update)
qed

lemma set_and_search_spec:
  assumes "fsm_wf BLCKSZ rel" "slot < LeafNodesPerPage BLCKSZ"
  obtains rel' where "fsm_set_and_search env rel addr slot v 0 = Some (Inr (-1, rel'))" "fsm_wf BLCKSZ rel'"
    "fsm_view BLCKSZ rel' = set_slot BLCKSZ addr slot v (fsm_view BLCKSZ rel)"
proof -
  let ?n = "fsm_logical_to_physical BLCKSZ addr"
  obtain rel1 where r: "fsm_readbuf env rel addr True = Inr (Some ?n, rel1)" "fsm_wf BLCKSZ rel1"
    "fsm_view BLCKSZ rel1 = grow BLCKSZ (Suc ?n) (fsm_view BLCKSZ rel)" "?n < length (fsm_blocks rel1)"
    "get_page rel1 ?n = fsm_view BLCKSZ rel1 ! ?n" "\<not> PageIsNew (fsm_blocks rel1 ! ?n)"
    using readbuf_extend_spec [OF assms(1) env_size refl] .
  let ?p = "snd (fsm_set_avail BLCKSZ (get_page rel1 ?n) slot v)"
  have "length (fp_nodes (get_page rel1 ?n)) = NodesPerPage BLCKSZ"
    using sized_nth [OF fsm_wf_sized [OF r(2)]] r(4,5) by simp
  then have len: "length (fp_nodes ?p) = NodesPerPage BLCKSZ"
    using set_avail(1) [OF _ assms(2) prod.collapse [symmetric]] by simp
  show thesis
    using that [of "put_page rel1 ?n ?p"] put_page_spec [OF r(2,4,6) len] r
    by (simp add: fsm_set_and_search_def env_size set_slot_def Let_def case_prod_beta)
qed

lemma set_and_search_wf:
  assumes "fsm_wf BLCKSZ rel" "slot < LeafNodesPerPage BLCKSZ"
  shows "\<exists>rel'. fsm_set_and_search env rel addr slot v 0 = Some (Inr (-1, rel')) \<and> fsm_wf BLCKSZ rel' \<and>
    fsm_view BLCKSZ rel' = set_slot BLCKSZ addr slot v (fsm_view BLCKSZ rel)"
  using set_and_search_spec [OF assms] by metis

end

section \<open>Navigation\<close>

text \<open>The addresses of the tree below the root page.\<close>

definition addr_ok :: "nat \<Rightarrow> FSMAddress \<Rightarrow> bool" where
  "addr_ok B a \<longleftrightarrow> level a < FSM_TREE_DEPTH B \<and> logpageno a < LeafNodesPerPage B ^ (FSM_ROOT_LEVEL B - level a)"

lemma root_ok: "addr_ok B (FSM_ROOT_ADDRESS B)"
  by (simp add: addr_ok_def root_level_less)

lemma addr_ok_level: "addr_ok B a \<Longrightarrow> level a < FSM_TREE_DEPTH B"
  by (simp add: addr_ok_def)

lemma mult_add_less: "p < m \<Longrightarrow> s < S \<Longrightarrow> p * S + s < m * (S::nat)"
  by (metis add_less_cancel_left less_le_trans mult_Suc add.commute mult_le_mono1 Suc_leI)

lemma child_ok:
  assumes "addr_ok B a" "0 < level a" "s < LeafNodesPerPage B"
  shows "addr_ok B (fsm_get_child B a s)"
proof -
  have "FSM_ROOT_LEVEL B - (level a - 1) = Suc (FSM_ROOT_LEVEL B - level a)"
    using assms(1,2) by (auto simp: addr_ok_def FSM_ROOT_LEVEL_def)
  then show ?thesis
    using assms mult_add_less [of "logpageno a" "LeafNodesPerPage B ^ (FSM_ROOT_LEVEL B - level a)" s "LeafNodesPerPage B"]
    by (auto simp: addr_ok_def fsm_get_child_def mult.commute)
qed

lemma parent_child:
  "0 < level a \<Longrightarrow> s < LeafNodesPerPage B \<Longrightarrow> fsm_get_parent B (fsm_get_child B a s) = (a, s)"
  by (simp add: fsm_get_parent_def fsm_get_child_def)

lemma child_parent: "fsm_get_parent B a = (p, s) \<Longrightarrow> fsm_get_child B p s = a"
  by (auto simp: fsm_get_parent_def fsm_get_child_def)

lemma parent_ok:
  assumes "addr_ok B a" "level a < FSM_ROOT_LEVEL B" "fsm_get_parent B a = (p, s)" "0 < LeafNodesPerPage B"
  shows "addr_ok B p \<and> s < LeafNodesPerPage B \<and> level p = Suc (level a)"
proof -
  have "LeafNodesPerPage B ^ (FSM_ROOT_LEVEL B - level a) =
      LeafNodesPerPage B ^ (FSM_ROOT_LEVEL B - Suc (level a)) * LeafNodesPerPage B"
    using assms(2) by (metis Suc_diff_Suc mult.commute power_Suc)
  then show ?thesis
    using assms root_level_less(1) [of B]
    by (auto simp: addr_ok_def fsm_get_parent_def less_mult_imp_div_less)
qed

lemma heap_blk_value:
  assumes "addr_ok B a" "level a = 0" "s < LeafNodesPerPage B"
  shows "\<exists>b. b < LeafNodesPerPage B ^ FSM_TREE_DEPTH B \<and> fsm_get_heap_blk B a s = word_of_nat b \<and>
    heap_value B pages b = slot_value B pages a s"
proof (intro exI conjI)
  have "FSM_TREE_DEPTH B = Suc (FSM_ROOT_LEVEL B)" by (auto simp: FSM_ROOT_LEVEL_def FSM_TREE_DEPTH_def)
  then show "logpageno a * LeafNodesPerPage B + s < LeafNodesPerPage B ^ FSM_TREE_DEPTH B"
    using assms mult_add_less [of "logpageno a" "LeafNodesPerPage B ^ FSM_ROOT_LEVEL B" s "LeafNodesPerPage B"]
    by (simp add: addr_ok_def mult.commute)
  have "\<lparr>level = 0, logpageno = logpageno a\<rparr> = a" using assms(2) by (cases a) simp
  then show "heap_value B pages (logpageno a * LeafNodesPerPage B + s) = slot_value B pages a s"
    using assms(3) by (simp add: heap_value_def)
qed (simp add: fsm_get_heap_blk_def)

section \<open>Searching\<close>

context fsm_tree
begin

lemma search_page_spec:
  assumes wf: "fsm_wf BLCKSZ rel"
  shows "\<exists>slot mx rel'. search_page env m addr rel = Some (Inr (slot, mx, rel')) \<and> fsm_wf BLCKSZ rel' \<and>
    (slot = -1 \<or> 0 \<le> slot \<and> slot < int (LeafNodesPerPage BLCKSZ) \<and>
       m \<le> slot_value BLCKSZ (fsm_view BLCKSZ rel') addr (nat slot))"
proof -
  let ?n = "fsm_logical_to_physical BLCKSZ addr"
  obtain rel1 where r: "fsm_readbuf env rel addr False = Inr (if ?n < length (fsm_blocks rel) then Some ?n else None, rel1)"
    "fsm_wf BLCKSZ rel1" "fsm_view BLCKSZ rel1 = fsm_view BLCKSZ rel"
    "?n < length (fsm_blocks rel) \<Longrightarrow> get_page rel1 ?n = fsm_view BLCKSZ rel ! ?n \<and> \<not> PageIsNew (fsm_blocks rel1 ! ?n)"
    by (rule readbuf_spec [OF wf env_size refl]) blast
  show ?thesis
  proof (cases "?n < length (fsm_blocks rel)")
    case True
    have l: "length (fsm_blocks rel1) = length (fsm_blocks rel)" using arg_cong [OF r(3), of length] by simp
    have "length (fp_nodes (get_page rel1 ?n)) = NodesPerPage BLCKSZ"
      using sized_nth [OF fsm_wf_sized [OF wf]] r(4) True by simp
    then obtain slot page where p: "fsm_search_avail BLCKSZ (relock env) m (level addr = 0) False (get_page rel1 ?n) = Some (slot, page)"
      "slot = -1 \<and> fsm_get_max_avail page < m \<or>
       0 \<le> slot \<and> slot < int (LeafNodesPerPage BLCKSZ) \<and> m \<le> fsm_get_avail BLCKSZ page (nat slot)"
      "length (fp_nodes page) = NodesPerPage BLCKSZ"
      by (rule search_any_page [OF _ relock_size small]) blast
    then show ?thesis
      using True r l put_page_spec [OF r(2) _ _ p(3), of ?n]
      by (auto simp: search_page_def env_size slot_value_def)
  next
    case False
    then show ?thesis using r by (simp add: search_page_def)
  qed
qed

lemma search_sound:
  assumes others: "\<And>r l rel. fsm_wf BLCKSZ rel \<Longrightarrow> fsm_wf BLCKSZ (others_before env r l rel)"
    "\<And>r l rel. fsm_wf BLCKSZ rel \<Longrightarrow> fsm_wf BLCKSZ (others_between env r l rel)"
  shows "fsm_wf BLCKSZ rel \<Longrightarrow> addr_ok BLCKSZ addr \<Longrightarrow>
    \<exists>blk rel'. search_from env m restarts addr rel = Some (Inr (blk, rel')) \<and> fsm_wf BLCKSZ rel' \<and>
      (blk = InvalidBlockNumber \<or>
       (\<exists>b < LeafNodesPerPage BLCKSZ ^ FSM_TREE_DEPTH BLCKSZ.
          blk = word_of_nat b \<and> m \<le> heap_value BLCKSZ (fsm_view BLCKSZ rel') b))"
proof (induction "(10001 - restarts) * 5 + level addr" arbitrary: restarts addr rel rule: less_induct)
  case less
  obtain slot mx rel1 where p: "search_page env m addr (others_before env restarts (level addr) rel) = Some (Inr (slot, mx, rel1))"
    "fsm_wf BLCKSZ rel1" "slot = -1 \<or> 0 \<le> slot \<and> slot < int (LeafNodesPerPage BLCKSZ) \<and>
       m \<le> slot_value BLCKSZ (fsm_view BLCKSZ rel1) addr (nat slot)"
    using search_page_spec [OF others(1) [OF less.prems(1)], of m addr restarts "level addr"] by blast
  note step = search_from.simps [of env m restarts addr rel] p(1) env_size
  consider (found) "slot \<noteq> -1" "level addr = 0" | (down) "slot \<noteq> -1" "0 < level addr"
    | (stop) "slot = -1" "level addr = FSM_ROOT_LEVEL BLCKSZ" | (up) "slot = -1" "level addr \<noteq> FSM_ROOT_LEVEL BLCKSZ"
    by blast
  then show ?case
  proof cases
    case found
    then show ?thesis
      using p heap_blk_value [OF less.prems(2) found(2), of "nat slot" "fsm_view BLCKSZ rel1"]
      by (simp add: step nat_less_iff) metis
  next
    case down
    have "addr_ok BLCKSZ (fsm_get_child BLCKSZ addr (nat slot))"
      using p(3) down by (intro child_ok [OF less.prems(2)]) auto
    then show ?thesis
      using down less.hyps [OF _ p(2), of restarts "fsm_get_child BLCKSZ addr (nat slot)"]
      by (simp add: step fsm_get_child_def)
  next
    case stop
    then show ?thesis using p by (simp add: search_from.simps [of env m restarts addr rel] env_size)
  next
    case up
    obtain parent ps where g: "fsm_get_parent BLCKSZ addr = (parent, ps)" by fastforce
    have lev: "level addr < FSM_ROOT_LEVEL BLCKSZ"
      using up addr_ok_level [OF less.prems(2)] by (simp add: FSM_ROOT_LEVEL_def)
    then have ps: "ps < LeafNodesPerPage BLCKSZ" using parent_ok [OF less.prems(2) _ g] size_bounds by blast
    obtain rel2 where u: "fsm_set_and_search env (others_between env restarts (level addr) rel1) parent ps mx 0 = Some (Inr (-1, rel2))"
      "fsm_wf BLCKSZ rel2"
      using set_and_search_wf [OF others(2) [OF p(2)] ps] by blast
    show ?thesis
    proof (cases "restarts > 10000")
      case True
      then show ?thesis using up u g by (simp add: step)
    next
      case False
      have "level (FSM_ROOT_ADDRESS BLCKSZ) \<le> 3" by (simp add: root_level_less FSM_ROOT_LEVEL_def FSM_TREE_DEPTH_def)
      then show ?thesis
        using False up u g less.hyps [OF _ u(2) root_ok, of "restarts + 1"] by (simp add: step)
    qed
  qed
qed

end

section \<open>Searching an exact tree\<close>

text \<open>A tree is exact when every slot of an upper page holds the largest value of the page below.\<close>

definition exact_slot :: "nat \<Rightarrow> FSMPageData list \<Rightarrow> FSMAddress \<Rightarrow> nat \<Rightarrow> bool" where
  "exact_slot B pages a s \<longleftrightarrow> slot_value B pages a s = page_max B pages (fsm_get_child B a s)"

definition exact :: "nat \<Rightarrow> FSMPageData list \<Rightarrow> bool" where
  "exact B pages \<longleftrightarrow>
     (\<forall>a s. addr_ok B a \<and> 0 < level a \<and> s < LeafNodesPerPage B \<longrightarrow> exact_slot B pages a s)"

lemma same_nodes:
  assumes "map fp_nodes pages' = map fp_nodes pages"
  shows "slot_value B pages' = slot_value B pages" "page_max B pages' = page_max B pages"
    "heap_value B pages' = heap_value B pages" "consistent B pages' = consistent B pages"
proof -
  have len: "length pages' = length pages" using assms by (metis length_map)
  have nodes: "fp_nodes (pages' ! n) = fp_nodes (pages ! n)" if "n < length pages" for n
    using assms that len by (metis nth_map)
  show slot: "slot_value B pages' = slot_value B pages"
    by (intro ext) (simp add: slot_value_def len fsm_get_avail_def nodes)
  show "page_max B pages' = page_max B pages"
    by (intro ext) (simp add: page_max_def len fsm_get_max_avail_def nodes)
  show "heap_value B pages' = heap_value B pages"
    by (intro ext) (simp add: heap_value_def slot)
  show "consistent B pages' = consistent B pages"
    by (simp add: consistent_def all_set_conv_all_nth len nodes)
qed

text \<open>The page above a heap block on each level.\<close>

definition ancestor :: "nat \<Rightarrow> nat \<Rightarrow> nat \<Rightarrow> FSMAddress" where
  "ancestor B b l = \<lparr>level = l, logpageno = b div LeafNodesPerPage B ^ Suc l\<rparr>"

lemma ancestor_child:
  "fsm_get_child B (ancestor B b (Suc l)) (b div LeafNodesPerPage B ^ Suc l mod LeafNodesPerPage B) = ancestor B b l"
proof -
  have "b div LeafNodesPerPage B ^ Suc (Suc l) = b div LeafNodesPerPage B ^ Suc l div LeafNodesPerPage B"
    by (metis div_mult2_eq mult.commute power_Suc)
  then show ?thesis by (simp add: ancestor_def fsm_get_child_def div_mult_mod_eq del: power_Suc)
qed

lemma ancestor_ok:
  assumes "b < LeafNodesPerPage B ^ FSM_TREE_DEPTH B" "l \<le> FSM_ROOT_LEVEL B"
  shows "addr_ok B (ancestor B b l)"
proof -
  have "FSM_TREE_DEPTH B = (FSM_ROOT_LEVEL B - l) + Suc l"
    using assms(2) by (auto simp: FSM_ROOT_LEVEL_def FSM_TREE_DEPTH_def)
  then have "LeafNodesPerPage B ^ FSM_TREE_DEPTH B = LeafNodesPerPage B ^ (FSM_ROOT_LEVEL B - l) * LeafNodesPerPage B ^ Suc l"
    by (metis power_add)
  then show ?thesis
    using assms root_level_less(1) [of B] less_mult_imp_div_less [of b]
    by (simp add: addr_ok_def ancestor_def del: power_Suc)
qed

lemma ancestor_root:
  "b < LeafNodesPerPage B ^ FSM_TREE_DEPTH B \<Longrightarrow> ancestor B b (FSM_ROOT_LEVEL B) = FSM_ROOT_ADDRESS B"
  by (auto simp: ancestor_def FSM_ROOT_ADDRESS_def FSM_ROOT_LEVEL_def FSM_TREE_DEPTH_def)

context fsm_tree
begin

lemma page_max_has:
  assumes "consistent BLCKSZ pages" "0 < m"
  shows "m \<le> page_max BLCKSZ pages a \<longleftrightarrow> (\<exists>s < LeafNodesPerPage BLCKSZ. m \<le> slot_value BLCKSZ pages a s)"
proof (cases "fsm_logical_to_physical BLCKSZ a < length pages")
  case True
  then show ?thesis
    using root_has [OF consistent_nth [OF assms(1) True] assms(2)]
    by (simp add: page_max_def slot_value_def fsm_get_max_avail_def fsm_get_avail_def)
next
  case False
  then show ?thesis using assms(2) by (auto simp: page_max_def slot_value_def)
qed

lemma heap_value_le_root:
  assumes "consistent BLCKSZ pages" "exact BLCKSZ pages" "0 < m" "m \<le> heap_value BLCKSZ pages b"
    "b < LeafNodesPerPage BLCKSZ ^ FSM_TREE_DEPTH BLCKSZ"
  shows "m \<le> page_max BLCKSZ pages (FSM_ROOT_ADDRESS BLCKSZ)"
proof -
  let ?S = "LeafNodesPerPage BLCKSZ"
  have "m \<le> page_max BLCKSZ pages (ancestor BLCKSZ b l)" if "l \<le> FSM_ROOT_LEVEL BLCKSZ" for l
    using that
  proof (induction l)
    case 0
    have "m \<le> slot_value BLCKSZ pages (ancestor BLCKSZ b 0) (b mod ?S)"
      using assms(4) by (simp add: heap_value_def ancestor_def)
    then show ?case
      using page_max_has [OF assms(1,3)] size_bounds(3) mod_less_divisor [of ?S b] by blast
  next
    case (Suc l)
    let ?s = "b div ?S ^ Suc l mod ?S"
    have "exact_slot BLCKSZ pages (ancestor BLCKSZ b (Suc l)) ?s"
      using assms(2) ancestor_ok [OF assms(5) Suc.prems] size_bounds(3) by (simp add: exact_def ancestor_def)
    then have "m \<le> slot_value BLCKSZ pages (ancestor BLCKSZ b (Suc l)) ?s"
      using Suc unfolding exact_slot_def ancestor_child by simp
    then show ?case
      using page_max_has [OF assms(1,3)] size_bounds(3) mod_less_divisor [of ?S] by blast
  qed
  then show ?thesis using ancestor_root [OF assms(5)] by (metis order_refl)
qed

lemma search_page_consistent:
  assumes wf: "fsm_wf BLCKSZ rel" and cons: "consistent BLCKSZ (fsm_view BLCKSZ rel)" and m: "0 < m"
  shows "\<exists>slot mx rel'. search_page env m addr rel = Some (Inr (slot, mx, rel')) \<and> fsm_wf BLCKSZ rel' \<and>
    map fp_nodes (fsm_view BLCKSZ rel') = map fp_nodes (fsm_view BLCKSZ rel) \<and>
    (slot = -1 \<and> page_max BLCKSZ (fsm_view BLCKSZ rel) addr < m \<or>
     0 \<le> slot \<and> slot < int (LeafNodesPerPage BLCKSZ) \<and>
       m \<le> slot_value BLCKSZ (fsm_view BLCKSZ rel) addr (nat slot))"
proof -
  let ?n = "fsm_logical_to_physical BLCKSZ addr"
  obtain rel1 where r: "fsm_readbuf env rel addr False = Inr (if ?n < length (fsm_blocks rel) then Some ?n else None, rel1)"
    "fsm_wf BLCKSZ rel1" "fsm_view BLCKSZ rel1 = fsm_view BLCKSZ rel"
    "?n < length (fsm_blocks rel) \<Longrightarrow> get_page rel1 ?n = fsm_view BLCKSZ rel ! ?n \<and> \<not> PageIsNew (fsm_blocks rel1 ! ?n)"
    by (rule readbuf_spec [OF wf env_size refl]) blast
  show ?thesis
  proof (cases "?n < length (fsm_blocks rel)")
    case True
    let ?p = "fsm_view BLCKSZ rel ! ?n"
    have l: "length (fsm_blocks rel1) = length (fsm_blocks rel)" using arg_cong [OF r(3), of length] by simp
    have len: "length (fp_nodes ?p) = NodesPerPage BLCKSZ"
      using sized_nth [OF fsm_wf_sized [OF wf]] True by simp
    obtain slot page where p: "fsm_search_avail BLCKSZ (relock env) m (level addr = 0) False ?p = Some (slot, page)"
      "slot = -1 \<and> fsm_get_max_avail page < m \<or>
       0 \<le> slot \<and> slot < int (LeafNodesPerPage BLCKSZ) \<and> m \<le> fsm_get_avail BLCKSZ page (nat slot)"
      "length (fp_nodes page) = NodesPerPage BLCKSZ"
      by (rule search_any_page [OF len relock_size small]) blast
    have nodes: "fp_nodes page = fp_nodes ?p"
      using p(1) consistent_nth [OF cons, of ?n] True unfolding length_view
      by (auto simp: search_consistent [OF _ small] split: option.splits)
    then have "map fp_nodes ((fsm_view BLCKSZ rel)[?n := page]) = map fp_nodes (fsm_view BLCKSZ rel)"
      using True by (simp add: map_update list_eq_iff_nth_eq nth_list_update)
    then show ?thesis
      using True r l p nodes put_page_spec [OF r(2) _ _ p(3), of ?n]
      by (auto simp: search_page_def env_size slot_value_def page_max_def fsm_get_max_avail_def fsm_get_avail_def)
  next
    case False
    then show ?thesis using r m by (simp add: search_page_def page_max_def)
  qed
qed

lemma search_descends:
  assumes quiet: "\<And>r l rel. others_before env r l rel = rel" and m: "0 < m"
  shows "fsm_wf BLCKSZ rel \<Longrightarrow> consistent BLCKSZ (fsm_view BLCKSZ rel) \<Longrightarrow> exact BLCKSZ (fsm_view BLCKSZ rel) \<Longrightarrow>
    addr_ok BLCKSZ addr \<Longrightarrow> m \<le> page_max BLCKSZ (fsm_view BLCKSZ rel) addr \<Longrightarrow>
    \<exists>b rel'. search_from env m restarts addr rel = Some (Inr (word_of_nat b, rel')) \<and> fsm_wf BLCKSZ rel' \<and>
      map fp_nodes (fsm_view BLCKSZ rel') = map fp_nodes (fsm_view BLCKSZ rel) \<and>
      b < LeafNodesPerPage BLCKSZ ^ FSM_TREE_DEPTH BLCKSZ \<and> m \<le> heap_value BLCKSZ (fsm_view BLCKSZ rel) b"
proof (induction "level addr" arbitrary: addr rel)
  case 0
  then obtain slot mx rel1 where p: "search_page env m addr rel = Some (Inr (slot, mx, rel1))" "fsm_wf BLCKSZ rel1"
    "map fp_nodes (fsm_view BLCKSZ rel1) = map fp_nodes (fsm_view BLCKSZ rel)"
    "0 \<le> slot" "slot < int (LeafNodesPerPage BLCKSZ)" "m \<le> slot_value BLCKSZ (fsm_view BLCKSZ rel) addr (nat slot)"
    using search_page_consistent [OF 0(2,3) m, of addr] by fastforce
  then show ?case
    using 0 heap_blk_value [OF 0(5), of "nat slot" "fsm_view BLCKSZ rel"]
    by (auto simp: search_from.simps [of env m restarts addr rel] quiet env_size nat_less_iff)
next
  case (Suc l)
  then obtain slot mx rel1 where p: "search_page env m addr rel = Some (Inr (slot, mx, rel1))" "fsm_wf BLCKSZ rel1"
    "map fp_nodes (fsm_view BLCKSZ rel1) = map fp_nodes (fsm_view BLCKSZ rel)"
    "0 \<le> slot" "slot < int (LeafNodesPerPage BLCKSZ)" "m \<le> slot_value BLCKSZ (fsm_view BLCKSZ rel) addr (nat slot)"
    using search_page_consistent [OF Suc(3,4) m, of addr] by fastforce
  let ?c = "fsm_get_child BLCKSZ addr (nat slot)"
  note same = same_nodes [OF p(3), of BLCKSZ]
  have s: "nat slot < LeafNodesPerPage BLCKSZ" using p(4,5) by (simp add: nat_less_iff)
  have c: "addr_ok BLCKSZ ?c" using child_ok [OF Suc(6) _ s] Suc(2) by simp
  have "exact_slot BLCKSZ (fsm_view BLCKSZ rel) addr (nat slot)"
    using Suc(2,5,6) s by (simp add: exact_def)
  then have "m \<le> page_max BLCKSZ (fsm_view BLCKSZ rel1) ?c"
    using p(6) by (simp add: exact_slot_def same)
  moreover have "exact BLCKSZ (fsm_view BLCKSZ rel1)" using Suc(5) by (simp add: exact_def exact_slot_def same)
  moreover have "l = level ?c" using Suc(2) by (simp add: fsm_get_child_def)
  ultimately have "\<exists>b rel'. search_from env m restarts ?c rel1 = Some (Inr (word_of_nat b, rel')) \<and> fsm_wf BLCKSZ rel' \<and>
      map fp_nodes (fsm_view BLCKSZ rel') = map fp_nodes (fsm_view BLCKSZ rel) \<and>
      b < LeafNodesPerPage BLCKSZ ^ FSM_TREE_DEPTH BLCKSZ \<and> m \<le> heap_value BLCKSZ (fsm_view BLCKSZ rel) b"
    using Suc(1) [of ?c rel1] p(2,3) Suc(4) c by (simp add: same)
  then show ?case
    using p(1,4) Suc(2) by (simp add: search_from.simps [of env m restarts addr rel] quiet env_size)
qed

text \<open>On an exact tree the search finds a block exactly when one has enough space.\<close>

lemma search_exact:
  assumes quiet: "\<And>r l rel. others_before env r l rel = rel" and m: "0 < m"
    and wf: "fsm_wf BLCKSZ rel" "consistent BLCKSZ (fsm_view BLCKSZ rel)" "exact BLCKSZ (fsm_view BLCKSZ rel)"
  shows "\<exists>blk rel'. fsm_search env rel m = Some (Inr (blk, rel')) \<and> fsm_wf BLCKSZ rel' \<and>
    map fp_nodes (fsm_view BLCKSZ rel') = map fp_nodes (fsm_view BLCKSZ rel) \<and>
    (if \<exists>b < LeafNodesPerPage BLCKSZ ^ FSM_TREE_DEPTH BLCKSZ. m \<le> heap_value BLCKSZ (fsm_view BLCKSZ rel) b
     then \<exists>b < LeafNodesPerPage BLCKSZ ^ FSM_TREE_DEPTH BLCKSZ.
       blk = word_of_nat b \<and> m \<le> heap_value BLCKSZ (fsm_view BLCKSZ rel) b
     else blk = InvalidBlockNumber)"
proof (cases "m \<le> page_max BLCKSZ (fsm_view BLCKSZ rel) (FSM_ROOT_ADDRESS BLCKSZ)")
  case True
  show ?thesis
    using search_descends [OF quiet m wf root_ok True, of 0] unfolding fsm_search_def env_size by auto
next
  case False
  then have none: "\<not> (\<exists>b < LeafNodesPerPage BLCKSZ ^ FSM_TREE_DEPTH BLCKSZ. m \<le> heap_value BLCKSZ (fsm_view BLCKSZ rel) b)"
    using heap_value_le_root [OF wf(2,3) m] by blast
  obtain slot mx rel1 where p: "search_page env m (FSM_ROOT_ADDRESS BLCKSZ) rel = Some (Inr (slot, mx, rel1))" "fsm_wf BLCKSZ rel1"
    "map fp_nodes (fsm_view BLCKSZ rel1) = map fp_nodes (fsm_view BLCKSZ rel)" "slot = -1"
    using search_page_consistent [OF wf(1,2) m, of "FSM_ROOT_ADDRESS BLCKSZ"] False page_max_has [OF wf(2) m]
    by (metis nat_less_iff)
  then show ?thesis
    unfolding if_not_P [OF none] fsm_search_def env_size
    by (simp add: search_from.simps [of env m 0] quiet env_size root_level_less)
qed

end

end
