(* ===== verification/FreeSpaceMapTree.thy ===== *)
theory FreeSpaceMapTree
  imports FreeSpaceMapProps
begin

text \<open>The vacuum of the free space map repairs the upper levels: after
  \<^verbatim>\<open>FreeSpaceMapVacuumRange\<close> every slot of an upper page that covers a block of the range holds
  the largest value of the page below, and no other slot has become wrong. The theorems on the map as
  a whole are at the end.\<close>

section \<open>Subtrees and covered slots\<close>

definition below :: "nat \<Rightarrow> FSMAddress \<Rightarrow> FSMAddress \<Rightarrow> bool" where
  "below B a c \<longleftrightarrow> level a \<le> level c \<and> logpageno a div LeafNodesPerPage B ^ (level c - level a) = logpageno c"

text \<open>The slot covers a heap block from \<open>start\<close> to \<open>end - 1\<close>.\<close>

definition covered :: "nat \<Rightarrow> BlockNumber \<Rightarrow> BlockNumber \<Rightarrow> FSMAddress \<Rightarrow> nat \<Rightarrow> bool" where
  "covered B start end a s \<longleftrightarrow>
     unat start div LeafNodesPerPage B ^ level a \<le> logpageno a * LeafNodesPerPage B + s \<and>
     logpageno a * LeafNodesPerPage B + s \<le> unat (end - 1) div LeafNodesPerPage B ^ level a"

lemma climb_to_ancestor:
  "l \<le> t \<Longrightarrow>
   climb_to B t (ancestor B b l, b div LeafNodesPerPage B ^ l mod LeafNodesPerPage B) =
     (ancestor B b t, b div LeafNodesPerPage B ^ t mod LeafNodesPerPage B)"
proof (induction "t - l" arbitrary: l)
  case 0
  then show ?case by (simp add: climb_to.simps ancestor_def)
next
  case (Suc k)
  have "fsm_get_parent B (ancestor B b l) = (ancestor B b (Suc l), b div LeafNodesPerPage B ^ Suc l mod LeafNodesPerPage B)"
    by (simp add: fsm_get_parent_def ancestor_def) (metis div_mult2_eq mult.commute mult.left_commute)
  then show ?case
    using Suc(1) [of "Suc l"] Suc(2,3) by (subst climb_to.simps) (simp add: ancestor_def)
qed

lemma location_ancestor:
  "fsm_get_location B blk = (ancestor B (unat blk) 0, unat blk div LeafNodesPerPage B ^ 0 mod LeafNodesPerPage B)"
  by (simp add: fsm_get_location_def ancestor_def)

lemma climb_to_location:
  "climb_to B t (fsm_get_location B blk) =
     (ancestor B (unat blk) t, unat blk div LeafNodesPerPage B ^ t mod LeafNodesPerPage B)"
  unfolding location_ancestor by (rule climb_to_ancestor) simp

lemma page_slot_le:
  assumes "s < S" "(0::nat) < S"
  shows "x \<le> p * S + s \<longleftrightarrow> x div S < p \<or> x div S = p \<and> x mod S \<le> s"
    and "p * S + s \<le> x \<longleftrightarrow> p < x div S \<or> x div S = p \<and> s \<le> x mod S"
proof -
  have x: "x = x div S * S + x mod S" by simp
  have mod: "x mod S < S" using assms(2) by simp
  have "q * S + t \<le> p * S + s" if "q < p" "t < S" for p q s t :: nat
    using mult_add_less [OF that] by linarith
  moreover have "\<not> q * S + t \<le> p * S + s" if "p < q" "s < S" for p q s t :: nat
    using mult_add_less [OF that] by linarith
  ultimately show "x \<le> p * S + s \<longleftrightarrow> x div S < p \<or> x div S = p \<and> x mod S \<le> s"
    and "p * S + s \<le> x \<longleftrightarrow> p < x div S \<or> x div S = p \<and> s \<le> x mod S"
    using assms(1) mod by (metis x linorder_neqE_nat nat_add_left_cancel_le)+
qed

lemma vacuum_slots_covered:
  assumes "0 < LeafNodesPerPage B"
  shows "s \<in> set (vacuum_slots B a start end) \<longleftrightarrow> s < LeafNodesPerPage B \<and> covered B start end a s"
proof -
  let ?S = "LeafNodesPerPage B"
  have anc: "logpageno (ancestor B b l) = b div ?S ^ l div ?S" for b l
    by (simp add: ancestor_def) (metis div_mult2_eq mult.commute)
  have mod: "b mod ?S < ?S" for b using assms by simp
  show ?thesis
  proof (cases "s < ?S")
    case True
    then show ?thesis
      unfolding covered_def page_slot_le [OF True assms] vacuum_slots_def vacuum_start_slot_def vacuum_end_slot_def
        climb_to_location Let_def prod.case anc by auto
  next
    case False
    then have "\<not> s < nat (vacuum_end_slot B a end + 1)"
      using mod [of "unat (end - 1) div ?S ^ level a"]
      unfolding vacuum_end_slot_def climb_to_location Let_def prod.case anc by (auto simp: not_less)
    then show ?thesis using False by (simp add: vacuum_slots_def)
  qed
qed

lemma below_refl [simp]: "below B a a"
  by (simp add: below_def)

lemma child_below_self: "0 < level c \<Longrightarrow> s < LeafNodesPerPage B \<Longrightarrow> below B (fsm_get_child B c s) c"
  by (simp add: below_def fsm_get_child_def)

lemma below_trans: "below B a b \<Longrightarrow> below B b c \<Longrightarrow> below B a c"
proof -
  assume a: "below B a b" "below B b c"
  then have "level c - level a = (level b - level a) + (level c - level b)" by (simp add: below_def)
  then have "logpageno a div LeafNodesPerPage B ^ (level c - level a) =
      logpageno a div LeafNodesPerPage B ^ (level b - level a) div LeafNodesPerPage B ^ (level c - level b)"
    by (metis div_mult2_eq power_add)
  then show ?thesis using a by (auto simp: below_def)
qed

lemma below_child:
  assumes "below B a c" "level a < level c" "0 < LeafNodesPerPage B"
  shows "\<exists>s < LeafNodesPerPage B. below B a (fsm_get_child B c s)"
proof -
  let ?S = "LeafNodesPerPage B"
  let ?q = "logpageno a div ?S ^ (level c - 1 - level a)"
  have "level c - level a = Suc (level c - 1 - level a)" using assms(2) by simp
  then have "logpageno c = ?q div ?S"
    using assms(1) unfolding below_def by (metis div_mult2_eq mult.commute power_Suc)
  then have "logpageno c * ?S + ?q mod ?S = ?q" by simp
  then have "below B a (fsm_get_child B c (?q mod ?S))" using assms(1,2) by (simp add: below_def fsm_get_child_def)
  then show ?thesis using assms(3) by (metis mod_less_divisor)
qed

lemma below_children_unique:
  "below B a (fsm_get_child B c s) \<Longrightarrow> below B a (fsm_get_child B c t) \<Longrightarrow> s = t"
  by (simp add: below_def fsm_get_child_def)

lemma not_below_child: "0 < level c \<Longrightarrow> \<not> below B c (fsm_get_child B c s)"
  by (auto simp: below_def fsm_get_child_def)

lemma covered_upwards:
  assumes "below B a (fsm_get_child B c s)" "0 < level c" "t < LeafNodesPerPage B" "covered B start end a t"
  shows "covered B start end c s"
proof -
  let ?S = "LeafNodesPerPage B" and ?x = "logpageno a * LeafNodesPerPage B + t"
  let ?k = "level c - level a"
  have k: "level c = level a + ?k" "?k = Suc (level c - 1 - level a)"
    using assms(1,2) by (auto simp: below_def fsm_get_child_def)
  have d: "b div ?S ^ level c = b div ?S ^ level a div ?S ^ ?k" for b
    using k(1) by (metis div_mult2_eq power_add)
  have "?x div ?S ^ ?k = ?x div ?S div ?S ^ (level c - 1 - level a)"
    by (metis k(2) div_mult2_eq power_Suc)
  also have "\<dots> = logpageno c * ?S + s"
    using assms(1,3) by (simp add: below_def fsm_get_child_def)
  finally show ?thesis
    using assms(4) div_le_mono [of _ _ "?S ^ ?k"] unfolding covered_def d by metis
qed

section \<open>Repaired views\<close>

text \<open>A page with the same values on two views, and what the visit of \<open>c\<close> does to the view: nothing
  outside the subtree of \<open>c\<close>, nothing to a leaf page, and every upper slot of the subtree that is
  covered, or was exact, is exact.\<close>

definition same_page :: "nat \<Rightarrow> FSMPageData list \<Rightarrow> FSMPageData list \<Rightarrow> FSMAddress \<Rightarrow> bool" where
  "same_page B V V' a \<longleftrightarrow>
     (\<forall>s < LeafNodesPerPage B. slot_value B V' a s = slot_value B V a s) \<and> page_max B V' a = page_max B V a"

definition repaired ::
  "nat \<Rightarrow> BlockNumber \<Rightarrow> BlockNumber \<Rightarrow> FSMPageData list \<Rightarrow> FSMPageData list \<Rightarrow> FSMAddress \<Rightarrow> bool" where
  "repaired B start end V V' c \<longleftrightarrow>
     (\<forall>a. level a < FSM_TREE_DEPTH B \<and> \<not> below B a c \<longrightarrow> same_page B V V' a) \<and>
     (\<forall>a. level a = 0 \<longrightarrow> same_page B V V' a) \<and>
     (\<forall>a s. below B a c \<and> 0 < level a \<and> s < LeafNodesPerPage B \<and>
        (covered B start end a s \<or> exact_slot B V a s) \<longrightarrow> exact_slot B V' a s)"

lemma same_page_refl [simp]: "same_page B V V a"
  by (simp add: same_page_def)

lemma same_page_trans: "same_page B V V' a \<Longrightarrow> same_page B V' V'' a \<Longrightarrow> same_page B V V'' a"
  by (simp add: same_page_def)

lemma same_page_nodes: "map fp_nodes V' = map fp_nodes V \<Longrightarrow> same_page B V V' a"
  by (simp only: same_page_def same_nodes [of V' V]) simp

lemma exact_slot_same:
  "same_page B V V' a \<Longrightarrow> same_page B V V' (fsm_get_child B a s) \<Longrightarrow> s < LeafNodesPerPage B \<Longrightarrow>
   exact_slot B V' a s \<longleftrightarrow> exact_slot B V a s"
  by (simp add: same_page_def exact_slot_def)

lemma repaired_nodes:
  "repaired B start end V V' c \<Longrightarrow> map fp_nodes V'' = map fp_nodes V' \<Longrightarrow> repaired B start end V V'' c"
  by (simp only: repaired_def same_page_def exact_slot_def same_nodes [of V'' V'])

lemma repaired_leaf:
  "level c = 0 \<Longrightarrow> map fp_nodes V' = map fp_nodes V \<Longrightarrow> repaired B start end V V' c"
  by (auto simp: repaired_def below_def intro: same_page_nodes)

text \<open>The loop over the slots of \<open>c\<close> from \<open>lo\<close> on, before it visits slot \<open>k\<close>.\<close>

definition loop_inv ::
  "nat \<Rightarrow> BlockNumber \<Rightarrow> BlockNumber \<Rightarrow> FSMAddress \<Rightarrow> nat \<Rightarrow> nat \<Rightarrow> FSMPageData list \<Rightarrow> FSMPageData list \<Rightarrow> bool" where
  "loop_inv B start end c lo k V V' \<longleftrightarrow>
     (\<forall>a. level a < FSM_TREE_DEPTH B \<and> a \<noteq> c \<and>
        (\<forall>s. lo \<le> s \<and> s < k \<longrightarrow> \<not> below B a (fsm_get_child B c s)) \<longrightarrow> same_page B V V' a) \<and>
     (\<forall>a. level a = 0 \<longrightarrow> same_page B V V' a) \<and>
     (\<forall>s < LeafNodesPerPage B.
        if lo \<le> s \<and> s < k then exact_slot B V' c s else slot_value B V' c s = slot_value B V c s) \<and>
     (\<forall>j a s. lo \<le> j \<and> j < k \<and> below B a (fsm_get_child B c j) \<and> 0 < level a \<and> s < LeafNodesPerPage B \<and>
        (covered B start end a s \<or> exact_slot B V a s) \<longrightarrow> exact_slot B V' a s)"

context fsm_tree
begin

lemma first_leaf_below:
  assumes "below BLCKSZ a c"
  shows "first_leaf (LeafNodesPerPage BLCKSZ) c \<le> first_leaf (LeafNodesPerPage BLCKSZ) a"
proof -
  let ?S = "LeafNodesPerPage BLCKSZ" and ?k = "level c - level a"
  have "logpageno c * ?S ^ ?k \<le> logpageno a"
    using assms div_times_less_eq_dividend [of "logpageno a" "?S ^ ?k"] by (simp add: below_def)
  moreover have "level c = ?k + level a" using assms by (simp add: below_def)
  then have "?S ^ level c = ?S ^ ?k * ?S ^ level a" by (metis power_add)
  ultimately show ?thesis
    using mult_le_mono1 [of "logpageno c * ?S ^ ?k" "logpageno a" "?S ^ level a"] by (simp add: first_leaf_def mult.assoc)
qed

lemma physical_below:
  assumes "below BLCKSZ a c" "level c < FSM_TREE_DEPTH BLCKSZ"
  shows "fsm_logical_to_physical BLCKSZ c \<le> fsm_logical_to_physical BLCKSZ a"
proof (cases "a = c")
  case False
  have "level a \<le> level c" using assms(1) by (simp add: below_def)
  moreover have "level a = level c \<Longrightarrow> a = c" using assms(1) by (cases a; cases c) (simp add: below_def)
  ultimately have "level a < level c" using False by linarith
  then show ?thesis
    using first_leaf_below [OF assms(1)] physical_less [of c BLCKSZ a] assms(2) size_bounds by fastforce
qed simp

lemma physical_children:
  assumes "s < t" "0 < level c" "level c < FSM_TREE_DEPTH BLCKSZ"
  shows "fsm_logical_to_physical BLCKSZ (fsm_get_child BLCKSZ c s) < fsm_logical_to_physical BLCKSZ (fsm_get_child BLCKSZ c t)"
  by (rule physical_less) (use assms size_bounds in \<open>auto simp: fsm_get_child_def first_leaf_def\<close>)

lemma repaired_missing:
  assumes "length V \<le> fsm_logical_to_physical BLCKSZ c" "level c < FSM_TREE_DEPTH BLCKSZ"
  shows "repaired BLCKSZ start end V V c" "page_max BLCKSZ V c = 0"
proof -
  have none: "length V \<le> fsm_logical_to_physical BLCKSZ a" if "below BLCKSZ a c" for a
    using physical_below [OF that assms(2)] assms(1) by simp
  have "exact_slot BLCKSZ V a s" if "below BLCKSZ a c" "0 < level a" "s < LeafNodesPerPage BLCKSZ" for a s
    using none [OF that(1)] none [OF below_trans [OF child_below_self [OF that(2,3)] that(1)]]
    by (simp add: exact_slot_def slot_value_def page_max_def not_less)
  then show "repaired BLCKSZ start end V V c" by (simp add: repaired_def)
  show "page_max BLCKSZ V c = 0" using assms(1) by (simp add: page_max_def)
qed

lemma loop_inv_empty: "k \<le> lo \<Longrightarrow> loop_inv B start end c lo k V V"
  by (auto simp: loop_inv_def)

lemma loop_invD:
  assumes "loop_inv B start end c lo k V V'"
  shows "level a < FSM_TREE_DEPTH B \<Longrightarrow> a \<noteq> c \<Longrightarrow>
      (\<And>s. lo \<le> s \<Longrightarrow> s < k \<Longrightarrow> \<not> below B a (fsm_get_child B c s)) \<Longrightarrow> same_page B V V' a"
    and "level a = 0 \<Longrightarrow> same_page B V V' a"
    and "lo \<le> s \<Longrightarrow> s < k \<Longrightarrow> s < LeafNodesPerPage B \<Longrightarrow> exact_slot B V' c s"
    and "\<not> (lo \<le> s \<and> s < k) \<Longrightarrow> s < LeafNodesPerPage B \<Longrightarrow> slot_value B V' c s = slot_value B V c s"
    and "lo \<le> j \<Longrightarrow> j < k \<Longrightarrow> below B a (fsm_get_child B c j) \<Longrightarrow> 0 < level a \<Longrightarrow> s < LeafNodesPerPage B \<Longrightarrow>
        covered B start end a s \<or> exact_slot B V a s \<Longrightarrow> exact_slot B V' a s"
  using assms unfolding loop_inv_def by (metis, metis, metis, metis, metis)

lemma repairedD:
  assumes "repaired B start end V V' c"
  shows "level a < FSM_TREE_DEPTH B \<Longrightarrow> \<not> below B a c \<Longrightarrow> same_page B V V' a"
    and "level a = 0 \<Longrightarrow> same_page B V V' a"
    and "below B a c \<Longrightarrow> 0 < level a \<Longrightarrow> s < LeafNodesPerPage B \<Longrightarrow>
        covered B start end a s \<or> exact_slot B V a s \<Longrightarrow> exact_slot B V' a s"
  using assms unfolding repaired_def by (metis, metis, metis)

lemma loop_step:
  assumes inv: "loop_inv BLCKSZ start end c lo k V V1"
    and rep: "repaired BLCKSZ start end V1 V2 (fsm_get_child BLCKSZ c k)"
    and other: "\<And>a. level a < FSM_TREE_DEPTH BLCKSZ \<Longrightarrow> a \<noteq> c \<Longrightarrow> same_page BLCKSZ V2 V3 a"
    and upd: "\<And>s. s < LeafNodesPerPage BLCKSZ \<Longrightarrow> slot_value BLCKSZ V3 c s =
      (if s = k then page_max BLCKSZ V2 (fsm_get_child BLCKSZ c k) else slot_value BLCKSZ V2 c s)"
    and c: "0 < level c" "level c < FSM_TREE_DEPTH BLCKSZ" and k: "lo \<le> k" "k < LeafNodesPerPage BLCKSZ"
  shows "loop_inv BLCKSZ start end c lo (Suc k) V V3"
  unfolding loop_inv_def
proof (intro conjI allI impI)
  let ?ch = "fsm_get_child BLCKSZ"
  have lev: "level a < FSM_TREE_DEPTH BLCKSZ" "a \<noteq> c" if "below BLCKSZ a (?ch c j)" for a j
    using that c not_below_child [OF c(1)] by (auto simp: below_def fsm_get_child_def)
  have late: "same_page BLCKSZ V1 V3 a" if "level a < FSM_TREE_DEPTH BLCKSZ" "a \<noteq> c" "\<not> below BLCKSZ a (?ch c k)" for a
    using same_page_trans [OF repairedD(1) [OF rep that(1,3)] other [OF that(1,2)]] .
  have sub: "below BLCKSZ (?ch a t) (?ch c j)" if "below BLCKSZ a (?ch c j)" "0 < level a" "t < LeafNodesPerPage BLCKSZ" for a t j
    using below_trans [OF child_below_self [OF that(2,3)] that(1)] .
  {
    fix a assume a: "level a < FSM_TREE_DEPTH BLCKSZ \<and> a \<noteq> c \<and> (\<forall>s. lo \<le> s \<and> s < Suc k \<longrightarrow> \<not> below BLCKSZ a (?ch c s))"
    then have "same_page BLCKSZ V V1 a" by (intro loop_invD(1) [OF inv]) auto
    then show "same_page BLCKSZ V V3 a" using same_page_trans late a k(1) by blast
  next
    fix a :: FSMAddress assume a: "level a = 0"
    then have "level a < FSM_TREE_DEPTH BLCKSZ" "a \<noteq> c" using c by auto
    then show "same_page BLCKSZ V V3 a"
      using same_page_trans [OF same_page_trans [OF loop_invD(2) [OF inv a] repairedD(2) [OF rep a]] other] by blast
  next
    fix s assume s: "s < LeafNodesPerPage BLCKSZ"
    have "same_page BLCKSZ V1 V2 c" using repairedD(1) [OF rep c(2)] not_below_child [OF c(1)] by blast
    then have keep: "s \<noteq> k \<Longrightarrow> slot_value BLCKSZ V3 c s = slot_value BLCKSZ V1 c s"
      using upd [OF s] s by (simp add: same_page_def)
    have ch: "same_page BLCKSZ V2 V3 (?ch c s)" "s \<noteq> k \<Longrightarrow> same_page BLCKSZ V1 V3 (?ch c s)"
      using other [OF lev [OF below_refl]] late [OF lev [OF below_refl]] below_children_unique [OF below_refl] by blast+
    show "if lo \<le> s \<and> s < Suc k then exact_slot BLCKSZ V3 c s else slot_value BLCKSZ V3 c s = slot_value BLCKSZ V c s"
    proof (cases "s = k")
      case True
      then show ?thesis using k upd [OF s] ch(1) by (simp add: exact_slot_def same_page_def)
    next
      case False
      then show ?thesis
        using keep ch(2) loop_invD(3) [OF inv _ _ s] loop_invD(4) [OF inv _ s]
        by (auto simp: exact_slot_def same_page_def)
    qed
  next
    fix j a s
    assume a: "lo \<le> j \<and> j < Suc k \<and> below BLCKSZ a (?ch c j) \<and> 0 < level a \<and> s < LeafNodesPerPage BLCKSZ \<and>
      (covered BLCKSZ start end a s \<or> exact_slot BLCKSZ V a s)"
    then have b: "below BLCKSZ a (?ch c j)" "below BLCKSZ (?ch a s) (?ch c j)" using sub by blast+
    show "exact_slot BLCKSZ V3 a s"
    proof (cases "j = k")
      case True
      have "same_page BLCKSZ V V1 x" if "below BLCKSZ x (?ch c k)" for x
        using lev [OF that] below_children_unique [OF that] by (intro loop_invD(1) [OF inv]) blast+
      then have "exact_slot BLCKSZ V1 a s \<longleftrightarrow> exact_slot BLCKSZ V a s" using b a True by (intro exact_slot_same) auto
      then have "exact_slot BLCKSZ V2 a s" using repairedD(3) [OF rep] a True by blast
      then show ?thesis
        using exact_slot_same [OF other [OF lev [OF b(1)]] other [OF lev [OF b(2)]]] a by blast
    next
      case False
      then have "exact_slot BLCKSZ V1 a s" using a by (intro loop_invD(5) [OF inv]) auto
      moreover have out: "\<not> below BLCKSZ x (?ch c k)" if "below BLCKSZ x (?ch c j)" for x
        using below_children_unique [OF that] False by blast
      ultimately show ?thesis
        using exact_slot_same [OF late [OF lev [OF b(1)] out [OF b(1)]] late [OF lev [OF b(2)] out [OF b(2)]]] a by blast
    qed
  }
qed

lemma loop_repaired:
  assumes inv: "loop_inv BLCKSZ start end c lo k V V'" and k: "k \<le> LeafNodesPerPage BLCKSZ \<or> k \<le> lo"
    and c: "0 < level c" "level c < FSM_TREE_DEPTH BLCKSZ"
    and slots: "\<And>s. s < LeafNodesPerPage BLCKSZ \<Longrightarrow> lo \<le> s \<and> s < k \<longleftrightarrow> covered BLCKSZ start end c s"
  shows "repaired BLCKSZ start end V V' c"
  unfolding repaired_def
proof (intro conjI allI impI)
  let ?ch = "fsm_get_child BLCKSZ"
  have lev: "level a < FSM_TREE_DEPTH BLCKSZ" "a \<noteq> c" if "below BLCKSZ a (?ch c j)" for a j
    using that c not_below_child [OF c(1)] by (auto simp: below_def fsm_get_child_def)
  have keep: "same_page BLCKSZ V V' a" if "below BLCKSZ a (?ch c j)" "\<not> (lo \<le> j \<and> j < k)" for a j
    using lev [OF that(1)] below_children_unique [OF that(1)] that(2) by (intro loop_invD(1) [OF inv]) blast+
  {
    fix a assume a: "level a < FSM_TREE_DEPTH BLCKSZ \<and> \<not> below BLCKSZ a c"
    then have "\<not> below BLCKSZ a (?ch c s)" if "lo \<le> s" "s < k" for s
      using below_trans [OF _ child_below_self [OF c(1), of s]] k that by auto
    then show "same_page BLCKSZ V V' a" using a by (intro loop_invD(1) [OF inv]) auto
  next
    fix a :: FSMAddress assume "level a = 0"
    then show "same_page BLCKSZ V V' a" by (rule loop_invD(2) [OF inv])
  next
    fix a s
    assume a: "below BLCKSZ a c \<and> 0 < level a \<and> s < LeafNodesPerPage BLCKSZ \<and>
      (covered BLCKSZ start end a s \<or> exact_slot BLCKSZ V a s)"
    show "exact_slot BLCKSZ V' a s"
    proof (cases "a = c")
      case True
      then show ?thesis
        using a slots [of s] loop_invD(3,4) [OF inv, of s] keep [OF below_refl, of s]
        by (auto simp: exact_slot_def same_page_def)
    next
      case False
      then have "level a < level c" using a by (cases a; cases c) (auto simp: below_def)
      then obtain j where j: "j < LeafNodesPerPage BLCKSZ" "below BLCKSZ a (?ch c j)"
        using below_child a size_bounds(3) by blast
      then have sub: "below BLCKSZ (?ch a s) (?ch c j)" using below_trans child_below_self a by blast
      show ?thesis
      proof (cases "lo \<le> j \<and> j < k")
        case True
        then show ?thesis using loop_invD(5) [OF inv] j a by blast
      next
        case False
        then have "\<not> covered BLCKSZ start end a s" using slots [OF j(1)] covered_upwards [OF j(2) c(1)] a by blast
        then show ?thesis using a exact_slot_same [OF keep [OF j(2) False] keep [OF sub False]] by blast
      qed
    qed
  }
qed

end

section \<open>The vacuum\<close>

definition vacuum_step ::
  "fsm_env \<Rightarrow> FSMAddress \<Rightarrow> BlockNumber \<Rightarrow> BlockNumber \<Rightarrow> nat \<Rightarrow> nat \<Rightarrow> (bool \<times> fsm_rel) result \<Rightarrow> (bool \<times> fsm_rel) result" where
  "vacuum_step env c start end buf slot st =
     (case st of
        Inl e \<Rightarrow> Inl e
      | Inr (eof, rel) \<Rightarrow>
          (case (if \<not> eof then fsm_vacuum_page env rel (fsm_get_child (blcksz env) c slot) start end
                 else Inr (0, eof, rel)) of
             Inl e \<Rightarrow> Inl e
           | Inr visit \<Rightarrow> Inr (vacuum_slot (blcksz env) buf slot visit)))"

lemma vacuum_page_unfold:
  "fsm_vacuum_page env rel c start end =
     (case fsm_readbuf env rel c False of
        Inl e \<Rightarrow> Inl e
      | Inr (None, rel) \<Rightarrow> Inr (0, True, rel)
      | Inr (Some buf, rel) \<Rightarrow>
          case (if level c > 0
                then fold (vacuum_step env c start end buf) (vacuum_slots (blcksz env) c start end) (Inr (False, rel))
                else Inr (False, rel)) of
            Inl e \<Rightarrow> Inl e
          | Inr (_, rel) \<Rightarrow>
              Inr (fsm_get_max_avail (get_page rel buf), False,
                   put_page rel buf ((get_page rel buf)\<lparr>fp_next_slot := 0\<rparr>)))"
  unfolding fsm_vacuum_page.simps [of env rel c] vacuum_step_def [abs_def] by (rule refl)

definition vac_ok :: "nat \<Rightarrow> BlockNumber \<Rightarrow> BlockNumber \<Rightarrow> FSMAddress \<Rightarrow> fsm_rel \<Rightarrow> fsm_rel \<Rightarrow> bool" where
  "vac_ok B start end c rel rel' \<longleftrightarrow>
     fsm_wf B rel' \<and> consistent B (fsm_view B rel') \<and> keeps_init rel rel' \<and>
     repaired B start end (fsm_view B rel) (fsm_view B rel') c"

context fsm_tree
begin

lemma vacuum_slot_spec:
  assumes rel: "fsm_wf BLCKSZ rel" "consistent BLCKSZ (fsm_view BLCKSZ rel)"
    and n: "n = fsm_logical_to_physical BLCKSZ c" "n < length (fsm_blocks rel)" "\<not> PageIsNew (fsm_blocks rel ! n)"
    and c: "level c < FSM_TREE_DEPTH BLCKSZ" "k < LeafNodesPerPage BLCKSZ"
  obtains rel' where "vacuum_slot BLCKSZ n k (v, eof, rel) = (eof, rel')" "fsm_wf BLCKSZ rel'"
    "consistent BLCKSZ (fsm_view BLCKSZ rel')" "keeps_init rel rel'"
    "\<And>a. level a < FSM_TREE_DEPTH BLCKSZ \<Longrightarrow> a \<noteq> c \<Longrightarrow> same_page BLCKSZ (fsm_view BLCKSZ rel) (fsm_view BLCKSZ rel') a"
    "\<And>s. s < LeafNodesPerPage BLCKSZ \<Longrightarrow> slot_value BLCKSZ (fsm_view BLCKSZ rel') c s =
      (if s = k then v else slot_value BLCKSZ (fsm_view BLCKSZ rel) c s)"
proof (cases "slot_value BLCKSZ (fsm_view BLCKSZ rel) c k = v")
  case True
  then have "vacuum_slot BLCKSZ n k (v, eof, rel) = (eof, rel)"
    using n get_page_view [OF n(2,3), of BLCKSZ] by (simp add: vacuum_slot_def slot_value_def)
  then show thesis using that [of rel] rel True by simp
next
  case False
  let ?V = "fsm_view BLCKSZ rel"
  let ?p = "snd (fsm_set_avail BLCKSZ (?V ! n) k v)"
  have nlen: "n < length ?V" using n(2) by simp
  have cons: "fsm_consistent BLCKSZ (fp_nodes (?V ! n))" by (rule consistent_nth [OF rel(2) nlen])
  then have len: "length (fp_nodes (?V ! n)) = NodesPerPage BLCKSZ" by (simp add: fsm_consistent_def)
  obtain changed where "fsm_set_avail BLCKSZ (?V ! n) k v = (changed, ?p)" by (metis prod.collapse)
  note set = set_avail [OF len c(2) this]
  have step: "vacuum_slot BLCKSZ n k (v, eof, rel) = (eof, put_page rel n ?p)"
    using False n get_page_view [OF n(2,3), of BLCKSZ] by (simp add: vacuum_slot_def slot_value_def)
  have view: "fsm_view BLCKSZ (put_page rel n ?p) = ?V[n := ?p]" and wf: "fsm_wf BLCKSZ (put_page rel n ?p)"
    using put_page_spec [OF rel(1) n(2,3) set(1)] by blast+
  have slots: "slot_value BLCKSZ (?V[n := ?p]) a s =
      (if a = c then fsm_get_avail BLCKSZ ?p s else slot_value BLCKSZ ?V a s)"
    "page_max BLCKSZ (?V[n := ?p]) a = (if a = c then fsm_get_max_avail ?p else page_max BLCKSZ ?V a)"
    if "level a < FSM_TREE_DEPTH BLCKSZ" for a s
    using slot_value_update [OF that c(1)] nlen unfolding n(1) by blast+
  show thesis
  proof (rule that [OF step wf])
    show "consistent BLCKSZ (fsm_view BLCKSZ (put_page rel n ?p))"
      unfolding view by (rule consistent_update [OF rel(2) set(4) [OF cons]])
    show "same_page BLCKSZ ?V (fsm_view BLCKSZ (put_page rel n ?p)) a" if "level a < FSM_TREE_DEPTH BLCKSZ" "a \<noteq> c" for a
      using slots [OF that(1)] that(2) unfolding view by (simp add: same_page_def)
    show "slot_value BLCKSZ (fsm_view BLCKSZ (put_page rel n ?p)) c s = (if s = k then v else slot_value BLCKSZ ?V c s)"
      if "s < LeafNodesPerPage BLCKSZ" for s
      using set(2) [OF that] slots(1) [OF c(1)] n nlen unfolding view by (simp add: slot_value_def)
  qed (rule keeps_init_page)
qed

text \<open>The loop, given that the visits of the children are right.\<close>

lemma vacuum_loop:
  assumes visit: "\<And>rel s. fsm_wf BLCKSZ rel \<Longrightarrow> consistent BLCKSZ (fsm_view BLCKSZ rel) \<Longrightarrow> s < LeafNodesPerPage BLCKSZ \<Longrightarrow>
      \<exists>rel'. fsm_vacuum_page env rel (fsm_get_child BLCKSZ c s) start end =
          Inr (page_max BLCKSZ (fsm_view BLCKSZ rel') (fsm_get_child BLCKSZ c s),
               length (fsm_blocks rel) \<le> fsm_logical_to_physical BLCKSZ (fsm_get_child BLCKSZ c s), rel') \<and>
        vac_ok BLCKSZ start end (fsm_get_child BLCKSZ c s) rel rel'"
    and rel: "fsm_wf BLCKSZ rel" "consistent BLCKSZ (fsm_view BLCKSZ rel)"
    and n: "n = fsm_logical_to_physical BLCKSZ c" "n < length (fsm_blocks rel)" "\<not> PageIsNew (fsm_blocks rel ! n)"
    and c: "0 < level c" "level c < FSM_TREE_DEPTH BLCKSZ"
  shows "lo \<le> k \<Longrightarrow> k \<le> LeafNodesPerPage BLCKSZ \<Longrightarrow>
    \<exists>eof rel'. fold (vacuum_step env c start end n) [lo..<k] (Inr (False, rel)) = Inr (eof, rel') \<and>
      fsm_wf BLCKSZ rel' \<and> consistent BLCKSZ (fsm_view BLCKSZ rel') \<and> keeps_init rel rel' \<and>
      loop_inv BLCKSZ start end c lo k (fsm_view BLCKSZ rel) (fsm_view BLCKSZ rel') \<and>
      (eof \<longrightarrow> (\<forall>s \<ge> k. length (fsm_blocks rel) \<le> fsm_logical_to_physical BLCKSZ (fsm_get_child BLCKSZ c s)))"
proof (induction k)
  case 0
  then show ?case using rel by (intro exI [of _ False] exI [of _ rel]) (simp add: loop_inv_empty)
next
  case (Suc k)
  show ?case
  proof (cases "lo = Suc k")
    case True
    then show ?thesis using rel by (intro exI [of _ False] exI [of _ rel]) (simp add: loop_inv_empty)
  next
    case False
    let ?c = "fsm_get_child BLCKSZ c k"
    have k: "lo \<le> k" "k < LeafNodesPerPage BLCKSZ" using Suc.prems False by auto
    obtain eof rel1 where 1: "fold (vacuum_step env c start end n) [lo..<k] (Inr (False, rel)) = Inr (eof, rel1)"
      "fsm_wf BLCKSZ rel1" "consistent BLCKSZ (fsm_view BLCKSZ rel1)" "keeps_init rel rel1"
      "loop_inv BLCKSZ start end c lo k (fsm_view BLCKSZ rel) (fsm_view BLCKSZ rel1)"
      "eof \<Longrightarrow> (\<forall>s \<ge> k. length (fsm_blocks rel) \<le> fsm_logical_to_physical BLCKSZ (fsm_get_child BLCKSZ c s))"
      using Suc.IH k by auto
    have len1: "length (fsm_blocks rel1) = length (fsm_blocks rel)" using 1(4) by (simp add: keeps_init_def)
    have lc: "level ?c < FSM_TREE_DEPTH BLCKSZ" using c by (simp add: fsm_get_child_def)
    obtain v eof2 rel2 where 2: "(if \<not> eof then fsm_vacuum_page env rel1 ?c start end else Inr (0, eof, rel1)) = Inr (v, eof2, rel2)"
      "v = page_max BLCKSZ (fsm_view BLCKSZ rel2) ?c" "vac_ok BLCKSZ start end ?c rel1 rel2"
      "eof2 \<longleftrightarrow> length (fsm_blocks rel) \<le> fsm_logical_to_physical BLCKSZ ?c"
    proof (cases eof)
      case True
      then have "length (fsm_blocks rel) \<le> fsm_logical_to_physical BLCKSZ ?c" using 1(6) by simp
      then show ?thesis
        using True 1 len1 repaired_missing [of "fsm_view BLCKSZ rel1" ?c, OF _ lc]
        by (intro that [of 0 True rel1]) (simp_all add: vac_ok_def)
    next
      case False
      then show ?thesis using visit [OF 1(2,3) k(2)] len1 that by auto
    qed
    have ok2: "fsm_wf BLCKSZ rel2" "consistent BLCKSZ (fsm_view BLCKSZ rel2)" "keeps_init rel1 rel2"
      "repaired BLCKSZ start end (fsm_view BLCKSZ rel1) (fsm_view BLCKSZ rel2) ?c"
      using 2(3) by (simp_all add: vac_ok_def)
    have n2: "n < length (fsm_blocks rel2)" "\<not> PageIsNew (fsm_blocks rel2 ! n)"
      using keeps_init_trans [OF 1(4) ok2(3)] n(2,3) by (simp_all add: keeps_init_def)
    obtain rel3 where 3: "vacuum_slot BLCKSZ n k (v, eof2, rel2) = (eof2, rel3)" "fsm_wf BLCKSZ rel3"
      "consistent BLCKSZ (fsm_view BLCKSZ rel3)" "keeps_init rel2 rel3"
      "\<And>a. level a < FSM_TREE_DEPTH BLCKSZ \<Longrightarrow> a \<noteq> c \<Longrightarrow> same_page BLCKSZ (fsm_view BLCKSZ rel2) (fsm_view BLCKSZ rel3) a"
      "\<And>s. s < LeafNodesPerPage BLCKSZ \<Longrightarrow> slot_value BLCKSZ (fsm_view BLCKSZ rel3) c s =
        (if s = k then v else slot_value BLCKSZ (fsm_view BLCKSZ rel2) c s)"
      using vacuum_slot_spec [OF ok2(1,2) n(1) n2 c(2) k(2), of v eof2] by metis
    have "fold (vacuum_step env c start end n) [lo..<Suc k] (Inr (False, rel)) = Inr (eof2, rel3)"
      using k 1(1) 2(1) 3(1) by (cases eof) (simp_all add: vacuum_step_def env_size)
    moreover have "loop_inv BLCKSZ start end c lo (Suc k) (fsm_view BLCKSZ rel) (fsm_view BLCKSZ rel3)"
      by (rule loop_step [OF 1(5) ok2(4) 3(5) 3(6) [unfolded 2(2)] c k])
    moreover have "length (fsm_blocks rel) \<le> fsm_logical_to_physical BLCKSZ (fsm_get_child BLCKSZ c s)" if "eof2" "Suc k \<le> s" for s
      using 2(4) that physical_children [of k s, OF _ c] by simp
    ultimately show ?thesis using 3(2-4) keeps_init_trans [OF keeps_init_trans [OF 1(4) ok2(3)]] by blast
  qed
qed

lemma vacuum_finish:
  assumes "fsm_wf BLCKSZ rel" "consistent BLCKSZ (fsm_view BLCKSZ rel)" "n < length (fsm_blocks rel)"
    "\<not> PageIsNew (fsm_blocks rel ! n)" "rel' = put_page rel n ((get_page rel n)\<lparr>fp_next_slot := 0\<rparr>)"
  shows "fsm_wf BLCKSZ rel'" "map fp_nodes (fsm_view BLCKSZ rel') = map fp_nodes (fsm_view BLCKSZ rel)"
    "keeps_init rel rel'" "consistent BLCKSZ (fsm_view BLCKSZ rel')"
proof -
  note page = get_page_view [OF assms(3,4), of BLCKSZ]
  have len: "length (fp_nodes ((get_page rel n)\<lparr>fp_next_slot := 0\<rparr>)) = NodesPerPage BLCKSZ"
    using sized_nth [OF fsm_wf_sized [OF assms(1)]] assms(3) page by simp
  show "fsm_wf BLCKSZ rel'" unfolding assms(5) by (rule put_page_spec [OF assms(1,3,4) len])
  show nodes: "map fp_nodes (fsm_view BLCKSZ rel') = map fp_nodes (fsm_view BLCKSZ rel)"
    using put_page_spec(1) [OF assms(1,3,4) len] assms(3) page unfolding assms(5)
    by (simp add: map_update list_eq_iff_nth_eq nth_list_update)
  show "keeps_init rel rel'" unfolding assms(5) by (rule keeps_init_page)
  show "consistent BLCKSZ (fsm_view BLCKSZ rel')" using assms(2) same_nodes(4) [OF nodes] by simp
qed

lemma vacuum_slots_range:
  assumes "0 < level c" "level c < FSM_TREE_DEPTH BLCKSZ"
  obtains lo k where "vacuum_slots BLCKSZ c start end = [lo..<k]" "lo \<le> k" "k \<le> LeafNodesPerPage BLCKSZ \<or> k \<le> lo"
    "\<And>s. s < LeafNodesPerPage BLCKSZ \<Longrightarrow> lo \<le> s \<and> s < k \<longleftrightarrow> covered BLCKSZ start end c s"
proof -
  define lo where "lo = vacuum_start_slot BLCKSZ c start"
  define hi where "hi = nat (vacuum_end_slot BLCKSZ c end + 1)"
  have slots: "vacuum_slots BLCKSZ c start end = [lo..<max lo hi]"
    by (cases "lo \<le> hi") (simp_all add: vacuum_slots_def lo_def hi_def max_def)
  have cov: "lo \<le> s \<and> s < max lo hi \<longleftrightarrow> s < LeafNodesPerPage BLCKSZ \<and> covered BLCKSZ start end c s" for s
    using vacuum_slots_covered [OF size_bounds(3), of s c start "end"] unfolding slots by simp
  then have "max lo hi \<le> LeafNodesPerPage BLCKSZ \<or> max lo hi \<le> lo"
    by (metis le_cases less_imp_le_nat linorder_not_less)
  then show thesis using that [OF slots] cov by auto
qed

lemma vacuum_page_spec:
  "level c < FSM_TREE_DEPTH BLCKSZ \<Longrightarrow> fsm_wf BLCKSZ rel \<Longrightarrow> consistent BLCKSZ (fsm_view BLCKSZ rel) \<Longrightarrow>
   \<exists>rel'. fsm_vacuum_page env rel c start end =
       Inr (page_max BLCKSZ (fsm_view BLCKSZ rel') c, length (fsm_blocks rel) \<le> fsm_logical_to_physical BLCKSZ c, rel') \<and>
     vac_ok BLCKSZ start end c rel rel'"
proof (induction "level c" arbitrary: c rel rule: less_induct)
  case less
  let ?n = "fsm_logical_to_physical BLCKSZ c"
  obtain rel1 where 1: "fsm_readbuf env rel c False = Inr (if ?n < length (fsm_blocks rel) then Some ?n else None, rel1)"
    "fsm_wf BLCKSZ rel1" "fsm_view BLCKSZ rel1 = fsm_view BLCKSZ rel" "keeps_init rel rel1"
    "?n < length (fsm_blocks rel) \<Longrightarrow> \<not> PageIsNew (fsm_blocks rel1 ! ?n)"
    by (rule readbuf_spec [OF less.prems(2) env_size refl]) blast
  note cons1 = less.prems(3) [folded 1(3)]
  have len1: "length (fsm_blocks rel1) = length (fsm_blocks rel)" using 1(4) by (simp add: keeps_init_def)
  show ?case
  proof (cases "?n < length (fsm_blocks rel)")
    case False
    then show ?thesis
      using 1 less.prems repaired_missing [of "fsm_view BLCKSZ rel" c] by (simp add: vacuum_page_unfold vac_ok_def not_less)
  next
    case True
    have n1: "?n < length (fsm_blocks rel1)" "\<not> PageIsNew (fsm_blocks rel1 ! ?n)" using True len1 1(5) by auto
    obtain eof rel2 where 2: "(if level c > 0
          then fold (vacuum_step env c start end ?n) (vacuum_slots BLCKSZ c start end) (Inr (False, rel1))
          else Inr (False, rel1)) = Inr (eof, rel2)"
      "fsm_wf BLCKSZ rel2" "consistent BLCKSZ (fsm_view BLCKSZ rel2)" "keeps_init rel1 rel2"
      "repaired BLCKSZ start end (fsm_view BLCKSZ rel) (fsm_view BLCKSZ rel2) c"
    proof (cases "level c = 0")
      case True
      then show ?thesis using that [of False rel1] 1 cons1 repaired_leaf by simp
    next
      case False
      then have c: "0 < level c" by simp
      obtain lo k where slots: "vacuum_slots BLCKSZ c start end = [lo..<k]" "lo \<le> k"
        "k \<le> LeafNodesPerPage BLCKSZ \<or> k \<le> lo"
        "\<And>s. s < LeafNodesPerPage BLCKSZ \<Longrightarrow> lo \<le> s \<and> s < k \<longleftrightarrow> covered BLCKSZ start end c s"
        by (rule vacuum_slots_range [OF c less.prems(1), of start "end"]) blast
      have "\<exists>eof rel'. fold (vacuum_step env c start end ?n) [lo..<k] (Inr (False, rel1)) = Inr (eof, rel') \<and>
          fsm_wf BLCKSZ rel' \<and> consistent BLCKSZ (fsm_view BLCKSZ rel') \<and> keeps_init rel1 rel' \<and>
          loop_inv BLCKSZ start end c lo k (fsm_view BLCKSZ rel1) (fsm_view BLCKSZ rel')"
      proof (cases "k \<le> lo")
        case True
        then show ?thesis using 1(2) cons1 by (auto simp: loop_inv_empty)
      next
        case False
        have "level (fsm_get_child BLCKSZ c s) < level c" "level (fsm_get_child BLCKSZ c s) < FSM_TREE_DEPTH BLCKSZ" for s
          using c less.prems(1) by (simp_all add: fsm_get_child_def)
        then show ?thesis
          using vacuum_loop [OF less.hyps 1(2) cons1 refl n1 c less.prems(1) slots(2)] slots(3) False by blast
      qed
      then show ?thesis using loop_repaired [OF _ slots(3) c less.prems(1) slots(4)] that slots(1) c 1(3) by metis
    qed
    have k2: "keeps_init rel rel2" by (rule keeps_init_trans [OF 1(4) 2(4)])
    have n2: "?n < length (fsm_blocks rel2)" "\<not> PageIsNew (fsm_blocks rel2 ! ?n)"
      using 2(4) n1 by (simp_all add: keeps_init_def)
    define rel3 where "rel3 = put_page rel2 ?n ((get_page rel2 ?n)\<lparr>fp_next_slot := 0\<rparr>)"
    note 3 = vacuum_finish [OF 2(2,3) n2 rel3_def]
    have "fsm_vacuum_page env rel c start end = Inr (fsm_get_max_avail (get_page rel2 ?n), False, rel3)"
      using True 1(1) 2(1) unfolding vacuum_page_unfold [of env rel c start "end"] env_size rel3_def by simp
    moreover have "fsm_get_max_avail (get_page rel2 ?n) = page_max BLCKSZ (fsm_view BLCKSZ rel3) c"
      using n2 same_nodes(2) [OF 3(2)] get_page_view [OF n2, of BLCKSZ] by (simp add: page_max_def)
    moreover have "vac_ok BLCKSZ start end c rel rel3"
      unfolding vac_ok_def using 3 keeps_init_trans [OF k2] repaired_nodes [OF 2(5)] by blast
    ultimately show ?thesis using True by simp
  qed
qed

end

end
