(* ===== verification/FreeSpaceMapContract.thy ===== *)
theory FreeSpaceMapContract
  imports FreeSpaceMapTree
begin

text \<open>What the free space map promises to its callers: the categories never promise more space than
  there is, addresses are one to one and fit their types, a recorded value is read back, a search
  ends and offers only blocks with enough space, the vacuum makes the search complete, and truncation
  forgets exactly the removed blocks.\<close>

section \<open>Categories\<close>

lemma unat_of_nat_uint8: "n < 256 \<Longrightarrow> unat (word_of_nat n :: uint8) = n"
  by (simp add: unat_of_nat take_bit_eq_mod)

lemma unat_max_uint8: "unat (255 :: uint8) = 255" by simp

lemma needed_to_cat_cases:
  assumes "fsm_space_needed_to_cat B needed = Inr c"
  shows "needed \<le> MaxFSMRequestSize B"
    and "unat c = (if needed = 0 then 1 else min 255 ((needed + FSM_CAT_STEP B - 1) div FSM_CAT_STEP B))"
proof -
  show "needed \<le> MaxFSMRequestSize B"
    using assms by (auto simp: fsm_space_needed_to_cat_def split: if_splits)
  then show "unat c = (if needed = 0 then 1 else min 255 ((needed + FSM_CAT_STEP B - 1) div FSM_CAT_STEP B))"
    using assms unat_of_nat_uint8 unat_max_uint8
    by (auto simp: fsm_space_needed_to_cat_def Let_def min_def split: if_splits)
qed

lemma le_ceiling_div:
  assumes "0 < (d::nat)"
  shows "n \<le> (n + d - 1) div d * d"
proof -
  have "n + d - 1 < ((n + d - 1) div d + 1) * d" using assms dividend_less_times_div [of d "n + d - 1"] by (simp add: mult.commute)
  then show ?thesis using assms by simp
qed

text \<open>A page of a category found by a search for \<open>needed\<close> bytes has them.\<close>

lemma needed_le_cat:
  assumes "fsm_space_needed_to_cat B needed = Inr c" "c \<le> cat" "0 < FSM_CAT_STEP B"
  shows "needed \<le> fsm_space_cat_to_avail B cat"
proof (cases "cat = 255")
  case True
  then show ?thesis using needed_to_cat_cases(1) [OF assms(1)] by (simp add: fsm_space_cat_to_avail_def)
next
  case False
  have le: "unat c \<le> unat cat" using assms(2) by (simp add: word_le_nat_alt)
  have "unat cat \<noteq> 255" using False unat_max_uint8 by (metis unsigned_word_eqI)
  moreover have "unat cat < 256" using unsigned_less [of cat] by simp
  ultimately have cat: "unat cat \<le> 254" by simp
  have "needed \<le> unat c * FSM_CAT_STEP B"
  proof (cases "needed = 0")
    case False
    then have "unat c = (needed + FSM_CAT_STEP B - 1) div FSM_CAT_STEP B"
      using needed_to_cat_cases(2) [OF assms(1)] le cat by (simp add: min_def split: if_splits)
    then show ?thesis using le_ceiling_div [OF assms(3)] by simp
  qed simp
  also have "\<dots> \<le> unat cat * FSM_CAT_STEP B" using le by simp
  finally show ?thesis using False by (simp add: fsm_space_cat_to_avail_def)
qed

lemma cat_le_avail:
  assumes "0 < FSM_CAT_STEP B"
  shows "fsm_space_cat_to_avail B (fsm_space_avail_to_cat B avail) \<le> avail"
proof (cases "avail \<ge> MaxFSMRequestSize B")
  case True
  then show ?thesis by (simp add: fsm_space_cat_to_avail_def fsm_space_avail_to_cat_def)
next
  case False
  let ?c = "avail div FSM_CAT_STEP B"
  have "min 254 ?c * FSM_CAT_STEP B \<le> avail"
    using mult_le_mono1 [of "min 254 ?c" ?c "FSM_CAT_STEP B"] div_times_less_eq_dividend [of avail "FSM_CAT_STEP B"] by linarith
  moreover have u: "unat (fsm_space_avail_to_cat B avail) = min 254 ?c"
    using False by (auto simp: fsm_space_avail_to_cat_def Let_def min_def unat_of_nat_uint8)
  moreover have "fsm_space_avail_to_cat B avail \<noteq> 255"
  proof
    assume "fsm_space_avail_to_cat B avail = 255"
    with u unat_max_uint8 show False by simp
  qed
  ultimately show ?thesis by (simp add: fsm_space_cat_to_avail_def)
qed

lemma needed_cat_exists: "needed \<le> MaxFSMRequestSize B \<Longrightarrow> \<exists>c. fsm_space_needed_to_cat B needed = Inr c"
  by (cases "needed = 0") (simp_all add: fsm_space_needed_to_cat_def Let_def)

lemma cat_iff:
  assumes "fsm_space_needed_to_cat B needed = Inr c" "0 < FSM_CAT_STEP B" "0 < needed"
  shows "c \<le> cat \<longleftrightarrow> needed \<le> fsm_space_cat_to_avail B cat"
proof
  show "c \<le> cat \<Longrightarrow> needed \<le> fsm_space_cat_to_avail B cat" using needed_le_cat [OF assms(1) _ assms(2)] .
  assume le: "needed \<le> fsm_space_cat_to_avail B cat"
  have c: "unat c = min 255 ((needed + FSM_CAT_STEP B - 1) div FSM_CAT_STEP B)"
    using needed_to_cat_cases(2) [OF assms(1)] assms(3) by simp
  show "c \<le> cat"
  proof (cases "cat = 255")
    case True
    then show ?thesis using c by (simp add: word_le_nat_alt)
  next
    case False
    then have "needed + FSM_CAT_STEP B - 1 < (unat cat + 1) * FSM_CAT_STEP B"
      using le assms(2,3) by (simp add: fsm_space_cat_to_avail_def)
    then have "(needed + FSM_CAT_STEP B - 1) div FSM_CAT_STEP B < unat cat + 1" by (rule less_mult_imp_div_less)
    then show ?thesis using c by (simp add: word_le_nat_alt)
  qed
qed

lemma needed_to_cat_pos:
  assumes "fsm_space_needed_to_cat B needed = Inr c" "0 < FSM_CAT_STEP B"
  shows "0 < c"
proof -
  have "0 < needed \<Longrightarrow> 0 < (needed + FSM_CAT_STEP B - 1) div FSM_CAT_STEP B"
    using assms(2) by (simp add: div_greater_zero_iff)
  then have "0 < unat c" using needed_to_cat_cases(2) [OF assms(1)] by (cases "needed = 0") (auto simp: min_def)
  then show ?thesis by (simp add: unat_gt_0 word_gt_0)
qed

lemma cat_close:
  assumes "0 < FSM_CAT_STEP B" "avail < MaxFSMRequestSize B" "B = 256 * FSM_CAT_STEP B"
  shows "avail < fsm_space_cat_to_avail B (fsm_space_avail_to_cat B avail) + 2 * FSM_CAT_STEP B"
proof -
  let ?c = "avail div FSM_CAT_STEP B"
  have u: "unat (fsm_space_avail_to_cat B avail) = min 254 ?c"
    using assms(2) by (auto simp: fsm_space_avail_to_cat_def Let_def min_def unat_of_nat_uint8)
  have "avail < (?c + 1) * FSM_CAT_STEP B"
    using assms(1) dividend_less_times_div [of "FSM_CAT_STEP B" avail] by (simp add: mult.commute)
  moreover have "avail < 256 * FSM_CAT_STEP B" using assms(2,3) by (simp add: MaxFSMRequestSize_def)
  ultimately have "avail < min 254 ?c * FSM_CAT_STEP B + 2 * FSM_CAT_STEP B"
    using assms(1) by (cases "?c \<le> 254") (auto simp: min_def)
  moreover have "fsm_space_avail_to_cat B avail \<noteq> 255"
  proof
    assume "fsm_space_avail_to_cat B avail = 255"
    with u unat_max_uint8 show False by simp
  qed
  ultimately show ?thesis using u by (simp add: fsm_space_cat_to_avail_def)
qed

section \<open>Addresses\<close>

lemma pages_upto_bound:
  assumes "D = 3 \<or> D = 4"
  shows "pages_upto S D x \<le> x + 3 * (x div S)"
proof -
  have "x div S ^ Suc i \<le> x div S" for i by (metis div_le_dividend div_mult2_eq power_Suc)
  from this [of 1] this [of 2] show ?thesis
    using assms by (auto simp: pages_upto_def numeral_eq_Suc)
qed

lemma supported_sizes:
  assumes "9 \<le> (h::nat)" "h \<le> 14"
  shows "h \<in> {9, 10, 11, 12, 13, 14}"
  using assms by auto

text \<open>The numbers of slots for block sizes from 1024 to 32768, with the depth of the tree.\<close>

lemma slots_of_size:
  assumes "BLCKSZ = 2 ^ Suc h" "9 \<le> h" "h \<le> 14"
  shows "(LeafNodesPerPage BLCKSZ, FSM_TREE_DEPTH BLCKSZ) \<in>
    {(485, 4), (997, 4), (2021, 3), (4069, 3), (8165, 3), (16357, 3)}"
  using supported_sizes [OF assms(2,3)] assms(1)
  by (auto simp: FSM_TREE_DEPTH_def LeafNodesPerPage_def NodesPerPage_def NonLeafNodesPerPage_def)

lemma tree_size_bounds:
  assumes "BLCKSZ = 2 ^ Suc h" "9 \<le> h" "h \<le> 14"
  shows "2 ^ 32 \<le> LeafNodesPerPage BLCKSZ ^ FSM_TREE_DEPTH BLCKSZ"
    and "LeafNodesPerPage BLCKSZ ^ FSM_ROOT_LEVEL BLCKSZ \<le> 991026973"
    and "485 \<le> LeafNodesPerPage BLCKSZ"
  using slots_of_size [OF assms] by (auto simp: FSM_ROOT_LEVEL_def)

lemma first_leaf_bound:
  assumes "addr_ok B a" "0 < LeafNodesPerPage B"
  shows "first_leaf (LeafNodesPerPage B) a < LeafNodesPerPage B ^ FSM_ROOT_LEVEL B"
proof -
  have "FSM_ROOT_LEVEL B = (FSM_ROOT_LEVEL B - level a) + level a"
    using assms(1) by (simp add: addr_ok_def FSM_ROOT_LEVEL_def)
  then have "LeafNodesPerPage B ^ FSM_ROOT_LEVEL B =
      LeafNodesPerPage B ^ (FSM_ROOT_LEVEL B - level a) * LeafNodesPerPage B ^ level a"
    by (metis power_add)
  then show ?thesis using assms by (simp add: first_leaf_def addr_ok_def)
qed

lemma page_count_bound:
  assumes "BLCKSZ = 2 ^ Suc h" "9 \<le> h" "h \<le> 14" "addr_ok BLCKSZ a"
  shows "first_leaf (LeafNodesPerPage BLCKSZ) a < 2 ^ 31 \<and>
    fsm_logical_to_physical BLCKSZ a + level a + 1 < 2 ^ 31"
proof -
  let ?S = "LeafNodesPerPage BLCKSZ" and ?x = "first_leaf (LeafNodesPerPage BLCKSZ) a"
  note b = tree_size_bounds [OF assms(1-3)]
  have x: "?x < 991026973" using first_leaf_bound [OF assms(4)] b by linarith
  have "?x div ?S \<le> ?x div 485" using b(3) by (simp add: div_le_mono2)
  moreover have "?x div 485 \<le> 991026973 div 485" using x by (intro div_le_mono) simp
  ultimately have "3 * (?x div ?S) \<le> 6130063" by simp
  moreover have "fsm_logical_to_physical BLCKSZ a \<le> pages_upto ?S (FSM_TREE_DEPTH BLCKSZ) ?x + 3"
    "level a < 4"
    using addr_ok_level [OF assms(4)] tree_depth_cases [of BLCKSZ]
    by (auto simp: logical_to_physical_eq FSM_ROOT_LEVEL_def)
  ultimately show ?thesis
    using x pages_upto_bound [OF tree_depth_cases, of ?S BLCKSZ ?x] by simp
qed

lemma location_round_trip:
  assumes "0 < LeafNodesPerPage B" "2 ^ 32 \<le> LeafNodesPerPage B ^ FSM_TREE_DEPTH B" "fsm_get_location B blk = (addr, slot)"
  shows "addr_ok B addr \<and> slot < LeafNodesPerPage B \<and> fsm_get_heap_blk B addr slot = blk"
proof -
  have "unat blk < 2 ^ LENGTH(32)" by (rule unsigned_less)
  then have "unat blk < LeafNodesPerPage B ^ FSM_TREE_DEPTH B" using assms(2) by simp
  then have "addr_ok B (ancestor B (unat blk) 0)" by (intro ancestor_ok) auto
  then show ?thesis
    using assms(1,3) unfolding fsm_get_location_def
    by (auto simp: ancestor_def fsm_get_heap_blk_def div_mult_mod_eq simp del: of_nat_add of_nat_mult)
qed

text \<open>C27: For the supported block sizes, 1024 to 32768, every heap block has its own slot in the tree
  below the root page, from which \<^verbatim>\<open>fsm_get_heap_blk\<close> computes it back; two pages of the tree
  never share a block of the fork; and the numbers \<^verbatim>\<open>fsm_logical_to_physical\<close> computes on the way
  fit a signed 32-bit integer. With blocks of 512 bytes, which the comment on
  \<^verbatim>\<open>FSM_TREE_DEPTH\<close> calls supported, the last heap block has no place in the tree.\<close>

theorem fsm_addressing_correct:
  assumes "BLCKSZ = 2 ^ Suc h" "9 \<le> h" "h \<le> 14"
  shows "(\<forall>blk. case fsm_get_location BLCKSZ blk of (addr, slot) \<Rightarrow>
       addr_ok BLCKSZ addr \<and> slot < LeafNodesPerPage BLCKSZ \<and> LeafNodesPerPage BLCKSZ < 2 ^ 16 \<and>
       fsm_get_heap_blk BLCKSZ addr slot = blk) \<and>
    (\<forall>a b. addr_ok BLCKSZ a \<and> addr_ok BLCKSZ b \<and>
       fsm_logical_to_physical BLCKSZ a = fsm_logical_to_physical BLCKSZ b \<longrightarrow> a = b) \<and>
    (\<forall>a. addr_ok BLCKSZ a \<longrightarrow> first_leaf (LeafNodesPerPage BLCKSZ) a < 2 ^ 31 \<and>
       fsm_logical_to_physical BLCKSZ a + level a + 1 < 2 ^ 31) \<and>
    \<not> addr_ok 512 (fst (fsm_get_location 512 0xFFFFFFFE))"
proof (intro conjI allI impI)
  have S: "0 < LeafNodesPerPage BLCKSZ" "LeafNodesPerPage BLCKSZ < 2 ^ 16" using slots_of_size [OF assms] by auto
  fix blk a b
  show "case fsm_get_location BLCKSZ blk of (addr, slot) \<Rightarrow>
      addr_ok BLCKSZ addr \<and> slot < LeafNodesPerPage BLCKSZ \<and> LeafNodesPerPage BLCKSZ < 2 ^ 16 \<and>
      fsm_get_heap_blk BLCKSZ addr slot = blk"
    using location_round_trip [OF S(1) tree_size_bounds(1) [OF assms]] S(2) by (auto split: prod.split)
  show "addr_ok BLCKSZ a \<and> addr_ok BLCKSZ b \<and> fsm_logical_to_physical BLCKSZ a = fsm_logical_to_physical BLCKSZ b \<Longrightarrow> a = b"
    using physical_inject [OF addr_ok_level addr_ok_level S(1)] by blast
  assume "addr_ok BLCKSZ a"
  note bound = page_count_bound [OF assms this]
  show "first_leaf (LeafNodesPerPage BLCKSZ) a < 2 ^ 31" using bound by blast
  show "fsm_logical_to_physical BLCKSZ a + level a + 1 < 2 ^ 31" using bound by blast
next
  show "\<not> addr_ok 512 (fst (fsm_get_location 512 0xFFFFFFFE))"
    by (simp add: addr_ok_def fsm_get_location_def FSM_ROOT_LEVEL_def FSM_TREE_DEPTH_def LeafNodesPerPage_def
        NodesPerPage_def NonLeafNodesPerPage_def)
qed

theorem fsm_addressing_correct_witness:
  "fsm_get_heap_blk 32768 (fst (fsm_get_location 32768 0xFFFFFFFE)) (snd (fsm_get_location 32768 0xFFFFFFFE)) = 0xFFFFFFFE \<and>
   fsm_logical_to_physical 32768 \<lparr>level = 0, logpageno = 16357\<rparr> \<noteq> fsm_logical_to_physical 32768 \<lparr>level = 1, logpageno = 1\<rparr>"
proof -
  have ok: "addr_ok 32768 \<lparr>level = 0, logpageno = 16357\<rparr>" "addr_ok 32768 \<lparr>level = 1, logpageno = 1\<rparr>"
    by (simp_all add: addr_ok_def FSM_ROOT_LEVEL_def FSM_TREE_DEPTH_def LeafNodesPerPage_def NodesPerPage_def
        NonLeafNodesPerPage_def)
  have size: "(32768::nat) = 2 ^ Suc 14" "9 \<le> (14::nat)" "(14::nat) \<le> 14" by simp_all
  note all = fsm_addressing_correct [OF size]
  have "\<lparr>level = 0, logpageno = 16357\<rparr> \<noteq> \<lparr>level = 1, logpageno = 1\<rparr>" by simp
  then show ?thesis
    using conjunct1 [OF all, rule_format, of "0xFFFFFFFE"] conjunct1 [OF conjunct2 [OF all]] ok
    by (simp add: case_prod_beta) blast
qed

text \<open>Rounding to categories is safe: the space recorded for a page is never more than it has
  and, below the largest request, less than two steps short of it; and a page whose category satisfies
  a search for \<open>needed\<close> bytes has them, both by the recorded amount and by the real one. A request
  above the largest size is refused.\<close>

theorem fsm_categories_safe:
  assumes "0 < FSM_CAT_STEP BLCKSZ"
  shows "fsm_space_cat_to_avail BLCKSZ (fsm_space_avail_to_cat BLCKSZ avail) \<le> avail \<and>
    (avail < MaxFSMRequestSize BLCKSZ \<and> BLCKSZ = 256 * FSM_CAT_STEP BLCKSZ \<longrightarrow>
       avail < fsm_space_cat_to_avail BLCKSZ (fsm_space_avail_to_cat BLCKSZ avail) + 2 * FSM_CAT_STEP BLCKSZ) \<and>
    (\<forall>c. fsm_space_needed_to_cat BLCKSZ needed = Inr c \<longrightarrow>
       0 < c \<and> (\<forall>cat \<ge> c. needed \<le> fsm_space_cat_to_avail BLCKSZ cat) \<and>
       (c \<le> fsm_space_avail_to_cat BLCKSZ avail \<longrightarrow> needed \<le> avail)) \<and>
    (needed > MaxFSMRequestSize BLCKSZ \<longrightarrow>
       fsm_space_needed_to_cat BLCKSZ needed = Inl (ERROR ''invalid FSM request size''))"
proof (intro conjI allI impI)
  show le: "fsm_space_cat_to_avail BLCKSZ (fsm_space_avail_to_cat BLCKSZ avail) \<le> avail"
    by (rule cat_le_avail [OF assms])
  show "avail < fsm_space_cat_to_avail BLCKSZ (fsm_space_avail_to_cat BLCKSZ avail) + 2 * FSM_CAT_STEP BLCKSZ"
    if "avail < MaxFSMRequestSize BLCKSZ \<and> BLCKSZ = 256 * FSM_CAT_STEP BLCKSZ"
    using cat_close [OF assms] that by blast
  show "fsm_space_needed_to_cat BLCKSZ needed = Inl (ERROR ''invalid FSM request size'')"
    if "needed > MaxFSMRequestSize BLCKSZ"
    using that by (simp add: fsm_space_needed_to_cat_def)
  fix c
  assume c: "fsm_space_needed_to_cat BLCKSZ needed = Inr c"
  show "0 < c" by (rule needed_to_cat_pos [OF c assms])
  show "needed \<le> fsm_space_cat_to_avail BLCKSZ cat" if "c \<le> cat" for cat
    by (rule needed_le_cat [OF c that assms])
  show "needed \<le> avail" if "c \<le> fsm_space_avail_to_cat BLCKSZ avail"
    using needed_le_cat [OF c that assms] le by linarith
qed

theorem fsm_categories_safe_witness:
  "fsm_space_cat_to_avail 32768 (fsm_space_avail_to_cat 32768 1000) \<le> 1000 \<and>
   fsm_space_needed_to_cat 32768 900 = Inr 8 \<and> 900 \<le> fsm_space_cat_to_avail 32768 9"
proof -
  have step: "0 < FSM_CAT_STEP 32768" and cat: "fsm_space_needed_to_cat 32768 900 = Inr 8"
    by (simp_all add: FSM_CAT_STEP_def fsm_space_needed_to_cat_def MaxFSMRequestSize_def)
  show ?thesis
    using fsm_categories_safe [OF step, of 1000 900] cat by (simp add: word_le_nat_alt)
qed

section \<open>Recording and reading\<close>

text \<open>What \<^verbatim>\<open>GetRecordedFreeSpace\<close> returns.\<close>

definition recorded :: "fsm_env \<Rightarrow> fsm_rel \<Rightarrow> BlockNumber \<Rightarrow> nat option" where
  "recorded env rel blk = (case GetRecordedFreeSpace env rel blk of Inl _ \<Rightarrow> None | Inr (n, _) \<Rightarrow> Some n)"

context fsm_tree
begin

lemma location_value:
  "fsm_get_location BLCKSZ blk = (addr, slot) \<Longrightarrow>
   level addr = 0 \<and> slot < LeafNodesPerPage BLCKSZ \<and> heap_value BLCKSZ pages (unat blk) = slot_value BLCKSZ pages addr slot"
  using size_bounds(3) by (auto simp: fsm_get_location_def heap_value_def)

lemma location_inject:
  "fsm_get_location BLCKSZ blk = fsm_get_location BLCKSZ blk' \<Longrightarrow> blk = blk'"
  by (simp add: fsm_get_location_def) (metis div_mult_mod_eq unsigned_word_eqI)

lemma recorded_eq:
  assumes "fsm_wf BLCKSZ rel"
  shows "recorded env rel blk = Some (fsm_space_cat_to_avail BLCKSZ (heap_value BLCKSZ (fsm_view BLCKSZ rel) (unat blk)))"
proof -
  obtain addr slot where l: "fsm_get_location BLCKSZ blk = (addr, slot)" by fastforce
  let ?n = "fsm_logical_to_physical BLCKSZ addr"
  obtain rel1 where r: "fsm_readbuf env rel addr False = Inr (if ?n < length (fsm_blocks rel) then Some ?n else None, rel1)"
    "?n < length (fsm_blocks rel) \<Longrightarrow> get_page rel1 ?n = fsm_view BLCKSZ rel ! ?n"
    by (rule readbuf_spec [OF assms env_size refl]) blast
  have zero: "fsm_space_cat_to_avail BLCKSZ 0 = 0" by (simp add: fsm_space_cat_to_avail_def)
  show ?thesis
    using l r location_value [OF l, of "fsm_view BLCKSZ rel"] zero
    by (cases "?n < length (fsm_blocks rel)")
       (simp_all add: recorded_def GetRecordedFreeSpace_def env_size slot_value_def Let_def)
qed

lemma heap_value_set_slot:
  assumes "sized BLCKSZ pages" "fsm_get_location BLCKSZ blk = (addr, slot)"
  shows "heap_value BLCKSZ (set_slot BLCKSZ addr slot v pages) (unat b) =
    (if b = blk then v else heap_value BLCKSZ pages (unat b))"
proof -
  obtain a t where l: "fsm_get_location BLCKSZ b = (a, t)" by fastforce
  have "level addr < FSM_TREE_DEPTH BLCKSZ" "level a < FSM_TREE_DEPTH BLCKSZ"
    using location_value [OF l] location_value [OF assms(2)] tree_depth_cases [of BLCKSZ] by auto
  then show ?thesis
    using set_slot_values [OF assms(1)] location_value [OF l] location_value [OF assms(2)] l assms(2)
      location_inject [of b blk] by auto
qed

lemma record_spec:
  assumes "fsm_wf BLCKSZ rel"
  shows "\<exists>rel'. RecordPageWithFreeSpace env rel blk avail = Some (Inr rel') \<and> fsm_wf BLCKSZ rel' \<and>
    (consistent BLCKSZ (fsm_view BLCKSZ rel) \<longrightarrow> consistent BLCKSZ (fsm_view BLCKSZ rel')) \<and>
    (\<forall>b. recorded env rel' b =
       (if b = blk then Some (fsm_space_cat_to_avail BLCKSZ (fsm_space_avail_to_cat BLCKSZ avail))
        else recorded env rel b))"
proof -
  obtain addr slot where l: "fsm_get_location BLCKSZ blk = (addr, slot)" by fastforce
  then have slot: "slot < LeafNodesPerPage BLCKSZ" using location_value by blast
  obtain rel' where r: "fsm_set_and_search env rel addr slot (fsm_space_avail_to_cat BLCKSZ avail) 0 = Some (Inr (-1, rel'))"
    "fsm_wf BLCKSZ rel'"
    "fsm_view BLCKSZ rel' = set_slot BLCKSZ addr slot (fsm_space_avail_to_cat BLCKSZ avail) (fsm_view BLCKSZ rel)"
    by (rule set_and_search_spec [OF assms slot])
  have "recorded env rel' b = (if b = blk then Some (fsm_space_cat_to_avail BLCKSZ (fsm_space_avail_to_cat BLCKSZ avail))
        else recorded env rel b)" for b
    unfolding recorded_eq [OF assms] recorded_eq [OF r(2)] r(3) heap_value_set_slot [OF fsm_wf_sized [OF assms] l] by simp
  then show ?thesis
    using r l set_slot_consistent [OF _ slot] by (simp add: RecordPageWithFreeSpace_def env_size Let_def)
qed

lemma set_and_search_min:
  assumes wf: "fsm_wf BLCKSZ rel" and slot: "slot < LeafNodesPerPage BLCKSZ" and m: "m \<noteq> 0"
  shows "\<exists>new rel'. fsm_set_and_search env rel addr slot v m = Some (Inr (new, rel')) \<and> fsm_wf BLCKSZ rel' \<and>
    (new = -1 \<or> 0 \<le> new \<and> new < int (LeafNodesPerPage BLCKSZ) \<and>
       m \<le> slot_value BLCKSZ (fsm_view BLCKSZ rel') addr (nat new))"
proof -
  let ?n = "fsm_logical_to_physical BLCKSZ addr"
  obtain rel1 where r: "fsm_readbuf env rel addr True = Inr (Some ?n, rel1)" "fsm_wf BLCKSZ rel1"
    "?n < length (fsm_blocks rel1)" "get_page rel1 ?n = fsm_view BLCKSZ rel1 ! ?n" "\<not> PageIsNew (fsm_blocks rel1 ! ?n)"
    using readbuf_extend_spec [OF wf env_size refl] by metis
  let ?p = "snd (fsm_set_avail BLCKSZ (get_page rel1 ?n) slot v)"
  have "length (fp_nodes (get_page rel1 ?n)) = NodesPerPage BLCKSZ"
    using sized_nth [OF fsm_wf_sized [OF r(2)]] r(3,4) by simp
  then have len: "length (fp_nodes ?p) = NodesPerPage BLCKSZ"
    using set_avail(1) [OF _ slot prod.collapse [symmetric]] by simp
  note put = put_page_spec [OF r(2,3,5) len]
  obtain new page where p: "fsm_search_avail BLCKSZ (relock env) m (level addr = 0) True ?p = Some (new, page)"
    "new = -1 \<and> fsm_get_max_avail page < m \<or>
     0 \<le> new \<and> new < int (LeafNodesPerPage BLCKSZ) \<and> m \<le> fsm_get_avail BLCKSZ page (nat new)"
    "length (fp_nodes page) = NodesPerPage BLCKSZ"
    by (rule search_any_page [OF len relock_size small]) blast
  have n: "?n < length (fsm_blocks (put_page rel1 ?n ?p))" using r(3) by simp
  note put2 = put_page_spec [OF put(2) n put(4) p(3)]
  have "fsm_set_and_search env rel addr slot v m = Some (Inr (new, put_page (put_page rel1 ?n ?p) ?n page))"
    using r p(1) m by (simp add: fsm_set_and_search_def env_size Let_def case_prod_beta)
  moreover have "slot_value BLCKSZ (fsm_view BLCKSZ (put_page (put_page rel1 ?n ?p) ?n page)) addr s = fsm_get_avail BLCKSZ page s" for s
    using put2(1) put(1) r(3) by (simp add: slot_value_def)
  ultimately show ?thesis using put2(2) p(2) by auto
qed

end

section \<open>Vacuum and truncation of the whole map\<close>

lemma below_root: "addr_ok B a \<Longrightarrow> below B a (FSM_ROOT_ADDRESS B)"
  by (auto simp: addr_ok_def below_def FSM_ROOT_ADDRESS_def FSM_ROOT_LEVEL_def)

lemma block_le_invalid: "blk \<le> InvalidBlockNumber"
proof -
  have "unat blk < 2 ^ LENGTH(32)" by (rule unsigned_less)
  then show ?thesis by (simp add: InvalidBlockNumber_def word_le_nat_alt)
qed

lemma less_div_times: "x < q div d \<Longrightarrow> x * d < (q::nat)"
proof -
  assume x: "x < q div d"
  then have "0 < d" by (cases d) auto
  then have "x * d < q div d * d" using x by simp
  then show ?thesis using div_times_less_eq_dividend [of q d] by linarith
qed

text \<open>The map as truncation to \<open>nblocks\<close> blocks leaves it before the vacuum: the leaf page of the
  first removed block is cut and everything behind it is gone.\<close>

definition trunc_view :: "nat \<Rightarrow> BlockNumber \<Rightarrow> FSMPageData list \<Rightarrow> FSMPageData list" where
  "trunc_view B nblocks pages =
     (let (addr, slot) = fsm_get_location B nblocks; n = fsm_logical_to_physical B addr
      in if slot > 0 then take (Suc n) (pages[n := snd (fsm_truncate_avail B (pages ! n) slot)]) else take n pages)"

text \<open>The fork has no page for blocks beyond the largest block number.\<close>

definition in_range :: "nat \<Rightarrow> FSMPageData list \<Rightarrow> bool" where
  "in_range B pages \<longleftrightarrow> length pages \<le> Suc (fsm_logical_to_physical B (fst (fsm_get_location B (InvalidBlockNumber - 1))))"

context fsm_tree
begin

lemma vacuum_root:
  assumes "fsm_wf BLCKSZ rel" "consistent BLCKSZ (fsm_view BLCKSZ rel)"
  shows "\<exists>v eof rel'. fsm_vacuum_page env rel (FSM_ROOT_ADDRESS BLCKSZ) start end = Inr (v, eof, rel') \<and>
    fsm_wf BLCKSZ rel' \<and> consistent BLCKSZ (fsm_view BLCKSZ rel') \<and>
    heap_value BLCKSZ (fsm_view BLCKSZ rel') = heap_value BLCKSZ (fsm_view BLCKSZ rel) \<and>
    ((\<forall>a s. addr_ok BLCKSZ a \<and> 0 < level a \<and> s < LeafNodesPerPage BLCKSZ \<and> \<not> covered BLCKSZ start end a s \<longrightarrow>
        exact_slot BLCKSZ (fsm_view BLCKSZ rel) a s) \<longrightarrow> exact BLCKSZ (fsm_view BLCKSZ rel'))"
proof -
  obtain v eof rel' where r: "fsm_vacuum_page env rel (FSM_ROOT_ADDRESS BLCKSZ) start end = Inr (v, eof, rel')"
    "vac_ok BLCKSZ start end (FSM_ROOT_ADDRESS BLCKSZ) rel rel'"
    using vacuum_page_spec [OF _ assms(1,2), of "FSM_ROOT_ADDRESS BLCKSZ" start "end"] root_level_less [of BLCKSZ] by auto
  have ok: "fsm_wf BLCKSZ rel'" "consistent BLCKSZ (fsm_view BLCKSZ rel')"
    "repaired BLCKSZ start end (fsm_view BLCKSZ rel) (fsm_view BLCKSZ rel') (FSM_ROOT_ADDRESS BLCKSZ)"
    using r(2) by (simp_all add: vac_ok_def)
  have "exact BLCKSZ (fsm_view BLCKSZ rel')"
    if "\<forall>a s. addr_ok BLCKSZ a \<and> 0 < level a \<and> s < LeafNodesPerPage BLCKSZ \<and> \<not> covered BLCKSZ start end a s \<longrightarrow>
        exact_slot BLCKSZ (fsm_view BLCKSZ rel) a s"
    unfolding exact_def using repairedD(3) [OF ok(3)] below_root that by blast
  moreover have "heap_value BLCKSZ (fsm_view BLCKSZ rel') = heap_value BLCKSZ (fsm_view BLCKSZ rel)"
    using repairedD(2) [OF ok(3)] size_bounds(3) by (intro ext) (simp add: heap_value_def same_page_def)
  ultimately show ?thesis using r(1) ok by blast
qed

lemma truncate_length:
  assumes "length (fp_nodes page) = NodesPerPage BLCKSZ" "slot < LeafNodesPerPage BLCKSZ"
  shows "length (fp_nodes (snd (fsm_truncate_avail BLCKSZ page slot))) = NodesPerPage BLCKSZ"
proof -
  have "length (fp_nodes (snd (fsm_rebuild_page BLCKSZ p))) = NodesPerPage BLCKSZ"
    if "length (fp_nodes p) = NodesPerPage BLCKSZ" for p
    using rebuild_page(1) [OF that prod.collapse [symmetric]] by (simp add: fsm_consistent_def)
  then show ?thesis
    using assms(1) size_bounds truncate_fold [of "NodesPerPage BLCKSZ" "fp_nodes page"]
    by (simp add: fsm_truncate_avail_def Let_def)
qed

lemma trunc_length:
  assumes "fsm_get_location BLCKSZ nblocks = (addr, slot)" "fsm_logical_to_physical BLCKSZ addr < length pages"
  shows "length (trunc_view BLCKSZ nblocks pages) = fsm_logical_to_physical BLCKSZ addr + (if slot > 0 then 1 else 0)"
  using assms by (simp add: trunc_view_def Let_def)

lemma trunc_nth:
  assumes "fsm_get_location BLCKSZ nblocks = (addr, slot)" "i < length (trunc_view BLCKSZ nblocks pages)"
    "i \<noteq> fsm_logical_to_physical BLCKSZ addr"
  shows "trunc_view BLCKSZ nblocks pages ! i = pages ! i"
  using assms by (auto simp: trunc_view_def Let_def split: if_splits)

lemma trunc_keeps:
  assumes "fsm_get_location BLCKSZ nblocks = (addr, slot)" "fsm_logical_to_physical BLCKSZ addr < length pages"
    "fsm_logical_to_physical BLCKSZ a < fsm_logical_to_physical BLCKSZ addr"
  shows "slot_value BLCKSZ (trunc_view BLCKSZ nblocks pages) a s = slot_value BLCKSZ pages a s"
    "page_max BLCKSZ (trunc_view BLCKSZ nblocks pages) a = page_max BLCKSZ pages a"
  using assms trunc_length [OF assms(1,2)] trunc_nth [OF assms(1), of "fsm_logical_to_physical BLCKSZ a" pages]
  by (simp_all add: slot_value_def page_max_def)

lemma trunc_heap_value:
  assumes "sized BLCKSZ pages" "fsm_get_location BLCKSZ nblocks = (addr, slot)"
    "fsm_logical_to_physical BLCKSZ addr < length pages"
  shows "heap_value BLCKSZ (trunc_view BLCKSZ nblocks pages) b = (if b < unat nblocks then heap_value BLCKSZ pages b else 0)"
proof -
  let ?S = "LeafNodesPerPage BLCKSZ" and ?p = "fsm_logical_to_physical BLCKSZ"
  let ?a = "\<lparr>level = 0, logpageno = b div ?S\<rparr>"
  note loc = assms(2) [unfolded fsm_get_location_def, simplified]
  have addr: "addr = \<lparr>level = 0, logpageno = unat nblocks div ?S\<rparr>" "slot = unat nblocks mod ?S" using loc by auto
  have order: "?p \<lparr>level = 0, logpageno = x\<rparr> < ?p \<lparr>level = 0, logpageno = y\<rparr>" if "x < y" for x y
    using that size_bounds(3) tree_depth_cases [of BLCKSZ] by (intro physical_less) (auto simp: first_leaf_def)
  have cmp: "b < unat nblocks \<longleftrightarrow> b div ?S < unat nblocks div ?S \<or> b div ?S = unat nblocks div ?S \<and> b mod ?S < slot"
  proof -
    have "unat nblocks = unat nblocks div ?S * ?S + slot" by (simp add: addr(2))
    moreover have "slot < ?S" using addr(2) size_bounds(3) by simp
    ultimately have "unat nblocks \<le> b \<longleftrightarrow>
        unat nblocks div ?S < b div ?S \<or> b div ?S = unat nblocks div ?S \<and> slot \<le> b mod ?S"
      using page_slot_le(2) [of slot ?S "unat nblocks div ?S" b] size_bounds(3) by metis
    then show ?thesis by linarith
  qed
  consider "b div ?S < unat nblocks div ?S" | "b div ?S = unat nblocks div ?S" | "unat nblocks div ?S < b div ?S" by linarith
  then show ?thesis
  proof cases
    case 1
    then show ?thesis using cmp trunc_keeps(1) [OF assms(2,3)] order [OF 1] unfolding heap_value_def addr(1) by simp
  next
    case 2
    then have a: "?a = addr" by (simp add: addr)
    show ?thesis
    proof (cases "slot > 0")
      case True
      have slot: "slot < ?S" using addr(2) size_bounds(3) by simp
      have "b mod ?S < ?S" using size_bounds(3) by simp
      note t = truncate_avail(1) [OF sized_nth [OF assms(1,3)] slot prod.collapse [symmetric] this]
      have "slot_value BLCKSZ (trunc_view BLCKSZ nblocks pages) addr (b mod ?S) =
          (if b mod ?S < slot then slot_value BLCKSZ pages addr (b mod ?S) else 0)"
        using True assms(2,3) t by (simp add: slot_value_def trunc_view_def Let_def)
      then show ?thesis using cmp 2 unfolding heap_value_def a by simp
    next
      case False
      then have "slot_value BLCKSZ (trunc_view BLCKSZ nblocks pages) addr (b mod ?S) = 0"
        using trunc_length [OF assms(2,3)] by (simp add: slot_value_def)
      then show ?thesis using cmp 2 False unfolding heap_value_def a by simp
    qed
  next
    case 3
    then have "length (trunc_view BLCKSZ nblocks pages) \<le> ?p ?a"
      using order [OF 3] trunc_length [OF assms(2,3)] unfolding addr(1) by (simp split: if_splits)
    then have "heap_value BLCKSZ (trunc_view BLCKSZ nblocks pages) b = 0" by (simp add: heap_value_def slot_value_def)
    then show ?thesis using cmp 3 by simp
  qed
qed

lemma trunc_consistent:
  assumes "consistent BLCKSZ pages" "fsm_get_location BLCKSZ nblocks = (addr, slot)"
    "fsm_logical_to_physical BLCKSZ addr < length pages"
  shows "consistent BLCKSZ (trunc_view BLCKSZ nblocks pages)"
proof -
  let ?n = "fsm_logical_to_physical BLCKSZ addr"
  have slot: "slot < LeafNodesPerPage BLCKSZ" using location_value [OF assms(2)] by blast
  have "fsm_consistent BLCKSZ (fp_nodes (snd (fsm_truncate_avail BLCKSZ (pages ! ?n) slot)))"
    using truncate_avail(2) [OF sized_nth [OF consistent_sized [OF assms(1)] assms(3)] slot prod.collapse [symmetric]]
      consistent_nth [OF assms(1,3)] by blast
  then have "consistent BLCKSZ (pages[?n := snd (fsm_truncate_avail BLCKSZ (pages ! ?n) slot)])"
    by (rule consistent_update [OF assms(1)])
  then show ?thesis
    using assms(1,2) by (auto simp: trunc_view_def consistent_def Let_def dest!: in_set_takeD)
qed

lemma child_first_leaf:
  "0 < level a \<Longrightarrow> first_leaf S (fsm_get_child BLCKSZ a s) = (logpageno a * LeafNodesPerPage BLCKSZ + s) * S ^ (level a - 1)"
  by (simp add: first_leaf_def fsm_get_child_def)

lemma trunc_exact:
  assumes ex: "exact BLCKSZ pages" and loc: "fsm_get_location BLCKSZ nblocks = (addr, slot)"
    and len: "fsm_logical_to_physical BLCKSZ addr < length pages" and range: "in_range BLCKSZ pages"
    and a: "addr_ok BLCKSZ a" "0 < level a" "s < LeafNodesPerPage BLCKSZ"
    and unc: "\<not> covered BLCKSZ nblocks InvalidBlockNumber a s"
  shows "exact_slot BLCKSZ (trunc_view BLCKSZ nblocks pages) a s"
proof -
  let ?S = "LeafNodesPerPage BLCKSZ" and ?p = "fsm_logical_to_physical BLCKSZ"
  let ?x = "logpageno a * ?S + s" and ?c = "fsm_get_child BLCKSZ a s" and ?k = "level a - 1"
  have addr: "addr = \<lparr>level = 0, logpageno = unat nblocks div ?S\<rparr>" using loc by (auto simp: fsm_get_location_def)
  have lev: "level a < FSM_TREE_DEPTH BLCKSZ" "level ?c < FSM_TREE_DEPTH BLCKSZ" "0 < FSM_TREE_DEPTH BLCKSZ"
    using addr_ok_level [OF a(1)] by (simp_all add: fsm_get_child_def)
  have pow: "b div ?S ^ level a = b div ?S div ?S ^ ?k" for b
    using a(2) by (metis Suc_diff_1 div_mult2_eq power_Suc)
  have old: "exact_slot BLCKSZ pages a s" using ex a by (simp add: exact_def)
  have ac: "?p a \<le> ?p ?c" by (rule physical_below [OF child_below_self [OF a(2,3)] lev(1)])
  consider "?x < unat nblocks div ?S ^ level a" | "unat (InvalidBlockNumber - 1) div ?S ^ level a < ?x"
    using unc by (auto simp: covered_def not_le)
  then show ?thesis
  proof cases
    case 1
    then have "?x * ?S ^ ?k < unat nblocks div ?S"
      unfolding pow by (rule less_div_times)
    then have "?p ?c < ?p addr"
      using lev size_bounds(3) by (intro physical_less) (simp_all add: child_first_leaf [OF a(2)], simp_all add: addr first_leaf_def)
    then show ?thesis
      using old ac trunc_keeps [OF loc len] by (simp add: exact_slot_def)
  next
    case 2
    let ?q = "unat (InvalidBlockNumber - 1) div ?S"
    have "?q < ?x * ?S ^ ?k"
      using 2 size_bounds(3) unfolding pow by (simp add: div_less_iff_less_mult)
    then have "?p \<lparr>level = 0, logpageno = ?q\<rparr> < ?p ?c"
      using lev size_bounds(3) by (intro physical_less) (simp_all add: child_first_leaf [OF a(2)], simp_all add: first_leaf_def)
    then have c: "length pages \<le> ?p ?c" using range by (simp add: in_range_def fsm_get_location_def)
    then have zero: "slot_value BLCKSZ pages a s = 0" "page_max BLCKSZ pages ?c = 0"
      using old by (simp_all add: exact_slot_def page_max_def)
    have "length (trunc_view BLCKSZ nblocks pages) \<le> length pages"
      using trunc_length [OF loc len] len by (simp split: if_splits)
    moreover have "?p a \<noteq> ?p addr" using physical_inject [OF lev(1), of addr] size_bounds(3) a(2) lev(3) addr by auto
    ultimately show ?thesis
      using zero c trunc_nth [OF loc, of "?p a" pages]
      by (simp add: exact_slot_def page_max_def slot_value_def split: if_splits)
  qed
qed

lemma truncate_prepare_spec:
  assumes wf: "fsm_wf BLCKSZ rel" and loc: "fsm_get_location BLCKSZ nblocks = (addr, slot)"
  shows "\<exists>blocks rel1. truncate_prepare_fsm env rel nblocks = Inr (blocks, rel1) \<and>
    (case blocks of
       None \<Rightarrow> fsm_wf BLCKSZ rel1 \<and> fsm_view BLCKSZ rel1 = fsm_view BLCKSZ rel \<and>
         length (fsm_blocks rel) \<le> fsm_logical_to_physical BLCKSZ addr
     | Some n \<Rightarrow> fsm_logical_to_physical BLCKSZ addr < length (fsm_blocks rel) \<and> fsm_wf BLCKSZ (smgrtruncate n rel1) \<and>
         fsm_view BLCKSZ (smgrtruncate n rel1) = trunc_view BLCKSZ nblocks (fsm_view BLCKSZ rel))"
proof -
  let ?n = "fsm_logical_to_physical BLCKSZ addr"
  define rel0 where "rel0 = rel\<lparr>smgr_cached_nblocks := None\<rparr>"
  have wf0: "fsm_wf BLCKSZ rel0" "fsm_view BLCKSZ rel0 = fsm_view BLCKSZ rel" "fsm_blocks rel0 = fsm_blocks rel"
    "smgr_exists rel0 = smgr_exists rel" "smgr_cached_nblocks rel0 = None"
    using wf by (simp_all add: rel0_def fsm_wf_def)
  have slot: "slot < LeafNodesPerPage BLCKSZ" using location_value [OF loc] by blast
  have cut: "fsm_wf BLCKSZ (smgrtruncate m r)" "fsm_view BLCKSZ (smgrtruncate m r) = take m (fsm_view BLCKSZ r)"
    if "fsm_wf BLCKSZ r" "m \<le> length (fsm_blocks r)" for m r
    using that by (auto simp: smgrtruncate_def fsm_wf_def fsm_view_def take_map dest: in_set_takeD)
  have prep: "truncate_prepare_fsm env rel nblocks =
      (if smgr_exists rel then FreeSpaceMapPrepareTruncateRel env rel0 nblocks else Inr (None, rel0))"
    by (simp add: truncate_prepare_fsm_def rel0_def Let_def)
  consider "\<not> smgr_exists rel" | "smgr_exists rel" "slot > 0" | "smgr_exists rel" "slot = 0" by blast
  then show ?thesis
  proof cases
    case 1
    then show ?thesis using prep wf wf0 by (simp add: fsm_wf_def)
  next
    case 2
    obtain rel1 where r: "fsm_readbuf env rel0 addr False = Inr (if ?n < length (fsm_blocks rel0) then Some ?n else None, rel1)"
      "fsm_wf BLCKSZ rel1" "fsm_view BLCKSZ rel1 = fsm_view BLCKSZ rel0" "keeps_init rel0 rel1"
      "?n < length (fsm_blocks rel0) \<Longrightarrow> get_page rel1 ?n = fsm_view BLCKSZ rel0 ! ?n \<and> \<not> PageIsNew (fsm_blocks rel1 ! ?n)"
      by (rule readbuf_spec [OF wf0(1) env_size refl]) blast
    show ?thesis
    proof (cases "?n < length (fsm_blocks rel)")
      case True
      let ?pg = "snd (fsm_truncate_avail BLCKSZ (get_page rel1 ?n) slot)"
      have n1: "?n < length (fsm_blocks rel1)" "\<not> PageIsNew (fsm_blocks rel1 ! ?n)"
        using r(4,5) True wf0 by (simp_all add: keeps_init_def)
      have "length (fp_nodes (get_page rel1 ?n)) = NodesPerPage BLCKSZ"
        using sized_nth [OF fsm_wf_sized [OF wf]] r(5) True wf0 by simp
      then have "length (fp_nodes ?pg) = NodesPerPage BLCKSZ" by (rule truncate_length [OF _ slot])
      note put = put_page_spec [OF r(2) n1 this]
      have "Suc ?n \<le> length (fsm_blocks (put_page rel1 ?n ?pg))" using n1 by simp
      note c = cut [OF put(2) this]
      have "truncate_prepare_fsm env rel nblocks = Inr (Some (Suc ?n), put_page rel1 ?n ?pg)"
        using 2 True r wf0 loc prep by (simp add: FreeSpaceMapPrepareTruncateRel_def env_size)
      moreover have "fsm_view BLCKSZ (smgrtruncate (Suc ?n) (put_page rel1 ?n ?pg)) = trunc_view BLCKSZ nblocks (fsm_view BLCKSZ rel)"
        using c(2) put(1) r wf0 True 2 loc by (simp add: trunc_view_def Let_def)
      ultimately show ?thesis using c(1) True by simp
    next
      case False
      then show ?thesis
        using 2 r wf0 loc prep by (simp add: FreeSpaceMapPrepareTruncateRel_def env_size)
    qed
  next
    case 3
    define rel1 where "rel1 = rel0\<lparr>smgr_cached_nblocks := Some (length (fsm_blocks rel))\<rparr>"
    have wf1: "fsm_wf BLCKSZ rel1" "fsm_view BLCKSZ rel1 = fsm_view BLCKSZ rel" "fsm_blocks rel1 = fsm_blocks rel"
      using wf0 by (simp_all add: rel1_def fsm_wf_def)
    have "truncate_prepare_fsm env rel nblocks =
        Inr (if length (fsm_blocks rel) \<le> ?n then None else Some ?n, rel1)"
      using 3 prep wf0 loc
      by (simp add: FreeSpaceMapPrepareTruncateRel_def env_size smgrnblocks_def smgrnblocks_cached_def Let_def rel1_def)
    then show ?thesis
      using wf1 cut [OF wf1(1), of ?n] 3 loc
      by (cases "length (fsm_blocks rel) \<le> ?n") (simp_all add: trunc_view_def Let_def)
  qed
qed

lemma missing_heap_value:
  assumes "fsm_get_location BLCKSZ nblocks = (addr, slot)" "length pages \<le> fsm_logical_to_physical BLCKSZ addr"
    "unat nblocks \<le> b"
  shows "heap_value BLCKSZ pages b = 0"
proof -
  let ?S = "LeafNodesPerPage BLCKSZ" and ?a = "\<lparr>level = 0, logpageno = b div LeafNodesPerPage BLCKSZ\<rparr>"
  have addr: "addr = \<lparr>level = 0, logpageno = unat nblocks div ?S\<rparr>" using assms(1) by (auto simp: fsm_get_location_def)
  have "unat nblocks div ?S \<le> b div ?S" by (rule div_le_mono [OF assms(3)])
  then have "addr = ?a \<or> fsm_logical_to_physical BLCKSZ addr < fsm_logical_to_physical BLCKSZ ?a"
    using physical_less [of addr BLCKSZ ?a] size_bounds(3) tree_depth_cases [of BLCKSZ]
    by (auto simp: addr first_leaf_def order_le_less)
  then have "length pages \<le> fsm_logical_to_physical BLCKSZ ?a" using assms(2) by auto
  then show ?thesis by (simp add: heap_value_def slot_value_def)
qed

lemma truncate_spec:
  assumes wf: "fsm_wf BLCKSZ rel" "consistent BLCKSZ (fsm_view BLCKSZ rel)" and nb: "nblocks \<noteq> InvalidBlockNumber"
  shows "\<exists>rel'. RelationTruncate_fsm env rel nblocks = Inr rel' \<and>
    fsm_wf BLCKSZ rel' \<and> consistent BLCKSZ (fsm_view BLCKSZ rel') \<and>
    (\<forall>b. heap_value BLCKSZ (fsm_view BLCKSZ rel') b =
       (if b < unat nblocks then heap_value BLCKSZ (fsm_view BLCKSZ rel) b else 0)) \<and>
    (exact BLCKSZ (fsm_view BLCKSZ rel) \<and> in_range BLCKSZ (fsm_view BLCKSZ rel) \<longrightarrow> exact BLCKSZ (fsm_view BLCKSZ rel'))"
proof -
  obtain addr slot where loc: "fsm_get_location BLCKSZ nblocks = (addr, slot)" by fastforce
  obtain blocks rel1 where p: "truncate_prepare_fsm env rel nblocks = Inr (blocks, rel1)"
    "case blocks of
       None \<Rightarrow> fsm_wf BLCKSZ rel1 \<and> fsm_view BLCKSZ rel1 = fsm_view BLCKSZ rel \<and>
         length (fsm_blocks rel) \<le> fsm_logical_to_physical BLCKSZ addr
     | Some n \<Rightarrow> fsm_logical_to_physical BLCKSZ addr < length (fsm_blocks rel) \<and> fsm_wf BLCKSZ (smgrtruncate n rel1) \<and>
         fsm_view BLCKSZ (smgrtruncate n rel1) = trunc_view BLCKSZ nblocks (fsm_view BLCKSZ rel)"
    using truncate_prepare_spec [OF wf(1) loc] by blast
  show ?thesis
  proof (cases blocks)
    case None
    then have "fsm_wf BLCKSZ rel1" "fsm_view BLCKSZ rel1 = fsm_view BLCKSZ rel"
      "length (fsm_view BLCKSZ rel) \<le> fsm_logical_to_physical BLCKSZ addr" using p(2) by simp_all
    then show ?thesis
      using None p(1) wf(2) missing_heap_value [OF loc, of "fsm_view BLCKSZ rel"]
      by (simp add: RelationTruncate_fsm_def truncate_finish_fsm_def)
  next
    case (Some n)
    let ?r = "smgrtruncate n rel1" and ?V = "fsm_view BLCKSZ rel"
    have len: "fsm_logical_to_physical BLCKSZ addr < length ?V" and r: "fsm_wf BLCKSZ ?r"
      "fsm_view BLCKSZ ?r = trunc_view BLCKSZ nblocks ?V" using p(2) Some by simp_all
    have cons: "consistent BLCKSZ (fsm_view BLCKSZ ?r)" unfolding r(2) by (rule trunc_consistent [OF wf(2) loc len])
    obtain v eof rel' where v: "fsm_vacuum_page env ?r (FSM_ROOT_ADDRESS BLCKSZ) nblocks InvalidBlockNumber = Inr (v, eof, rel')"
      "fsm_wf BLCKSZ rel'" "consistent BLCKSZ (fsm_view BLCKSZ rel')"
      "heap_value BLCKSZ (fsm_view BLCKSZ rel') = heap_value BLCKSZ (fsm_view BLCKSZ ?r)"
      "(\<forall>a s. addr_ok BLCKSZ a \<and> 0 < level a \<and> s < LeafNodesPerPage BLCKSZ \<and> \<not> covered BLCKSZ nblocks InvalidBlockNumber a s \<longrightarrow>
        exact_slot BLCKSZ (fsm_view BLCKSZ ?r) a s) \<longrightarrow> exact BLCKSZ (fsm_view BLCKSZ rel')"
      using vacuum_root [OF r(1) cons] by blast
    have "nblocks < InvalidBlockNumber"
      using nb block_le_invalid [of nblocks] by (simp add: order_less_le)
    then have "RelationTruncate_fsm env rel nblocks = Inr rel'"
      using p(1) Some v(1) by (simp add: RelationTruncate_fsm_def truncate_finish_fsm_def FreeSpaceMapVacuumRange_def env_size)
    moreover have "exact BLCKSZ (fsm_view BLCKSZ rel')" if "exact BLCKSZ ?V \<and> in_range BLCKSZ ?V"
      using v(5) trunc_exact [OF _ loc len] that unfolding r(2) by blast
    ultimately show ?thesis
      using v(2-4) trunc_heap_value [OF fsm_wf_sized [OF wf(1)] loc len] unfolding r(2) by simp
  qed
qed

text \<open>Without interference a search changes no recorded value.\<close>

lemma search_quiet:
  assumes quiet: "\<And>r l rel. others_before env r l rel = rel" "\<And>r l rel. others_between env r l rel = rel" and m: "0 < m"
  shows "fsm_wf BLCKSZ rel \<Longrightarrow> consistent BLCKSZ (fsm_view BLCKSZ rel) \<Longrightarrow> addr_ok BLCKSZ addr \<Longrightarrow>
    \<exists>blk rel'. search_from env m restarts addr rel = Some (Inr (blk, rel')) \<and> fsm_wf BLCKSZ rel' \<and>
      consistent BLCKSZ (fsm_view BLCKSZ rel') \<and>
      heap_value BLCKSZ (fsm_view BLCKSZ rel') = heap_value BLCKSZ (fsm_view BLCKSZ rel) \<and>
      (blk = InvalidBlockNumber \<or>
       (\<exists>b < LeafNodesPerPage BLCKSZ ^ FSM_TREE_DEPTH BLCKSZ.
          blk = word_of_nat b \<and> m \<le> heap_value BLCKSZ (fsm_view BLCKSZ rel) b))"
proof (induction "(10001 - restarts) * 5 + level addr" arbitrary: restarts addr rel rule: less_induct)
  case less
  obtain slot mx rel1 where p: "search_page env m addr rel = Some (Inr (slot, mx, rel1))"
    "fsm_wf BLCKSZ rel1" "map fp_nodes (fsm_view BLCKSZ rel1) = map fp_nodes (fsm_view BLCKSZ rel)"
    "slot = -1 \<or> 0 \<le> slot \<and> slot < int (LeafNodesPerPage BLCKSZ) \<and>
       m \<le> slot_value BLCKSZ (fsm_view BLCKSZ rel) addr (nat slot)"
    using search_page_consistent [OF less.prems(1,2) m, of addr] by blast
  note same = same_nodes [OF p(3), of BLCKSZ]
  have cons1: "consistent BLCKSZ (fsm_view BLCKSZ rel1)" using less.prems(2) same(4) by simp
  note step = search_from.simps [of env m restarts addr rel] p(1) env_size quiet
  consider (found) "slot \<noteq> -1" "level addr = 0" | (down) "slot \<noteq> -1" "0 < level addr"
    | (stop) "slot = -1" "level addr = FSM_ROOT_LEVEL BLCKSZ" | (up) "slot = -1" "level addr \<noteq> FSM_ROOT_LEVEL BLCKSZ"
    by blast
  then show ?case
  proof cases
    case found
    then show ?thesis
      using p cons1 same(3) heap_blk_value [OF less.prems(3) found(2), of "nat slot" "fsm_view BLCKSZ rel"]
      by (simp add: step nat_less_iff) metis
  next
    case down
    have "addr_ok BLCKSZ (fsm_get_child BLCKSZ addr (nat slot))"
      using p(4) down by (intro child_ok [OF less.prems(3)]) auto
    then show ?thesis
      using down same(3) less.hyps [OF _ p(2) cons1, of restarts "fsm_get_child BLCKSZ addr (nat slot)"]
      by (simp add: step fsm_get_child_def)
  next
    case stop
    then show ?thesis using p cons1 same(3) by (simp add: step)
  next
    case up
    obtain parent ps where g: "fsm_get_parent BLCKSZ addr = (parent, ps)" by fastforce
    have "level addr < FSM_ROOT_LEVEL BLCKSZ"
      using up addr_ok_level [OF less.prems(3)] by (simp add: FSM_ROOT_LEVEL_def)
    then have ps: "ps < LeafNodesPerPage BLCKSZ" "addr_ok BLCKSZ parent" "level parent = Suc (level addr)"
      using parent_ok [OF less.prems(3) _ g] size_bounds by blast+
    obtain rel2 where u: "fsm_set_and_search env rel1 parent ps mx 0 = Some (Inr (-1, rel2))"
      "fsm_wf BLCKSZ rel2" "fsm_view BLCKSZ rel2 = set_slot BLCKSZ parent ps mx (fsm_view BLCKSZ rel1)"
      by (rule set_and_search_spec [OF p(2) ps(1)])
    have cons2: "consistent BLCKSZ (fsm_view BLCKSZ rel2)" unfolding u(3) by (rule set_slot_consistent [OF cons1 ps(1)])
    have val2: "heap_value BLCKSZ (fsm_view BLCKSZ rel2) = heap_value BLCKSZ (fsm_view BLCKSZ rel)"
      using set_slot_values [OF fsm_wf_sized [OF p(2)] _ addr_ok_level [OF ps(2)] _ ps(1)] ps(3) size_bounds(3)
        tree_depth_cases [of BLCKSZ]
      unfolding u(3) same(3) [symmetric] by (intro ext) (auto simp: heap_value_def)
    show ?thesis
    proof (cases "restarts > 10000")
      case True
      then show ?thesis using up u g cons2 val2 by (simp add: step)
    next
      case False
      have "level (FSM_ROOT_ADDRESS BLCKSZ) \<le> 3" by (simp add: root_level_less FSM_ROOT_LEVEL_def FSM_TREE_DEPTH_def)
      then show ?thesis
        using False up u g val2 less.hyps [OF _ u(2) cons2 root_ok, of "restarts + 1"] by (simp add: step)
    qed
  qed
qed

end

section \<open>The contract\<close>

text \<open>An environment whose other backends keep forks and pages well formed, and one without any.\<close>

definition fsm_env_ok :: "nat \<Rightarrow> fsm_env \<Rightarrow> bool" where
  "fsm_env_ok B env \<longleftrightarrow>
     blcksz env = B \<and> (\<forall>page. length (fp_nodes (relock env page)) = length (fp_nodes page)) \<and>
     (\<forall>r l rel. fsm_wf B rel \<longrightarrow> fsm_wf B (others_before env r l rel) \<and> fsm_wf B (others_between env r l rel))"

definition fsm_quiet :: "fsm_env \<Rightarrow> bool" where
  "fsm_quiet env \<longleftrightarrow> (\<forall>r l rel. others_before env r l rel = rel \<and> others_between env r l rel = rel)"

definition quiet_env :: "nat \<Rightarrow> fsm_env" where
  "quiet_env B = \<lparr>blcksz = B, InRecovery = False, relock = id,
     others_before = \<lambda>_ _ rel. rel, others_between = \<lambda>_ _ rel. rel\<rparr>"

definition no_fork :: fsm_rel where
  "no_fork = \<lparr>smgr_exists = False, fsm_blocks = [], smgr_cached_nblocks = None\<rparr>"

lemma quiet_env_ok: "fsm_env_ok B (quiet_env B)" "fsm_quiet (quiet_env B)" "blcksz (quiet_env B) = B"
  by (simp_all add: fsm_env_ok_def fsm_quiet_def quiet_env_def)

lemma no_fork_ok: "fsm_wf B no_fork" "fsm_view B no_fork = []"
  by (simp_all add: fsm_wf_def fsm_view_def no_fork_def)

lemma empty_view: "consistent B []" "heap_value B [] b = 0" "exact_slot B [] a s" "exact B []"
  by (simp_all add: consistent_def heap_value_def slot_value_def exact_slot_def page_max_def exact_def)

lemma fsm_treeI:
  assumes "BLCKSZ = 2 ^ Suc h" "5 \<le> h" "h \<le> 16" "fsm_env_ok BLCKSZ env"
  shows "fsm_tree BLCKSZ h env"
  using assms by unfold_locales (simp_all add: fsm_env_ok_def)

interpretation fsm_default_tree: fsm_tree 32768 14 "quiet_env 32768"
  by (rule fsm_treeI) (simp_all add: quiet_env_ok)

text \<open>C26: \<^verbatim>\<open>RecordPageWithFreeSpace\<close> never fails on a well-formed fork, extends it as needed,
  and changes what \<^verbatim>\<open>GetRecordedFreeSpace\<close> returns for its own block, to the recorded amount
  rounded down, and for no other. Pages stay consistent.\<close>

theorem free_space_record_round_trip:
  assumes "BLCKSZ = 2 ^ Suc h" "5 \<le> h" "h \<le> 16" "fsm_env_ok BLCKSZ env" "fsm_wf BLCKSZ rel"
  shows "\<exists>rel'. RecordPageWithFreeSpace env rel blk avail = Some (Inr rel') \<and> fsm_wf BLCKSZ rel' \<and>
    (consistent BLCKSZ (fsm_view BLCKSZ rel) \<longrightarrow> consistent BLCKSZ (fsm_view BLCKSZ rel')) \<and>
    (\<forall>b. recorded env rel' b =
       (if b = blk then Some (fsm_space_cat_to_avail BLCKSZ (fsm_space_avail_to_cat BLCKSZ avail))
        else recorded env rel b))"
  by (rule fsm_tree.record_spec [OF fsm_treeI [OF assms(1-4)] assms(5)])

theorem free_space_record_round_trip_witness:
  "\<exists>rel'. RecordPageWithFreeSpace (quiet_env 32768) no_fork 70000 1000 = Some (Inr rel') \<and> fsm_wf 32768 rel' \<and>
     recorded (quiet_env 32768) rel' 70000 = Some 896"
proof -
  have "fsm_space_cat_to_avail 32768 (fsm_space_avail_to_cat 32768 1000) = 896"
    by (simp add: fsm_space_cat_to_avail_def fsm_space_avail_to_cat_def FSM_CAT_STEP_def MaxFSMRequestSize_def)
  then show ?thesis
    using free_space_record_round_trip [of 32768 14 "quiet_env 32768" no_fork 70000 1000, OF _ _ _ quiet_env_ok(1) no_fork_ok(1)]
    by auto
qed

text \<open>The block is one whose recorded space is enough.\<close>

definition offers :: "nat \<Rightarrow> fsm_rel \<Rightarrow> BlockNumber \<Rightarrow> nat \<Rightarrow> bool" where
  "offers B rel blk needed \<longleftrightarrow>
     (\<exists>b < LeafNodesPerPage B ^ FSM_TREE_DEPTH B.
        blk = word_of_nat b \<and> needed \<le> fsm_space_cat_to_avail B (heap_value B (fsm_view B rel) b))"

context fsm_tree
begin

lemma get_page_sound:
  assumes "fsm_env_ok BLCKSZ env" "fsm_wf BLCKSZ rel" "0 < FSM_CAT_STEP BLCKSZ"
    "fsm_space_needed_to_cat BLCKSZ needed = Inr c"
  shows "\<exists>blk rel'. fsm_search env rel c = Some (Inr (blk, rel')) \<and> fsm_wf BLCKSZ rel' \<and>
      (blk = InvalidBlockNumber \<or> offers BLCKSZ rel' blk needed)"
proof -
  obtain blk rel' where "search_from env c 0 (FSM_ROOT_ADDRESS BLCKSZ) rel = Some (Inr (blk, rel'))" "fsm_wf BLCKSZ rel'"
    "blk = InvalidBlockNumber \<or> (\<exists>b < LeafNodesPerPage BLCKSZ ^ FSM_TREE_DEPTH BLCKSZ.
       blk = word_of_nat b \<and> c \<le> heap_value BLCKSZ (fsm_view BLCKSZ rel') b)"
    using search_sound [OF _ _ assms(2) root_ok, of c 0] assms(1) by (auto simp: fsm_env_ok_def)
  then show ?thesis
    using needed_le_cat [OF assms(4) _ assms(3)] by (simp add: fsm_search_def env_size offers_def) metis
qed

lemma record_and_get_sound:
  assumes "fsm_env_ok BLCKSZ env" "fsm_wf BLCKSZ rel" "0 < FSM_CAT_STEP BLCKSZ"
    "2 ^ 32 \<le> LeafNodesPerPage BLCKSZ ^ FSM_TREE_DEPTH BLCKSZ"
    "fsm_space_needed_to_cat BLCKSZ needed = Inr c"
  shows "\<exists>blk rel'. RecordAndGetPageWithFreeSpace env rel old avail needed = Some (Inr (blk, rel')) \<and> fsm_wf BLCKSZ rel' \<and>
      (blk = InvalidBlockNumber \<or> offers BLCKSZ rel' blk needed)"
proof -
  obtain addr slot where l: "fsm_get_location BLCKSZ old = (addr, slot)" by fastforce
  have loc: "addr_ok BLCKSZ addr" "slot < LeafNodesPerPage BLCKSZ" "level addr = 0"
    using location_round_trip [OF size_bounds(3) assms(4) l] location_value [OF l] by blast+
  have c0: "c \<noteq> 0" using needed_to_cat_pos [OF assms(5,3)] by auto
  obtain new rel1 where s: "fsm_set_and_search env rel addr slot (fsm_space_avail_to_cat BLCKSZ avail) c = Some (Inr (new, rel1))"
    "fsm_wf BLCKSZ rel1" "new = -1 \<or> 0 \<le> new \<and> new < int (LeafNodesPerPage BLCKSZ) \<and>
       c \<le> slot_value BLCKSZ (fsm_view BLCKSZ rel1) addr (nat new)"
    using set_and_search_min [OF assms(2) loc(2) c0] by blast
  show ?thesis
  proof (cases "new = -1")
    case True
    then show ?thesis
      using s l assms(5) get_page_sound [OF assms(1) s(2) assms(3,5)] by (simp add: RecordAndGetPageWithFreeSpace_def env_size)
  next
    case False
    then have new: "nat new < LeafNodesPerPage BLCKSZ" "c \<le> slot_value BLCKSZ (fsm_view BLCKSZ rel1) addr (nat new)"
      using s(3) by (auto simp: nat_less_iff)
    have "offers BLCKSZ rel1 (fsm_get_heap_blk BLCKSZ addr (nat new)) needed"
      using heap_blk_value [OF loc(1,3) new(1), of "fsm_view BLCKSZ rel1"] needed_le_cat [OF assms(5) _ assms(3)] new(2)
      unfolding offers_def by metis
    then show ?thesis using False s l assms(5) by (simp add: RecordAndGetPageWithFreeSpace_def env_size)
  qed
qed

end

lemma supported_env:
  assumes "BLCKSZ = 2 ^ Suc h" "9 \<le> h" "h \<le> 14"
  shows "0 < FSM_CAT_STEP BLCKSZ"
proof -
  have "(2::nat) ^ 10 \<le> 2 ^ Suc h" using assms(2) by (intro power_increasing) auto
  then show ?thesis using assms(1) by (simp add: FSM_CAT_STEP_def div_greater_zero_iff)
qed

text \<open>C23: Whatever other backends do to the map meanwhile, as long as they keep it well formed,
  \<^verbatim>\<open>GetPageWithFreeSpace\<close> and \<^verbatim>\<open>RecordAndGetPageWithFreeSpace\<close> return: the restarts of the search
  are bounded and no read fails. The block they return, if any, has at least the requested space by
  the map they leave. A request above the largest size is an error.\<close>

theorem free_space_search_sound:
  assumes "BLCKSZ = 2 ^ Suc h" "9 \<le> h" "h \<le> 14" "fsm_env_ok BLCKSZ env" "fsm_wf BLCKSZ rel"
  shows "if needed \<le> MaxFSMRequestSize BLCKSZ
    then (\<exists>blk rel'. GetPageWithFreeSpace env rel needed = Some (Inr (blk, rel')) \<and> fsm_wf BLCKSZ rel' \<and>
           (blk = InvalidBlockNumber \<or> offers BLCKSZ rel' blk needed)) \<and>
         (\<exists>blk rel'. RecordAndGetPageWithFreeSpace env rel old avail needed = Some (Inr (blk, rel')) \<and> fsm_wf BLCKSZ rel' \<and>
           (blk = InvalidBlockNumber \<or> offers BLCKSZ rel' blk needed))
    else GetPageWithFreeSpace env rel needed = Some (Inl (ERROR ''invalid FSM request size'')) \<and>
         RecordAndGetPageWithFreeSpace env rel old avail needed = Some (Inl (ERROR ''invalid FSM request size''))"
proof (cases "needed \<le> MaxFSMRequestSize BLCKSZ")
  case True
  then obtain c where c: "fsm_space_needed_to_cat BLCKSZ needed = Inr c"
    using needed_cat_exists by blast
  have tree: "fsm_tree BLCKSZ h env" using assms by (intro fsm_treeI) auto
  note step = supported_env [OF assms(1-3)]
  have env: "blcksz env = BLCKSZ" using assms(4) by (simp add: fsm_env_ok_def)
  show ?thesis
    using True fsm_tree.get_page_sound [OF tree assms(4,5) step c]
      fsm_tree.record_and_get_sound [OF tree assms(4,5) step tree_size_bounds(1) [OF assms(1-3)] c]
    by (simp add: GetPageWithFreeSpace_def c env)
next
  case False
  then show ?thesis
    using assms(4)
    by (simp add: GetPageWithFreeSpace_def RecordAndGetPageWithFreeSpace_def fsm_space_needed_to_cat_def fsm_env_ok_def Let_def)
qed

theorem free_space_search_sound_witness:
  "(\<exists>blk rel'. RecordAndGetPageWithFreeSpace (quiet_env 32768) no_fork 5 20000 900 = Some (Inr (blk, rel')) \<and> fsm_wf 32768 rel' \<and>
      (blk = InvalidBlockNumber \<or> offers 32768 rel' blk 900)) \<and>
   GetPageWithFreeSpace (quiet_env 32768) no_fork 40000 = Some (Inl (ERROR ''invalid FSM request size''))"
  using free_space_search_sound [of 32768 14 "quiet_env 32768" no_fork 900 5 20000, OF _ _ _ quiet_env_ok(1) no_fork_ok(1)]
    free_space_search_sound [of 32768 14 "quiet_env 32768" no_fork 40000 5 20000, OF _ _ _ quiet_env_ok(1) no_fork_ok(1)]
  by (simp add: MaxFSMRequestSize_def)

context fsm_tree
begin

lemma search_after_vacuum:
  assumes quiet: "fsm_quiet env" and wf: "fsm_wf BLCKSZ rel" "consistent BLCKSZ (fsm_view BLCKSZ rel)"
    and ex: "exact BLCKSZ (fsm_view BLCKSZ rel)"
    and beyond: "\<And>b. unat InvalidBlockNumber \<le> b \<Longrightarrow> heap_value BLCKSZ (fsm_view BLCKSZ rel) b = 0"
    and step: "0 < FSM_CAT_STEP BLCKSZ" and size: "2 ^ 32 \<le> LeafNodesPerPage BLCKSZ ^ FSM_TREE_DEPTH BLCKSZ"
    and needed: "0 < needed" "needed \<le> MaxFSMRequestSize BLCKSZ"
  shows "\<exists>blk rel'. GetPageWithFreeSpace env rel needed = Some (Inr (blk, rel')) \<and> recorded env rel' = recorded env rel \<and>
    (if \<exists>b n. recorded env rel b = Some n \<and> needed \<le> n
     then blk \<noteq> InvalidBlockNumber \<and> (\<exists>n. recorded env rel blk = Some n \<and> needed \<le> n)
     else blk = InvalidBlockNumber)"
proof -
  let ?V = "fsm_view BLCKSZ rel" and ?T = "LeafNodesPerPage BLCKSZ ^ FSM_TREE_DEPTH BLCKSZ"
  obtain c where c: "fsm_space_needed_to_cat BLCKSZ needed = Inr c" using needed_cat_exists [OF needed(2)] by blast
  have c0: "0 < c" by (rule needed_to_cat_pos [OF c step])
  have ob: "\<And>r l rel. others_before env r l rel = rel" using quiet by (simp add: fsm_quiet_def)
  obtain blk rel' where s: "fsm_search env rel c = Some (Inr (blk, rel'))" "fsm_wf BLCKSZ rel'"
    "map fp_nodes (fsm_view BLCKSZ rel') = map fp_nodes ?V"
    "if \<exists>b < ?T. c \<le> heap_value BLCKSZ ?V b then \<exists>b < ?T. blk = word_of_nat b \<and> c \<le> heap_value BLCKSZ ?V b
     else blk = InvalidBlockNumber"
    using search_exact [OF ob c0 wf ex] by blast
  note enough = cat_iff [OF c step needed(1)]
  have rec: "(\<exists>n. recorded env rel b = Some n \<and> needed \<le> n) \<longleftrightarrow> c \<le> heap_value BLCKSZ ?V (unat b)" for b
    using recorded_eq [OF wf(1)] enough by simp
  have small: "b < unat InvalidBlockNumber \<and> unat (word_of_nat b :: BlockNumber) = b" if "c \<le> heap_value BLCKSZ ?V b" for b
  proof -
    have "b < unat InvalidBlockNumber" using beyond [of b] that c0 by (metis leD not_less)
    then show ?thesis by (simp add: InvalidBlockNumber_def unat_of_nat take_bit_eq_mod)
  qed
  have any: "(\<exists>b < ?T. c \<le> heap_value BLCKSZ ?V b) \<longleftrightarrow> (\<exists>b n. recorded env rel b = Some n \<and> needed \<le> n)"
  proof
    assume "\<exists>b < ?T. c \<le> heap_value BLCKSZ ?V b"
    then show "\<exists>b n. recorded env rel b = Some n \<and> needed \<le> n" using small rec by metis
  next
    assume "\<exists>b n. recorded env rel b = Some n \<and> needed \<le> n"
    then obtain b n where "recorded env rel b = Some n" "needed \<le> n" by blast
    then have b: "c \<le> heap_value BLCKSZ ?V (unat b)" using rec [of b] by simp
    have "unat b < 2 ^ LENGTH(32)" by (rule unsigned_less)
    then have "unat b < ?T" using size by simp
    then show "\<exists>b < ?T. c \<le> heap_value BLCKSZ ?V b" using b by blast
  qed
  have get: "GetPageWithFreeSpace env rel needed = Some (Inr (blk, rel'))"
    using s(1) c by (simp add: GetPageWithFreeSpace_def env_size)
  have same: "recorded env rel' = recorded env rel"
    by (intro ext) (simp only: recorded_eq [OF wf(1)] recorded_eq [OF s(2)] same_nodes(3) [OF s(3)])
  have found: "blk \<noteq> InvalidBlockNumber \<and> (\<exists>n. recorded env rel blk = Some n \<and> needed \<le> n)"
    if "blk = word_of_nat b" "c \<le> heap_value BLCKSZ ?V b" for b
    using small [OF that(2)] rec [of blk] that by auto
  show ?thesis
  proof (cases "\<exists>b n. recorded env rel b = Some n \<and> needed \<le> n")
    case True
    then obtain b where "blk = word_of_nat b" "c \<le> heap_value BLCKSZ ?V b" using s(4) unfolding any by auto
    then show ?thesis unfolding if_P [OF True] using get same found by blast
  next
    case False
    then show ?thesis unfolding if_not_P [OF False] using get same s(4) unfolding any if_not_P [OF False] by blast
  qed
qed

end

text \<open>C24: \<^verbatim>\<open>FreeSpaceMapVacuumRange\<close> keeps its contract: if only upper slots that cover a block
  of the range were out of date, then afterwards every upper slot holds the largest value of the page
  below it; the recorded space of no heap block has changed.\<close>

theorem free_space_vacuum_repairs:
  assumes "BLCKSZ = 2 ^ Suc h" "5 \<le> h" "h \<le> 16" "fsm_env_ok BLCKSZ env" "fsm_wf BLCKSZ rel"
    "consistent BLCKSZ (fsm_view BLCKSZ rel)" "start < end"
    "\<And>a s. addr_ok BLCKSZ a \<Longrightarrow> 0 < level a \<Longrightarrow> s < LeafNodesPerPage BLCKSZ \<Longrightarrow> \<not> covered BLCKSZ start end a s \<Longrightarrow>
       exact_slot BLCKSZ (fsm_view BLCKSZ rel) a s"
  shows "\<exists>rel'. FreeSpaceMapVacuumRange env rel start end = Inr rel' \<and> fsm_wf BLCKSZ rel' \<and>
    consistent BLCKSZ (fsm_view BLCKSZ rel') \<and> exact BLCKSZ (fsm_view BLCKSZ rel') \<and> recorded env rel' = recorded env rel"
proof -
  have tree: "fsm_tree BLCKSZ h env" by (rule fsm_treeI [OF assms(1-4)])
  obtain v eof rel' where r: "fsm_vacuum_page env rel (FSM_ROOT_ADDRESS BLCKSZ) start end = Inr (v, eof, rel')"
    "fsm_wf BLCKSZ rel'" "consistent BLCKSZ (fsm_view BLCKSZ rel')"
    "heap_value BLCKSZ (fsm_view BLCKSZ rel') = heap_value BLCKSZ (fsm_view BLCKSZ rel)" "exact BLCKSZ (fsm_view BLCKSZ rel')"
    using fsm_tree.vacuum_root [OF tree assms(5,6), of start "end"] assms(8) by blast
  have "recorded env rel' = recorded env rel"
    by (intro ext) (simp only: fsm_tree.recorded_eq [OF tree assms(5)] fsm_tree.recorded_eq [OF tree r(2)] r(4))
  then show ?thesis
    using r assms(4,7) by (simp add: FreeSpaceMapVacuumRange_def fsm_env_ok_def)
qed

theorem free_space_vacuum_repairs_witness:
  "\<exists>rel'. FreeSpaceMapVacuumRange (quiet_env 32768) no_fork 3 9 = Inr rel' \<and> exact 32768 (fsm_view 32768 rel')"
  using free_space_vacuum_repairs [of 32768 14 "quiet_env 32768" no_fork 3 9, OF _ _ _ quiet_env_ok(1) no_fork_ok(1)]
  by (auto simp: no_fork_ok empty_view)

text \<open>C22: After \<^verbatim>\<open>FreeSpaceMapVacuum\<close>, with no other backend at work, a search is complete:
  \<^verbatim>\<open>GetPageWithFreeSpace\<close> returns a block exactly when some block has the requested space on record,
  and then one that has it; neither changes the record. The slots of upper pages for blocks beyond the
  largest block number, which the vacuum does not visit, must be right beforehand.\<close>

theorem free_space_search_complete:
  assumes "BLCKSZ = 2 ^ Suc h" "9 \<le> h" "h \<le> 14" "fsm_env_ok BLCKSZ env" "fsm_quiet env" "fsm_wf BLCKSZ rel"
    "consistent BLCKSZ (fsm_view BLCKSZ rel)" "0 < needed" "needed \<le> MaxFSMRequestSize BLCKSZ"
    "\<And>b. unat InvalidBlockNumber \<le> b \<Longrightarrow> heap_value BLCKSZ (fsm_view BLCKSZ rel) b = 0"
    "\<And>a s. addr_ok BLCKSZ a \<Longrightarrow> 0 < level a \<Longrightarrow> s < LeafNodesPerPage BLCKSZ \<Longrightarrow>
       \<not> covered BLCKSZ 0 InvalidBlockNumber a s \<Longrightarrow> exact_slot BLCKSZ (fsm_view BLCKSZ rel) a s"
  shows "\<exists>rel1 blk rel2. FreeSpaceMapVacuum env rel = Inr rel1 \<and>
    GetPageWithFreeSpace env rel1 needed = Some (Inr (blk, rel2)) \<and>
    recorded env rel1 = recorded env rel \<and> recorded env rel2 = recorded env rel \<and>
    (if \<exists>b n. recorded env rel b = Some n \<and> needed \<le> n
     then blk \<noteq> InvalidBlockNumber \<and> (\<exists>n. recorded env rel blk = Some n \<and> needed \<le> n)
     else blk = InvalidBlockNumber)"
proof -
  have tree: "fsm_tree BLCKSZ h env" using assms by (intro fsm_treeI) auto
  obtain v eof rel1 where r: "fsm_vacuum_page env rel (FSM_ROOT_ADDRESS BLCKSZ) 0 InvalidBlockNumber = Inr (v, eof, rel1)"
    "fsm_wf BLCKSZ rel1" "consistent BLCKSZ (fsm_view BLCKSZ rel1)"
    "heap_value BLCKSZ (fsm_view BLCKSZ rel1) = heap_value BLCKSZ (fsm_view BLCKSZ rel)" "exact BLCKSZ (fsm_view BLCKSZ rel1)"
    using fsm_tree.vacuum_root [OF tree assms(6,7), of 0 InvalidBlockNumber] assms(11) by blast
  have vac: "FreeSpaceMapVacuum env rel = Inr rel1"
    using r(1) assms(4) by (simp add: FreeSpaceMapVacuum_def fsm_env_ok_def)
  have rec: "recorded env rel1 = recorded env rel"
    by (intro ext) (simp only: fsm_tree.recorded_eq [OF tree assms(6)] fsm_tree.recorded_eq [OF tree r(2)] r(4))
  have "\<exists>blk rel2. GetPageWithFreeSpace env rel1 needed = Some (Inr (blk, rel2)) \<and> recorded env rel2 = recorded env rel1 \<and>
    (if \<exists>b n. recorded env rel1 b = Some n \<and> needed \<le> n
     then blk \<noteq> InvalidBlockNumber \<and> (\<exists>n. recorded env rel1 blk = Some n \<and> needed \<le> n)
     else blk = InvalidBlockNumber)"
    using assms(10)
    by (intro fsm_tree.search_after_vacuum [OF tree assms(5) r(2,3,5) _ supported_env [OF assms(1-3)]
          tree_size_bounds(1) [OF assms(1-3)] assms(8,9)]) (simp add: r(4))
  from this [unfolded rec] show ?thesis using vac rec by blast
qed

theorem free_space_search_complete_witness:
  "\<exists>rel1 blk rel2. FreeSpaceMapVacuum (quiet_env 32768) no_fork = Inr rel1 \<and>
    GetPageWithFreeSpace (quiet_env 32768) rel1 900 = Some (Inr (blk, rel2)) \<and>
    recorded (quiet_env 32768) rel2 = recorded (quiet_env 32768) no_fork"
  using free_space_search_complete [of 32768 14 "quiet_env 32768" no_fork 900, OF _ _ _ quiet_env_ok(1,2) no_fork_ok(1)]
  by (auto simp: no_fork_ok empty_view MaxFSMRequestSize_def)

text \<open>C25: Truncating a relation to \<open>nblocks\<close> blocks makes the map forget exactly the removed blocks:
  the space on record is unchanged below \<open>nblocks\<close> and zero from there on, so that later searches
  return no removed block; and an exact tree stays exact.\<close>

theorem free_space_truncate_correct:
  assumes "BLCKSZ = 2 ^ Suc h" "9 \<le> h" "h \<le> 14" "fsm_env_ok BLCKSZ env" "fsm_quiet env" "fsm_wf BLCKSZ rel"
    "consistent BLCKSZ (fsm_view BLCKSZ rel)" "nblocks \<noteq> InvalidBlockNumber" "needed \<le> MaxFSMRequestSize BLCKSZ"
  shows "\<exists>rel'. RelationTruncate_fsm env rel nblocks = Inr rel' \<and> fsm_wf BLCKSZ rel' \<and>
    consistent BLCKSZ (fsm_view BLCKSZ rel') \<and>
    (\<forall>b. recorded env rel' b = (if b < nblocks then recorded env rel b else Some 0)) \<and>
    (exact BLCKSZ (fsm_view BLCKSZ rel) \<and> in_range BLCKSZ (fsm_view BLCKSZ rel) \<longrightarrow> exact BLCKSZ (fsm_view BLCKSZ rel')) \<and>
    (\<exists>blk rel''. GetPageWithFreeSpace env rel' needed = Some (Inr (blk, rel'')) \<and> (blk = InvalidBlockNumber \<or> blk < nblocks))"
proof -
  have tree: "fsm_tree BLCKSZ h env" using assms by (intro fsm_treeI) auto
  obtain rel' where r: "RelationTruncate_fsm env rel nblocks = Inr rel'" "fsm_wf BLCKSZ rel'" "consistent BLCKSZ (fsm_view BLCKSZ rel')"
    "\<And>b. heap_value BLCKSZ (fsm_view BLCKSZ rel') b = (if b < unat nblocks then heap_value BLCKSZ (fsm_view BLCKSZ rel) b else 0)"
    "exact BLCKSZ (fsm_view BLCKSZ rel) \<and> in_range BLCKSZ (fsm_view BLCKSZ rel) \<longrightarrow> exact BLCKSZ (fsm_view BLCKSZ rel')"
    using fsm_tree.truncate_spec [OF tree assms(6-8)] by blast
  have "recorded env rel' b = (if b < nblocks then recorded env rel b else Some 0)" for b
    by (simp add: fsm_tree.recorded_eq [OF tree assms(6)] fsm_tree.recorded_eq [OF tree r(2)] r(4) word_less_nat_alt
        fsm_space_cat_to_avail_def)
  moreover have "\<exists>blk rel''. GetPageWithFreeSpace env rel' needed = Some (Inr (blk, rel'')) \<and> (blk = InvalidBlockNumber \<or> blk < nblocks)"
  proof -
    obtain c where c: "fsm_space_needed_to_cat BLCKSZ needed = Inr c" using needed_cat_exists [OF assms(9)] by blast
    have c0: "0 < c" by (rule needed_to_cat_pos [OF c supported_env [OF assms(1-3)]])
    have q: "\<And>r l rel. others_before env r l rel = rel" "\<And>r l rel. others_between env r l rel = rel"
      using assms(5) by (simp_all add: fsm_quiet_def)
    obtain blk rel'' where s: "search_from env c 0 (FSM_ROOT_ADDRESS BLCKSZ) rel' = Some (Inr (blk, rel''))"
      "blk = InvalidBlockNumber \<or> (\<exists>b. blk = word_of_nat b \<and> c \<le> heap_value BLCKSZ (fsm_view BLCKSZ rel') b)"
      using fsm_tree.search_quiet [OF tree q c0 r(2,3) root_ok, of 0] by blast
    have "blk < nblocks" if "blk = word_of_nat b" "c \<le> heap_value BLCKSZ (fsm_view BLCKSZ rel') b" for b
    proof -
      have "b < unat nblocks" using that(2) c0 r(4) [of b] by (auto split: if_splits)
      moreover have "unat nblocks < 2 ^ LENGTH(32)" by (rule unsigned_less)
      ultimately show ?thesis using that(1) by (simp add: word_less_nat_alt unat_of_nat take_bit_eq_mod)
    qed
    then show ?thesis
      using s c assms(4) by (auto simp: GetPageWithFreeSpace_def fsm_search_def fsm_env_ok_def)
  qed
  ultimately show ?thesis using r by blast
qed

theorem free_space_truncate_correct_witness:
  "\<exists>rel'. RelationTruncate_fsm (quiet_env 32768) no_fork 4 = Inr rel' \<and>
    (\<forall>b. recorded (quiet_env 32768) rel' b = (if b < 4 then recorded (quiet_env 32768) no_fork b else Some 0))"
  using free_space_truncate_correct [of 32768 14 "quiet_env 32768" no_fork 4 0, OF _ _ _ quiet_env_ok(1,2) no_fork_ok(1)]
  by (auto simp: no_fork_ok empty_view InvalidBlockNumber_def)

end
