(* ===== verification/TransactionIds.thy ===== *)
theory TransactionIds
  imports CB_Prelude
begin

text \<open>Transaction identifiers and the interface to the commit log:
  \<^verbatim>\<open>src/backend/access/transam/transam.c\<close> and the macros of
  \<^verbatim>\<open>src/include/access/transam.h\<close>.

  The commit log (\<^verbatim>\<open>TransactionIdGetStatus\<close>), \<^verbatim>\<open>pg_subtrans\<close>
  (\<^verbatim>\<open>SubTransGetParent\<close>) and the backend's \<^verbatim>\<open>TransactionXmin\<close> are the fields of an
  argument; the single item cache of the backend is explicit state. The recursion over parents is a
  \<^verbatim>\<open>partial_function\<close>, so that walking a cyclic \<^verbatim>\<open>pg_subtrans\<close> forever is the value
  \<open>None\<close>.\<close>

section \<open>Identifiers\<close>

type_synonym TransactionId = uint32
type_synonym XLogRecPtr = uint64

definition InvalidTransactionId :: TransactionId where
  "InvalidTransactionId = 0"

definition BootstrapTransactionId :: TransactionId where
  "BootstrapTransactionId = 1"

definition FrozenTransactionId :: TransactionId where
  "FrozenTransactionId = 2"

definition FirstNormalTransactionId :: TransactionId where
  "FirstNormalTransactionId = 3"

definition InvalidXLogRecPtr :: XLogRecPtr where
  "InvalidXLogRecPtr = 0"

definition TransactionIdIsValid :: "TransactionId \<Rightarrow> bool" where
  "TransactionIdIsValid xid \<longleftrightarrow> xid \<noteq> InvalidTransactionId"

definition TransactionIdIsNormal :: "TransactionId \<Rightarrow> bool" where
  "TransactionIdIsNormal xid \<longleftrightarrow> xid \<ge> FirstNormalTransactionId"

definition TransactionIdPrecedes :: "TransactionId \<Rightarrow> TransactionId \<Rightarrow> bool" where
  "TransactionIdPrecedes id1 id2 =
     (if \<not> TransactionIdIsNormal id1 \<or> \<not> TransactionIdIsNormal id2 then id1 < id2
      else sint (id1 - id2) < 0)"

definition TransactionIdPrecedesOrEquals :: "TransactionId \<Rightarrow> TransactionId \<Rightarrow> bool" where
  "TransactionIdPrecedesOrEquals id1 id2 =
     (if \<not> TransactionIdIsNormal id1 \<or> \<not> TransactionIdIsNormal id2 then id1 \<le> id2
      else sint (id1 - id2) \<le> 0)"

definition TransactionIdFollows :: "TransactionId \<Rightarrow> TransactionId \<Rightarrow> bool" where
  "TransactionIdFollows id1 id2 =
     (if \<not> TransactionIdIsNormal id1 \<or> \<not> TransactionIdIsNormal id2 then id1 > id2
      else sint (id1 - id2) > 0)"

definition TransactionIdFollowsOrEquals :: "TransactionId \<Rightarrow> TransactionId \<Rightarrow> bool" where
  "TransactionIdFollowsOrEquals id1 id2 =
     (if \<not> TransactionIdIsNormal id1 \<or> \<not> TransactionIdIsNormal id2 then id1 \<ge> id2
      else sint (id1 - id2) \<ge> 0)"

text \<open>The array is scanned back to front.\<close>

definition TransactionIdLatest :: "TransactionId \<Rightarrow> TransactionId list \<Rightarrow> TransactionId" where
  "TransactionIdLatest mainxid xids =
     fold (\<lambda>x result. if TransactionIdPrecedes result x then x else result) (rev xids) mainxid"

definition TransactionIdAdvance :: "TransactionId \<Rightarrow> TransactionId" where
  "TransactionIdAdvance dest =
     (let dest = dest + 1
      in if dest < FirstNormalTransactionId then FirstNormalTransactionId else dest)"

function TransactionIdRetreat :: "TransactionId \<Rightarrow> TransactionId" where
  "TransactionIdRetreat dest =
     (let dest' = dest - 1
      in if dest' < FirstNormalTransactionId then TransactionIdRetreat dest' else dest')"
  by pat_completeness auto
termination
proof (relation "measure unat")
  fix dest dest' :: TransactionId
  assume "dest' = dest - 1" "dest' < FirstNormalTransactionId"
  then have "dest \<noteq> 0" by (auto simp: FirstNormalTransactionId_def)
  then show "(dest', dest) \<in> measure unat"
    using \<open>dest' = dest - 1\<close> by (simp add: unat_minus_one unat_gt_0)
qed simp

declare TransactionIdRetreat.simps [simp del]

section \<open>The commit log interface\<close>

datatype XidStatus =
    TRANSACTION_STATUS_IN_PROGRESS
  | TRANSACTION_STATUS_COMMITTED
  | TRANSACTION_STATUS_ABORTED
  | TRANSACTION_STATUS_SUB_COMMITTED

text \<open>What the functions read outside this module.\<close>

record XactLog =
  TransactionIdGetStatus :: "TransactionId \<Rightarrow> XidStatus \<times> XLogRecPtr"
  SubTransGetParent :: "TransactionId \<Rightarrow> TransactionId"
  TransactionXmin :: TransactionId

record FetchCache =
  cachedFetchXid :: TransactionId
  cachedFetchXidStatus :: XidStatus
  cachedCommitLSN :: XLogRecPtr

text \<open>Static storage starts out zero.\<close>

definition initial_cache :: FetchCache where
  "initial_cache = \<lparr>cachedFetchXid = InvalidTransactionId,
     cachedFetchXidStatus = TRANSACTION_STATUS_IN_PROGRESS, cachedCommitLSN = 0\<rparr>"

definition TransactionLogFetch :: "XactLog \<Rightarrow> TransactionId \<Rightarrow> FetchCache \<Rightarrow> XidStatus \<times> FetchCache" where
  "TransactionLogFetch log transactionId cache =
     (if transactionId = cachedFetchXid cache then (cachedFetchXidStatus cache, cache)
      else if \<not> TransactionIdIsNormal transactionId
      then (if transactionId = BootstrapTransactionId then TRANSACTION_STATUS_COMMITTED
            else if transactionId = FrozenTransactionId then TRANSACTION_STATUS_COMMITTED
            else TRANSACTION_STATUS_ABORTED, cache)
      else
        let (xidstatus, xidlsn) = TransactionIdGetStatus log transactionId
        in (xidstatus,
            if xidstatus \<noteq> TRANSACTION_STATUS_IN_PROGRESS \<and> xidstatus \<noteq> TRANSACTION_STATUS_SUB_COMMITTED
            then cache\<lparr>cachedFetchXid := transactionId, cachedFetchXidStatus := xidstatus,
                       cachedCommitLSN := xidlsn\<rparr>
            else cache))"

partial_function (option) TransactionIdDidCommit ::
  "XactLog \<Rightarrow> TransactionId \<Rightarrow> FetchCache \<Rightarrow> (bool \<times> FetchCache) option" where
  "TransactionIdDidCommit log transactionId cache =
     (case TransactionLogFetch log transactionId cache of (xidstatus, cache) \<Rightarrow>
       if xidstatus = TRANSACTION_STATUS_COMMITTED then Some (True, cache)
       else if xidstatus = TRANSACTION_STATUS_SUB_COMMITTED
       then (if TransactionIdPrecedes transactionId (TransactionXmin log) then Some (False, cache)
             else let parentXid = SubTransGetParent log transactionId
                  in if \<not> TransactionIdIsValid parentXid then Some (False, cache)
                     else TransactionIdDidCommit log parentXid cache)
       else Some (False, cache))"

partial_function (option) TransactionIdDidAbort ::
  "XactLog \<Rightarrow> TransactionId \<Rightarrow> FetchCache \<Rightarrow> (bool \<times> FetchCache) option" where
  "TransactionIdDidAbort log transactionId cache =
     (case TransactionLogFetch log transactionId cache of (xidstatus, cache) \<Rightarrow>
       if xidstatus = TRANSACTION_STATUS_ABORTED then Some (True, cache)
       else if xidstatus = TRANSACTION_STATUS_SUB_COMMITTED
       then (if TransactionIdPrecedes transactionId (TransactionXmin log) then Some (True, cache)
             else let parentXid = SubTransGetParent log transactionId
                  in if \<not> TransactionIdIsValid parentXid then Some (True, cache)
                     else TransactionIdDidAbort log parentXid cache)
       else Some (False, cache))"

definition TransactionIdDidAbortForReader :: "XactLog \<Rightarrow> TransactionId \<Rightarrow> FetchCache \<Rightarrow> bool \<times> FetchCache" where
  "TransactionIdDidAbortForReader log transactionId cache =
     (let (status, cache) = TransactionLogFetch log transactionId cache
      in (status = TRANSACTION_STATUS_ABORTED, cache))"

definition TransactionIdIsKnownCompleted :: "TransactionId \<Rightarrow> FetchCache \<Rightarrow> bool" where
  "TransactionIdIsKnownCompleted transactionId cache \<longleftrightarrow> transactionId = cachedFetchXid cache"

definition TransactionIdGetCommitLSN :: "XactLog \<Rightarrow> TransactionId \<Rightarrow> FetchCache \<Rightarrow> XLogRecPtr" where
  "TransactionIdGetCommitLSN log xid cache =
     (if xid = cachedFetchXid cache then cachedCommitLSN cache
      else if \<not> TransactionIdIsNormal xid then InvalidXLogRecPtr
      else snd (TransactionIdGetStatus log xid))"

lemmas xid_defs = InvalidTransactionId_def BootstrapTransactionId_def FrozenTransactionId_def
  FirstNormalTransactionId_def TransactionIdIsValid_def TransactionIdIsNormal_def

section \<open>The order on a half window\<close>

text \<open>The position of an identifier in the window of \<open>2 ^ 31\<close> identifiers that starts at \<open>base\<close>.\<close>

definition xid_offset :: "TransactionId \<Rightarrow> TransactionId \<Rightarrow> nat" where
  "xid_offset base xid = unat (xid - base)"

lemma sint_diff_small:
  fixes u v :: uint32
  assumes "unat u < 2 ^ 31" "unat v < 2 ^ 31"
  shows "sint (u - v) = int (unat u) - int (unat v)"
proof -
  define a b where "a = unat u" and "b = unat v"
  have "a < 2147483648" "b < 2147483648" using assms by (simp_all add: a_def b_def)
  then have range: "- (2 ^ 31) \<le> int a - int b" "int a - int b < 2 ^ 31" by simp_all
  have "u - v = word_of_int (int a - int b)"
    unfolding a_def b_def uint_nat [symmetric] by (rule word_sub_wi)
  then have "sint (u - v) = signed_take_bit 31 (int a - int b)" by (simp only: sint_sbintrunc') simp
  also have "\<dots> = int a - int b" using range by (intro signed_take_bit_int_eq_self) auto
  finally show ?thesis by (simp only: a_def b_def)
qed

lemma xid_diff_window:
  assumes "xid_offset base x < 2 ^ 31" "xid_offset base y < 2 ^ 31"
  shows "sint (x - y) = int (xid_offset base x) - int (xid_offset base y)"
proof -
  have "x - y = (x - base) - (y - base)" by simp
  then show ?thesis
    using sint_diff_small [of "x - base" "y - base"] assms by (simp add: xid_offset_def)
qed

lemma xid_offset_inject: "xid_offset base x = xid_offset base y \<Longrightarrow> x = y"
  unfolding xid_offset_def word_unat_eq_iff [symmetric] by simp

lemma special_xids: "\<not> TransactionIdIsNormal xid \<longleftrightarrow> xid = 0 \<or> xid = 1 \<or> xid = 2"
proof -
  have "\<not> TransactionIdIsNormal xid \<longleftrightarrow> unat xid < 3"
    by (simp add: xid_defs not_le word_less_nat_alt)
  also have "\<dots> \<longleftrightarrow> unat xid = 0 \<or> unat xid = 1 \<or> unat xid = 2" by auto
  also have "\<dots> \<longleftrightarrow> xid = 0 \<or> xid = 1 \<or> xid = 2" by (simp add: word_unat_eq_iff)
  finally show ?thesis .
qed

lemma sint_nonneg_unat: "0 \<le> sint (w :: uint32) \<Longrightarrow> unat w < 2 ^ 31"
proof (rule ccontr)
  assume "0 \<le> sint w" "\<not> unat w < 2 ^ 31"
  moreover have "unat w < 2 ^ 32" using unsigned_less [of w] by simp
  ultimately have "unat w div 2 ^ 31 = 1" by (intro div_nat_eqI) auto
  then have "bit (unat w) 31" by (simp add: bit_iff_odd)
  then have "bit w (LENGTH(32) - Suc 0)" by (simp add: bit_unsigned_iff)
  then show False using \<open>0 \<le> sint w\<close> unfolding bit_last_iff by simp
qed

text \<open>The identifiers of the window that starts at \<open>base\<close>.\<close>

definition in_window :: "TransactionId \<Rightarrow> TransactionId \<Rightarrow> bool" where
  "in_window base xid \<longleftrightarrow> TransactionIdIsNormal xid \<and> xid_offset base xid < 2 ^ 31"

lemma window_comparisons:
  assumes "in_window base x" "in_window base y"
  shows "TransactionIdPrecedes x y \<longleftrightarrow> xid_offset base x < xid_offset base y"
    and "TransactionIdPrecedesOrEquals x y \<longleftrightarrow> xid_offset base x \<le> xid_offset base y"
    and "TransactionIdFollows x y \<longleftrightarrow> xid_offset base x > xid_offset base y"
    and "TransactionIdFollowsOrEquals x y \<longleftrightarrow> xid_offset base x \<ge> xid_offset base y"
  using assms xid_diff_window [of base x y]
  by (simp_all add: in_window_def TransactionIdPrecedes_def TransactionIdPrecedesOrEquals_def
      TransactionIdFollows_def TransactionIdFollowsOrEquals_def)

text \<open>What code that compares identifiers relies on: on the live identifiers \<open>precedes\<close> is the strict
  order of their positions.\<close>

locale position_order =
  fixes live :: "'a \<Rightarrow> bool" and position :: "'a \<Rightarrow> nat" and precedes :: "'a \<Rightarrow> 'a \<Rightarrow> bool"
  assumes precedes: "live x \<Longrightarrow> live y \<Longrightarrow> precedes x y \<longleftrightarrow> position x < position y"
begin

lemma precedes_trans:
  "live x \<Longrightarrow> live y \<Longrightarrow> live z \<Longrightarrow> precedes x y \<Longrightarrow> precedes y z \<Longrightarrow> precedes x z"
  by (simp add: precedes)

lemma latest_fold:
  assumes "live m" "\<forall>x \<in> set xs. live x"
  shows "let r = fold (\<lambda>x r. if precedes r x then x else r) xs m
    in r \<in> insert m (set xs) \<and> live r \<and> (\<forall>x \<in> insert m (set xs). \<not> precedes r x)"
  using assms
proof (induction xs arbitrary: m)
  case (Cons x xs)
  let ?m = "if precedes m x then x else m"
  let ?r = "fold (\<lambda>x r. if precedes r x then x else r) xs ?m"
  have "live ?m" using Cons.prems by simp
  then have r: "?r \<in> insert ?m (set xs)" "live ?r" "\<forall>y \<in> insert ?m (set xs). \<not> precedes ?r y"
    using Cons.IH [of ?m] Cons.prems by (auto simp: Let_def)
  moreover have "\<not> precedes ?r m" "\<not> precedes ?r x"
    using r Cons.prems \<open>live ?m\<close> by (auto simp: precedes split: if_splits)
  ultimately show ?case by (auto simp: Let_def)
qed (simp add: precedes)

end

interpretation xids: position_order "in_window base" "xid_offset base" TransactionIdPrecedes for base
  by unfold_locales (simp add: window_comparisons)

section \<open>Outcome of a transaction\<close>

text \<open>The status recorded for an identifier, the permanent ones included.\<close>

definition log_status :: "XactLog \<Rightarrow> TransactionId \<Rightarrow> XidStatus" where
  "log_status log xid =
     (if TransactionIdIsNormal xid then fst (TransactionIdGetStatus log xid)
      else if xid = InvalidTransactionId then TRANSACTION_STATUS_ABORTED
      else TRANSACTION_STATUS_COMMITTED)"

text \<open>A transaction has committed when it is marked so, or is marked sub-committed and its parent has
  committed; it has aborted when marked so, when it is a sub-committed transaction whose parent can no
  longer be found, or when its parent has aborted.\<close>

inductive committed :: "XactLog \<Rightarrow> TransactionId \<Rightarrow> bool" for log where
  "log_status log xid = TRANSACTION_STATUS_COMMITTED \<Longrightarrow> committed log xid"
| "log_status log xid = TRANSACTION_STATUS_SUB_COMMITTED \<Longrightarrow>
   \<not> TransactionIdPrecedes xid (TransactionXmin log) \<Longrightarrow>
   TransactionIdIsValid (SubTransGetParent log xid) \<Longrightarrow> committed log (SubTransGetParent log xid) \<Longrightarrow>
   committed log xid"

inductive aborted :: "XactLog \<Rightarrow> TransactionId \<Rightarrow> bool" for log where
  "log_status log xid = TRANSACTION_STATUS_ABORTED \<Longrightarrow> aborted log xid"
| "log_status log xid = TRANSACTION_STATUS_SUB_COMMITTED \<Longrightarrow>
   TransactionIdPrecedes xid (TransactionXmin log) \<or> \<not> TransactionIdIsValid (SubTransGetParent log xid) \<Longrightarrow>
   aborted log xid"
| "log_status log xid = TRANSACTION_STATUS_SUB_COMMITTED \<Longrightarrow>
   aborted log (SubTransGetParent log xid) \<Longrightarrow> TransactionIdIsValid (SubTransGetParent log xid) \<Longrightarrow>
   aborted log xid"

inductive_simps committed_iff: "committed log xid"
inductive_simps aborted_iff: "aborted log xid"

text \<open>The cache holds a final status of its identifier, and the matching commit LSN.\<close>

definition cache_ok :: "XactLog \<Rightarrow> FetchCache \<Rightarrow> bool" where
  "cache_ok log cache \<longleftrightarrow>
     cachedFetchXid cache = InvalidTransactionId \<or>
     TransactionIdIsNormal (cachedFetchXid cache) \<and>
     TransactionIdGetStatus log (cachedFetchXid cache) = (cachedFetchXidStatus cache, cachedCommitLSN cache) \<and>
     cachedFetchXidStatus cache \<in> {TRANSACTION_STATUS_COMMITTED, TRANSACTION_STATUS_ABORTED}"

text \<open>What \<^verbatim>\<open>SubTransSetParent\<close> guarantees: a parent was started before its child.\<close>

definition subtrans_ok :: "XactLog \<Rightarrow> bool" where
  "subtrans_ok log \<longleftrightarrow>
     TransactionIdIsNormal (TransactionXmin log) \<and>
     (\<forall>xid. TransactionIdIsNormal xid \<and> \<not> TransactionIdPrecedes xid (TransactionXmin log) \<and>
        TransactionIdIsValid (SubTransGetParent log xid) \<longrightarrow>
        TransactionIdPrecedes (SubTransGetParent log xid) xid)"

lemma fetch_status:
  assumes "TransactionIdIsValid xid" "cache_ok log cache"
  shows "fst (TransactionLogFetch log xid cache) = log_status log xid"
    and "cache_ok log (snd (TransactionLogFetch log xid cache))"
proof -
  have "fst (TransactionLogFetch log xid cache) = log_status log xid \<and>
      cache_ok log (snd (TransactionLogFetch log xid cache))"
  proof (cases "xid = cachedFetchXid cache \<or> \<not> TransactionIdIsNormal xid")
    case True
    then show ?thesis
      using special_xids [of xid] assms by (auto simp: TransactionLogFetch_def cache_ok_def log_status_def xid_defs)
  next
    case False
    obtain st lsn where "TransactionIdGetStatus log xid = (st, lsn)" by (metis prod.collapse)
    then show ?thesis
      using False assms by (cases st) (auto simp: TransactionLogFetch_def cache_ok_def log_status_def)
  qed
  then show "fst (TransactionLogFetch log xid cache) = log_status log xid"
    and "cache_ok log (snd (TransactionLogFetch log xid cache))" by simp_all
qed

text \<open>An upper bound on the number of parents still to visit.\<close>

definition chain_depth :: "XactLog \<Rightarrow> TransactionId \<Rightarrow> nat" where
  "chain_depth log xid =
     (if TransactionIdIsNormal xid \<and> \<not> TransactionIdPrecedes xid (TransactionXmin log)
      then Suc (xid_offset (TransactionXmin log) xid) else 0)"

lemma not_precedes_window:
  "TransactionIdIsNormal base \<Longrightarrow> TransactionIdIsNormal xid \<Longrightarrow> \<not> TransactionIdPrecedes xid base \<Longrightarrow>
   in_window base xid"
  using sint_nonneg_unat [of "xid - base"] by (simp add: in_window_def xid_offset_def TransactionIdPrecedes_def)

lemma parent_depth:
  assumes "subtrans_ok log" "log_status log xid = TRANSACTION_STATUS_SUB_COMMITTED"
    "\<not> TransactionIdPrecedes xid (TransactionXmin log)" "TransactionIdIsValid (SubTransGetParent log xid)"
  shows "chain_depth log (SubTransGetParent log xid) < chain_depth log xid"
proof -
  let ?p = "SubTransGetParent log xid"
  have norm: "TransactionIdIsNormal xid" using assms(2) by (auto simp: log_status_def split: if_splits)
  then have prec: "TransactionIdPrecedes ?p xid" "TransactionIdIsNormal (TransactionXmin log)"
    using assms by (auto simp: subtrans_ok_def)
  have "in_window (TransactionXmin log) xid"
    using not_precedes_window [OF prec(2) norm assms(3)] .
  then show ?thesis
    using norm prec assms(3) not_precedes_window [OF prec(2), of ?p] window_comparisons(1)
    by (auto simp: chain_depth_def)
qed

lemma did_commit_spec:
  assumes "subtrans_ok log"
  shows "TransactionIdIsValid xid \<Longrightarrow> cache_ok log cache \<Longrightarrow>
    \<exists>cache'. TransactionIdDidCommit log xid cache = Some (committed log xid, cache') \<and> cache_ok log cache'"
proof (induction "chain_depth log xid" arbitrary: xid cache rule: less_induct)
  case less
  obtain c where f: "TransactionLogFetch log xid cache = (log_status log xid, c)" and c: "cache_ok log c"
    using fetch_status [OF less.prems] by (metis prod.collapse)
  let ?p = "SubTransGetParent log xid"
  show ?case
  proof (cases "log_status log xid = TRANSACTION_STATUS_SUB_COMMITTED \<and>
      \<not> TransactionIdPrecedes xid (TransactionXmin log) \<and> TransactionIdIsValid ?p")
    case True
    then obtain c' where "TransactionIdDidCommit log ?p c = Some (committed log ?p, c')" "cache_ok log c'"
      using less.hyps [of ?p c] parent_depth [OF assms] c by blast
    moreover have "committed log xid \<longleftrightarrow> committed log ?p"
      using True by (subst committed_iff) auto
    ultimately show ?thesis using True f by (subst TransactionIdDidCommit.simps) simp
  next
    case False
    then have "committed log xid \<longleftrightarrow> log_status log xid = TRANSACTION_STATUS_COMMITTED"
      by (subst committed_iff) auto
    then show ?thesis using False f c by (subst TransactionIdDidCommit.simps) (auto simp: Let_def)
  qed
qed

lemma did_abort_spec:
  assumes "subtrans_ok log"
  shows "TransactionIdIsValid xid \<Longrightarrow> cache_ok log cache \<Longrightarrow>
    \<exists>cache'. TransactionIdDidAbort log xid cache = Some (aborted log xid, cache') \<and> cache_ok log cache'"
proof (induction "chain_depth log xid" arbitrary: xid cache rule: less_induct)
  case less
  obtain c where f: "TransactionLogFetch log xid cache = (log_status log xid, c)" and c: "cache_ok log c"
    using fetch_status [OF less.prems] by (metis prod.collapse)
  let ?p = "SubTransGetParent log xid"
  show ?case
  proof (cases "log_status log xid = TRANSACTION_STATUS_SUB_COMMITTED \<and>
      \<not> TransactionIdPrecedes xid (TransactionXmin log) \<and> TransactionIdIsValid ?p")
    case True
    then obtain c' where "TransactionIdDidAbort log ?p c = Some (aborted log ?p, c')" "cache_ok log c'"
      using less.hyps [of ?p c] parent_depth [OF assms] c by blast
    moreover have "aborted log xid \<longleftrightarrow> aborted log ?p"
      using True by (subst aborted_iff) auto
    ultimately show ?thesis using True f by (subst TransactionIdDidAbort.simps) simp
  next
    case False
    then have "aborted log xid \<longleftrightarrow> log_status log xid = TRANSACTION_STATUS_ABORTED \<or>
        log_status log xid = TRANSACTION_STATUS_SUB_COMMITTED"
      by (subst aborted_iff) auto
    then show ?thesis using False f c by (subst TransactionIdDidAbort.simps) (auto simp: Let_def)
  qed
qed

lemma committed_not_aborted: "committed log xid \<Longrightarrow> \<not> aborted log xid"
  by (induction rule: committed.induct) (subst aborted_iff; simp)+

lemma retreat_first: "TransactionIdRetreat 3 = - 1"
proof -
  have "TransactionIdRetreat 0 = - 1" "TransactionIdRetreat 1 = TransactionIdRetreat 0"
    "TransactionIdRetreat 2 = TransactionIdRetreat 1" "TransactionIdRetreat 3 = TransactionIdRetreat 2"
    by (subst TransactionIdRetreat.simps; simp add: FirstNormalTransactionId_def)+
  then show ?thesis by simp
qed

lemma advance_cases:
  assumes "TransactionIdIsNormal xid"
  shows "xid = - 1 \<and> TransactionIdAdvance xid = 3 \<or>
    xid \<noteq> - 1 \<and> TransactionIdAdvance xid = xid + 1 \<and> TransactionIdIsNormal (xid + 1)"
proof (cases "xid = - 1")
  case False
  then have "1 + xid \<noteq> 0" by (metis add.commute eq_neg_iff_add_eq_0)
  then have "unat (xid + 1) = unat xid + 1" using unatSuc [of xid] by (simp add: add.commute)
  moreover have "3 \<le> unat xid" using assms by (simp add: xid_defs word_le_nat_alt)
  ultimately have "\<not> xid + 1 < 3" "3 \<le> xid + 1" by (simp_all add: word_less_nat_alt word_le_nat_alt)
  then show ?thesis using False by (simp add: TransactionIdAdvance_def xid_defs Let_def)
qed (simp add: TransactionIdAdvance_def FirstNormalTransactionId_def)

section \<open>Properties\<close>

text \<open>On the normal identifiers of any window of \<open>2 ^ 31\<close> consecutive identifiers, however it
  straddles the wraparound point, the four comparison functions are the order of the positions in the
  window; so the modular comparison is a linear order as long as live identifiers stay within half of
  the space.\<close>

theorem xid_comparisons_on_half_window:
  assumes "in_window base x" "in_window base y"
  shows "TransactionIdPrecedes x y = (xid_offset base x < xid_offset base y) \<and>
    TransactionIdPrecedesOrEquals x y = (xid_offset base x \<le> xid_offset base y) \<and>
    TransactionIdFollows x y = (xid_offset base x > xid_offset base y) \<and>
    TransactionIdFollowsOrEquals x y = (xid_offset base x \<ge> xid_offset base y)"
  using window_comparisons [OF assms] by blast

theorem xid_comparisons_on_half_window_witness:
  "TransactionIdPrecedes 0xFFFFFFFE 5 \<and> \<not> TransactionIdPrecedes 5 0xFFFFFFFE"
proof -
  have "in_window 0xFFFFFFF0 0xFFFFFFFE" "in_window 0xFFFFFFF0 5"
    "xid_offset 0xFFFFFFF0 0xFFFFFFFE = 14" "xid_offset 0xFFFFFFF0 5 = 21"
    by (simp_all add: in_window_def xid_offset_def xid_defs)
  then show ?thesis
    using xid_comparisons_on_half_window [of "0xFFFFFFF0" "0xFFFFFFFE" 5]
      xid_comparisons_on_half_window [of "0xFFFFFFF0" 5 "0xFFFFFFFE"] by simp
qed

text \<open>\<^verbatim>\<open>TransactionIdLatest\<close> returns one of the given identifiers that none of them follows,
  whatever the order of the array.\<close>

theorem xid_latest_is_maximum:
  assumes "in_window base mainxid" "\<forall>x \<in> set xids. in_window base x"
  shows "TransactionIdLatest mainxid xids \<in> insert mainxid (set xids) \<and>
    (\<forall>x \<in> insert mainxid (set xids). \<not> TransactionIdPrecedes (TransactionIdLatest mainxid xids) x)"
  using xids.latest_fold [of base mainxid "rev xids"] assms by (simp add: TransactionIdLatest_def Let_def)

theorem xid_latest_is_maximum_witness:
  "TransactionIdLatest 0xFFFFFFFE [7, 0xFFFFFFFF] = 7"
proof -
  have "in_window 0xFFFFFFF0 0xFFFFFFFE" "\<forall>x \<in> set [7, 0xFFFFFFFF]. in_window 0xFFFFFFF0 x"
    by (simp_all add: in_window_def xid_offset_def xid_defs)
  from xid_latest_is_maximum [OF this] show ?thesis
    by (auto simp: TransactionIdPrecedes_def xid_defs)
qed

text \<open>C35: \<^verbatim>\<open>TransactionIdDidCommit\<close> and \<^verbatim>\<open>TransactionIdDidAbort\<close> return on every valid
  identifier (the walk over parents ends, because a parent precedes its child) and decide the outcome
  of the transaction tree; the two are never both true; and they keep the single item cache coherent
  with the commit log.\<close>

theorem did_commit_and_abort_decide:
  assumes "subtrans_ok log" "TransactionIdIsValid xid" "cache_ok log cache"
  shows "\<exists>cache1 cache2.
    TransactionIdDidCommit log xid cache = Some (committed log xid, cache1) \<and> cache_ok log cache1 \<and>
    TransactionIdDidAbort log xid cache = Some (aborted log xid, cache2) \<and> cache_ok log cache2 \<and>
    \<not> (committed log xid \<and> aborted log xid)"
  using did_commit_spec [OF assms] did_abort_spec [OF assms] committed_not_aborted [of log xid] by blast

text \<open>A log in which 101 is a sub-committed child of 100, which committed.\<close>

definition sample_log :: XactLog where
  "sample_log = \<lparr>
     TransactionIdGetStatus = (\<lambda>x. if x = 100 then (TRANSACTION_STATUS_COMMITTED, 5)
                                 else if x = 101 then (TRANSACTION_STATUS_SUB_COMMITTED, 0)
                                 else (TRANSACTION_STATUS_IN_PROGRESS, 0)),
     SubTransGetParent = (\<lambda>x. if x = 101 then 100 else 0),
     TransactionXmin = 90\<rparr>"

theorem did_commit_and_abort_decide_witness:
  "\<exists>cache1 cache2. TransactionIdDidCommit sample_log 101 initial_cache = Some (True, cache1) \<and>
    TransactionIdDidAbort sample_log 101 initial_cache = Some (False, cache2)"
proof -
  have "subtrans_ok sample_log"
    by (auto simp: subtrans_ok_def sample_log_def xid_defs TransactionIdPrecedes_def)
  moreover have "cache_ok sample_log initial_cache" by (simp add: cache_ok_def initial_cache_def)
  moreover have "TransactionIdIsValid 101" by (simp add: xid_defs)
  moreover have "committed sample_log 101"
    by (rule committed.intros(2))
       (auto simp: log_status_def sample_log_def xid_defs TransactionIdPrecedes_def intro: committed.intros(1))
  ultimately show ?thesis
    using did_commit_and_abort_decide [of sample_log 101 initial_cache] by (metis (full_types))
qed

text \<open>Advancing a normal identifier gives a normal identifier that follows it, and retreating
  undoes it, the wraparound over the three permanent identifiers included.\<close>

theorem xid_advance_retreat:
  assumes "TransactionIdIsNormal xid"
  shows "TransactionIdIsNormal (TransactionIdAdvance xid) \<and>
    TransactionIdFollows (TransactionIdAdvance xid) xid \<and>
    TransactionIdRetreat (TransactionIdAdvance xid) = xid"
proof (cases "xid = - 1")
  case True
  then show ?thesis
    using advance_cases [OF assms] retreat_first by (auto simp: TransactionIdFollows_def xid_defs)
next
  case False
  then have "TransactionIdAdvance xid = xid + 1" "TransactionIdIsNormal (xid + 1)"
    using advance_cases [OF assms] by auto
  then show ?thesis
    using assms by (subst TransactionIdRetreat.simps) (auto simp: TransactionIdFollows_def xid_defs not_less)
qed

theorem xid_advance_retreat_witness:
  "TransactionIdAdvance 0xFFFFFFFF = 3 \<and> TransactionIdRetreat (TransactionIdAdvance 0xFFFFFFFF) = 0xFFFFFFFF"
  using xid_advance_retreat [of "0xFFFFFFFF"] by (simp add: TransactionIdAdvance_def xid_defs)

end
