(* ===== verification/SubTrans.thy ===== *)
theory SubTrans
  imports TransactionIds
begin

text \<open>The log of parents of subtransactions, \<^verbatim>\<open>src/backend/access/transam/subtrans.c\<close>. Each
  entry holds the parent and the topmost transaction; the topmost one is copied from the parent's
  entry when the parent is recorded, so that looking it up needs no walk along the chain. The log is a
  total function: a page is zeroed by \<^verbatim>\<open>ExtendSUBTRANS\<close> before an identifier on it is assigned.\<close>

record SubTransData =
  sub_parent :: TransactionId
  topMostParent :: TransactionId

type_synonym subtrans_log = "TransactionId \<Rightarrow> SubTransData"

definition zeroed_subtrans :: subtrans_log where
  "zeroed_subtrans = (\<lambda>_. \<lparr>sub_parent = InvalidTransactionId, topMostParent = InvalidTransactionId\<rparr>)"

definition SubTransGetData :: "subtrans_log \<Rightarrow> TransactionId \<Rightarrow> SubTransData" where
  "SubTransGetData log xid =
     (if \<not> TransactionIdIsNormal xid then \<lparr>sub_parent = InvalidTransactionId, topMostParent = xid\<rparr>
      else let subData = log xid
           in if topMostParent subData = InvalidTransactionId then subData\<lparr>topMostParent := xid\<rparr> else subData)"

definition SubTransSetParent :: "TransactionId \<Rightarrow> TransactionId \<Rightarrow> subtrans_log \<Rightarrow> subtrans_log" where
  "SubTransSetParent xid parent log =
     (let top = (if parent \<noteq> InvalidTransactionId then topMostParent (SubTransGetData log parent)
                 else InvalidTransactionId)
      in if sub_parent (log xid) \<noteq> parent
         then log(xid := \<lparr>sub_parent = parent, topMostParent = top\<rparr>)
         else log)"

definition SubTransGetParent_log :: "subtrans_log \<Rightarrow> TransactionId \<Rightarrow> TransactionId" where
  "SubTransGetParent_log log xid = sub_parent (SubTransGetData log xid)"

definition SubTransGetTopmostTransaction :: "subtrans_log \<Rightarrow> TransactionId \<Rightarrow> TransactionId" where
  "SubTransGetTopmostTransaction log xid = topMostParent (SubTransGetData log xid)"

lemma get_parent_eq:
  "SubTransGetParent_log log x = (if TransactionIdIsNormal x then sub_parent (log x) else InvalidTransactionId)"
  by (simp add: SubTransGetParent_log_def SubTransGetData_def Let_def)

lemma get_topmost_eq:
  "SubTransGetTopmostTransaction log x =
     (if TransactionIdIsNormal x \<and> topMostParent (log x) \<noteq> InvalidTransactionId then topMostParent (log x) else x)"
  by (simp add: SubTransGetTopmostTransaction_def SubTransGetData_def Let_def)

section \<open>Reachable logs\<close>

text \<open>A subtransaction gets its parent recorded before it can be a parent itself
  (\<^verbatim>\<open>AssignTransactionId\<close> assigns the identifiers of all parents first); recording the same parent
  again, as recovery does, is allowed.\<close>

inductive reachable_log :: "subtrans_log \<Rightarrow> bool" where
  start: "reachable_log zeroed_subtrans"
| record_new: "reachable_log log \<Longrightarrow> TransactionIdIsNormal xid \<Longrightarrow> TransactionIdIsNormal parent \<Longrightarrow> xid \<noteq> parent \<Longrightarrow>
    sub_parent (log xid) = InvalidTransactionId \<Longrightarrow> (\<And>y. sub_parent (log y) \<noteq> xid) \<Longrightarrow>
    reachable_log (SubTransSetParent xid parent log)"
| record_again: "reachable_log log \<Longrightarrow> sub_parent (log xid) = parent \<Longrightarrow>
    reachable_log (SubTransSetParent xid parent log)"

text \<open>The end of the chain of parents.\<close>

inductive root_of :: "subtrans_log \<Rightarrow> TransactionId \<Rightarrow> TransactionId \<Rightarrow> bool" for log where
  top: "SubTransGetParent_log log x = InvalidTransactionId \<Longrightarrow> root_of log x x"
| up: "SubTransGetParent_log log x = p \<Longrightarrow> p \<noteq> InvalidTransactionId \<Longrightarrow> root_of log p r \<Longrightarrow> root_of log x r"

lemma root_unique: "root_of log x r \<Longrightarrow> root_of log x r' \<Longrightarrow> r = r'"
proof (induction arbitrary: r' rule: root_of.induct)
  case (top x)
  from top.prems show ?case by (cases rule: root_of.cases) (use top.hyps in auto)
next
  case (up x p r)
  from up.prems show ?case by (cases rule: root_of.cases) (metis up.hyps up.IH)+
qed

text \<open>What holds of every reachable log: recorded parents are normal, an entry with no parent is
  blank, and the entry of a subtransaction names a normal topmost transaction that is the end of the
  chain.\<close>

definition subtrans_inv :: "subtrans_log \<Rightarrow> bool" where
  "subtrans_inv log \<longleftrightarrow>
     (\<forall>x. sub_parent (log x) = InvalidTransactionId \<longrightarrow> topMostParent (log x) = InvalidTransactionId) \<and>
     (\<forall>x. sub_parent (log x) \<noteq> InvalidTransactionId \<longrightarrow>
        TransactionIdIsNormal (sub_parent (log x)) \<and> TransactionIdIsNormal (topMostParent (log x))) \<and>
     (\<forall>x. root_of log x (SubTransGetTopmostTransaction log x))"

lemma fresh_keeps_root:
  assumes "\<And>y. sub_parent (log y) \<noteq> xid" "root_of log x r" "x \<noteq> xid"
  shows "root_of (log(xid := d)) x r"
  using assms(2,3)
proof (induction rule: root_of.induct)
  case (top x)
  then show ?case by (intro root_of.top) (simp add: get_parent_eq split: if_splits)
next
  case (up x p r)
  have same: "SubTransGetParent_log (log(xid := d)) x = p"
    using up.hyps(1) up.prems by (auto simp: get_parent_eq)
  have "p \<noteq> xid"
    using up.hyps(1,2) assms(1) [of x] by (auto simp: get_parent_eq split: if_splits)
  then show ?case by (intro root_of.up [OF same up.hyps(2) up.IH])
qed

lemma subtrans_inv_set:
  assumes inv: "subtrans_inv log" and n: "TransactionIdIsNormal xid" "TransactionIdIsNormal parent" "xid \<noteq> parent"
    and blank: "sub_parent (log xid) = InvalidTransactionId" and fresh: "\<And>y. sub_parent (log y) \<noteq> xid"
  shows "subtrans_inv (SubTransSetParent xid parent log)"
proof -
  let ?top = "SubTransGetTopmostTransaction log parent"
  let ?log = "log(xid := \<lparr>sub_parent = parent, topMostParent = ?top\<rparr>)"
  have valid: "parent \<noteq> InvalidTransactionId" using n(2) by (auto simp: xid_defs)
  have set: "SubTransSetParent xid parent log = ?log"
    using blank valid by (auto simp: SubTransSetParent_def SubTransGetTopmostTransaction_def)
  have top: "TransactionIdIsNormal ?top"
    using inv n(2)
    by (cases "sub_parent (log parent) = InvalidTransactionId")
      (auto simp: subtrans_inv_def get_topmost_eq)
  then have top0: "?top \<noteq> InvalidTransactionId" by (auto simp: xid_defs)
  have "root_of ?log x (SubTransGetTopmostTransaction ?log x)" for x
  proof (cases "x = xid")
    case True
    have "root_of ?log parent ?top"
      using fresh_keeps_root [OF fresh] inv n(3) by (simp add: subtrans_inv_def)
    then have "root_of ?log xid ?top"
      using valid n(1) root_of.up [of ?log xid parent ?top] by (simp add: get_parent_eq)
    then show ?thesis using True n(1) top0 by (simp add: get_topmost_eq)
  next
    case False
    then have "SubTransGetTopmostTransaction ?log x = SubTransGetTopmostTransaction log x"
      by (simp add: get_topmost_eq)
    then show ?thesis using fresh_keeps_root [OF fresh _ False] inv by (simp add: subtrans_inv_def)
  qed
  then show ?thesis unfolding set using inv valid top n(2) by (simp add: subtrans_inv_def)
qed

lemma reachable_inv: "reachable_log log \<Longrightarrow> subtrans_inv log"
proof (induction rule: reachable_log.induct)
  case start
  have "root_of zeroed_subtrans x x" for x
    by (rule root_of.top) (simp add: get_parent_eq zeroed_subtrans_def)
  then show ?case
    by (auto simp: subtrans_inv_def get_topmost_eq zeroed_subtrans_def)
next
  case (record_new log xid parent)
  then show ?case by (intro subtrans_inv_set)
next
  case (record_again log xid parent)
  then show ?case by (simp add: SubTransSetParent_def Let_def)
qed

section \<open>Property\<close>

text \<open>C38: in every log that recording parents can produce, the topmost transaction looked up in one
  step is the end of the chain of parents: the chain ends, it ends there, and the end is its own
  topmost transaction.\<close>

theorem topmost_is_root:
  assumes "reachable_log log"
  shows "root_of log xid (SubTransGetTopmostTransaction log xid) \<and>
    (\<forall>r. root_of log xid r \<longrightarrow> r = SubTransGetTopmostTransaction log xid) \<and>
    SubTransGetParent_log log (SubTransGetTopmostTransaction log xid) = InvalidTransactionId"
proof -
  have root: "root_of log xid (SubTransGetTopmostTransaction log xid)"
    using reachable_inv [OF assms] by (simp add: subtrans_inv_def)
  have "SubTransGetParent_log log r = InvalidTransactionId" if "root_of log x r" for x r
    using that by (induction rule: root_of.induct)
  then show ?thesis using root root_unique by blast
qed

theorem topmost_is_root_witness:
  "root_of (SubTransSetParent 12 11 (SubTransSetParent 11 10 zeroed_subtrans)) 12
     (SubTransGetTopmostTransaction (SubTransSetParent 12 11 (SubTransSetParent 11 10 zeroed_subtrans)) 12) \<and>
   SubTransGetTopmostTransaction (SubTransSetParent 12 11 (SubTransSetParent 11 10 zeroed_subtrans)) 12 = 10"
proof -
  have "reachable_log (SubTransSetParent 11 10 zeroed_subtrans)"
    by (intro reachable_log.intros) (simp_all add: xid_defs zeroed_subtrans_def)
  then have "reachable_log (SubTransSetParent 12 11 (SubTransSetParent 11 10 zeroed_subtrans))"
    by (rule reachable_log.record_new) (auto simp: xid_defs zeroed_subtrans_def SubTransSetParent_def Let_def)
  from topmost_is_root [OF this, of 12] show ?thesis
    by (simp add: SubTransGetTopmostTransaction_def SubTransGetData_def SubTransSetParent_def zeroed_subtrans_def xid_defs Let_def)
qed

end
