(* ===== verification/LocalDistribCache.thy ===== *)
theory LocalDistribCache
  imports TransactionIds
begin

text \<open>The backend-local part of distributed transactions,
  \<^verbatim>\<open>src/backend/cdb/cdblocaldistribxact.c\<close>: the state of a local element of a distributed
  transaction, and the cache of committed pairs of local and distributed identifiers, a hash table
  whose entries are linked in a list in order of last use. The list is kept from its head (last used)
  to its tail. \<^verbatim>\<open>gp_max_local_distributed_cache\<close> is an argument. The memory context is created
  by the first search, so before it the cache is the empty one.\<close>

type_synonym DistributedTransactionId = uint64

definition InvalidDistributedTransactionId :: DistributedTransactionId where
  "InvalidDistributedTransactionId = 0"

section \<open>State of the local element\<close>

datatype LocalDistribXactState =
    LOCALDISTRIBXACT_STATE_NONE
  | LOCALDISTRIBXACT_STATE_ACTIVE
  | LOCALDISTRIBXACT_STATE_COMMITTED
  | LOCALDISTRIBXACT_STATE_ABORTED
  | LOCALDISTRIBXACT_STATE_PREPARED

record LocalDistribXactData =
  xact_state :: LocalDistribXactState
  xact_distribXid :: DistributedTransactionId

definition LocalDistribXact_ChangeState ::
  "LocalDistribXactData \<Rightarrow> LocalDistribXactState \<Rightarrow> LocalDistribXactData result" where
  "LocalDistribXact_ChangeState localData newState =
     (let oldState = xact_state localData
      in case newState of
           LOCALDISTRIBXACT_STATE_PREPARED \<Rightarrow>
             (if oldState \<noteq> LOCALDISTRIBXACT_STATE_ACTIVE then Inl (PANIC ''Expected Active'')
              else Inr (localData\<lparr>xact_state := newState\<rparr>))
         | LOCALDISTRIBXACT_STATE_COMMITTED \<Rightarrow>
             (if oldState \<noteq> LOCALDISTRIBXACT_STATE_ACTIVE
              then Inl (PANIC ''Expected Active or Commit Delivery'')
              else Inr (localData\<lparr>xact_state := newState\<rparr>))
         | LOCALDISTRIBXACT_STATE_ABORTED \<Rightarrow>
             (if oldState \<noteq> LOCALDISTRIBXACT_STATE_ACTIVE \<and> oldState \<noteq> LOCALDISTRIBXACT_STATE_ABORTED
              then Inl (PANIC ''Expected Active or Abort Delivery'')
              else Inr (localData\<lparr>xact_state := newState\<rparr>))
         | LOCALDISTRIBXACT_STATE_ACTIVE \<Rightarrow> Inl (PANIC ''Unexpected new state'')
         | LOCALDISTRIBXACT_STATE_NONE \<Rightarrow> Inl (PANIC ''Unrecognized state''))"

section \<open>The cache\<close>

record LocalDistribXactCacheEntry =
  entry_distribXid :: DistributedTransactionId
  visits :: int

record LocalDistribXactCache =
  htab :: "TransactionId \<rightharpoonup> LocalDistribXactCacheEntry"
  lru :: "TransactionId list"
  cache_count :: int
  hitCount :: int
  totalCount :: int
  addCount :: int
  removeCount :: int

definition LocalDistribXactCache_CommittedFind ::
  "nat \<Rightarrow> TransactionId \<Rightarrow> LocalDistribXactCache \<Rightarrow> DistributedTransactionId option \<times> LocalDistribXactCache" where
  "LocalDistribXactCache_CommittedFind max_cache localXid cache =
     (if max_cache = 0 then (None, cache)
      else case htab cache localXid of
             Some entry \<Rightarrow>
               (Some (entry_distribXid entry),
                cache\<lparr>lru := localXid # remove1 localXid (lru cache),
                      htab := (htab cache)(localXid \<mapsto> entry\<lparr>visits := visits entry + 1\<rparr>),
                      hitCount := hitCount cache + 1, totalCount := totalCount cache + 1\<rparr>)
           | None \<Rightarrow> (None, cache\<lparr>totalCount := totalCount cache + 1\<rparr>))"

text \<open>The eviction of the least recently used entry when the cache is full.\<close>

definition evict_oldest :: "nat \<Rightarrow> LocalDistribXactCache \<Rightarrow> LocalDistribXactCache" where
  "evict_oldest max_cache cache =
     (if cache_count cache \<ge> int max_cache
      then cache\<lparr>lru := butlast (lru cache), htab := (htab cache)(last (lru cache) := None),
                 cache_count := cache_count cache - 1, removeCount := removeCount cache + 1\<rparr>
      else cache)"

definition LocalDistribXactCache_AddCommitted ::
  "nat \<Rightarrow> TransactionId \<Rightarrow> DistributedTransactionId \<Rightarrow> LocalDistribXactCache \<Rightarrow> LocalDistribXactCache result" where
  "LocalDistribXactCache_AddCommitted max_cache localXid gxid cache =
     (if max_cache = 0 then Inr cache
      else
        let cache = evict_oldest max_cache cache
        in if htab cache localXid \<noteq> None then Inl (ERROR ''Add should not have found local xid'')
           else Inr (cache\<lparr>lru := localXid # lru cache,
                           htab := (htab cache)(localXid \<mapsto> \<lparr>entry_distribXid = gxid, visits = 1\<rparr>),
                           cache_count := cache_count cache + 1, addCount := addCount cache + 1\<rparr>))"

section \<open>Invariant\<close>

definition empty_cache :: LocalDistribXactCache where
  "empty_cache = \<lparr>htab = (\<lambda>_. None), lru = [], cache_count = 0, hitCount = 0, totalCount = 0,
     addCount = 0, removeCount = 0\<rparr>"

text \<open>The list holds exactly the keys of the hash table, each once, and the count is its length and
  within the limit.\<close>

definition cache_inv :: "nat \<Rightarrow> LocalDistribXactCache \<Rightarrow> bool" where
  "cache_inv max_cache cache \<longleftrightarrow>
     distinct (lru cache) \<and> set (lru cache) = dom (htab cache) \<and>
     cache_count cache = int (length (lru cache)) \<and> length (lru cache) \<le> max_cache"

definition cache_lookup :: "LocalDistribXactCache \<Rightarrow> TransactionId \<Rightarrow> DistributedTransactionId option" where
  "cache_lookup cache localXid = map_option entry_distribXid (htab cache localXid)"

lemma empty_cache_inv: "cache_inv max_cache empty_cache"
  by (simp add: cache_inv_def empty_cache_def)

lemma find_inv:
  "cache_inv max_cache cache \<Longrightarrow>
   cache_inv max_cache (snd (LocalDistribXactCache_CommittedFind max_cache localXid cache))"
proof (cases "htab cache localXid")
  case (Some entry)
  assume inv: "cache_inv max_cache cache"
  then have mem: "localXid \<in> set (lru cache)" using Some by (auto simp: cache_inv_def)
  then have len: "length (localXid # remove1 localXid (lru cache)) = length (lru cache)"
    using length_pos_if_in_set [OF mem] by (simp add: length_remove1)
  have "set (localXid # remove1 localXid (lru cache)) = set (lru cache)"
    using mem inv by (auto simp: cache_inv_def)
  then show ?thesis
    using inv len Some by (auto simp: LocalDistribXactCache_CommittedFind_def cache_inv_def domIff)
qed (auto simp: LocalDistribXactCache_CommittedFind_def cache_inv_def)

lemma find_lookup:
  "fst (LocalDistribXactCache_CommittedFind max_cache k cache) = (if max_cache = 0 then None else cache_lookup cache k)"
  "cache_lookup (snd (LocalDistribXactCache_CommittedFind max_cache k cache)) = cache_lookup cache"
  by (auto simp: LocalDistribXactCache_CommittedFind_def cache_lookup_def split: option.split)

lemma set_butlast_distinct: "distinct xs \<Longrightarrow> xs \<noteq> [] \<Longrightarrow> set (butlast xs) = set xs - {last xs}"
proof -
  assume "distinct xs" "xs \<noteq> []"
  moreover from this obtain ys y where "xs = ys @ [y]" by (metis rev_exhaust)
  ultimately show ?thesis by simp
qed

lemma evict_inv:
  assumes "cache_inv max_cache cache" "0 < max_cache"
  shows "cache_inv max_cache (evict_oldest max_cache cache)"
    and "length (lru (evict_oldest max_cache cache)) < max_cache"
    and "cache_lookup (evict_oldest max_cache cache) k \<in> {None, cache_lookup cache k}"
proof -
  have ne: "lru cache \<noteq> []" if "cache_count cache \<ge> int max_cache"
    using that assms by (auto simp: cache_inv_def)
  show "cache_inv max_cache (evict_oldest max_cache cache)"
    using assms ne set_butlast_distinct [of "lru cache"]
    by (auto simp: evict_oldest_def cache_inv_def distinct_butlast of_nat_diff Suc_leI)
  show "length (lru (evict_oldest max_cache cache)) < max_cache"
    using assms ne by (auto simp: evict_oldest_def cache_inv_def)
  show "cache_lookup (evict_oldest max_cache cache) k \<in> {None, cache_lookup cache k}"
    by (simp add: evict_oldest_def cache_lookup_def)
qed

lemma add_committed:
  assumes "cache_inv max_cache cache" "max_cache = 0 \<or> cache_lookup cache k = None"
  shows "\<exists>cache'. LocalDistribXactCache_AddCommitted max_cache k v cache = Inr cache' \<and>
    cache_inv max_cache cache' \<and>
    (\<forall>j. cache_lookup cache' j \<in> {None, cache_lookup cache j} \<or> j = k \<and> cache_lookup cache' j = Some v) \<and>
    (0 < max_cache \<longrightarrow> cache_lookup cache' k = Some v)"
proof (cases "max_cache = 0")
  case False
  let ?c = "evict_oldest max_cache cache"
  note ev = evict_inv [OF assms(1)]
  have absent: "htab ?c k = None"
    using ev(3) [of k] assms(2) False by (auto simp: cache_lookup_def)
  have "k \<notin> set (lru ?c)" using ev(1) False absent by (auto simp: cache_inv_def)
  then show ?thesis
    using ev False absent
    by (auto simp: LocalDistribXactCache_AddCommitted_def cache_inv_def cache_lookup_def Let_def)
qed (use assms in \<open>simp add: LocalDistribXactCache_AddCommitted_def\<close>)

section \<open>The cache as a memo table\<close>

text \<open>What a client of a bounded cache relies on: a search does not change what is stored, and after
  an unsuccessful search a pair can be added, possibly at the expense of others.\<close>

locale memo_table =
  fixes lookup :: "'s \<Rightarrow> 'k \<Rightarrow> 'v option" and inv :: "'s \<Rightarrow> bool"
    and find :: "'k \<Rightarrow> 's \<Rightarrow> 'v option \<times> 's" and add :: "'k \<Rightarrow> 'v \<Rightarrow> 's \<Rightarrow> 's result"
  assumes find_keeps: "inv s \<Longrightarrow> find k s = (r, s') \<Longrightarrow> inv s' \<and> lookup s' = lookup s"
    and find_stored: "inv s \<Longrightarrow> find k s = (Some v, s') \<Longrightarrow> lookup s k = Some v"
    and add_absent: "inv s \<Longrightarrow> find k s = (None, s') \<Longrightarrow>
      \<exists>t. add k v s' = Inr t \<and> inv t \<and>
        (\<forall>j. lookup t j \<in> {None, lookup s' j} \<or> j = k \<and> lookup t j = Some v)"
begin

text \<open>Looking a key up in the cache first and adding the answer afterwards is transparent: a coherent
  cache stays coherent, a hit agrees with the function cached, and adding cannot fail.\<close>

lemma memo_transparent:
  assumes "inv s" "\<And>j w. lookup s j = Some w \<Longrightarrow> f j = Some w" "find k s = (r, s')"
  shows "inv s'" and "\<And>j w. lookup s' j = Some w \<Longrightarrow> f j = Some w"
    and "r = Some v \<Longrightarrow> f k = Some v"
    and "r = None \<Longrightarrow> f k = Some v \<Longrightarrow>
      \<exists>t. add k v s' = Inr t \<and> inv t \<and> (\<forall>j w. lookup t j = Some w \<longrightarrow> f j = Some w)"
proof -
  note keep = find_keeps [OF assms(1,3)]
  show "inv s'" and coh: "\<And>j w. lookup s' j = Some w \<Longrightarrow> f j = Some w"
    using keep assms(2) by auto
  show "r = Some v \<Longrightarrow> f k = Some v"
    using find_stored [OF assms(1)] assms(2,3) by blast
  show "\<exists>t. add k v s' = Inr t \<and> inv t \<and> (\<forall>j w. lookup t j = Some w \<longrightarrow> f j = Some w)"
    if "r = None" "f k = Some v"
  proof -
    obtain t where "add k v s' = Inr t" "inv t"
      "\<forall>j. lookup t j \<in> {None, lookup s' j} \<or> j = k \<and> lookup t j = Some v"
      using add_absent [OF assms(1)] assms(3) \<open>r = None\<close> by blast
    moreover from this(3) have "f j = Some w" if "lookup t j = Some w" for j w
      using that coh \<open>f k = Some v\<close> by (metis insertE option.distinct(1) option.inject singletonD)
    ultimately show ?thesis by blast
  qed
qed

end

interpretation xact_cache: memo_table cache_lookup "cache_inv max_cache"
    "LocalDistribXactCache_CommittedFind max_cache" "LocalDistribXactCache_AddCommitted max_cache" for max_cache
proof
  fix s s' :: LocalDistribXactCache and k r v
  assume inv: "cache_inv max_cache s"
  show "cache_inv max_cache s' \<and> cache_lookup s' = cache_lookup s"
    if "LocalDistribXactCache_CommittedFind max_cache k s = (r, s')"
    using find_inv [OF inv, of k] find_lookup(2) [of max_cache k s] that by simp
  show "cache_lookup s k = Some v" if "LocalDistribXactCache_CommittedFind max_cache k s = (Some v, s')"
    using find_lookup(1) [of max_cache k s] that by (simp split: if_splits)
  show "\<exists>t. LocalDistribXactCache_AddCommitted max_cache k v s' = Inr t \<and> cache_inv max_cache t \<and>
      (\<forall>j. cache_lookup t j \<in> {None, cache_lookup s' j} \<or> j = k \<and> cache_lookup t j = Some v)"
    if f: "LocalDistribXactCache_CommittedFind max_cache k s = (None, s')"
  proof -
    have "cache_inv max_cache s'" "cache_lookup s' = cache_lookup s"
      using find_inv [OF inv, of k] find_lookup(2) [of max_cache k s] f by simp_all
    moreover have "max_cache = 0 \<or> cache_lookup s k = None"
      using find_lookup(1) [of max_cache k s] f by (simp split: if_splits)
    ultimately show ?thesis using add_committed [of max_cache s' k v] by auto
  qed
qed

section \<open>Properties\<close>

text \<open>A run of state changes, stopped by the first one that panics.\<close>

fun change_states :: "LocalDistribXactData \<Rightarrow> LocalDistribXactState list \<Rightarrow> LocalDistribXactData result" where
  "change_states d [] = Inr d"
| "change_states d (s # ss) =
     (case LocalDistribXact_ChangeState d s of Inl e \<Rightarrow> Inl e | Inr d' \<Rightarrow> change_states d' ss)"

lemma change_from_final:
  "xact_state d \<in> {LOCALDISTRIBXACT_STATE_COMMITTED, LOCALDISTRIBXACT_STATE_PREPARED} \<Longrightarrow>
   (\<exists>d'. change_states d ss = Inr d') \<longleftrightarrow> ss = []"
  by (cases ss; cases "hd ss") (auto simp: LocalDistribXact_ChangeState_def)

lemma change_from_aborted:
  "xact_state d = LOCALDISTRIBXACT_STATE_ABORTED \<Longrightarrow>
   (\<exists>d'. change_states d ss = Inr d') \<longleftrightarrow> set ss \<subseteq> {LOCALDISTRIBXACT_STATE_ABORTED}"
proof (induction ss arbitrary: d)
  case (Cons s ss)
  then show ?case by (cases s) (auto simp: LocalDistribXact_ChangeState_def)
qed simp

text \<open>a local element that is active takes exactly one outcome: a run of state changes goes
  through without a panic just when it is empty, a single prepare, a single commit, or aborts only;
  the distributed identifier is never changed.\<close>

theorem local_xact_takes_one_outcome:
  "xact_state d = LOCALDISTRIBXACT_STATE_ACTIVE \<Longrightarrow>
   (\<exists>d'. change_states d ss = Inr d' \<and> xact_distribXid d' = xact_distribXid d) \<longleftrightarrow>
     ss = [LOCALDISTRIBXACT_STATE_PREPARED] \<or> ss = [LOCALDISTRIBXACT_STATE_COMMITTED] \<or>
     set ss \<subseteq> {LOCALDISTRIBXACT_STATE_ABORTED}"
proof -
  assume active: "xact_state d = LOCALDISTRIBXACT_STATE_ACTIVE"
  have same: "xact_distribXid d' = xact_distribXid d" if "change_states d ss = Inr d'" for d d' ss
    using that
    by (induction ss arbitrary: d)
      (auto simp: LocalDistribXact_ChangeState_def Let_def split: sum.splits LocalDistribXactState.splits if_splits)
  show ?thesis
  proof (cases ss)
    case (Cons s rest)
    then show ?thesis
      using active same change_from_final [of "d\<lparr>xact_state := s\<rparr>" rest]
        change_from_aborted [of "d\<lparr>xact_state := s\<rparr>" rest]
      by (cases s) (auto simp: LocalDistribXact_ChangeState_def)
  qed simp
qed

theorem local_xact_takes_one_outcome_witness:
  "\<not> (\<exists>d'. change_states \<lparr>xact_state = LOCALDISTRIBXACT_STATE_ACTIVE, xact_distribXid = 7\<rparr>
       [LOCALDISTRIBXACT_STATE_COMMITTED, LOCALDISTRIBXACT_STATE_ABORTED] = Inr d' \<and> xact_distribXid d' = 7)"
  using local_xact_takes_one_outcome [of "\<lparr>xact_state = LOCALDISTRIBXACT_STATE_ACTIVE, xact_distribXid = 7\<rparr>"
    "[LOCALDISTRIBXACT_STATE_COMMITTED, LOCALDISTRIBXACT_STATE_ABORTED]"] by simp

text \<open>C39: the cache is transparent for any function it caches. With the invariant and only true pairs
  in the table, a search keeps both, a hit is the value of the function, and after a miss the true
  pair can be added without the duplicate error, whatever is evicted for it.\<close>

theorem committed_cache_transparent:
  assumes "cache_inv max_cache cache" "\<forall>j w. cache_lookup cache j = Some w \<longrightarrow> f j = Some w"
    "LocalDistribXactCache_CommittedFind max_cache k cache = (r, cache')"
  shows "cache_inv max_cache cache' \<and> (\<forall>j w. cache_lookup cache' j = Some w \<longrightarrow> f j = Some w) \<and>
    (\<forall>v. r = Some v \<longrightarrow> f k = Some v) \<and>
    (\<forall>v. r = None \<and> f k = Some v \<longrightarrow>
      (\<exists>t. LocalDistribXactCache_AddCommitted max_cache k v cache' = Inr t \<and> cache_inv max_cache t \<and>
        (\<forall>j w. cache_lookup t j = Some w \<longrightarrow> f j = Some w)))"
  using xact_cache.memo_transparent [OF assms(1) _ assms(3), of f] assms(2) by simp

theorem committed_cache_transparent_witness:
  "\<exists>t. LocalDistribXactCache_AddCommitted 1 5 50
      (snd (LocalDistribXactCache_CommittedFind 1 5 empty_cache)) = Inr t \<and> cache_inv 1 t"
  using committed_cache_transparent [of 1 empty_cache "\<lambda>_. Some 50" 5 None "empty_cache\<lparr>totalCount := 1\<rparr>"]
  by (auto simp: cache_inv_def empty_cache_def cache_lookup_def LocalDistribXactCache_CommittedFind_def)

end
