(* ===== verification/DistributedLog.thy ===== *)
theory DistributedLog
  imports LocalDistribCache
begin

text \<open>The distributed log, \<^verbatim>\<open>src/backend/access/transam/distributedlog.c\<close>: for each local
  transaction that committed as part of a distributed transaction, its distributed identifier, stored
  in pages of \<^verbatim>\<open>ENTRIES_PER_PAGE\<close> entries, and the oldest local identifier a distributed
  snapshot may still have to look up.

  A page that does not exist is \<open>None\<close>; reading it raises the error of \<^verbatim>\<open>slru.c\<close>. The truncation of
  the files (\<^verbatim>\<open>SimpleLruTruncate\<close>) is an argument. \<^verbatim>\<open>pg_atomic_compare_exchange_u32\<close> is
  modelled with the list of values that other backends stored between the attempts.\<close>

section \<open>Pages and entries\<close>

definition ENTRIES_PER_PAGE :: nat where
  "ENTRIES_PER_PAGE = 32768 div 8"

definition SLRU_PAGES_PER_SEGMENT :: nat where
  "SLRU_PAGES_PER_SEGMENT = 32"

definition TransactionIdToPage :: "TransactionId \<Rightarrow> nat" where
  "TransactionIdToPage localXid = unat localXid div ENTRIES_PER_PAGE"

definition TransactionIdToEntry :: "TransactionId \<Rightarrow> nat" where
  "TransactionIdToEntry localXid = unat localXid mod ENTRIES_PER_PAGE"

definition TransactionIdToSegment :: "TransactionId \<Rightarrow> nat" where
  "TransactionIdToSegment localXid = unat localXid div (ENTRIES_PER_PAGE * SLRU_PAGES_PER_SEGMENT)"

type_synonym dlog_page = "nat \<Rightarrow> DistributedTransactionId"
type_synonym dlog_pages = "nat \<Rightarrow> dlog_page option"

record DistributedLogState =
  dlog_pages :: dlog_pages
  dlog_oldestXmin :: TransactionId

definition page_missing :: elog where
  "page_missing = ERROR ''could not access status of transaction''"

function skip_special :: "TransactionId \<Rightarrow> TransactionId" where
  "skip_special xid = (if xid < FirstNormalTransactionId then skip_special (xid + 1) else xid)"
  by pat_completeness auto
termination
proof (relation "measure (\<lambda>xid. 3 - unat xid)")
  fix xid :: TransactionId
  assume "xid < FirstNormalTransactionId"
  then have "unat xid < 3" by (simp add: FirstNormalTransactionId_def word_less_nat_alt)
  then have "unat (xid + 1) = unat xid + 1" by (simp add: unat_word_ariths)
  then show "(xid + 1, xid) \<in> measure (\<lambda>xid. 3 - unat xid)" using \<open>unat xid < 3\<close> by simp
qed simp

declare skip_special.simps [simp del]

definition AdvanceTransactionIdToNextPage :: "TransactionId \<Rightarrow> TransactionId" where
  "AdvanceTransactionIdToNextPage xid =
     (let xid = xid + of_nat ENTRIES_PER_PAGE;
          xid = xid - of_nat (unat xid mod ENTRIES_PER_PAGE)
      in skip_special xid)"

section \<open>Operations\<close>

partial_function (option) init_scan ::
  "dlog_pages \<Rightarrow> TransactionId \<Rightarrow> TransactionId \<Rightarrow> TransactionId option" where
  "init_scan pages latestXid oldestXmin =
     (if pages (TransactionIdToPage oldestXmin) \<noteq> None then Some oldestXmin
      else
        let xid = AdvanceTransactionIdToNextPage oldestXmin
        in if TransactionIdFollows xid latestXid then Some (TransactionIdAdvance latestXid)
           else init_scan pages latestXid xid)"

definition DistributedLog_InitOldestXmin ::
  "TransactionId \<Rightarrow> TransactionId \<Rightarrow> DistributedLogState \<Rightarrow> DistributedLogState option" where
  "DistributedLog_InitOldestXmin oldestXid latestXid dl =
     map_option (\<lambda>x. dl\<lparr>dlog_oldestXmin := x\<rparr>) (init_scan (dlog_pages dl) latestXid oldestXid)"

text \<open>The loop of \<^verbatim>\<open>DistributedLog_AdvanceOldestXmin\<close>.\<close>

partial_function (option) advance_scan ::
  "dlog_pages \<Rightarrow> DistributedTransactionId \<Rightarrow> TransactionId \<Rightarrow> TransactionId \<Rightarrow> TransactionId result option" where
  "advance_scan pages xminAllDistributedSnapshots oldestLocalXmin oldestXmin =
     (if TransactionIdPrecedes oldestXmin oldestLocalXmin
      then (case pages (TransactionIdToPage oldestXmin) of
              None \<Rightarrow> Some (Inl page_missing)
            | Some entries \<Rightarrow>
                (if entries (TransactionIdToEntry oldestXmin) \<ge> xminAllDistributedSnapshots
                 then Some (Inr oldestXmin)
                 else advance_scan pages xminAllDistributedSnapshots oldestLocalXmin
                        (TransactionIdAdvance oldestXmin)))
      else Some (Inr oldestXmin))"

text \<open>The compare and exchange loop: \<open>stores\<close> are the values other backends put there before each of
  our attempts, so an attempt beyond them finds what we expect. The result is what the function
  returns and the shared value it leaves.\<close>

fun publish_oldestXmin :: "TransactionId \<Rightarrow> TransactionId \<Rightarrow> TransactionId list \<Rightarrow> TransactionId \<times> TransactionId" where
  "publish_oldestXmin expected oldestXmin [] = (oldestXmin, oldestXmin)"
| "publish_oldestXmin expected oldestXmin (current # stores) =
     (if current = expected then (oldestXmin, oldestXmin)
      else if TransactionIdPrecedesOrEquals oldestXmin current then (current, current)
      else publish_oldestXmin current oldestXmin stores)"

record Slru =
  SlruScanDirectory :: "nat \<Rightarrow> dlog_pages \<Rightarrow> bool"
  SimpleLruTruncate :: "nat \<Rightarrow> dlog_pages \<Rightarrow> dlog_pages"

definition DistributedLog_Truncate :: "Slru \<Rightarrow> TransactionId \<Rightarrow> dlog_pages \<Rightarrow> dlog_pages" where
  "DistributedLog_Truncate slru oldestXmin pages =
     (let cutoffPage = TransactionIdToPage oldestXmin
      in if \<not> SlruScanDirectory slru cutoffPage pages then pages
         else SimpleLruTruncate slru cutoffPage pages)"

definition DistributedLog_AdvanceOldestXmin ::
  "Slru \<Rightarrow> TransactionId list \<Rightarrow> TransactionId \<Rightarrow> DistributedTransactionId \<Rightarrow>
   DistributedLogState \<Rightarrow> (TransactionId \<times> DistributedLogState) result option" where
  "DistributedLog_AdvanceOldestXmin slru stores oldestLocalXmin xminAllDistributedSnapshots dl =
     (let oldOldestXmin = dlog_oldestXmin dl
      in case advance_scan (dlog_pages dl) xminAllDistributedSnapshots oldestLocalXmin oldOldestXmin of
           None \<Rightarrow> None
         | Some (Inl e) \<Rightarrow> Some (Inl e)
         | Some (Inr oldestXmin) \<Rightarrow>
             (let (oldestXmin, shared) =
                    (if oldOldestXmin \<noteq> oldestXmin then publish_oldestXmin oldOldestXmin oldestXmin stores
                     else (oldestXmin, oldOldestXmin));
                  dl = dl\<lparr>dlog_oldestXmin := shared\<rparr>
              in Some (Inr (oldestXmin,
                   if TransactionIdToSegment oldOldestXmin < TransactionIdToSegment oldestXmin
                   then dl\<lparr>dlog_pages := DistributedLog_Truncate slru oldestXmin (dlog_pages dl)\<rparr>
                   else dl))))"

definition DistributedLog_GetOldestXmin :: "TransactionId \<Rightarrow> DistributedLogState \<Rightarrow> TransactionId" where
  "DistributedLog_GetOldestXmin oldestLocalXmin dl =
     (let result = dlog_oldestXmin dl
      in if \<not> TransactionIdIsValid result \<or> TransactionIdFollows result oldestLocalXmin
         then oldestLocalXmin else result)"

text \<open>The recording functions return the error raised, if any, with the pages: what was written before
  the error stays in the shared buffers. First, the loop over the identifiers of one page.\<close>

fun set_entries :: "TransactionId list \<Rightarrow> DistributedTransactionId \<Rightarrow> dlog_page \<Rightarrow> elog option \<times> dlog_page" where
  "set_entries [] gxid entries = (None, entries)"
| "set_entries (x # xs) gxid entries =
     (let entryno = TransactionIdToEntry x
      in if entries entryno \<noteq> 0
         then (if entries entryno \<noteq> gxid
               then (Some (ERROR ''Current distributed xid does not match input distributed xid''), entries)
               else set_entries xs gxid entries)
         else set_entries xs gxid (entries(entryno := gxid)))"

definition DistributedLog_ZeroPage :: "nat \<Rightarrow> dlog_pages \<Rightarrow> dlog_pages" where
  "DistributedLog_ZeroPage page pages = pages(page \<mapsto> (\<lambda>_. 0))"

definition DistributedLog_SetCommittedWithinAPage ::
  "TransactionId list \<Rightarrow> DistributedTransactionId \<Rightarrow> bool \<Rightarrow> dlog_pages \<Rightarrow> elog option \<times> dlog_pages" where
  "DistributedLog_SetCommittedWithinAPage localXid gxid isRedo pages =
     (let page = TransactionIdToPage (hd localXid);
          pages = (if isRedo \<and> pages page = None then DistributedLog_ZeroPage page pages else pages)
      in case pages page of
           None \<Rightarrow> (Some page_missing, pages)
         | Some entries \<Rightarrow>
             (let (err, entries) = set_entries localXid gxid entries
              in (err, pages(page \<mapsto> entries))))"

text \<open>The chunks of consecutive identifiers on the same page. The source tests the identifier at
  position \<^verbatim>\<open>i\<close> before it tests \<^verbatim>\<open>i < nsubxids\<close>; the value read there has no influence.\<close>

function DistributedLog_SetCommittedByPages ::
  "TransactionId list \<Rightarrow> DistributedTransactionId \<Rightarrow> bool \<Rightarrow> dlog_pages \<Rightarrow> elog option \<times> dlog_pages" where
  "DistributedLog_SetCommittedByPages [] gxid isRedo pages = (None, pages)"
| "DistributedLog_SetCommittedByPages (x # xs) gxid isRedo pages =
     (let on_page = (\<lambda>y. TransactionIdToPage y = TransactionIdToPage x)
      in case DistributedLog_SetCommittedWithinAPage (x # takeWhile on_page xs) gxid isRedo pages of
           (Some e, pages) \<Rightarrow> (Some e, pages)
         | (None, pages) \<Rightarrow> DistributedLog_SetCommittedByPages (dropWhile on_page xs) gxid isRedo pages)"
  by pat_completeness auto
termination
  by (relation "measure (\<lambda>(xs, _). length xs)") (auto simp: le_imp_less_Suc length_dropWhile_le)

definition DistributedLog_SetCommittedTree ::
  "bool \<Rightarrow> TransactionId \<Rightarrow> TransactionId list \<Rightarrow> DistributedTransactionId \<Rightarrow> bool \<Rightarrow> dlog_pages \<Rightarrow>
   elog option \<times> dlog_pages" where
  "DistributedLog_SetCommittedTree is_qd xid xids gxid isRedo pages =
     (if is_qd then (None, pages)
      else case DistributedLog_SetCommittedWithinAPage [xid] gxid isRedo pages of
             (Some e, pages) \<Rightarrow> (Some e, pages)
           | (None, pages) \<Rightarrow> DistributedLog_SetCommittedByPages xids gxid isRedo pages)"

definition DistributedLog_GetDistributedXid :: "TransactionId \<Rightarrow> DistributedLogState \<Rightarrow> DistributedTransactionId result" where
  "DistributedLog_GetDistributedXid localXid dl =
     (case dlog_pages dl (TransactionIdToPage localXid) of
        None \<Rightarrow> Inl page_missing
      | Some entries \<Rightarrow> Inr (entries (TransactionIdToEntry localXid)))"

definition DistributedLog_CommittedCheck ::
  "TransactionId \<Rightarrow> DistributedLogState \<Rightarrow> DistributedTransactionId option result" where
  "DistributedLog_CommittedCheck localXid dl =
     (if dlog_oldestXmin dl = InvalidTransactionId
      then Inl (PANIC ''OldestXmin not initialized yet'')
      else if TransactionIdPrecedes localXid (dlog_oldestXmin dl) then Inr None
      else case DistributedLog_GetDistributedXid localXid dl of
             Inl e \<Rightarrow> Inl e
           | Inr gxid \<Rightarrow> Inr (if gxid \<noteq> 0 then Some gxid else None))"

lemma unat_below_page: "unat (x :: TransactionId) < 2 ^ 32"
  using unsigned_less [of x] by simp

lemma page_floor_unat: "unat (of_nat (TransactionIdToPage x * ENTRIES_PER_PAGE) :: TransactionId) = TransactionIdToPage x * ENTRIES_PER_PAGE"
proof -
  have "TransactionIdToPage x * ENTRIES_PER_PAGE \<le> unat x" by (simp add: TransactionIdToPage_def)
  then show ?thesis using unat_below_page [of x] by (simp add: unat_of_nat del: of_nat_mult)
qed

lemma scan_prev_less:
  fixes highXid :: TransactionId
  defines "low \<equiv> of_nat (TransactionIdToPage highXid * ENTRIES_PER_PAGE) :: TransactionId"
  assumes "low \<noteq> 0"
  shows "unat (low - 1) < unat highXid"
proof -
  have "unat low \<le> unat highXid"
    unfolding low_def page_floor_unat by (simp add: TransactionIdToPage_def)
  moreover have "unat low \<noteq> 0" using assms(2) by (simp add: unat_eq_0)
  moreover have "unat (low - 1) = unat low - 1"
    using assms(2) by (metis Suc_pred' add.commute diff_add_cancel unatSuc unat_gt_0 diff_Suc_1 plus_1_eq_Suc)
  ultimately show ?thesis by linarith
qed

text \<open>The scan downwards for the previous recorded identifier: within a page, then page by page. The
  first result is the new \<^verbatim>\<open>*indexXid\<close>.\<close>

definition scan_page_down :: "dlog_page \<Rightarrow> TransactionId \<Rightarrow> TransactionId \<Rightarrow> nat option" where
  "scan_page_down entries highXid lowXid =
     find (\<lambda>x. entries (TransactionIdToEntry (of_nat x)) \<noteq> 0) (rev [unat lowXid ..< Suc (unat highXid)])"

function scan_prev :: "dlog_pages \<Rightarrow> TransactionId \<Rightarrow> TransactionId \<times> DistributedTransactionId option" where
  "scan_prev pages highXid =
     (let pageno = TransactionIdToPage highXid;
          lowXid = of_nat (pageno * ENTRIES_PER_PAGE);
          lowXid = (if lowXid = InvalidTransactionId then FirstNormalTransactionId else lowXid)
      in case pages pageno of
           None \<Rightarrow> (InvalidTransactionId, None)
         | Some entries \<Rightarrow>
             (case scan_page_down entries highXid lowXid of
                Some x \<Rightarrow> (of_nat x, Some (entries (TransactionIdToEntry (of_nat x))))
              | None \<Rightarrow>
                  (if lowXid = FirstNormalTransactionId then (InvalidTransactionId, None)
                   else scan_prev pages (lowXid - 1))))"
  by pat_completeness auto
termination
  by (relation "measure (\<lambda>(_, h). unat h)") (auto simp: Let_def InvalidTransactionId_def simp del: of_nat_mult intro: scan_prev_less split: if_splits)

definition DistributedLog_ScanForPrevCommitted ::
  "TransactionId \<Rightarrow> dlog_pages \<Rightarrow> TransactionId \<times> DistributedTransactionId option" where
  "DistributedLog_ScanForPrevCommitted indexXid pages =
     (if indexXid = InvalidTransactionId then (indexXid, None)
      else if indexXid - 1 < FirstNormalTransactionId then (indexXid, None)
      else scan_prev pages (indexXid - 1))"

definition DistributedLog_Extend :: "bool \<Rightarrow> TransactionId \<Rightarrow> dlog_pages \<Rightarrow> dlog_pages" where
  "DistributedLog_Extend is_qd newestXact pages =
     (if is_qd then pages
      else if TransactionIdToEntry newestXact \<noteq> 0 \<and> newestXact \<noteq> FirstNormalTransactionId then pages
      else DistributedLog_ZeroPage (TransactionIdToPage newestXact) pages)"

definition DistributedLog_PagePrecedes :: "nat \<Rightarrow> nat \<Rightarrow> bool" where
  "DistributedLog_PagePrecedes page1 page2 =
     TransactionIdPrecedes (of_nat page1 * of_nat ENTRIES_PER_PAGE + FirstNormalTransactionId)
       (of_nat page2 * of_nat ENTRIES_PER_PAGE + FirstNormalTransactionId)"

section \<open>Recording and reading\<close>

text \<open>The distributed identifier recorded for a local one, 0 when there is none.\<close>

definition logged :: "dlog_pages \<Rightarrow> TransactionId \<Rightarrow> DistributedTransactionId" where
  "logged pages xid = (case pages (TransactionIdToPage xid) of None \<Rightarrow> 0
     | Some entries \<Rightarrow> entries (TransactionIdToEntry xid))"

lemma page_entry_inject:
  "TransactionIdToPage x = TransactionIdToPage y \<Longrightarrow> TransactionIdToEntry x = TransactionIdToEntry y \<Longrightarrow> x = y"
  unfolding TransactionIdToPage_def TransactionIdToEntry_def word_unat_eq_iff
  by (metis div_mult_mod_eq)

lemma set_entries_none:
  "set_entries xs gxid entries = (None, entries') \<Longrightarrow>
   entries' k = (if k \<in> TransactionIdToEntry ` set xs then gxid else entries k)"
  by (induction xs arbitrary: entries) (auto simp: Let_def split: if_splits)

lemma set_entries_keeps:
  "set_entries xs gxid entries = (err, entries') \<Longrightarrow> entries k \<noteq> 0 \<Longrightarrow> entries' k = entries k"
proof (induction xs arbitrary: entries)
  case (Cons x xs)
  then show ?case by (fastforce simp: Let_def split: if_splits)
qed simp

lemma set_entries_error:
  "fst (set_entries xs gxid entries) = None \<longleftrightarrow> (\<forall>x \<in> set xs. entries (TransactionIdToEntry x) \<in> {0, gxid})"
  by (induction xs arbitrary: entries) (auto simp: Let_def)

lemma within_page_none:
  assumes "DistributedLog_SetCommittedWithinAPage xs gxid isRedo pages = (None, pages')"
    "xs \<noteq> []" "\<forall>x \<in> set xs. TransactionIdToPage x = TransactionIdToPage (hd xs)"
  shows "x \<in> set xs \<Longrightarrow> pages' (TransactionIdToPage x) \<noteq> None \<and> logged pages' x = gxid"
    and "x \<notin> set xs \<Longrightarrow> logged pages' x = logged pages x"
    and "pages p \<noteq> None \<Longrightarrow> pages' p \<noteq> None"
proof -
  define page where "page = TransactionIdToPage (hd xs)"
  define pages1 where "pages1 = (if isRedo \<and> pages page = None then DistributedLog_ZeroPage page pages else pages)"
  have l1: "logged pages1 y = logged pages y" for y
    by (auto simp: pages1_def DistributedLog_ZeroPage_def logged_def)
  obtain entries entries' where e: "pages1 page = Some entries" "set_entries xs gxid entries = (None, entries')"
    "pages' = pages1(page \<mapsto> entries')"
    using assms(1)
    by (auto simp: DistributedLog_SetCommittedWithinAPage_def Let_def page_def [symmetric] pages1_def [symmetric]
        split: option.splits prod.splits)
  note new = set_entries_none [OF e(2)]
  show "pages' (TransactionIdToPage x) \<noteq> None \<and> logged pages' x = gxid" if "x \<in> set xs"
    using that assms(3) e(3) new by (auto simp: logged_def page_def)
  show "logged pages' x = logged pages x" if "x \<notin> set xs"
  proof (cases "TransactionIdToPage x = page")
    case True
    then have "TransactionIdToEntry x \<notin> TransactionIdToEntry ` set xs"
      using that assms(3) page_entry_inject [of x] unfolding page_def image_iff by metis
    then show ?thesis using True e new l1 [of x, symmetric] by (simp add: logged_def)
  next
    case False
    then show ?thesis using e(3) l1 [of x, symmetric] by (simp add: logged_def)
  qed
  show "pages p \<noteq> None \<Longrightarrow> pages' p \<noteq> None"
    using e(3) by (auto simp: pages1_def DistributedLog_ZeroPage_def)
qed

lemma within_page_keeps:
  assumes "logged pages x \<noteq> 0"
  shows "logged (snd (DistributedLog_SetCommittedWithinAPage xs gxid isRedo pages)) x = logged pages x"
  using assms set_entries_keeps
  by (auto simp: DistributedLog_SetCommittedWithinAPage_def DistributedLog_ZeroPage_def Let_def logged_def
      split: option.splits prod.splits)

lemma within_page_error:
  assumes "\<forall>x \<in> set xs. TransactionIdToPage x = TransactionIdToPage (hd xs)"
    "isRedo \<or> pages (TransactionIdToPage (hd xs)) \<noteq> None"
  shows "fst (DistributedLog_SetCommittedWithinAPage xs gxid isRedo pages) = None \<longleftrightarrow>
    (\<forall>x \<in> set xs. logged pages x \<in> {0, gxid})"
proof (cases "pages (TransactionIdToPage (hd xs))")
  case None
  then show ?thesis using assms set_entries_error [of xs gxid "\<lambda>_. 0"]
    by (simp add: DistributedLog_SetCommittedWithinAPage_def DistributedLog_ZeroPage_def logged_def case_prod_beta Let_def)
next
  case (Some entries)
  then show ?thesis using assms(1) set_entries_error [of xs gxid entries]
    by (simp add: DistributedLog_SetCommittedWithinAPage_def logged_def case_prod_beta Let_def)
qed

lemma by_pages_none:
  "DistributedLog_SetCommittedByPages xs gxid isRedo pages = (None, pages') \<Longrightarrow>
   (x \<in> set xs \<or> pages (TransactionIdToPage x) \<noteq> None \<longrightarrow> pages' (TransactionIdToPage x) \<noteq> None) \<and>
   logged pages' x = (if x \<in> set xs then gxid else logged pages x)"
proof (induction xs gxid isRedo pages rule: DistributedLog_SetCommittedByPages.induct)
  case (2 y ys gxid isRedo pages)
  define on where "on = (\<lambda>z. TransactionIdToPage z = TransactionIdToPage y)"
  define chunk where "chunk = y # takeWhile on ys"
  obtain pages1 where
    w: "DistributedLog_SetCommittedWithinAPage chunk gxid isRedo pages = (None, pages1)" and
    r: "DistributedLog_SetCommittedByPages (dropWhile on ys) gxid isRedo pages1 = (None, pages')"
    using 2(2) by (auto simp: Let_def on_def chunk_def split: prod.splits option.splits)
  have same: "\<forall>x \<in> set chunk. TransactionIdToPage x = TransactionIdToPage (hd chunk)"
    by (auto simp: chunk_def on_def dest: set_takeWhileD)
  have split: "set (y # ys) = set chunk \<union> set (dropWhile on ys)"
    by (metis Un_insert_left chunk_def list.simps(15) set_append takeWhile_dropWhile_id)
  have IH: "(x \<in> set (dropWhile on ys) \<or> pages1 (TransactionIdToPage x) \<noteq> None \<longrightarrow>
      pages' (TransactionIdToPage x) \<noteq> None) \<and>
    logged pages' x = (if x \<in> set (dropWhile on ys) then gxid else logged pages1 x)"
    using 2(1) [OF on_def] w r by (simp add: chunk_def)
  show ?case
    using IH within_page_none [OF w _ same] split by (simp add: chunk_def) blast
qed simp

lemma by_pages_keeps:
  "logged pages x \<noteq> 0 \<Longrightarrow>
   logged (snd (DistributedLog_SetCommittedByPages xs gxid isRedo pages)) x = logged pages x"
proof (induction xs gxid isRedo pages rule: DistributedLog_SetCommittedByPages.induct)
  case (2 y ys gxid isRedo pages)
  then show ?case
    using within_page_keeps [OF 2(2), of "y # takeWhile (\<lambda>z. TransactionIdToPage z = TransactionIdToPage y) ys" gxid isRedo]
    by (auto simp: Let_def split: prod.split option.split)
qed simp

lemma by_pages_error:
  "isRedo \<or> (\<forall>x \<in> set xs. pages (TransactionIdToPage x) \<noteq> None) \<Longrightarrow> gxid \<noteq> 0 \<Longrightarrow>
   fst (DistributedLog_SetCommittedByPages xs gxid isRedo pages) = None \<longleftrightarrow>
     (\<forall>x \<in> set xs. logged pages x \<in> {0, gxid})"
proof (induction xs gxid isRedo pages rule: DistributedLog_SetCommittedByPages.induct)
  case (2 y ys gxid isRedo pages)
  define on where "on = (\<lambda>z. TransactionIdToPage z = TransactionIdToPage y)"
  define chunk where "chunk = y # takeWhile on ys"
  have same: "\<forall>x \<in> set chunk. TransactionIdToPage x = TransactionIdToPage (hd chunk)"
    by (auto simp: chunk_def on_def dest: set_takeWhileD)
  have split: "set (y # ys) = set chunk \<union> set (dropWhile on ys)"
    by (metis Un_insert_left chunk_def list.simps(15) set_append takeWhile_dropWhile_id)
  obtain err pages1 where w: "DistributedLog_SetCommittedWithinAPage chunk gxid isRedo pages = (err, pages1)"
    by fastforce
  have first: "err = None \<longleftrightarrow> (\<forall>x \<in> set chunk. logged pages x \<in> {0, gxid})"
    using within_page_error [OF same, of isRedo pages gxid] 2(2) w by (auto simp: chunk_def)
  show ?case
  proof (cases err)
    case None
    note W = within_page_none [OF w [unfolded None] _ same]
    have ex: "isRedo \<or> (\<forall>x \<in> set (dropWhile on ys). pages1 (TransactionIdToPage x) \<noteq> None)"
      using 2(2) W(3) by (auto simp: chunk_def dest: set_dropWhileD)
    have "logged pages1 x \<in> {0, gxid} \<longleftrightarrow> logged pages x \<in> {0, gxid}" for x
      using W(1) [of x] W(2) [of x] first None by (cases "x \<in> set chunk") (auto simp: chunk_def)
    moreover have "fst (DistributedLog_SetCommittedByPages (dropWhile on ys) gxid isRedo pages1) = None \<longleftrightarrow>
        (\<forall>x \<in> set (dropWhile on ys). logged pages1 x \<in> {0, gxid})"
      using 2(1) [OF on_def _ refl, folded chunk_def] w None ex 2(3) by simp
    ultimately show ?thesis
      using w None first split unfolding on_def [symmetric] by (auto simp: Let_def on_def chunk_def)
  next
    case (Some e)
    then have "\<not> (\<forall>x \<in> set (y # ys). logged pages x \<in> {0, gxid})" using first split by blast
    then show ?thesis using w Some by (simp add: Let_def on_def chunk_def)
  qed
qed simp

section \<open>The oldest identifier\<close>

text \<open>Advancing a live identifier that precedes another live one stays within the window, moves
  forward and skips only the permanent identifiers.\<close>

lemma advance_in_window:
  assumes "in_window base x" "in_window base y" "xid_offset base x < xid_offset base y"
  shows "in_window base (TransactionIdAdvance x)"
    and "xid_offset base x < xid_offset base (TransactionIdAdvance x)"
    and "xid_offset base (TransactionIdAdvance x) \<le> xid_offset base y"
    and "in_window base z \<Longrightarrow> xid_offset base x < xid_offset base z \<Longrightarrow>
      xid_offset base (TransactionIdAdvance x) \<le> xid_offset base z"
proof -
  have ahead: "in_window base (TransactionIdAdvance x) \<and> xid_offset base x < xid_offset base (TransactionIdAdvance x)
      \<and> xid_offset base (TransactionIdAdvance x) \<le> xid_offset base z"
    if z: "in_window base z" "xid_offset base x < xid_offset base z" for z
  proof -
    have lt: "xid_offset base x < 2 ^ 31" "xid_offset base z < 2 ^ 31" using assms(1) z(1) by (auto simp: in_window_def)
    have plus: "xid_offset base (x + of_nat k) = xid_offset base x + k" if "xid_offset base x + k < 2 ^ 32" for k
    proof -
      have "x + of_nat k - base = (x - base) + of_nat k" by simp
      also have "unat \<dots> = unat (x - base) + k"
        using that unfolding xid_offset_def by (simp add: unat_word_ariths unat_of_nat)
      finally show ?thesis by (simp add: xid_offset_def)
    qed
    define k where "k = xid_offset base z - xid_offset base x"
    have "xid_offset base (x + of_nat k) = xid_offset base z" using plus [of k] z(2) lt by (simp add: k_def)
    then have zk: "z = x + of_nat k" using xid_offset_inject by metis
    have k0: "0 < k" using z(2) by (simp add: k_def)
    have nz: "TransactionIdIsNormal x" "TransactionIdIsNormal z" using assms(1) z(1) by (auto simp: in_window_def)
    from advance_cases [OF nz(1)] show ?thesis
    proof (elim disjE conjE)
      assume a: "x = - 1" "TransactionIdAdvance x = 3"
      have "k \<notin> {1, 2, 3}"
        using nz(2) unfolding zk a(1) by (auto simp: xid_defs word_le_nat_alt)
      then have "4 \<le> k" using k0 by auto
      moreover have "xid_offset base 3 = xid_offset base x + 4" using plus [of 4] lt(1) a(1) by simp
      moreover have "TransactionIdIsNormal 3" by (simp add: xid_defs)
      ultimately show ?thesis using lt z(2) a(2) unfolding in_window_def k_def by (simp; linarith)
    next
      assume a: "TransactionIdAdvance x = x + 1" "TransactionIdIsNormal (x + 1)"
      show ?thesis using plus [of 1] lt z(2) a by (simp add: in_window_def)
    qed
  qed
  from ahead [OF assms(2,3)] show "in_window base (TransactionIdAdvance x)"
    and "xid_offset base x < xid_offset base (TransactionIdAdvance x)"
    and "xid_offset base (TransactionIdAdvance x) \<le> xid_offset base y" by blast+
  show "in_window base z \<Longrightarrow> xid_offset base x < xid_offset base z \<Longrightarrow>
      xid_offset base (TransactionIdAdvance x) \<le> xid_offset base z" using ahead by blast
qed

text \<open>The scan ends, at an identifier up to the bound; everything it passed is older than the oldest
  distributed snapshot.\<close>

lemma advance_scan_spec:
  assumes y: "in_window base y"
    and pages: "\<forall>z. in_window base z \<and> xid_offset base z < xid_offset base y \<longrightarrow> pages (TransactionIdToPage z) \<noteq> None"
  shows "in_window base x \<Longrightarrow> xid_offset base x \<le> xid_offset base y \<Longrightarrow>
    \<exists>x'. advance_scan pages xminAll y x = Some (Inr x') \<and> in_window base x' \<and>
      xid_offset base x \<le> xid_offset base x' \<and> xid_offset base x' \<le> xid_offset base y \<and>
      (\<forall>z. in_window base z \<and> xid_offset base x \<le> xid_offset base z \<and> xid_offset base z < xid_offset base x' \<longrightarrow>
        logged pages z < xminAll) \<and>
      (x' = y \<or> xminAll \<le> logged pages x')"
proof (induction "xid_offset base y - xid_offset base x" arbitrary: x rule: less_induct)
  case less
  note x = less.prems
  show ?case
  proof (cases "xid_offset base x < xid_offset base y")
    case False
    then have "x = y" using x(2) xid_offset_inject [of base x y] by simp
    moreover have "\<not> TransactionIdPrecedes y y" using window_comparisons(1) [OF y y] by simp
    ultimately show ?thesis using y by (subst advance_scan.simps) auto
  next
    case True
    then have prec: "TransactionIdPrecedes x y" using window_comparisons(1) [OF x(1) y] by simp
    obtain entries where e: "pages (TransactionIdToPage x) = Some entries" using pages x(1) True by blast
    have l: "logged pages x = entries (TransactionIdToEntry x)" using e by (simp add: logged_def)
    show ?thesis
    proof (cases "xminAll \<le> logged pages x")
      case stop: True
      then have "advance_scan pages xminAll y x = Some (Inr x)"
        using prec e l by (subst advance_scan.simps) simp
      then show ?thesis using x stop by auto
    next
      case go: False
      note adv = advance_in_window [OF x(1) y True]
      have step: "advance_scan pages xminAll y x = advance_scan pages xminAll y (TransactionIdAdvance x)"
        using prec e l go by (subst advance_scan.simps) simp
      have "xid_offset base y - xid_offset base (TransactionIdAdvance x) < xid_offset base y - xid_offset base x"
        using adv(2) True by linarith
      from less.hyps [OF this adv(1,3)] obtain x' where
        x': "advance_scan pages xminAll y (TransactionIdAdvance x) = Some (Inr x')" "in_window base x'"
          "xid_offset base (TransactionIdAdvance x) \<le> xid_offset base x'" "xid_offset base x' \<le> xid_offset base y"
          "\<forall>z. in_window base z \<and> xid_offset base (TransactionIdAdvance x) \<le> xid_offset base z \<and>
            xid_offset base z < xid_offset base x' \<longrightarrow> logged pages z < xminAll"
          "x' = y \<or> xminAll \<le> logged pages x'" by blast
      have "logged pages z < xminAll"
        if "in_window base z" "xid_offset base x \<le> xid_offset base z" "xid_offset base z < xid_offset base x'" for z
      proof (cases "xid_offset base z = xid_offset base x")
        case True
        then show ?thesis using xid_offset_inject [OF True] go by simp
      next
        case False
        then show ?thesis using adv(4) [OF that(1)] that x'(5) by simp
      qed
      then show ?thesis using step x' adv(2) by (intro exI [of _ x']) auto
    qed
  qed
qed

lemma publish_spec:
  "in_window base oldestXmin \<Longrightarrow> \<forall>x \<in> set stores. in_window base x \<Longrightarrow>
   \<exists>r. publish_oldestXmin expected oldestXmin stores = (r, r) \<and> r \<in> insert oldestXmin (set stores) \<and>
     xid_offset base oldestXmin \<le> xid_offset base r"
proof (induction stores arbitrary: expected)
  case (Cons current stores)
  then show ?case using window_comparisons(2) [of base oldestXmin current] by auto
qed simp

lemma page_unat: "unat (of_nat (TransactionIdToPage x) * of_nat ENTRIES_PER_PAGE + FirstNormalTransactionId :: TransactionId)
    = TransactionIdToPage x * ENTRIES_PER_PAGE + 3"
proof -
  have "TransactionIdToPage x < 2 ^ 20"
    using unat_below_page [of x] by (simp add: TransactionIdToPage_def ENTRIES_PER_PAGE_def less_mult_imp_div_less)
  then have "TransactionIdToPage x * ENTRIES_PER_PAGE + 3 < 2 ^ 32" by (simp add: ENTRIES_PER_PAGE_def)
  moreover have "of_nat (TransactionIdToPage x) * of_nat ENTRIES_PER_PAGE + FirstNormalTransactionId =
      (of_nat (TransactionIdToPage x * ENTRIES_PER_PAGE + 3) :: TransactionId)"
    by (simp add: FirstNormalTransactionId_def)
  ultimately show ?thesis by (simp only: unat_of_nat) simp
qed

text \<open>Up to a page short of half the identifier space, the page of a later identifier does not
  precede the page of an earlier one, so a truncation keeps it.\<close>

lemma later_page_kept:
  assumes "xid_offset r z < 2 ^ 31 - ENTRIES_PER_PAGE"
  shows "\<not> DistributedLog_PagePrecedes (TransactionIdToPage z) (TransactionIdToPage r)"
proof -
  define fz fr where
    "fz = (of_nat (TransactionIdToPage z) * of_nat ENTRIES_PER_PAGE + FirstNormalTransactionId :: TransactionId)" and
    "fr = (of_nat (TransactionIdToPage r) * of_nat ENTRIES_PER_PAGE + FirstNormalTransactionId :: TransactionId)"
  have u: "unat fz = TransactionIdToPage z * ENTRIES_PER_PAGE + 3" "unat fr = TransactionIdToPage r * ENTRIES_PER_PAGE + 3"
    unfolding fz_def fr_def by (rule page_unat)+
  then have normal: "TransactionIdIsNormal fz" "TransactionIdIsNormal fr" by (simp_all add: xid_defs word_le_nat_alt)
  have split: "unat x = TransactionIdToPage x * ENTRIES_PER_PAGE + TransactionIdToEntry x" for x
    by (simp add: TransactionIdToPage_def TransactionIdToEntry_def)
  have small: "TransactionIdToEntry x < ENTRIES_PER_PAGE" for x
    by (simp add: TransactionIdToEntry_def ENTRIES_PER_PAGE_def)
  have page_le: "TransactionIdToPage r * ENTRIES_PER_PAGE \<le> TransactionIdToPage z * ENTRIES_PER_PAGE" if "unat r \<le> unat z"
    using that by (simp add: TransactionIdToPage_def div_le_mono)
  have "unat (fz - fr) < 2 ^ 31"
  proof (cases "unat r \<le> unat z")
    case True
    then have "unat z - unat r < 2 ^ 31 - ENTRIES_PER_PAGE" using assms by (simp add: xid_offset_def unat_sub_if')
    then show ?thesis using True page_le u split [of z] split [of r] small [of z] small [of r]
      by (simp add: unat_sub_if' ENTRIES_PER_PAGE_def; linarith)
  next
    case False
    then have "unat z + 2 ^ 32 - unat r < 2 ^ 31 - ENTRIES_PER_PAGE" using assms by (simp add: xid_offset_def unat_sub_if')
    then show ?thesis using False u split [of z] split [of r] small [of z] small [of r] unat_below_page [of r]
      by (simp add: unat_sub_if' ENTRIES_PER_PAGE_def; linarith)
  qed
  then have "0 \<le> sint (fz - fr)" using sint_diff_small [of "fz - fr" 0] by simp
  then show ?thesis
    using normal unfolding DistributedLog_PagePrecedes_def fz_def [symmetric] fr_def [symmetric]
    by (simp add: TransactionIdPrecedes_def)
qed

lemma xid_offset_shift:
  assumes "xid_offset base r \<le> xid_offset base z"
  shows "xid_offset r z = xid_offset base z - xid_offset base r"
proof -
  have "z - r = (z - base) - (r - base)" by simp
  then show ?thesis using assms unfolding xid_offset_def by (metis unat_sub_if')
qed

section \<open>Scanning backwards\<close>

declare scan_prev.simps [simp del]

lemma find_rev_from_Some:
  "find P (rev [l ..< h]) = Some k \<Longrightarrow> l \<le> k \<and> k < h \<and> P k \<and> (\<forall>j. k < j \<and> j < h \<longrightarrow> \<not> P j)"
proof (induction h)
  case (Suc h)
  show ?case
  proof (cases "l \<le> h \<and> P h")
    case True
    then have "k = h" using Suc.prems by simp
    then show ?thesis using True by auto
  next
    case False
    then have "find P (rev [l ..< h]) = Some k" using Suc.prems by (cases "l \<le> h") auto
    moreover from this have "l \<le> k" "k < h" using Suc.IH by auto
    ultimately show ?thesis using Suc.IH False by (auto simp: less_Suc_eq)
  qed
qed simp

lemma find_rev_from_None: "find P (rev [l ..< h]) = None \<Longrightarrow> l \<le> j \<Longrightarrow> j < h \<Longrightarrow> \<not> P j"
  by (simp add: find_None_iff)

lemma same_page_from_floor:
  assumes "TransactionIdToPage high * ENTRIES_PER_PAGE \<le> unat y" "unat y \<le> unat high"
  shows "TransactionIdToPage y = TransactionIdToPage high"
proof (rule antisym)
  show "TransactionIdToPage y \<le> TransactionIdToPage high"
    using assms(2) by (simp add: TransactionIdToPage_def div_le_mono)
  show "TransactionIdToPage high \<le> TransactionIdToPage y"
    using assms(1) by (simp add: TransactionIdToPage_def [of y] less_eq_div_iff_mult_less_eq ENTRIES_PER_PAGE_def)
qed

lemma scan_page_spec:
  fixes high low :: TransactionId
  assumes pg: "pages (TransactionIdToPage high) = Some entries"
    and low: "TransactionIdToPage high * ENTRIES_PER_PAGE \<le> unat low"
  shows "scan_page_down entries high low = Some k \<Longrightarrow>
      unat low \<le> k \<and> k \<le> unat high \<and> entries (TransactionIdToEntry (of_nat k)) = logged pages (of_nat k) \<and>
      logged pages (of_nat k) \<noteq> 0 \<and> (\<forall>y. k < unat y \<and> unat y \<le> unat high \<longrightarrow> logged pages y = 0)"
    and "scan_page_down entries high low = None \<Longrightarrow> unat low \<le> unat y \<Longrightarrow> unat y \<le> unat high \<Longrightarrow> logged pages y = 0"
proof -
  have l: "logged pages y = entries (TransactionIdToEntry y)" if "unat low \<le> unat y" "unat y \<le> unat high" for y
    using same_page_from_floor [of high y] that low pg by (simp add: logged_def)
  have u: "unat (of_nat j :: TransactionId) = j" if "j \<le> unat high" for j
    using that unat_below_page [of high] by (simp add: unat_of_nat)
  show "unat low \<le> k \<and> k \<le> unat high \<and> entries (TransactionIdToEntry (of_nat k)) = logged pages (of_nat k) \<and>
      logged pages (of_nat k) \<noteq> 0 \<and> (\<forall>y. k < unat y \<and> unat y \<le> unat high \<longrightarrow> logged pages y = 0)"
    if "scan_page_down entries high low = Some k"
  proof -
    note f = find_rev_from_Some [OF that [unfolded scan_page_down_def], unfolded less_Suc_eq_le]
    have "logged pages y = 0" if "k < unat y" "unat y \<le> unat high" for y
      using f l [of y] that by (auto dest!: spec [of _ "unat y"])
    then show ?thesis using f l [of "of_nat k"] u [of k] by auto
  qed
  show "logged pages y = 0" if "scan_page_down entries high low = None" "unat low \<le> unat y" "unat y \<le> unat high"
    using find_rev_from_None [OF that(1) [unfolded scan_page_down_def] that(2)] l [of y] that by simp
qed

lemma scan_prev_spec:
  "3 \<le> unat high \<Longrightarrow>
   case scan_prev pages high of
     (x, Some g) \<Rightarrow> 3 \<le> unat x \<and> unat x \<le> unat high \<and> logged pages x = g \<and> g \<noteq> 0 \<and>
       (\<forall>y. unat x < unat y \<and> unat y \<le> unat high \<longrightarrow> logged pages y = 0)
   | (x, None) \<Rightarrow> x = InvalidTransactionId \<and>
       (\<forall>y. 3 \<le> unat y \<and> unat y \<le> unat high \<and>
          (\<forall>w. unat y \<le> unat w \<and> unat w \<le> unat high \<longrightarrow> pages (TransactionIdToPage w) \<noteq> None) \<longrightarrow> logged pages y = 0)"
proof (induction pages high rule: scan_prev.induct)
  case (1 pages high)
  define fl where "fl = (of_nat (TransactionIdToPage high * ENTRIES_PER_PAGE) :: TransactionId)"
  define low where "low = (if fl = InvalidTransactionId then FirstNormalTransactionId else fl)"
  have ufl: "unat fl = TransactionIdToPage high * ENTRIES_PER_PAGE" unfolding fl_def by (rule page_floor_unat)
  have ulow: "TransactionIdToPage high * ENTRIES_PER_PAGE \<le> unat low"
    unfolding ufl [symmetric] low_def by (simp add: InvalidTransactionId_def)
  have low3: "3 \<le> unat low"
  proof (cases "TransactionIdToPage high")
    case 0
    then show ?thesis by (simp add: low_def fl_def xid_defs)
  next
    case (Suc p)
    then have "3 \<le> TransactionIdToPage high * ENTRIES_PER_PAGE" by (simp add: ENTRIES_PER_PAGE_def)
    then show ?thesis using ulow by linarith
  qed
  note eq = scan_prev.simps [of pages high, unfolded Let_def, folded fl_def, folded low_def]
  show ?case
  proof (cases "pages (TransactionIdToPage high)")
    case None
    then show ?thesis by (auto simp: eq)
  next
    case (Some entries)
    note pg = scan_page_spec [of pages high, OF Some ulow]
    show ?thesis
    proof (cases "scan_page_down entries high low")
      case found: (Some k)
      then have "unat (of_nat k :: TransactionId) = k"
        using pg(1) unat_below_page [of high] by (simp add: unat_of_nat)
      then show ?thesis using Some found pg(1) [OF found] low3 by (simp add: eq)
    next
      case none: None
      note zero = pg(2) [OF none]
      show ?thesis
      proof (cases "low = FirstNormalTransactionId")
        case True
        then have "unat low = 3" by (simp add: xid_defs)
        then show ?thesis using Some none zero True by (simp add: eq)
      next
        case False
        then have lowfl: "low = fl" "fl \<noteq> 0" by (auto simp: low_def InvalidTransactionId_def split: if_splits)
        have below: "unat (low - 1) = unat low - 1" using low3 by (simp add: unat_sub word_le_nat_alt)
        have lt: "unat (low - 1) < unat high"
          using scan_prev_less [of high] lowfl by (simp add: fl_def del: of_nat_mult)
        have "unat low \<noteq> 3"
          using False by (simp add: FirstNormalTransactionId_def word_unat_eq_iff)
        then have "3 \<le> unat (low - 1)" using low3 below by linarith
        then have IH: "case scan_prev pages (low - 1) of
           (x, Some g) \<Rightarrow> 3 \<le> unat x \<and> unat x \<le> unat (low - 1) \<and> logged pages x = g \<and> g \<noteq> 0 \<and>
             (\<forall>y. unat x < unat y \<and> unat y \<le> unat (low - 1) \<longrightarrow> logged pages y = 0)
         | (x, None) \<Rightarrow> x = InvalidTransactionId \<and>
             (\<forall>y. 3 \<le> unat y \<and> unat y \<le> unat (low - 1) \<and>
                (\<forall>w. unat y \<le> unat w \<and> unat w \<le> unat (low - 1) \<longrightarrow> pages (TransactionIdToPage w) \<noteq> None) \<longrightarrow> logged pages y = 0)"
          by (rule 1(1) [OF refl fl_def low_def Some none False])
        have step: "scan_prev pages high = scan_prev pages (low - 1)" using Some none False by (simp add: eq)
        have cover: "unat y \<le> unat (low - 1) \<or> unat low \<le> unat y" for y using below low3 by linarith
        show ?thesis
        proof (cases "scan_prev pages (low - 1)")
          case (Pair x g)
          then show ?thesis
            using IH lt zero cover unfolding step by (cases g) (auto, (meson le_trans less_imp_le)+)
        qed
      qed
    qed
  qed
qed

section \<open>The initial scan\<close>

lemma skip_special_eq: "skip_special x = (if TransactionIdIsNormal x then x else 3)"
proof -
  have 3: "skip_special 3 = 3" by (subst skip_special.simps) (simp add: FirstNormalTransactionId_def)
  have 2: "skip_special 2 = 3" by (subst skip_special.simps) (simp add: FirstNormalTransactionId_def 3)
  have 1: "skip_special 1 = 3" by (subst skip_special.simps) (simp add: FirstNormalTransactionId_def 2)
  have 0: "skip_special 0 = 3" by (subst skip_special.simps) (simp add: FirstNormalTransactionId_def 1)
  show ?thesis
  proof (cases "TransactionIdIsNormal x")
    case True
    then show ?thesis by (subst skip_special.simps) (auto simp: TransactionIdIsNormal_def)
  next
    case False
    then show ?thesis using special_xids [of x] 0 1 2 by auto
  qed
qed

lemma next_page_cases:
  defines "E \<equiv> ENTRIES_PER_PAGE"
  shows "unat x + (E - TransactionIdToEntry x) < 2 ^ 32 \<and>
      AdvanceTransactionIdToNextPage x = x + of_nat (E - TransactionIdToEntry x) \<and>
      TransactionIdIsNormal (AdvanceTransactionIdToNextPage x) \<or>
    unat x + (E - TransactionIdToEntry x) = 2 ^ 32 \<and> AdvanceTransactionIdToNextPage x = 3"
proof -
  define k where "k = E - TransactionIdToEntry x"
  have small: "TransactionIdToEntry x < E" by (simp add: TransactionIdToEntry_def E_def ENTRIES_PER_PAGE_def)
  have split: "unat x = TransactionIdToPage x * E + TransactionIdToEntry x"
    by (simp add: TransactionIdToPage_def TransactionIdToEntry_def E_def)
  have page: "TransactionIdToPage x < 2 ^ 20"
    using unat_below_page [of x] by (simp add: TransactionIdToPage_def ENTRIES_PER_PAGE_def less_mult_imp_div_less)
  have sum: "unat x + k = Suc (TransactionIdToPage x) * E" using split small by (simp add: k_def)
  have "unat (x + of_nat E) mod E = TransactionIdToEntry x"
    by (simp add: unat_word_ariths E_def ENTRIES_PER_PAGE_def TransactionIdToEntry_def mod_mod_cancel)
  then have "x + of_nat E - of_nat (unat (x + of_nat E) mod E) = x + of_nat k"
    using small by (simp add: k_def of_nat_diff)
  then have adv: "AdvanceTransactionIdToNextPage x = skip_special (x + of_nat k)"
    unfolding AdvanceTransactionIdToNextPage_def E_def Let_def by (rule arg_cong)
  have xk: "x + of_nat k = of_nat (Suc (TransactionIdToPage x) * E)"
    unfolding sum [symmetric] by simp
  show ?thesis
  proof (cases "Suc (TransactionIdToPage x) = 2 ^ 20")
    case True
    then have "unat x + k = 2 ^ 32" "x + of_nat k = 0" using sum xk by (simp_all add: E_def ENTRIES_PER_PAGE_def)
    moreover have "\<not> TransactionIdIsNormal 0" by (simp add: xid_defs)
    ultimately show ?thesis using adv by (simp add: skip_special_eq k_def)
  next
    case False
    then have lt: "unat x + k < 2 ^ 32" using page sum by (simp add: E_def ENTRIES_PER_PAGE_def)
    then have "unat (x + of_nat k) = unat x + k" by (simp add: unat_word_ariths unat_of_nat)
    moreover have "3 \<le> unat x + k" using sum by (simp add: E_def ENTRIES_PER_PAGE_def)
    ultimately have "TransactionIdIsNormal (x + of_nat k)" by (simp add: xid_defs word_le_nat_alt)
    then show ?thesis using adv lt by (simp add: skip_special_eq k_def)
  qed
qed

lemma next_page:
  shows "0 < xid_offset x (AdvanceTransactionIdToNextPage x)"
    and "xid_offset x (AdvanceTransactionIdToNextPage x) \<le> ENTRIES_PER_PAGE + 3"
    and "TransactionIdIsNormal (AdvanceTransactionIdToNextPage x)"
    and "TransactionIdIsNormal z \<Longrightarrow> xid_offset x z < xid_offset x (AdvanceTransactionIdToNextPage x) \<Longrightarrow>
      TransactionIdToPage z = TransactionIdToPage x"
proof -
  define k where "k = ENTRIES_PER_PAGE - TransactionIdToEntry x"
  have k: "0 < k" "k \<le> ENTRIES_PER_PAGE" by (simp_all add: k_def TransactionIdToEntry_def ENTRIES_PER_PAGE_def)
  have same: "TransactionIdToPage z = TransactionIdToPage x" if "unat z = unat x + d" "d < k" for z d
  proof -
    have "unat z = TransactionIdToPage x * ENTRIES_PER_PAGE + (TransactionIdToEntry x + d)"
      using that(1) by (simp add: TransactionIdToPage_def TransactionIdToEntry_def)
    moreover have "TransactionIdToEntry x + d < ENTRIES_PER_PAGE" using that(2) by (simp add: k_def)
    ultimately show ?thesis by (simp add: TransactionIdToPage_def [of z])
  qed
  have below: "unat z = unat x + xid_offset x z" if "unat x + xid_offset x z < 2 ^ 32" for z
  proof -
    have "unat z = unat (x + (z - x))" by simp
    also have "\<dots> = (unat x + unat (z - x)) mod 2 ^ 32" by (subst unat_word_ariths(1)) simp
    finally show ?thesis using that unfolding xid_offset_def by simp
  qed
  consider (inside) "unat x + k < 2 ^ 32" "AdvanceTransactionIdToNextPage x = x + of_nat k"
      "TransactionIdIsNormal (AdvanceTransactionIdToNextPage x)"
    | (wrap) "unat x + k = 2 ^ 32" "AdvanceTransactionIdToNextPage x = 3"
    using next_page_cases [of x] unfolding k_def by blast
  then have main: "0 < xid_offset x (AdvanceTransactionIdToNextPage x) \<and>
    xid_offset x (AdvanceTransactionIdToNextPage x) \<le> ENTRIES_PER_PAGE + 3 \<and>
    TransactionIdIsNormal (AdvanceTransactionIdToNextPage x) \<and>
    (TransactionIdIsNormal z \<and> xid_offset x z < xid_offset x (AdvanceTransactionIdToNextPage x) \<longrightarrow>
      TransactionIdToPage z = TransactionIdToPage x)" for z
  proof cases
    case inside
    then have "xid_offset x (AdvanceTransactionIdToNextPage x) = k" by (simp add: xid_offset_def unat_of_nat)
    then show ?thesis using inside k same [of z "xid_offset x z"] below [of z] by auto
  next
    case wrap
    have "(3 - x) = of_nat (k + 3)"
    proof -
      have "of_nat (unat x + k) = (0 :: TransactionId)" unfolding wrap(1) by simp
      then have "of_nat k = - x" by (simp add: eq_neg_iff_add_eq_0 add.commute)
      then show ?thesis by simp
    qed
    then have off: "xid_offset x 3 = k + 3"
      using k by (simp add: xid_offset_def unat_of_nat ENTRIES_PER_PAGE_def del: of_nat_add)
    have "TransactionIdToPage z = TransactionIdToPage x" if z: "TransactionIdIsNormal z" "xid_offset x z < k + 3"
    proof (cases "xid_offset x z < k")
      case True
      then show ?thesis using same [of z "xid_offset x z"] below [of z] wrap(1) by simp
    next
      case False
      define j where "j = xid_offset x z - k"
      have "z = x + of_nat (k + j)" using False by (simp add: j_def xid_offset_def)
      also have "\<dots> = of_nat j"
        using arg_cong [OF wrap(1), of "of_nat :: nat \<Rightarrow> TransactionId"] by simp
      finally have zj: "z = of_nat j" .
      have "j < 3" using z(2) False by (simp add: j_def)
      then have "\<not> TransactionIdIsNormal z" unfolding zj by (simp add: xid_defs word_le_nat_alt unat_of_nat)
      then show ?thesis using z(1) by simp
    qed
    then show ?thesis using wrap off k by (auto simp: xid_defs)
  qed
  show "0 < xid_offset x (AdvanceTransactionIdToNextPage x)"
    and "xid_offset x (AdvanceTransactionIdToNextPage x) \<le> ENTRIES_PER_PAGE + 3"
    and "TransactionIdIsNormal (AdvanceTransactionIdToNextPage x)"
    and "TransactionIdIsNormal z \<Longrightarrow> xid_offset x z < xid_offset x (AdvanceTransactionIdToNextPage x) \<Longrightarrow>
      TransactionIdToPage z = TransactionIdToPage x"
    using main by blast+
qed

lemma xid_offset_add:
  assumes "xid_offset base x + xid_offset x y < 2 ^ 32"
  shows "xid_offset base y = xid_offset base x + xid_offset x y"
proof -
  have "y - base = (x - base) + (y - x)" by simp
  then show ?thesis using assms unfolding xid_offset_def by (simp only: unat_word_ariths(1)) simp
qed

lemma init_scan_spec:
  assumes y: "in_window base y" "xid_offset base y + (ENTRIES_PER_PAGE + 3) < 2 ^ 31"
  shows "in_window base x \<Longrightarrow> xid_offset base x \<le> xid_offset base y \<Longrightarrow>
    \<exists>x'. init_scan pages y x = Some x' \<and> (pages (TransactionIdToPage x') \<noteq> None \<or> x' = TransactionIdAdvance y) \<and>
      (\<forall>z. in_window base z \<and> xid_offset base x \<le> xid_offset base z \<and> xid_offset base z < xid_offset base x' \<longrightarrow>
        pages (TransactionIdToPage z) = None)"
proof (induction "xid_offset base y - xid_offset base x" arbitrary: x rule: less_induct)
  case less
  note x = less.prems
  define n where "n = AdvanceTransactionIdToNextPage x"
  note np = next_page [where x = x, folded n_def]
  have off: "xid_offset base n = xid_offset base x + xid_offset x n"
    using np(2) x(2) y(2) by (intro xid_offset_add) simp
  then have win: "in_window base n" using np(2,3) x(2) y(2) unfolding in_window_def by linarith
  have same: "TransactionIdToPage z = TransactionIdToPage x"
    if "in_window base z" "xid_offset base x \<le> xid_offset base z" "xid_offset base z < xid_offset base n" for z
    using np(4) [of z] that off xid_offset_shift [of base x z] by (auto simp: in_window_def)
  show ?case
  proof (cases "pages (TransactionIdToPage x) = None")
    case False
    then have "init_scan pages y x = Some x" by (subst init_scan.simps) simp
    then show ?thesis using False by auto
  next
    case missing: True
    have fol: "TransactionIdFollows n y \<longleftrightarrow> xid_offset base y < xid_offset base n"
      using window_comparisons(3) [OF win y(1)] by simp
    show ?thesis
    proof (cases "TransactionIdFollows n y")
      case True
      then have r: "init_scan pages y x = Some (TransactionIdAdvance y)"
        using missing by (subst init_scan.simps) (simp add: n_def Let_def)
      have "pages (TransactionIdToPage z) = None"
        if "in_window base z" "xid_offset base x \<le> xid_offset base z" "xid_offset base z < xid_offset base (TransactionIdAdvance y)" for z
      proof -
        have "xid_offset base z \<le> xid_offset base y"
          using advance_in_window(3) [OF y(1) that(1)] that(3) by linarith
        then show ?thesis using same [OF that(1,2)] True fol missing by simp
      qed
      then show ?thesis using r by blast
    next
      case False
      then have r: "init_scan pages y x = init_scan pages y n"
        using missing by (subst init_scan.simps) (simp add: n_def Let_def)
      have le: "xid_offset base n \<le> xid_offset base y" using False fol by simp
      have "xid_offset base y - xid_offset base n < xid_offset base y - xid_offset base x"
        using off np(1) le by linarith
      from less.hyps [OF this win le] r same missing show ?thesis
        by (metis linorder_not_less)
    qed
  qed
qed

section \<open>Properties\<close>

text \<open>A log for the examples: two pages, of which the first records one transaction.\<close>

definition sample_dlog :: DistributedLogState where
  "sample_dlog = \<lparr>dlog_pages = (\<lambda>p. if p = 0 then Some ((\<lambda>_. 0)(7 := 70)) else if p = 1 then Some (\<lambda>_. 0) else None),
     dlog_oldestXmin = 5\<rparr>"

definition sample_slru :: Slru where
  "sample_slru = \<lparr>SlruScanDirectory = (\<lambda>_ _. True),
     SimpleLruTruncate = (\<lambda>cutoff pages p. if DistributedLog_PagePrecedes p cutoff then None else pages p)\<rparr>"

lemma xid_offset_elim: "z = base + of_nat (xid_offset base z)"
  by (simp add: xid_offset_def)

lemmas dlog_eval = sample_dlog_def logged_def TransactionIdToPage_def TransactionIdToEntry_def ENTRIES_PER_PAGE_def



text \<open>with the pages present, or in recovery where missing ones are made, recording a transaction
  tree raises the mismatch error exactly when some member is already recorded with another
  distributed identifier; with or without the error, no identifier recorded before is overwritten.\<close>

theorem set_committed_tree_error:
  assumes "gxid \<noteq> 0" "isRedo \<or> (\<forall>x \<in> set (xid # xids). pages (TransactionIdToPage x) \<noteq> None)"
  shows "(fst (DistributedLog_SetCommittedTree False xid xids gxid isRedo pages) = None \<longleftrightarrow>
      (\<forall>x \<in> set (xid # xids). logged pages x \<in> {0, gxid})) \<and>
    (\<forall>x. logged pages x \<noteq> 0 \<longrightarrow>
      logged (snd (DistributedLog_SetCommittedTree False xid xids gxid isRedo pages)) x = logged pages x)"
proof -
  obtain err pages1 where w: "DistributedLog_SetCommittedWithinAPage [xid] gxid isRedo pages = (err, pages1)"
    by fastforce
  have first: "err = None \<longleftrightarrow> logged pages xid \<in> {0, gxid}"
    using within_page_error [of "[xid]" isRedo pages gxid] assms(2) w by auto
  have keep1: "logged pages x \<noteq> 0 \<Longrightarrow> logged pages1 x = logged pages x" for x
    using within_page_keeps [of pages x "[xid]" gxid isRedo] w by simp
  have rest: "fst (DistributedLog_SetCommittedByPages xids gxid isRedo pages1) = None \<longleftrightarrow>
      (\<forall>x \<in> set xids. logged pages x \<in> {0, gxid})" if "err = None"
  proof -
    note W = within_page_none [OF w [unfolded that]]
    have "logged pages1 x \<in> {0, gxid} \<longleftrightarrow> logged pages x \<in> {0, gxid}" for x
      using W(1) [of x] W(2) [of x] first that by (cases "x = xid") auto
    then show ?thesis using by_pages_error [of isRedo xids pages1 gxid] assms W(3) by auto
  qed
  show ?thesis
    using first rest keep1 by_pages_keeps [of pages1 _ xids gxid isRedo] w
    by (cases err) (auto simp: DistributedLog_SetCommittedTree_def)
qed

theorem set_committed_tree_error_witness:
  "fst (DistributedLog_SetCommittedTree False 8 [9, 7] 80 False (dlog_pages sample_dlog)) \<noteq> None \<and>
   logged (snd (DistributedLog_SetCommittedTree False 8 [9, 7] 80 False (dlog_pages sample_dlog))) 7 = 70"
proof -
  have "logged (dlog_pages sample_dlog) 7 = 70" by (simp add: dlog_eval)
  moreover have "\<forall>x \<in> set [8, 9, 7]. dlog_pages sample_dlog (TransactionIdToPage x) \<noteq> None" by (simp add: dlog_eval)
  ultimately show ?thesis using set_committed_tree_error [of 80 False 8 "[9, 7]" "dlog_pages sample_dlog"] by simp
qed

text \<open>C36: advancing the oldest identifier returns, publishes what it returns even when other backends
  race, never moves back, and hides no transaction a distributed snapshot may still ask for: each
  local identifier from the old value on that is recorded with a distributed identifier at or above
  the oldest one of all distributed snapshots is found by the committed check afterwards as before,
  truncation of the log included. The racing backends store bounds that are right for the same
  snapshots, and the truncation keeps the pages that do not precede the cutoff.\<close>

theorem advance_oldest_xmin_safe:
  assumes old: "in_window base (dlog_oldestXmin dl)" and local: "in_window base oldestLocalXmin"
    and pages: "\<forall>z. in_window base z \<and> xid_offset base z < xid_offset base oldestLocalXmin \<longrightarrow>
        dlog_pages dl (TransactionIdToPage z) \<noteq> None"
    and stores: "\<forall>s \<in> set stores. in_window base s \<and> (\<forall>z. in_window base z \<and>
        xid_offset base (dlog_oldestXmin dl) \<le> xid_offset base z \<and> xid_offset base z < xid_offset base s \<longrightarrow>
          logged (dlog_pages dl) z < xminAll)"
    and keeps: "\<forall>cutoff p. \<not> DistributedLog_PagePrecedes p cutoff \<longrightarrow>
        SimpleLruTruncate slru cutoff (dlog_pages dl) p = dlog_pages dl p"
    and "0 < xminAll"
  shows "\<exists>r dl'. DistributedLog_AdvanceOldestXmin slru stores oldestLocalXmin xminAll dl = Some (Inr (r, dl')) \<and>
    dlog_oldestXmin dl' = r \<and> xid_offset base (dlog_oldestXmin dl) \<le> xid_offset base r \<and>
    (\<forall>z. in_window base z \<and> xid_offset base (dlog_oldestXmin dl) \<le> xid_offset base z \<and>
        xid_offset base z < 2 ^ 31 - ENTRIES_PER_PAGE \<and> xminAll \<le> logged (dlog_pages dl) z \<longrightarrow>
      DistributedLog_CommittedCheck z dl' = Inr (Some (logged (dlog_pages dl) z)) \<and>
      DistributedLog_CommittedCheck z dl = Inr (Some (logged (dlog_pages dl) z)))"
proof -
  let ?old = "dlog_oldestXmin dl" and ?off = "xid_offset base"
  have "\<exists>x. advance_scan (dlog_pages dl) xminAll oldestLocalXmin ?old = Some (Inr x) \<and> in_window base x \<and> ?off ?old \<le> ?off x \<and>
      (\<forall>z. in_window base z \<and> ?off ?old \<le> ?off z \<and> ?off z < ?off x \<longrightarrow> logged (dlog_pages dl) z < xminAll)"
  proof (cases "?off ?old \<le> ?off oldestLocalXmin")
    case True
    then show ?thesis using advance_scan_spec [OF local pages old True] by blast
  next
    case False
    then have "\<not> TransactionIdPrecedes ?old oldestLocalXmin" using window_comparisons(1) [OF old local] by simp
    then show ?thesis using old by (subst advance_scan.simps) auto
  qed
  then obtain x where x: "advance_scan (dlog_pages dl) xminAll oldestLocalXmin ?old = Some (Inr x)" "in_window base x"
    "?off ?old \<le> ?off x" "\<forall>z. in_window base z \<and> ?off ?old \<le> ?off z \<and> ?off z < ?off x \<longrightarrow> logged (dlog_pages dl) z < xminAll"
    by blast
  obtain r where pub: "(if ?old \<noteq> x then publish_oldestXmin ?old x stores else (x, ?old)) = (r, r)"
    and r: "r \<in> insert x (set stores)" "?off x \<le> ?off r"
    using publish_spec [OF x(2), of stores ?old] stores by (cases "?old = x") auto
  define dl' where "dl' = (if TransactionIdToSegment ?old < TransactionIdToSegment r
      then dl\<lparr>dlog_oldestXmin := r, dlog_pages := DistributedLog_Truncate slru r (dlog_pages dl)\<rparr> else dl\<lparr>dlog_oldestXmin := r\<rparr>)"
  have res: "DistributedLog_AdvanceOldestXmin slru stores oldestLocalXmin xminAll dl = Some (Inr (r, dl'))"
    using x(1) pub by (simp add: DistributedLog_AdvanceOldestXmin_def dl'_def Let_def)
  have rw: "in_window base r" using r(1) x(2) stores by auto
  have passed: "logged (dlog_pages dl) z < xminAll" if "in_window base z" "?off ?old \<le> ?off z" "?off z < ?off r" for z
    using r(1) x(4) stores that by auto
  have check: "DistributedLog_CommittedCheck z dl' = Inr (Some (logged (dlog_pages dl) z)) \<and>
      DistributedLog_CommittedCheck z dl = Inr (Some (logged (dlog_pages dl) z))"
    if z: "in_window base z" "?off ?old \<le> ?off z" "?off z < 2 ^ 31 - ENTRIES_PER_PAGE" "xminAll \<le> logged (dlog_pages dl) z" for z
  proof -
    have le: "?off r \<le> ?off z" using passed [OF z(1,2)] z(4) by (meson leD leI)
    have "xid_offset r z < 2 ^ 31 - ENTRIES_PER_PAGE" using xid_offset_shift [OF le] z(3) by linarith
    note kept = later_page_kept [OF this]
    have page: "dlog_pages dl' (TransactionIdToPage z) = dlog_pages dl (TransactionIdToPage z)"
      using keeps kept by (simp add: dl'_def DistributedLog_Truncate_def Let_def)
    have nz: "logged (dlog_pages dl) z \<noteq> 0" using z(4) \<open>0 < xminAll\<close> by auto
    have "r \<noteq> InvalidTransactionId" "?old \<noteq> InvalidTransactionId"
      using rw old by (auto simp: in_window_def xid_defs)
    moreover have "\<not> TransactionIdPrecedes z r" "\<not> TransactionIdPrecedes z ?old"
      using window_comparisons(1) [OF z(1) rw] window_comparisons(1) [OF z(1) old] le z(2) by simp_all
    moreover have "dlog_oldestXmin dl' = r" by (simp add: dl'_def)
    ultimately show ?thesis
      using page nz by (auto simp: DistributedLog_CommittedCheck_def DistributedLog_GetDistributedXid_def logged_def split: option.splits)
  qed
  have "dlog_oldestXmin dl' = r" by (simp add: dl'_def)
  then show ?thesis using res check r(2) x(3) by (meson le_trans)
qed

theorem advance_oldest_xmin_safe_witness:
  "\<exists>r dl'. DistributedLog_AdvanceOldestXmin sample_slru [6] 9 60 sample_dlog = Some (Inr (r, dl')) \<and>
     DistributedLog_CommittedCheck 7 dl' = Inr (Some 70)"
proof -
  have o: "dlog_oldestXmin sample_dlog = 5" by (simp add: sample_dlog_def)
  have w: "in_window 5 5" "in_window 5 9" "in_window 5 6" "in_window 5 7" "xid_offset 5 5 = 0" "xid_offset 5 9 = 4"
    "xid_offset 5 6 = 1" "xid_offset 5 7 = 2"
    by (simp_all add: in_window_def xid_offset_def xid_defs)
  have pages: "\<forall>z. in_window 5 z \<and> xid_offset 5 z < xid_offset 5 9 \<longrightarrow> dlog_pages sample_dlog (TransactionIdToPage z) \<noteq> None"
  proof (intro allI impI)
    fix z assume "in_window 5 z \<and> xid_offset 5 z < xid_offset 5 9"
    then have "xid_offset 5 z \<in> {0, 1, 2, 3}" using w by auto
    then have "z \<in> {5, 6, 7, 8}" using xid_offset_elim [of z 5] by auto
    then show "dlog_pages sample_dlog (TransactionIdToPage z) \<noteq> None" by (auto simp: dlog_eval)
  qed
  have store: "logged (dlog_pages sample_dlog) z < 60" if "xid_offset 5 z < 1" for z
  proof -
    have "z = 5" using that xid_offset_elim [of z 5] by simp
    then show ?thesis by (simp add: dlog_eval)
  qed
  have l: "logged (dlog_pages sample_dlog) 7 = 70" by (simp add: dlog_eval)
  have "\<exists>r dl'. DistributedLog_AdvanceOldestXmin sample_slru [6] 9 60 sample_dlog = Some (Inr (r, dl')) \<and>
    dlog_oldestXmin dl' = r \<and> xid_offset 5 (dlog_oldestXmin sample_dlog) \<le> xid_offset 5 r \<and>
    (\<forall>z. in_window 5 z \<and> xid_offset 5 (dlog_oldestXmin sample_dlog) \<le> xid_offset 5 z \<and>
        xid_offset 5 z < 2 ^ 31 - ENTRIES_PER_PAGE \<and> 60 \<le> logged (dlog_pages sample_dlog) z \<longrightarrow>
      DistributedLog_CommittedCheck z dl' = Inr (Some (logged (dlog_pages sample_dlog) z)) \<and>
      DistributedLog_CommittedCheck z sample_dlog = Inr (Some (logged (dlog_pages sample_dlog) z)))"
    by (rule advance_oldest_xmin_safe [OF _ w(2) pages])
      (use w store o in \<open>auto simp: sample_slru_def\<close>)
  moreover have "in_window 5 7 \<and> xid_offset 5 (dlog_oldestXmin sample_dlog) \<le> xid_offset 5 7 \<and>
      xid_offset 5 7 < 2 ^ 31 - ENTRIES_PER_PAGE \<and> 60 \<le> logged (dlog_pages sample_dlog) 7"
    using w o l by (simp add: ENTRIES_PER_PAGE_def)
  ultimately show ?thesis using l by metis
qed

text \<open>the backward scan finds the nearest recorded identifier below the one given: when it reports
  one, that is recorded with the value reported and nothing between the two is; when it reports none,
  no identifier reachable through existing pages is recorded.\<close>

theorem scan_for_prev_committed_correct:
  assumes "FirstNormalTransactionId < indexXid"
  shows "case DistributedLog_ScanForPrevCommitted indexXid pages of
     (x, Some g) \<Rightarrow> TransactionIdIsNormal x \<and> x < indexXid \<and> logged pages x = g \<and> g \<noteq> 0 \<and>
       (\<forall>y. x < y \<and> y < indexXid \<longrightarrow> logged pages y = 0)
   | (x, None) \<Rightarrow> x = InvalidTransactionId \<and>
       (\<forall>y. TransactionIdIsNormal y \<and> y < indexXid \<and>
          (\<forall>w. y \<le> w \<and> w < indexXid \<longrightarrow> pages (TransactionIdToPage w) \<noteq> None) \<longrightarrow> logged pages y = 0)"
proof -
  have "3 < unat indexXid" using assms by (simp add: FirstNormalTransactionId_def word_less_nat_alt)
  moreover from this have u: "unat (indexXid - 1) = unat indexXid - 1" by (simp add: unat_sub word_le_nat_alt)
  ultimately have h: "3 \<le> unat (indexXid - 1)" "indexXid \<noteq> InvalidTransactionId" "\<not> indexXid - 1 < FirstNormalTransactionId"
    by (auto simp: xid_defs word_less_nat_alt)
  have lt: "unat y < unat indexXid \<longleftrightarrow> unat y \<le> unat (indexXid - 1)" for y :: TransactionId
    using u \<open>3 < unat indexXid\<close> by linarith
  have normal: "TransactionIdIsNormal y \<longleftrightarrow> 3 \<le> unat y" for y by (simp add: xid_defs word_le_nat_alt)
  have "DistributedLog_ScanForPrevCommitted indexXid pages = scan_prev pages (indexXid - 1)"
    using h by (simp add: DistributedLog_ScanForPrevCommitted_def)
  then show ?thesis
    using scan_prev_spec [OF h(1), of pages] unfolding normal word_less_nat_alt word_le_nat_alt lt
    by (simp only:)
qed

theorem scan_for_prev_committed_correct_witness:
  "case DistributedLog_ScanForPrevCommitted 4100 (dlog_pages sample_dlog) of
     (x, Some g) \<Rightarrow> x < 4100 \<and> logged (dlog_pages sample_dlog) x = g | (x, None) \<Rightarrow> x = 0"
  using scan_for_prev_committed_correct [of 4100 "dlog_pages sample_dlog"]
  by (auto simp: FirstNormalTransactionId_def InvalidTransactionId_def split: prod.splits option.splits)

text \<open>at startup the scan for the oldest identifier ends. It stops at an identifier whose page
  exists, or right after the latest completed one, and every live identifier it skipped lies on a
  page that does not exist.\<close>

theorem init_oldest_xmin_correct:
  assumes "in_window oldestXid oldestXid" "in_window oldestXid latestXid"
    "xid_offset oldestXid latestXid + (ENTRIES_PER_PAGE + 3) < 2 ^ 31"
  shows "\<exists>dl'. DistributedLog_InitOldestXmin oldestXid latestXid dl = Some dl' \<and> dlog_pages dl' = dlog_pages dl \<and>
    (dlog_pages dl (TransactionIdToPage (dlog_oldestXmin dl')) \<noteq> None \<or> dlog_oldestXmin dl' = TransactionIdAdvance latestXid) \<and>
    (\<forall>z. in_window oldestXid z \<and> xid_offset oldestXid z < xid_offset oldestXid (dlog_oldestXmin dl') \<longrightarrow>
      dlog_pages dl (TransactionIdToPage z) = None)"
proof -
  have 0: "xid_offset oldestXid oldestXid = 0" by (simp add: xid_offset_def)
  obtain x where x: "init_scan (dlog_pages dl) latestXid oldestXid = Some x"
    "dlog_pages dl (TransactionIdToPage x) \<noteq> None \<or> x = TransactionIdAdvance latestXid"
    "\<forall>z. in_window oldestXid z \<and> xid_offset oldestXid oldestXid \<le> xid_offset oldestXid z \<and>
      xid_offset oldestXid z < xid_offset oldestXid x \<longrightarrow> dlog_pages dl (TransactionIdToPage z) = None"
    using init_scan_spec [OF assms(2,3,1), of "dlog_pages dl"] unfolding 0 by blast
  then show ?thesis
    by (intro exI [of _ "dl\<lparr>dlog_oldestXmin := x\<rparr>"]) (simp add: DistributedLog_InitOldestXmin_def 0)
qed

theorem init_oldest_xmin_correct_witness:
  "\<exists>dl'. DistributedLog_InitOldestXmin 0xFFFFFFF0 100 (sample_dlog\<lparr>dlog_oldestXmin := 0\<rparr>) = Some dl' \<and>
    dlog_pages dl' = dlog_pages sample_dlog"
  using init_oldest_xmin_correct [of "0xFFFFFFF0" 100 "sample_dlog\<lparr>dlog_oldestXmin := 0\<rparr>"]
  by (auto simp: in_window_def xid_offset_def xid_defs ENTRIES_PER_PAGE_def)

end
