(* ===== verification/DistribSnapshot.thy ===== *)
theory DistribSnapshot
  imports DistributedLog
begin

text \<open>Distributed snapshots, \<^verbatim>\<open>src/backend/cdb/cdbdistributedsnapshot.c\<close>: the test of a local
  identifier against a distributed snapshot, with its two caches, and the serialised form a snapshot
  has on the wire. The \<^verbatim>\<open>int32\<close> counts are never negative and are natural numbers here; an
  array is a list with the allocated length. \<^verbatim>\<open>memcpy\<close> of an integer is its little-endian
  bytes.\<close>

section \<open>Data\<close>

record DistributedSnapshot =
  xminAllDistributedSnapshots :: DistributedTransactionId
  distribSnapshotId :: uint32
  ds_xmin :: DistributedTransactionId
  ds_xmax :: DistributedTransactionId
  ds_count :: nat
  inProgressXidArray :: "DistributedTransactionId list"

record DistributedSnapshotWithLocalMapping =
  ds :: DistributedSnapshot
  minCachedLocalXid :: TransactionId
  maxCachedLocalXid :: TransactionId
  currentLocalXidsCount :: nat
  inProgressMappedLocalXids :: "TransactionId list"

datatype DistributedSnapshotCommitted =
    DISTRIBUTEDSNAPSHOT_COMMITTED_NONE
  | DISTRIBUTEDSNAPSHOT_COMMITTED_INPROGRESS
  | DISTRIBUTEDSNAPSHOT_COMMITTED_VISIBLE
  | DISTRIBUTEDSNAPSHOT_COMMITTED_UNKNOWN
  | DISTRIBUTEDSNAPSHOT_COMMITTED_IGNORE

section \<open>The committed test\<close>

text \<open>The quick check against the local identifiers known to be in progress.\<close>

definition known_in_progress :: "DistributedSnapshotWithLocalMapping \<Rightarrow> TransactionId \<Rightarrow> bool" where
  "known_in_progress dslm localXid \<longleftrightarrow>
     currentLocalXidsCount dslm > 0 \<and>
     (localXid = minCachedLocalXid dslm \<or> localXid = maxCachedLocalXid dslm \<or>
      TransactionIdFollows localXid (minCachedLocalXid dslm) \<and>
      TransactionIdPrecedes localXid (maxCachedLocalXid dslm) \<and>
      localXid \<in> set (take (currentLocalXidsCount dslm) (inProgressMappedLocalXids dslm)))"

text \<open>The search of the array of distributed transactions in progress, left early at a greater one.\<close>

fun search_in_progress :: "DistributedTransactionId \<Rightarrow> DistributedTransactionId list \<Rightarrow> bool" where
  "search_in_progress gxid [] = False"
| "search_in_progress gxid (g # gs) =
     (if gxid = g then True else if gxid < g then False else search_in_progress gxid gs)"

text \<open>The relationship to the local identifier is saved while there is room.\<close>

definition save_local_xid ::
  "TransactionId \<Rightarrow> DistributedSnapshotWithLocalMapping \<Rightarrow> DistributedSnapshotWithLocalMapping" where
  "save_local_xid localXid dslm =
     (if currentLocalXidsCount dslm < ds_count (ds dslm)
      then
        let n = currentLocalXidsCount dslm;
            mn = minCachedLocalXid dslm; mx = maxCachedLocalXid dslm
        in dslm\<lparr>inProgressMappedLocalXids := (inProgressMappedLocalXids dslm)[n := localXid],
                currentLocalXidsCount := n + 1,
                minCachedLocalXid :=
                  (if \<not> TransactionIdIsValid mn \<or> TransactionIdPrecedes localXid mn then localXid else mn),
                maxCachedLocalXid :=
                  (if \<not> TransactionIdIsValid mx \<or> TransactionIdFollows localXid mx then localXid else mx)\<rparr>
      else dslm)"

text \<open>The part of the test after the distributed identifier is known.\<close>

definition judge_distrib_xid ::
  "DistributedTransactionId \<Rightarrow> TransactionId \<Rightarrow> bool \<Rightarrow> DistributedSnapshotWithLocalMapping \<Rightarrow>
   DistributedSnapshotCommitted \<times> DistributedSnapshotWithLocalMapping" where
  "judge_distrib_xid gxid localXid isVacuumCheck dslm =
     (let d = ds dslm
      in if gxid < xminAllDistributedSnapshots d then (DISTRIBUTEDSNAPSHOT_COMMITTED_IGNORE, dslm)
         else if isVacuumCheck then (DISTRIBUTEDSNAPSHOT_COMMITTED_INPROGRESS, dslm)
         else if gxid < ds_xmin d then (DISTRIBUTEDSNAPSHOT_COMMITTED_VISIBLE, dslm)
         else if gxid \<ge> ds_xmax d then (DISTRIBUTEDSNAPSHOT_COMMITTED_INPROGRESS, dslm)
         else if search_in_progress gxid (take (ds_count d) (inProgressXidArray d))
         then (DISTRIBUTEDSNAPSHOT_COMMITTED_INPROGRESS, save_local_xid localXid dslm)
         else (DISTRIBUTEDSNAPSHOT_COMMITTED_VISIBLE, dslm))"

definition DistributedSnapshotWithLocalMapping_CommittedTest ::
  "nat \<Rightarrow> DistributedLogState \<Rightarrow> TransactionId \<Rightarrow> bool \<Rightarrow>
   DistributedSnapshotWithLocalMapping \<Rightarrow> LocalDistribXactCache \<Rightarrow>
   (DistributedSnapshotCommitted \<times> DistributedSnapshotWithLocalMapping \<times> LocalDistribXactCache) result" where
  "DistributedSnapshotWithLocalMapping_CommittedTest max_cache dl localXid isVacuumCheck dslm cache =
     (if \<not> TransactionIdIsNormal localXid then Inr (DISTRIBUTEDSNAPSHOT_COMMITTED_IGNORE, dslm, cache)
      else if known_in_progress dslm localXid
      then Inr (DISTRIBUTEDSNAPSHOT_COMMITTED_INPROGRESS, dslm, cache)
      else
        case LocalDistribXactCache_CommittedFind max_cache localXid cache of
          (Some gxid, cache) \<Rightarrow>
            (case judge_distrib_xid gxid localXid isVacuumCheck dslm of (r, dslm) \<Rightarrow> Inr (r, dslm, cache))
        | (None, cache) \<Rightarrow>
            (case DistributedLog_CommittedCheck localXid dl of
               Inl e \<Rightarrow> Inl e
             | Inr None \<Rightarrow> Inr (DISTRIBUTEDSNAPSHOT_COMMITTED_UNKNOWN, dslm, cache)
             | Inr (Some gxid) \<Rightarrow>
                 (case LocalDistribXactCache_AddCommitted max_cache localXid gxid cache of
                    Inl e \<Rightarrow> Inl e
                  | Inr cache \<Rightarrow>
                      (case judge_distrib_xid gxid localXid isVacuumCheck dslm of
                         (r, dslm) \<Rightarrow> Inr (r, dslm, cache)))))"

section \<open>Copying and serialising\<close>

text \<open>\<^verbatim>\<open>GetMaxSnapshotDistributedXidCount\<close> is the argument \<open>maxCount\<close>; a null array is the empty
  list, and a fresh array has unspecified contents, the argument \<open>junk\<close>.\<close>

definition allocate_array :: "DistributedTransactionId list \<Rightarrow> DistributedTransactionId list \<Rightarrow> DistributedTransactionId list" where
  "allocate_array junk xs = (if xs = [] then junk else xs)"

definition DistributedSnapshot_Reset :: "DistributedTransactionId list \<Rightarrow> DistributedSnapshot \<Rightarrow> DistributedSnapshot" where
  "DistributedSnapshot_Reset junk d =
     d\<lparr>xminAllDistributedSnapshots := InvalidDistributedTransactionId, distribSnapshotId := 0,
       ds_xmin := InvalidDistributedTransactionId, ds_xmax := InvalidDistributedTransactionId, ds_count := 0,
       inProgressXidArray := allocate_array junk (inProgressXidArray d)\<rparr>"

text \<open>\<^verbatim>\<open>memcpy\<close> of the first elements of an array over another one.\<close>

definition copy_array :: "nat \<Rightarrow> 'a list \<Rightarrow> 'a list \<Rightarrow> 'a list" where
  "copy_array n source target = take n source @ drop n target"

definition DistributedSnapshot_Copy ::
  "DistributedTransactionId list \<Rightarrow> DistributedSnapshot \<Rightarrow> DistributedSnapshot \<Rightarrow> DistributedSnapshot" where
  "DistributedSnapshot_Copy junk target source =
     (let target = DistributedSnapshot_Reset junk target;
          target = target\<lparr>xminAllDistributedSnapshots := xminAllDistributedSnapshots source,
            distribSnapshotId := distribSnapshotId source, ds_xmin := ds_xmin source, ds_xmax := ds_xmax source,
            ds_count := ds_count source\<rparr>
      in if ds_count source = 0 then target
         else target\<lparr>inProgressXidArray :=
                copy_array (ds_count source) (inProgressXidArray source) (inProgressXidArray target)\<rparr>)"

definition DistributedSnapshot_SerializeSize :: "DistributedSnapshot \<Rightarrow> nat" where
  "DistributedSnapshot_SerializeSize d = 4 + 3 * 8 + 4 + 8 * ds_count d"

text \<open>The bytes of an unsigned integer, least significant first, and back.\<close>

fun to_bytes :: "nat \<Rightarrow> nat \<Rightarrow> uint8 list" where
  "to_bytes 0 v = []"
| "to_bytes (Suc n) v = of_nat (v mod 256) # to_bytes n (v div 256)"

fun from_bytes :: "uint8 list \<Rightarrow> nat" where
  "from_bytes [] = 0"
| "from_bytes (b # bs) = unat b + 256 * from_bytes bs"

definition DistributedSnapshot_Serialize :: "DistributedSnapshot \<Rightarrow> uint8 list" where
  "DistributedSnapshot_Serialize d =
     to_bytes 8 (unat (xminAllDistributedSnapshots d)) @ to_bytes 4 (unat (distribSnapshotId d)) @
     to_bytes 8 (unat (ds_xmin d)) @ to_bytes 8 (unat (ds_xmax d)) @ to_bytes 4 (ds_count d) @
     concat (map (\<lambda>g. to_bytes 8 (unat g)) (take (ds_count d) (inProgressXidArray d)))"

text \<open>A read at an offset of the buffer.\<close>

definition read_at :: "uint8 list \<Rightarrow> nat \<Rightarrow> nat \<Rightarrow> nat" where
  "read_at buf p n = from_bytes (take n (drop p buf))"

text \<open>The result is the number of bytes consumed and the snapshot filled in. A count that reads as a
  negative \<^verbatim>\<open>int32\<close> has the effect of 0.\<close>

definition DistributedSnapshot_Deserialize ::
  "DistributedTransactionId list \<Rightarrow> uint8 list \<Rightarrow> DistributedSnapshot \<Rightarrow> nat \<times> DistributedSnapshot" where
  "DistributedSnapshot_Deserialize junk buf d =
     (let d = d\<lparr>xminAllDistributedSnapshots := of_nat (read_at buf 0 8),
                distribSnapshotId := of_nat (read_at buf 8 4),
                ds_xmin := of_nat (read_at buf 12 8), ds_xmax := of_nat (read_at buf 20 8),
                ds_count := nat (sint (of_nat (read_at buf 28 4) :: uint32))\<rparr>
      in if ds_count d > 0
         then (32 + 8 * ds_count d,
               d\<lparr>inProgressXidArray :=
                   copy_array (ds_count d) (map (\<lambda>i. of_nat (read_at buf (32 + 8 * i) 8)) [0 ..< ds_count d])
                     (allocate_array junk (inProgressXidArray d))\<rparr>)
         else (32, d))"

section \<open>Correctness of the test\<close>

text \<open>The distributed identifier recorded for a local one, and what the snapshot says about it when
  there are no caches.\<close>

definition gxid_of :: "dlog_pages \<Rightarrow> TransactionId \<Rightarrow> DistributedTransactionId option" where
  "gxid_of pages xid = (if logged pages xid = 0 then None else Some (logged pages xid))"

definition running_gxids :: "DistributedSnapshot \<Rightarrow> DistributedTransactionId set" where
  "running_gxids d = set (take (ds_count d) (inProgressXidArray d))"

definition snapshot_verdict :: "DistributedSnapshot \<Rightarrow> bool \<Rightarrow> DistributedTransactionId option \<Rightarrow> DistributedSnapshotCommitted" where
  "snapshot_verdict d isVacuumCheck g =
     (case g of
        None \<Rightarrow> DISTRIBUTEDSNAPSHOT_COMMITTED_UNKNOWN
      | Some gxid \<Rightarrow>
          if gxid < xminAllDistributedSnapshots d then DISTRIBUTEDSNAPSHOT_COMMITTED_IGNORE
          else if isVacuumCheck \<or> ds_xmin d \<le> gxid \<and> (ds_xmax d \<le> gxid \<or> gxid \<in> running_gxids d)
          then DISTRIBUTEDSNAPSHOT_COMMITTED_INPROGRESS
          else DISTRIBUTEDSNAPSHOT_COMMITTED_VISIBLE)"

text \<open>A snapshot as \<^verbatim>\<open>CreateDistributedSnapshot\<close> makes it, and the state of the map of local
  identifiers: every one it names belongs to a running distributed transaction of the snapshot.\<close>

definition ds_ok :: "DistributedSnapshot \<Rightarrow> bool" where
  "ds_ok d \<longleftrightarrow> sorted (take (ds_count d) (inProgressXidArray d)) \<and>
     xminAllDistributedSnapshots d \<le> ds_xmin d \<and> ds_count d \<le> length (inProgressXidArray d)"

definition mapped_ok :: "dlog_pages \<Rightarrow> DistributedSnapshot \<Rightarrow> TransactionId \<Rightarrow> bool" where
  "mapped_ok pages d xid \<longleftrightarrow> TransactionIdIsValid xid \<and>
     (\<exists>g. gxid_of pages xid = Some g \<and> g \<in> running_gxids d \<and> ds_xmin d \<le> g)"

definition dslm_ok :: "dlog_pages \<Rightarrow> DistributedSnapshotWithLocalMapping \<Rightarrow> bool" where
  "dslm_ok pages dslm \<longleftrightarrow> ds_ok (ds dslm) \<and>
     currentLocalXidsCount dslm \<le> ds_count (ds dslm) \<and>
     ds_count (ds dslm) \<le> length (inProgressMappedLocalXids dslm) \<and>
     (\<forall>x \<in> set (take (currentLocalXidsCount dslm) (inProgressMappedLocalXids dslm)). mapped_ok pages (ds dslm) x) \<and>
     (if currentLocalXidsCount dslm = 0
      then minCachedLocalXid dslm = InvalidTransactionId \<and> maxCachedLocalXid dslm = InvalidTransactionId
      else {minCachedLocalXid dslm, maxCachedLocalXid dslm} \<subseteq>
             set (take (currentLocalXidsCount dslm) (inProgressMappedLocalXids dslm)))"

lemma search_in_progress_iff: "sorted gs \<Longrightarrow> search_in_progress g gs \<longleftrightarrow> g \<in> set gs"
  by (induction gs) (auto simp: order.strict_iff_order)

lemma known_in_progress_mapped:
  assumes "dslm_ok pages dslm" "known_in_progress dslm xid"
  shows "mapped_ok pages (ds dslm) xid"
  using assms by (auto simp: dslm_ok_def known_in_progress_def split: if_splits)

lemma take_Suc_update: "n < length xs \<Longrightarrow> take (Suc n) (xs[n := x]) = take n xs @ [x]"
  by (simp add: take_Suc_conv_app_nth)

lemma save_local_xid_ok:
  assumes "dslm_ok pages dslm" "mapped_ok pages (ds dslm) xid"
  shows "dslm_ok pages (save_local_xid xid dslm)" and "ds (save_local_xid xid dslm) = ds dslm"
proof -
  show "ds (save_local_xid xid dslm) = ds dslm" by (simp add: save_local_xid_def Let_def)
  show "dslm_ok pages (save_local_xid xid dslm)"
  proof (cases "currentLocalXidsCount dslm < ds_count (ds dslm)")
    case True
    then have n: "currentLocalXidsCount dslm < length (inProgressMappedLocalXids dslm)"
      using assms(1) by (auto simp: dslm_ok_def)
    show ?thesis
      using True assms take_Suc_update [OF n]
      by (auto simp: save_local_xid_def dslm_ok_def TransactionIdIsValid_def Let_def split: if_splits)
  qed (use assms in \<open>simp add: save_local_xid_def\<close>)
qed

lemma judge_spec:
  assumes ok: "dslm_ok pages dslm" and g: "gxid_of pages xid = Some g" and valid: "TransactionIdIsNormal xid"
  shows "fst (judge_distrib_xid g xid vac dslm) = snapshot_verdict (ds dslm) vac (Some g)"
    and "dslm_ok pages (snd (judge_distrib_xid g xid vac dslm))"
    and "ds (snd (judge_distrib_xid g xid vac dslm)) = ds dslm"
proof -
  have s: "search_in_progress g (take (ds_count (ds dslm)) (inProgressXidArray (ds dslm))) \<longleftrightarrow> g \<in> running_gxids (ds dslm)"
    using ok by (simp add: dslm_ok_def ds_ok_def search_in_progress_iff running_gxids_def)
  show "fst (judge_distrib_xid g xid vac dslm) = snapshot_verdict (ds dslm) vac (Some g)"
    using s by (auto simp: judge_distrib_xid_def snapshot_verdict_def Let_def not_less not_le)
  have m: "mapped_ok pages (ds dslm) xid" if "g \<in> running_gxids (ds dslm)" "ds_xmin (ds dslm) \<le> g"
    using that g valid by (auto simp: mapped_ok_def xid_defs)
  show "dslm_ok pages (snd (judge_distrib_xid g xid vac dslm))"
    "ds (snd (judge_distrib_xid g xid vac dslm)) = ds dslm"
    using ok m save_local_xid_ok [OF ok] s by (auto simp: judge_distrib_xid_def Let_def not_less)
qed

lemma known_in_progress_verdict:
  assumes "dslm_ok pages dslm" "known_in_progress dslm xid"
  shows "snapshot_verdict (ds dslm) vac (gxid_of pages xid) = DISTRIBUTEDSNAPSHOT_COMMITTED_INPROGRESS"
proof -
  from known_in_progress_mapped [OF assms(1,2)] obtain g where g: "gxid_of pages xid = Some g"
    "g \<in> running_gxids (ds dslm)" "ds_xmin (ds dslm) \<le> g" by (auto simp: mapped_ok_def)
  moreover have "xminAllDistributedSnapshots (ds dslm) \<le> ds_xmin (ds dslm)"
    using assms(1) by (simp add: dslm_ok_def ds_ok_def)
  ultimately show ?thesis by (auto simp: snapshot_verdict_def)
qed

text \<open>The log gives the recorded identifier, unless it lies before the oldest one and is of no
  interest to any distributed snapshot; the cache holds only recorded pairs.\<close>

definition log_answers :: "DistributedLogState \<Rightarrow> DistributedSnapshot \<Rightarrow> TransactionId \<Rightarrow> bool" where
  "log_answers dl d xid \<longleftrightarrow>
     DistributedLog_CommittedCheck xid dl = Inr (gxid_of (dlog_pages dl) xid) \<or>
     DistributedLog_CommittedCheck xid dl = Inr None \<and> logged (dlog_pages dl) xid < xminAllDistributedSnapshots d"

definition cache_coherent :: "nat \<Rightarrow> dlog_pages \<Rightarrow> LocalDistribXactCache \<Rightarrow> bool" where
  "cache_coherent max_cache pages cache \<longleftrightarrow> cache_inv max_cache cache \<and>
     (\<forall>x g. cache_lookup cache x = Some g \<longrightarrow> gxid_of pages x = Some g)"

lemma committed_test_spec:
  assumes ok: "dslm_ok (dlog_pages dl) dslm" and coh: "cache_coherent max_cache (dlog_pages dl) cache"
    and log: "log_answers dl (ds dslm) xid" and normal: "TransactionIdIsNormal xid"
  shows "\<exists>r dslm' cache'.
    DistributedSnapshotWithLocalMapping_CommittedTest max_cache dl xid vac dslm cache = Inr (r, dslm', cache') \<and>
    dslm_ok (dlog_pages dl) dslm' \<and> ds dslm' = ds dslm \<and> cache_coherent max_cache (dlog_pages dl) cache' \<and>
    (let verdict = snapshot_verdict (ds dslm) vac (gxid_of (dlog_pages dl) xid)
     in r = verdict \<or>
        verdict = DISTRIBUTEDSNAPSHOT_COMMITTED_IGNORE \<and> r = DISTRIBUTEDSNAPSHOT_COMMITTED_UNKNOWN)"
proof (cases "known_in_progress dslm xid")
  case True
  then show ?thesis using known_in_progress_verdict [OF ok True] ok coh normal
    by (simp add: DistributedSnapshotWithLocalMapping_CommittedTest_def)
next
  case unknown: False
  let ?f = "gxid_of (dlog_pages dl)"
  obtain hit cache1 where find: "LocalDistribXactCache_CommittedFind max_cache xid cache = (hit, cache1)" by fastforce
  have pairs: "\<And>j w. cache_lookup cache j = Some w \<Longrightarrow> ?f j = Some w" and inv: "cache_inv max_cache cache"
    using coh by (auto simp: cache_coherent_def)
  note memo = xact_cache.memo_transparent [of max_cache cache ?f, OF inv pairs find]
  have coh1: "cache_coherent max_cache (dlog_pages dl) cache1"
    unfolding cache_coherent_def using memo(1,2) by blast
  note start = DistributedSnapshotWithLocalMapping_CommittedTest_def [of max_cache dl xid vac dslm cache]
  show ?thesis
  proof (cases hit)
    case (Some g)
    then have g: "?f xid = Some g" using memo(3) by blast
    show ?thesis
      using judge_spec [OF ok g normal, of vac] coh1 g Some find unknown normal
      by (simp add: start case_prod_beta Let_def)
  next
    case None
    show ?thesis
    proof (cases "DistributedLog_CommittedCheck xid dl = Inr None")
      case True
      have "r = snapshot_verdict (ds dslm) vac (?f xid) \<or>
          snapshot_verdict (ds dslm) vac (?f xid) = DISTRIBUTEDSNAPSHOT_COMMITTED_IGNORE"
        if "r = DISTRIBUTEDSNAPSHOT_COMMITTED_UNKNOWN" for r
        using log True that by (auto simp: log_answers_def snapshot_verdict_def gxid_of_def split: if_splits)
      then show ?thesis using ok coh1 True None find unknown normal by (auto simp: start Let_def)
    next
      case False
      then obtain g where g: "?f xid = Some g" "DistributedLog_CommittedCheck xid dl = Inr (Some g)"
        using log by (cases "?f xid") (auto simp: log_answers_def)
      obtain cache2 where c2: "LocalDistribXactCache_AddCommitted max_cache xid g cache1 = Inr cache2"
        "cache_inv max_cache cache2" "\<forall>j w. cache_lookup cache2 j = Some w \<longrightarrow> ?f j = Some w"
        using memo(4) [OF _ None g(1)] by blast
      then have "cache_coherent max_cache (dlog_pages dl) cache2" by (simp add: cache_coherent_def)
      then show ?thesis
        using judge_spec [OF ok g(1) normal, of vac] g c2(1) None find unknown normal
        by (simp add: start case_prod_beta Let_def)
    qed
  qed
qed

section \<open>Round trip\<close>

lemma length_to_bytes [simp]: "length (to_bytes n v) = n"
  by (induction n arbitrary: v) auto

lemma from_to_bytes [simp]: "from_bytes (to_bytes n v) = v mod 256 ^ n"
proof (induction n arbitrary: v)
  case (Suc n)
  have "v mod 256 + 256 * (v div 256 mod 256 ^ n) = v mod (256 * 256 ^ n)" by (simp add: mod_mult2_eq)
  then show ?case using Suc by (simp add: unat_of_nat)
qed simp

lemma length_concat_bytes: "length (concat (map (\<lambda>g. to_bytes 8 (unat g)) gs)) = 8 * length gs"
  by (induction gs) auto

lemma read_chunk:
  "i < length gs \<Longrightarrow>
   take 8 (drop (8 * i) (concat (map (\<lambda>g. to_bytes 8 (unat g)) gs) @ rest)) = to_bytes 8 (unat (gs ! i))"
proof (induction gs arbitrary: i)
  case (Cons g gs)
  then show ?case by (cases i) (auto simp: algebra_simps)
qed simp

lemma read_words:
  fixes w :: uint64 and v :: uint32
  shows "of_nat (unat w mod 256 ^ 8) = w" "of_nat (unat v mod 256 ^ 4) = v"
proof -
  have "unat w < 2 ^ 64" "unat v < 2 ^ 32" using unsigned_less [of w] unsigned_less [of v] by simp_all
  then show "of_nat (unat w mod 256 ^ 8) = w" "of_nat (unat v mod 256 ^ 4) = v" by simp_all
qed

lemma read_at_append: "length pre = p \<Longrightarrow> read_at (pre @ to_bytes n v @ post) p n = v mod 256 ^ n"
  by (simp add: read_at_def)

lemma serialize_header:
  fixes d rest
  defines "buf \<equiv> DistributedSnapshot_Serialize d @ rest"
  shows "of_nat (read_at buf 0 8) = xminAllDistributedSnapshots d" "of_nat (read_at buf 8 4) = distribSnapshotId d"
    "of_nat (read_at buf 12 8) = ds_xmin d" "of_nat (read_at buf 20 8) = ds_xmax d"
    "read_at buf 28 4 = ds_count d mod 2 ^ 32"
proof -
  note split = buf_def DistributedSnapshot_Serialize_def append_assoc
  show "of_nat (read_at buf 0 8) = xminAllDistributedSnapshots d"
    using read_at_append [of "[]" 0] by (simp add: split read_words [simplified])
  show "of_nat (read_at buf 8 4) = distribSnapshotId d"
    using read_at_append [of "to_bytes 8 (unat (xminAllDistributedSnapshots d))" 8] by (simp add: split read_words [simplified])
  show "of_nat (read_at buf 12 8) = ds_xmin d"
    using read_at_append [of "to_bytes 8 (unat (xminAllDistributedSnapshots d)) @ to_bytes 4 (unat (distribSnapshotId d))" 12]
    by (simp add: split read_words [simplified])
  show "of_nat (read_at buf 20 8) = ds_xmax d"
    using read_at_append [of "to_bytes 8 (unat (xminAllDistributedSnapshots d)) @ to_bytes 4 (unat (distribSnapshotId d)) @
      to_bytes 8 (unat (ds_xmin d))" 20] by (simp add: split read_words [simplified])
  show "read_at buf 28 4 = ds_count d mod 2 ^ 32"
    using read_at_append [of "to_bytes 8 (unat (xminAllDistributedSnapshots d)) @ to_bytes 4 (unat (distribSnapshotId d)) @
      to_bytes 8 (unat (ds_xmin d)) @ to_bytes 8 (unat (ds_xmax d))" 28] by (simp add: split)
qed

lemma serialize_element:
  assumes "i < ds_count d" "ds_count d \<le> length (inProgressXidArray d)"
  shows "of_nat (read_at (DistributedSnapshot_Serialize d @ rest) (32 + 8 * i) 8) = inProgressXidArray d ! i"
proof -
  define gs where "gs = take (ds_count d) (inProgressXidArray d)"
  define header where "header = to_bytes 8 (unat (xminAllDistributedSnapshots d)) @ to_bytes 4 (unat (distribSnapshotId d)) @
     to_bytes 8 (unat (ds_xmin d)) @ to_bytes 8 (unat (ds_xmax d)) @ to_bytes 4 (ds_count d)"
  have "DistributedSnapshot_Serialize d @ rest = header @ (concat (map (\<lambda>g. to_bytes 8 (unat g)) gs) @ rest)"
    by (simp add: DistributedSnapshot_Serialize_def header_def gs_def)
  moreover have "length header = 32" by (simp add: header_def)
  ultimately have "take 8 (drop (32 + 8 * i) (DistributedSnapshot_Serialize d @ rest)) = to_bytes 8 (unat (gs ! i))"
    using read_chunk [of i gs rest] assms by (simp add: gs_def)
  then show ?thesis using assms(1) by (simp add: read_at_def read_words(1) [simplified] gs_def)
qed

section \<open>Properties\<close>

definition sample_dslm :: DistributedSnapshotWithLocalMapping where
  "sample_dslm = \<lparr>ds = \<lparr>xminAllDistributedSnapshots = 60, distribSnapshotId = 1, ds_xmin = 65, ds_xmax = 90,
      ds_count = 2, inProgressXidArray = [70, 80]\<rparr>,
    minCachedLocalXid = 0, maxCachedLocalXid = 0, currentLocalXidsCount = 0, inProgressMappedLocalXids = [0, 0]\<rparr>"

text \<open>C31: the committed test of a normal local identifier never fails and agrees with the definition
  without caches, on the distributed identifier the log records. The one difference is harmless: a
  transaction older than all distributed snapshots may be reported as unknown rather than as one to
  ignore. The map of running local identifiers, the backend's cache and the snapshot itself stay
  right, so the next test agrees as well.\<close>

theorem committed_test_correct:
  assumes "dslm_ok (dlog_pages dl) dslm" "cache_coherent max_cache (dlog_pages dl) cache"
    "log_answers dl (ds dslm) xid" "TransactionIdIsNormal xid"
  shows "\<exists>r dslm' cache'.
    DistributedSnapshotWithLocalMapping_CommittedTest max_cache dl xid vac dslm cache = Inr (r, dslm', cache') \<and>
    dslm_ok (dlog_pages dl) dslm' \<and> ds dslm' = ds dslm \<and> cache_coherent max_cache (dlog_pages dl) cache' \<and>
    (let verdict = snapshot_verdict (ds dslm) vac (gxid_of (dlog_pages dl) xid)
     in r = verdict \<or>
        verdict = DISTRIBUTEDSNAPSHOT_COMMITTED_IGNORE \<and> r = DISTRIBUTEDSNAPSHOT_COMMITTED_UNKNOWN)"
  using assms by (rule committed_test_spec)

theorem committed_test_correct_witness:
  "\<exists>dslm' cache'. DistributedSnapshotWithLocalMapping_CommittedTest 4 sample_dlog 7 False sample_dslm empty_cache =
     Inr (DISTRIBUTEDSNAPSHOT_COMMITTED_INPROGRESS, dslm', cache')"
proof -
  have l: "logged (dlog_pages sample_dlog) 7 = 70" by (simp add: dlog_eval)
  have 1: "dslm_ok (dlog_pages sample_dlog) sample_dslm"
    by (simp add: dslm_ok_def ds_ok_def sample_dslm_def InvalidTransactionId_def)
  have 2: "cache_coherent 4 (dlog_pages sample_dlog) empty_cache"
    by (simp add: cache_coherent_def empty_cache_inv) (simp add: empty_cache_def cache_lookup_def)
  have 3: "log_answers sample_dlog (ds sample_dslm) 7"
    using l by (simp add: log_answers_def DistributedLog_CommittedCheck_def DistributedLog_GetDistributedXid_def gxid_of_def
        TransactionIdPrecedes_def sample_dlog_def xid_defs TransactionIdToPage_def TransactionIdToEntry_def ENTRIES_PER_PAGE_def)
  have 4: "TransactionIdIsNormal 7" by (simp add: xid_defs)
  have "snapshot_verdict (ds sample_dslm) False (gxid_of (dlog_pages sample_dlog) 7) = DISTRIBUTEDSNAPSHOT_COMMITTED_INPROGRESS"
    using l by (simp add: snapshot_verdict_def gxid_of_def running_gxids_def sample_dslm_def)
  then show ?thesis using committed_test_correct [OF 1 2 3 4, of False] by auto
qed

text \<open>deserialising the bytes of a snapshot, whatever follows them in the buffer and whatever the
  target held, consumes exactly the serialised size, which is the number of bytes written, and gives
  back every field and the running distributed transactions.\<close>

theorem snapshot_serialize_roundtrip:
  assumes "ds_count d < 2 ^ 31" "ds_count d \<le> length (inProgressXidArray d)"
  shows "length (DistributedSnapshot_Serialize d) = DistributedSnapshot_SerializeSize d \<and>
    (case DistributedSnapshot_Deserialize junk (DistributedSnapshot_Serialize d @ rest) target of
       (n, d') \<Rightarrow> n = DistributedSnapshot_SerializeSize d \<and>
         xminAllDistributedSnapshots d' = xminAllDistributedSnapshots d \<and> distribSnapshotId d' = distribSnapshotId d \<and>
         ds_xmin d' = ds_xmin d \<and> ds_xmax d' = ds_xmax d \<and> ds_count d' = ds_count d \<and>
         take (ds_count d) (inProgressXidArray d') = take (ds_count d) (inProgressXidArray d))"
proof -
  let ?buf = "DistributedSnapshot_Serialize d @ rest"
  have size: "length (DistributedSnapshot_Serialize d) = DistributedSnapshot_SerializeSize d"
    using assms(2) by (simp add: DistributedSnapshot_Serialize_def DistributedSnapshot_SerializeSize_def length_concat_bytes)
  have u: "unat (of_nat (ds_count d) :: uint32) = ds_count d" using assms(1) by (simp add: unat_of_nat)
  have "sint (of_nat (ds_count d) :: uint32) = int (ds_count d)"
    using sint_diff_small [of "of_nat (ds_count d)" 0] assms(1) u by simp
  then have cnt: "nat (sint (of_nat (read_at ?buf 28 4) :: uint32)) = ds_count d"
    using serialize_header(5) [of d rest] assms(1) by simp
  have arr: "map (\<lambda>i. of_nat (read_at ?buf (32 + 8 * i) 8)) [0 ..< ds_count d] = take (ds_count d) (inProgressXidArray d)"
    using serialize_element assms(2) by (intro nth_equalityI) auto
  show ?thesis
    using size cnt arr serialize_header(1-4) [of d rest] assms(2)
    by (auto simp: DistributedSnapshot_Deserialize_def DistributedSnapshot_SerializeSize_def copy_array_def Let_def)
qed

theorem snapshot_serialize_roundtrip_witness:
  "fst (DistributedSnapshot_Deserialize [] (DistributedSnapshot_Serialize (ds sample_dslm) @ [1, 2]) (ds sample_dslm)) = 48"
  using snapshot_serialize_roundtrip [of "ds sample_dslm" "[]" "[1, 2]" "ds sample_dslm"]
  by (auto simp: sample_dslm_def DistributedSnapshot_SerializeSize_def split: prod.splits)

end
