(* ===== verification/SnapshotTest.thy ===== *)
theory SnapshotTest
  imports SubTrans DistribSnapshot
begin

text \<open>The test whether a transaction counts as in progress for a snapshot,
  \<^verbatim>\<open>XidInMVCCSnapshot\<close> and \<^verbatim>\<open>XidInMVCCSnapshot_Local\<close> of
  \<^verbatim>\<open>src/backend/utils/time/snapmgr.c\<close>, over the distributed test, the log of subtransactions and
  the arrays of the local snapshot. The arrays with their counts are lists.\<close>

section \<open>Snapshots\<close>

datatype SnapshotType =
    SNAPSHOT_MVCC
  | SNAPSHOT_SELF
  | SNAPSHOT_ANY
  | SNAPSHOT_TOAST
  | SNAPSHOT_DIRTY
  | SNAPSHOT_HISTORIC_MVCC
  | SNAPSHOT_NON_VACUUMABLE

type_synonym CommandId = uint32

record SnapshotData =
  snapshot_type :: SnapshotType
  snap_xmin :: TransactionId
  snap_xmax :: TransactionId
  xip :: "TransactionId list"
  subxip :: "TransactionId list"
  suboverflowed :: bool
  takenDuringRecovery :: bool
  haveDistribSnapshot :: bool
  curcid :: CommandId
  speculativeToken :: uint32
  distribSnapshotWithLocalMapping :: DistributedSnapshotWithLocalMapping

datatype XidInMVCCSnapshotCheckResult =
    XID_NOT_IN_SNAPSHOT
  | XID_IN_SNAPSHOT
  | XID_SURELY_COMMITTED

text \<open>What the tests read from the backend: whether it is the dispatcher, the size of the cache, the
  distributed log and the log of subtransactions.\<close>

record SnapshotEnv =
  IS_QUERY_DISPATCHER :: bool
  gp_max_local_distributed_cache :: nat
  env_dlog :: DistributedLogState
  env_subtrans :: subtrans_log

section \<open>The tests\<close>

definition XidInMVCCSnapshot_Local :: "subtrans_log \<Rightarrow> TransactionId \<Rightarrow> SnapshotData \<Rightarrow> bool" where
  "XidInMVCCSnapshot_Local log xid snapshot =
     (if TransactionIdPrecedes xid (snap_xmin snapshot) then False
      else if TransactionIdFollowsOrEquals xid (snap_xmax snapshot) then True
      else if \<not> takenDuringRecovery snapshot
      then (if \<not> suboverflowed snapshot
            then (if xid \<in> set (subxip snapshot) then True else xid \<in> set (xip snapshot))
            else let xid = SubTransGetTopmostTransaction log xid
                 in if TransactionIdPrecedes xid (snap_xmin snapshot) then False else xid \<in> set (xip snapshot))
      else (if suboverflowed snapshot
            then let xid = SubTransGetTopmostTransaction log xid
                 in if TransactionIdPrecedes xid (snap_xmin snapshot) then False else xid \<in> set (subxip snapshot)
            else xid \<in> set (subxip snapshot)))"

definition xid_check_result :: "bool \<Rightarrow> XidInMVCCSnapshotCheckResult" where
  "xid_check_result running = (if running then XID_IN_SNAPSHOT else XID_NOT_IN_SNAPSHOT)"

text \<open>The result is the answer, the flag \<^verbatim>\<open>*setDistributedSnapshotIgnore\<close>, and the snapshot and
  the cache afterwards.\<close>

definition XidInMVCCSnapshot ::
  "SnapshotEnv \<Rightarrow> TransactionId \<Rightarrow> bool \<Rightarrow> SnapshotData \<Rightarrow> LocalDistribXactCache \<Rightarrow>
   (XidInMVCCSnapshotCheckResult \<times> bool \<times> SnapshotData \<times> LocalDistribXactCache) result" where
  "XidInMVCCSnapshot env xid distributedSnapshotIgnore snapshot cache =
     (let local = xid_check_result (XidInMVCCSnapshot_Local (env_subtrans env) xid snapshot)
      in if haveDistribSnapshot snapshot \<and> \<not> distributedSnapshotIgnore \<and> \<not> IS_QUERY_DISPATCHER env
         then (if \<not> TransactionIdIsNormal xid then Inr (XID_NOT_IN_SNAPSHOT, False, snapshot, cache)
               else if TransactionIdFollowsOrEquals xid (snap_xmax snapshot)
               then Inr (XID_IN_SNAPSHOT, False, snapshot, cache)
               else
                 case DistributedSnapshotWithLocalMapping_CommittedTest (gp_max_local_distributed_cache env)
                        (env_dlog env) xid False (distribSnapshotWithLocalMapping snapshot) cache of
                   Inl e \<Rightarrow> Inl e
                 | Inr (r, dslm, cache) \<Rightarrow>
                     (let snapshot = snapshot\<lparr>distribSnapshotWithLocalMapping := dslm\<rparr>
                      in case r of
                           DISTRIBUTEDSNAPSHOT_COMMITTED_INPROGRESS \<Rightarrow> Inr (XID_IN_SNAPSHOT, False, snapshot, cache)
                         | DISTRIBUTEDSNAPSHOT_COMMITTED_VISIBLE \<Rightarrow> Inr (XID_SURELY_COMMITTED, False, snapshot, cache)
                         | DISTRIBUTEDSNAPSHOT_COMMITTED_IGNORE \<Rightarrow> Inr (local, True, snapshot, cache)
                         | DISTRIBUTEDSNAPSHOT_COMMITTED_UNKNOWN \<Rightarrow> Inr (local, False, snapshot, cache)
                         | DISTRIBUTEDSNAPSHOT_COMMITTED_NONE \<Rightarrow>
                             Inl (FATAL ''Unrecognized distributed committed test result'')))
         else Inr (local, False, snapshot, cache))"

section \<open>What a local snapshot records\<close>

text \<open>The arrays of a snapshot record a set \<open>running\<close> of transactions, subtransactions included: none
  older than \<^verbatim>\<open>xmin\<close> runs; a snapshot with all the subtransactions lists its members below
  \<^verbatim>\<open>xmax\<close>; one that overflowed lists only topmost transactions, and a subtransaction runs when
  its topmost transaction does. In recovery everything is in \<^verbatim>\<open>subxip\<close>.\<close>

definition listed :: "SnapshotData \<Rightarrow> TransactionId set" where
  "listed snapshot =
     (if takenDuringRecovery snapshot then set (subxip snapshot)
      else if suboverflowed snapshot then set (xip snapshot)
      else set (xip snapshot) \<union> set (subxip snapshot))"

definition records_running :: "subtrans_log \<Rightarrow> TransactionId set \<Rightarrow> SnapshotData \<Rightarrow> bool" where
  "records_running log running snapshot \<longleftrightarrow>
     (\<forall>x \<in> running. \<not> TransactionIdPrecedes x (snap_xmin snapshot)) \<and>
     (\<forall>x. \<not> TransactionIdPrecedes x (snap_xmin snapshot) \<and> \<not> TransactionIdFollowsOrEquals x (snap_xmax snapshot) \<longrightarrow>
        (if suboverflowed snapshot
         then let t = SubTransGetTopmostTransaction log x
              in (x \<in> running \<longleftrightarrow> t \<in> running) \<and>
                 (\<not> TransactionIdPrecedes t (snap_xmin snapshot) \<longrightarrow> (t \<in> running \<longleftrightarrow> t \<in> listed snapshot))
         else x \<in> running \<longleftrightarrow> x \<in> listed snapshot))"

lemma local_test_spec:
  assumes "records_running log running snapshot"
  shows "XidInMVCCSnapshot_Local log xid snapshot \<longleftrightarrow>
    \<not> TransactionIdPrecedes xid (snap_xmin snapshot) \<and>
    (TransactionIdFollowsOrEquals xid (snap_xmax snapshot) \<or> xid \<in> running)"
proof (cases "TransactionIdPrecedes xid (snap_xmin snapshot) \<or> TransactionIdFollowsOrEquals xid (snap_xmax snapshot)")
  case True
  then show ?thesis by (auto simp: XidInMVCCSnapshot_Local_def)
next
  case False
  then have "if suboverflowed snapshot
         then let t = SubTransGetTopmostTransaction log xid
              in (xid \<in> running \<longleftrightarrow> t \<in> running) \<and>
                 (\<not> TransactionIdPrecedes t (snap_xmin snapshot) \<longrightarrow> (t \<in> running \<longleftrightarrow> t \<in> listed snapshot))
         else xid \<in> running \<longleftrightarrow> xid \<in> listed snapshot"
    using assms unfolding records_running_def by blast
  moreover have "TransactionIdPrecedes t (snap_xmin snapshot) \<Longrightarrow> t \<notin> running" for t
    using assms unfolding records_running_def by blast
  ultimately show ?thesis
    using False by (auto simp: XidInMVCCSnapshot_Local_def listed_def Let_def split: if_splits)
qed

section \<open>Properties\<close>

text \<open>C32: the local test gives the same answer for every form in which a snapshot stores the running
  transactions, complete, overflowed, or taken in recovery: a transaction is in progress when it
  starts at or after \<^verbatim>\<open>xmax\<close> or is one of the running ones, and never when it is older than
  \<^verbatim>\<open>xmin\<close>.\<close>

theorem local_snapshot_test_correct:
  assumes "records_running log running snapshot"
  shows "XidInMVCCSnapshot_Local log xid snapshot \<longleftrightarrow>
    \<not> TransactionIdPrecedes xid (snap_xmin snapshot) \<and>
    (TransactionIdFollowsOrEquals xid (snap_xmax snapshot) \<or> xid \<in> running)"
  using assms by (rule local_test_spec)

definition sample_snapshot :: SnapshotData where
  "sample_snapshot = \<lparr>snapshot_type = SNAPSHOT_MVCC, snap_xmin = 10, snap_xmax = 20, xip = [10], subxip = [],
     suboverflowed = True, takenDuringRecovery = False, haveDistribSnapshot = True, curcid = 0,
     speculativeToken = 0, distribSnapshotWithLocalMapping = sample_dslm\<rparr>"

text \<open>In the example 10 runs, with its subtransactions 11 and 12 that the snapshot does not list.\<close>

definition sample_subtrans :: subtrans_log where
  "sample_subtrans = SubTransSetParent 12 11 (SubTransSetParent 11 10 zeroed_subtrans)"

lemma sample_topmost: "SubTransGetTopmostTransaction sample_subtrans x = (if x = 11 \<or> x = 12 then 10 else x)"
  by (auto simp: sample_subtrans_def get_topmost_eq SubTransSetParent_def SubTransGetData_def zeroed_subtrans_def xid_defs Let_def)

lemma sample_records: "records_running sample_subtrans {10, 11, 12} sample_snapshot"
  by (auto simp: records_running_def sample_topmost sample_snapshot_def listed_def TransactionIdPrecedes_def xid_defs Let_def)

theorem local_snapshot_test_correct_witness:
  "XidInMVCCSnapshot_Local sample_subtrans 12 sample_snapshot \<and> \<not> XidInMVCCSnapshot_Local sample_subtrans 13 sample_snapshot"
  using local_snapshot_test_correct [OF sample_records, of 12] local_snapshot_test_correct [OF sample_records, of 13]
  by (simp add: sample_snapshot_def TransactionIdPrecedes_def TransactionIdFollowsOrEquals_def xid_defs)

text \<open>C30: on a segment, the test against a distributed snapshot follows the distributed log and falls
  back to the local snapshot exactly for the transactions of no interest to a distributed snapshot or
  unknown to the log. A transaction reported as surely committed is recorded as committed and visible
  to the distributed snapshot, and the hint to ignore the distributed snapshot from now on is only
  given for one older than all of them. The caches stay right.\<close>

theorem mvcc_snapshot_test_correct:
  fixes snapshot env cache xid
  defines "dslm \<equiv> distribSnapshotWithLocalMapping snapshot"
  defines "pages \<equiv> dlog_pages (env_dlog env)"
  defines "verdict \<equiv> snapshot_verdict (ds dslm) False (gxid_of pages xid)"
  assumes "haveDistribSnapshot snapshot" "\<not> IS_QUERY_DISPATCHER env" "TransactionIdIsNormal xid"
    "\<not> TransactionIdFollowsOrEquals xid (snap_xmax snapshot)"
    "dslm_ok pages dslm" "cache_coherent (gp_max_local_distributed_cache env) pages cache"
    "log_answers (env_dlog env) (ds dslm) xid" "records_running (env_subtrans env) running snapshot"
  shows "\<exists>r ign snapshot' cache'.
    XidInMVCCSnapshot env xid False snapshot cache = Inr (r, ign, snapshot', cache') \<and>
    dslm_ok pages (distribSnapshotWithLocalMapping snapshot') \<and>
    cache_coherent (gp_max_local_distributed_cache env) pages cache' \<and>
    (r = XID_SURELY_COMMITTED \<longleftrightarrow> verdict = DISTRIBUTEDSNAPSHOT_COMMITTED_VISIBLE) \<and>
    (r = XID_IN_SNAPSHOT \<longleftrightarrow> verdict = DISTRIBUTEDSNAPSHOT_COMMITTED_INPROGRESS \<or>
       verdict \<in> {DISTRIBUTEDSNAPSHOT_COMMITTED_IGNORE, DISTRIBUTEDSNAPSHOT_COMMITTED_UNKNOWN} \<and> xid \<in> running) \<and>
    (ign \<longrightarrow> verdict = DISTRIBUTEDSNAPSHOT_COMMITTED_IGNORE)"
proof -
  obtain r dslm' cache' where t: "DistributedSnapshotWithLocalMapping_CommittedTest (gp_max_local_distributed_cache env)
      (env_dlog env) xid False dslm cache = Inr (r, dslm', cache')"
    and keep: "dslm_ok pages dslm'" "cache_coherent (gp_max_local_distributed_cache env) pages cache'"
    and r: "r = verdict \<or> verdict = DISTRIBUTEDSNAPSHOT_COMMITTED_IGNORE \<and> r = DISTRIBUTEDSNAPSHOT_COMMITTED_UNKNOWN"
    using committed_test_spec [of "env_dlog env" dslm "gp_max_local_distributed_cache env" cache xid False] assms(6,8,9,10)
    unfolding pages_def verdict_def by (auto simp: Let_def)
  have "verdict \<noteq> DISTRIBUTEDSNAPSHOT_COMMITTED_NONE"
    by (auto simp: verdict_def snapshot_verdict_def split: option.splits)
  moreover have "XidInMVCCSnapshot_Local (env_subtrans env) xid snapshot \<longleftrightarrow> xid \<in> running"
    using local_test_spec [OF assms(11), of xid] assms(7,11) by (auto simp: records_running_def)
  ultimately show ?thesis
    using r t keep assms(4-7)
    by (cases r) (auto simp: XidInMVCCSnapshot_def xid_check_result_def dslm_def Let_def)
qed

theorem mvcc_snapshot_test_correct_witness:
  "\<exists>ign snapshot' cache'. XidInMVCCSnapshot \<lparr>IS_QUERY_DISPATCHER = False, gp_max_local_distributed_cache = 4,
      env_dlog = sample_dlog, env_subtrans = zeroed_subtrans\<rparr> 7 False
      (sample_snapshot\<lparr>snap_xmin := 5, suboverflowed := False\<rparr>) empty_cache = Inr (XID_IN_SNAPSHOT, ign, snapshot', cache')"
proof -
  let ?env = "\<lparr>IS_QUERY_DISPATCHER = False, gp_max_local_distributed_cache = 4,
      env_dlog = sample_dlog, env_subtrans = zeroed_subtrans\<rparr>"
  let ?snap = "sample_snapshot\<lparr>snap_xmin := 5, suboverflowed := False\<rparr>"
  have l: "logged (dlog_pages sample_dlog) 7 = 70" by (simp add: dlog_eval)
  have 1: "dslm_ok (dlog_pages sample_dlog) sample_dslm"
    by (simp add: dslm_ok_def ds_ok_def sample_dslm_def InvalidTransactionId_def)
  have 2: "cache_coherent 4 (dlog_pages sample_dlog) empty_cache"
    by (simp add: cache_coherent_def empty_cache_inv) (simp add: empty_cache_def cache_lookup_def)
  have 3: "log_answers sample_dlog (ds sample_dslm) 7"
    using l by (simp add: log_answers_def DistributedLog_CommittedCheck_def DistributedLog_GetDistributedXid_def gxid_of_def
        TransactionIdPrecedes_def sample_dlog_def xid_defs TransactionIdToPage_def TransactionIdToEntry_def ENTRIES_PER_PAGE_def)
  have 4: "records_running zeroed_subtrans {10} ?snap"
    by (auto simp: records_running_def sample_snapshot_def listed_def TransactionIdPrecedes_def xid_defs)
  have 5: "TransactionIdIsNormal 7" "\<not> TransactionIdFollowsOrEquals 7 20"
    by (simp_all add: xid_defs TransactionIdFollowsOrEquals_def)
  have v: "snapshot_verdict (ds sample_dslm) False (gxid_of (dlog_pages sample_dlog) 7) = DISTRIBUTEDSNAPSHOT_COMMITTED_INPROGRESS"
    using l by (simp add: snapshot_verdict_def gxid_of_def running_gxids_def sample_dslm_def)
  have "distribSnapshotWithLocalMapping ?snap = sample_dslm" "snap_xmax ?snap = 20" "haveDistribSnapshot ?snap"
    by (simp_all add: sample_snapshot_def)
  then show ?thesis
    using mvcc_snapshot_test_correct [of ?snap ?env 7 empty_cache "{10}"] 1 2 3 4 5 v by auto
qed

end
