(* ===== verification/HeapTuple.thy ===== *)
theory HeapTuple
  imports SnapshotTest
begin

text \<open>Headers of heap tuples, \<^verbatim>\<open>src/include/access/htup_details.h\<close>, and the setting of hint bits in
  \<^verbatim>\<open>src/backend/access/heap/heapam_visibility.c\<close>. What the routines ask of the rest of the system
  (the process array, the status log, multixacts, combo command identifiers, the buffer) is a record
  of functions, \<open>XactEnv\<close>. The flag \<open>buffer_dirty\<close> records the calls of
  \<^verbatim>\<open>MarkBufferDirtyHint\<close>.\<close>

unbundle bit_operations_syntax

section \<open>Headers\<close>

type_synonym ItemPointer = "uint32 \<times> uint16"

record HeapTuple =
  t_xmin :: TransactionId
  t_xmax :: TransactionId
  t_field3 :: uint32
  t_ctid :: ItemPointer
  t_infomask2 :: uint16
  t_infomask :: uint16
  t_self :: ItemPointer
  buffer_dirty :: bool

definition HEAP_XMAX_KEYSHR_LOCK :: uint16 where "HEAP_XMAX_KEYSHR_LOCK = 0x0010"
definition HEAP_COMBOCID :: uint16 where "HEAP_COMBOCID = 0x0020"
definition HEAP_XMAX_EXCL_LOCK :: uint16 where "HEAP_XMAX_EXCL_LOCK = 0x0040"
definition HEAP_XMAX_LOCK_ONLY :: uint16 where "HEAP_XMAX_LOCK_ONLY = 0x0080"
definition HEAP_XMAX_SHR_LOCK :: uint16 where
  "HEAP_XMAX_SHR_LOCK = HEAP_XMAX_EXCL_LOCK OR HEAP_XMAX_KEYSHR_LOCK"
definition HEAP_LOCK_MASK :: uint16 where
  "HEAP_LOCK_MASK = HEAP_XMAX_SHR_LOCK OR HEAP_XMAX_EXCL_LOCK OR HEAP_XMAX_KEYSHR_LOCK"
definition HEAP_XMIN_COMMITTED :: uint16 where "HEAP_XMIN_COMMITTED = 0x0100"
definition HEAP_XMIN_INVALID :: uint16 where "HEAP_XMIN_INVALID = 0x0200"
definition HEAP_XMIN_FROZEN :: uint16 where "HEAP_XMIN_FROZEN = HEAP_XMIN_COMMITTED OR HEAP_XMIN_INVALID"
definition HEAP_XMAX_COMMITTED :: uint16 where "HEAP_XMAX_COMMITTED = 0x0400"
definition HEAP_XMAX_INVALID :: uint16 where "HEAP_XMAX_INVALID = 0x0800"
definition HEAP_XMAX_IS_MULTI :: uint16 where "HEAP_XMAX_IS_MULTI = 0x1000"
definition HEAP_MOVED_OFF :: uint16 where "HEAP_MOVED_OFF = 0x4000"
definition HEAP_MOVED_IN :: uint16 where "HEAP_MOVED_IN = 0x8000"
definition HEAP_XMIN_DISTRIBUTED_SNAPSHOT_IGNORE :: uint16 where "HEAP_XMIN_DISTRIBUTED_SNAPSHOT_IGNORE = 0x0800"
definition HEAP_XMAX_DISTRIBUTED_SNAPSHOT_IGNORE :: uint16 where "HEAP_XMAX_DISTRIBUTED_SNAPSHOT_IGNORE = 0x1000"

lemmas heap_masks = HEAP_XMAX_KEYSHR_LOCK_def HEAP_COMBOCID_def HEAP_XMAX_EXCL_LOCK_def HEAP_XMAX_LOCK_ONLY_def
  HEAP_XMAX_SHR_LOCK_def HEAP_LOCK_MASK_def HEAP_XMIN_COMMITTED_def HEAP_XMIN_INVALID_def HEAP_XMIN_FROZEN_def
  HEAP_XMAX_COMMITTED_def HEAP_XMAX_INVALID_def HEAP_XMAX_IS_MULTI_def HEAP_MOVED_OFF_def HEAP_MOVED_IN_def
  HEAP_XMIN_DISTRIBUTED_SNAPSHOT_IGNORE_def HEAP_XMAX_DISTRIBUTED_SNAPSHOT_IGNORE_def

text \<open>A test of the form \<^verbatim>\<open>tuple->t_infomask & mask\<close>.\<close>

definition infomask_has :: "HeapTuple \<Rightarrow> uint16 \<Rightarrow> bool" where
  "infomask_has tup bits \<longleftrightarrow> t_infomask tup AND bits \<noteq> 0"

definition HEAP_XMAX_IS_LOCKED_ONLY :: "uint16 \<Rightarrow> bool" where
  "HEAP_XMAX_IS_LOCKED_ONLY infomask \<longleftrightarrow>
     infomask AND HEAP_XMAX_LOCK_ONLY \<noteq> 0 \<or>
     infomask AND (HEAP_XMAX_IS_MULTI OR HEAP_LOCK_MASK) = HEAP_XMAX_EXCL_LOCK"

definition HEAP_LOCKED_UPGRADED :: "uint16 \<Rightarrow> bool" where
  "HEAP_LOCKED_UPGRADED infomask \<longleftrightarrow>
     infomask AND HEAP_XMAX_IS_MULTI \<noteq> 0 \<and> infomask AND HEAP_XMAX_LOCK_ONLY \<noteq> 0 \<and>
     infomask AND (HEAP_XMAX_EXCL_LOCK OR HEAP_XMAX_KEYSHR_LOCK) = 0"

definition HeapTupleHeaderXminCommitted :: "HeapTuple \<Rightarrow> bool" where
  "HeapTupleHeaderXminCommitted tup \<longleftrightarrow> t_infomask tup AND HEAP_XMIN_COMMITTED \<noteq> 0"

definition HeapTupleHeaderXminInvalid :: "HeapTuple \<Rightarrow> bool" where
  "HeapTupleHeaderXminInvalid tup \<longleftrightarrow>
     t_infomask tup AND (HEAP_XMIN_COMMITTED OR HEAP_XMIN_INVALID) = HEAP_XMIN_INVALID"

definition HeapTupleHeaderXminFrozen :: "HeapTuple \<Rightarrow> bool" where
  "HeapTupleHeaderXminFrozen tup \<longleftrightarrow> t_infomask tup AND HEAP_XMIN_FROZEN = HEAP_XMIN_FROZEN"

definition HeapTupleHeaderGetXmin :: "HeapTuple \<Rightarrow> TransactionId" where
  "HeapTupleHeaderGetXmin tup = (if HeapTupleHeaderXminFrozen tup then FrozenTransactionId else t_xmin tup)"

definition HeapTupleHeaderGetXvac :: "HeapTuple \<Rightarrow> TransactionId" where
  "HeapTupleHeaderGetXvac tup =
     (if infomask_has tup (HEAP_MOVED_OFF OR HEAP_MOVED_IN) then t_field3 tup else InvalidTransactionId)"

definition SpecTokenOffsetNumber :: uint16 where "SpecTokenOffsetNumber = 0xfffe"

definition HeapTupleHeaderIsSpeculative :: "HeapTuple \<Rightarrow> bool" where
  "HeapTupleHeaderIsSpeculative tup \<longleftrightarrow> snd (t_ctid tup) = SpecTokenOffsetNumber"

definition HeapTupleHeaderGetSpeculativeToken :: "HeapTuple \<Rightarrow> uint32" where
  "HeapTupleHeaderGetSpeculativeToken tup = fst (t_ctid tup)"

section \<open>The environment\<close>

text \<open>The members of a multixact are pairs of an identifier and whether its status is an update
  (\<^verbatim>\<open>ISUPDATE_from_mxstatus\<close>). \<open>system_relation\<close> stands for the test of
  \<^verbatim>\<open>markDirty\<close> that the relation is missing or a catalog.\<close>

record XactEnv =
  TransactionIdIsCurrentTransactionId :: "TransactionId \<Rightarrow> bool"
  TransactionIdIsInProgress :: "TransactionId \<Rightarrow> bool"
  xact_did_commit :: "TransactionId \<Rightarrow> bool"
  xact_commit_lsn :: "TransactionId \<Rightarrow> XLogRecPtr"
  GetMultiXactIdMembers :: "TransactionId \<Rightarrow> (TransactionId \<times> bool) list"
  MultiXactIdIsRunning :: "TransactionId \<Rightarrow> bool \<Rightarrow> bool"
  GetRealCmin :: "CommandId \<Rightarrow> CommandId"
  GetRealCmax :: "CommandId \<Rightarrow> CommandId"
  BufferIsPermanent :: bool
  XLogNeedsFlush :: "XLogRecPtr \<Rightarrow> bool"
  BufferGetLSNAtomic :: XLogRecPtr
  gp_disable_tuple_hints :: bool
  system_relation :: bool
  CLOGTransactionIsOld :: "TransactionId \<Rightarrow> bool"

definition HeapTupleHeaderGetCmin :: "XactEnv \<Rightarrow> HeapTuple \<Rightarrow> CommandId" where
  "HeapTupleHeaderGetCmin env tup =
     (if infomask_has tup HEAP_COMBOCID then GetRealCmin env (t_field3 tup) else t_field3 tup)"

definition HeapTupleHeaderGetCmax :: "XactEnv \<Rightarrow> HeapTuple \<Rightarrow> CommandId" where
  "HeapTupleHeaderGetCmax env tup =
     (if infomask_has tup HEAP_COMBOCID then GetRealCmax env (t_field3 tup) else t_field3 tup)"

definition MultiXactIdGetUpdateXid :: "XactEnv \<Rightarrow> TransactionId \<Rightarrow> TransactionId" where
  "MultiXactIdGetUpdateXid env xmax =
     (case find snd (GetMultiXactIdMembers env xmax) of
        None \<Rightarrow> InvalidTransactionId
      | Some (xid, _) \<Rightarrow> xid)"

definition HeapTupleGetUpdateXid :: "XactEnv \<Rightarrow> HeapTuple \<Rightarrow> TransactionId" where
  "HeapTupleGetUpdateXid env tup = MultiXactIdGetUpdateXid env (t_xmax tup)"

definition HeapTupleHeaderGetUpdateXid :: "XactEnv \<Rightarrow> HeapTuple \<Rightarrow> TransactionId" where
  "HeapTupleHeaderGetUpdateXid env tup =
     (if \<not> infomask_has tup HEAP_XMAX_INVALID \<and> infomask_has tup HEAP_XMAX_IS_MULTI \<and>
         \<not> infomask_has tup HEAP_XMAX_LOCK_ONLY
      then HeapTupleGetUpdateXid env tup else t_xmax tup)"

section \<open>Hint bits\<close>

definition markDirty :: "XactEnv \<Rightarrow> bool \<Rightarrow> HeapTuple \<Rightarrow> HeapTuple" where
  "markDirty env isXmin tup =
     (let dirtied = tup\<lparr>buffer_dirty := True\<rparr>
      in if \<not> gp_disable_tuple_hints env then dirtied
         else if system_relation env then dirtied
         else
           let xid = (if isXmin then HeapTupleHeaderGetXmin tup else t_xmax tup)
           in if xid = InvalidTransactionId then dirtied
              else if CLOGTransactionIsOld env xid then dirtied
              else tup)"

definition SetHintBits :: "XactEnv \<Rightarrow> uint16 \<Rightarrow> TransactionId \<Rightarrow> HeapTuple \<Rightarrow> HeapTuple result" where
  "SetHintBits env infomask xid tup =
     (let commitLSN = xact_commit_lsn env xid
      in if TransactionIdIsValid xid \<and> BufferIsPermanent env \<and> XLogNeedsFlush env commitLSN \<and>
            BufferGetLSNAtomic env < commitLSN
         then Inr tup
         else
           let tup = tup\<lparr>t_infomask := t_infomask tup OR infomask\<rparr>
           in if infomask = HEAP_XMIN_INVALID \<or> infomask = HEAP_XMIN_COMMITTED
              then Inr (markDirty env True tup)
              else if infomask = HEAP_XMAX_INVALID \<or> infomask = HEAP_XMAX_COMMITTED
              then Inr (markDirty env False tup)
              else Inl (ERROR ''unexpected infomask while setting hint bits''))"

text \<open>The visibility routines pass one of the four masks, for which there is no error.\<close>

definition set_hint :: "XactEnv \<Rightarrow> uint16 \<Rightarrow> TransactionId \<Rightarrow> HeapTuple \<Rightarrow> HeapTuple" where
  "set_hint env infomask xid tup = (case SetHintBits env infomask xid tup of Inl _ \<Rightarrow> tup | Inr tup' \<Rightarrow> tup')"

lemma SetHintBits_total:
  assumes "infomask \<in> {HEAP_XMIN_INVALID, HEAP_XMIN_COMMITTED, HEAP_XMAX_INVALID, HEAP_XMAX_COMMITTED}"
  shows "SetHintBits env infomask xid tup = Inr (set_hint env infomask xid tup)"
  using assms by (auto simp: set_hint_def SetHintBits_def Let_def)

text \<open>Whether the commit of a transaction is known to be on disk before the buffer, so that a hint may
  be set.\<close>

definition hint_allowed :: "XactEnv \<Rightarrow> TransactionId \<Rightarrow> bool" where
  "hint_allowed env xid \<longleftrightarrow> \<not> (TransactionIdIsValid xid \<and> BufferIsPermanent env \<and>
     XLogNeedsFlush env (xact_commit_lsn env xid) \<and> BufferGetLSNAtomic env < xact_commit_lsn env xid)"

text \<open>The only effects: the dirty flag, and the bits of the mask when allowed.\<close>

lemma markDirty_frame [simp]:
  "t_xmin (markDirty env b t) = t_xmin t" "t_xmax (markDirty env b t) = t_xmax t"
  "t_field3 (markDirty env b t) = t_field3 t" "t_ctid (markDirty env b t) = t_ctid t"
  "t_infomask2 (markDirty env b t) = t_infomask2 t" "t_infomask (markDirty env b t) = t_infomask t"
  "t_self (markDirty env b t) = t_self t"
  by (simp_all add: markDirty_def Let_def)

lemma set_hint_frame [simp]:
  "t_xmin (set_hint env m x t) = t_xmin t" "t_xmax (set_hint env m x t) = t_xmax t"
  "t_field3 (set_hint env m x t) = t_field3 t" "t_ctid (set_hint env m x t) = t_ctid t"
  "t_infomask2 (set_hint env m x t) = t_infomask2 t" "t_self (set_hint env m x t) = t_self t"
  by (simp_all add: set_hint_def SetHintBits_def Let_def)

lemma set_hint_infomask:
  "m \<in> {HEAP_XMIN_INVALID, HEAP_XMIN_COMMITTED, HEAP_XMAX_INVALID, HEAP_XMAX_COMMITTED} \<Longrightarrow>
   t_infomask (set_hint env m x t) = (if hint_allowed env x then t_infomask t OR m else t_infomask t)"
  by (auto simp: set_hint_def SetHintBits_def hint_allowed_def Let_def)

end
