(* ===== verification/Visibility.thy ===== *)
theory Visibility
  imports HeapTuple
begin

text \<open>The visibility routines of \<^verbatim>\<open>src/backend/access/heap/heapam_visibility.c\<close>. Each routine returns
  its answer and the tuple with the hint bits it set. A phase of a routine that may return early gives
  \<open>Some answer\<close> when it does and \<open>None\<close> when control falls through to the next phase. The moved
  branches, kept for tuples of very old clusters, are the same code in four routines and are one
  definition here. The MVCC routine takes \<^verbatim>\<open>XidInMVCCSnapshot\<close> as an argument that threads the
  state of the snapshot and its caches and may raise an error.\<close>

section \<open>Branches shared by several routines\<close>

text \<open>Tuples with \<^verbatim>\<open>HEAP_MOVED_OFF\<close> or \<^verbatim>\<open>HEAP_MOVED_IN\<close>; the answer is whether the routine
  returns that the tuple is invisible.\<close>

definition moved_invisible :: "XactEnv \<Rightarrow> HeapTuple \<Rightarrow> bool \<times> HeapTuple" where
  "moved_invisible env tuple =
     (let xvac = HeapTupleHeaderGetXvac tuple
      in if infomask_has tuple HEAP_MOVED_OFF
         then (if TransactionIdIsCurrentTransactionId env xvac then (True, tuple)
               else if \<not> TransactionIdIsInProgress env xvac
               then (if xact_did_commit env xvac
                     then (True, set_hint env HEAP_XMIN_INVALID InvalidTransactionId tuple)
                     else (False, set_hint env HEAP_XMIN_COMMITTED InvalidTransactionId tuple))
               else (False, tuple))
         else (if \<not> TransactionIdIsCurrentTransactionId env xvac
               then (if TransactionIdIsInProgress env xvac then (True, tuple)
                     else if xact_did_commit env xvac
                     then (False, set_hint env HEAP_XMIN_COMMITTED InvalidTransactionId tuple)
                     else (True, set_hint env HEAP_XMIN_INVALID InvalidTransactionId tuple))
               else (False, tuple)))"

definition tuple_moved :: "HeapTuple \<Rightarrow> bool" where
  "tuple_moved tuple \<longleftrightarrow> infomask_has tuple HEAP_MOVED_OFF \<or> infomask_has tuple HEAP_MOVED_IN"

text \<open>A tuple inserted by the current transaction, for the routines without a command identifier.\<close>

definition own_tuple_visible :: "XactEnv \<Rightarrow> HeapTuple \<Rightarrow> bool \<times> HeapTuple" where
  "own_tuple_visible env tuple =
     (if infomask_has tuple HEAP_XMAX_INVALID then (True, tuple)
      else if HEAP_XMAX_IS_LOCKED_ONLY (t_infomask tuple) then (True, tuple)
      else if infomask_has tuple HEAP_XMAX_IS_MULTI
      then (\<not> TransactionIdIsCurrentTransactionId env (HeapTupleGetUpdateXid env tuple), tuple)
      else if \<not> TransactionIdIsCurrentTransactionId env (t_xmax tuple)
      then (True, set_hint env HEAP_XMAX_INVALID InvalidTransactionId tuple)
      else (False, tuple))"

section \<open>Self, any and toast\<close>

definition self_xmin_phase :: "XactEnv \<Rightarrow> HeapTuple \<Rightarrow> bool option \<times> HeapTuple" where
  "self_xmin_phase env tuple =
     (if HeapTupleHeaderXminCommitted tuple then (None, tuple)
      else if HeapTupleHeaderXminInvalid tuple then (Some False, tuple)
      else if tuple_moved tuple
      then (case moved_invisible env tuple of (gone, tuple) \<Rightarrow> (if gone then Some False else None, tuple))
      else if TransactionIdIsCurrentTransactionId env (t_xmin tuple)
      then (case own_tuple_visible env tuple of (v, tuple) \<Rightarrow> (Some v, tuple))
      else if TransactionIdIsInProgress env (t_xmin tuple) then (Some False, tuple)
      else if xact_did_commit env (t_xmin tuple)
      then (None, set_hint env HEAP_XMIN_COMMITTED (t_xmin tuple) tuple)
      else (Some False, set_hint env HEAP_XMIN_INVALID InvalidTransactionId tuple))"

definition self_xmax_phase :: "XactEnv \<Rightarrow> HeapTuple \<Rightarrow> bool \<times> HeapTuple" where
  "self_xmax_phase env tuple =
     (if infomask_has tuple HEAP_XMAX_INVALID then (True, tuple)
      else if infomask_has tuple HEAP_XMAX_COMMITTED then (HEAP_XMAX_IS_LOCKED_ONLY (t_infomask tuple), tuple)
      else if infomask_has tuple HEAP_XMAX_IS_MULTI
      then (if HEAP_XMAX_IS_LOCKED_ONLY (t_infomask tuple) then (True, tuple)
            else let xmax = HeapTupleGetUpdateXid env tuple
                 in if TransactionIdIsCurrentTransactionId env xmax then (False, tuple)
                    else if TransactionIdIsInProgress env xmax then (True, tuple)
                    else if xact_did_commit env xmax then (False, tuple)
                    else (True, tuple))
      else if TransactionIdIsCurrentTransactionId env (t_xmax tuple)
      then (HEAP_XMAX_IS_LOCKED_ONLY (t_infomask tuple), tuple)
      else if TransactionIdIsInProgress env (t_xmax tuple) then (True, tuple)
      else if \<not> xact_did_commit env (t_xmax tuple)
      then (True, set_hint env HEAP_XMAX_INVALID InvalidTransactionId tuple)
      else if HEAP_XMAX_IS_LOCKED_ONLY (t_infomask tuple)
      then (True, set_hint env HEAP_XMAX_INVALID InvalidTransactionId tuple)
      else (False, set_hint env HEAP_XMAX_COMMITTED (t_xmax tuple) tuple))"

definition HeapTupleSatisfiesSelf :: "XactEnv \<Rightarrow> HeapTuple \<Rightarrow> bool \<times> HeapTuple" where
  "HeapTupleSatisfiesSelf env tuple =
     (case self_xmin_phase env tuple of
        (Some v, tuple) \<Rightarrow> (v, tuple)
      | (None, tuple) \<Rightarrow> self_xmax_phase env tuple)"

definition HeapTupleSatisfiesAny :: "XactEnv \<Rightarrow> HeapTuple \<Rightarrow> bool \<times> HeapTuple" where
  "HeapTupleSatisfiesAny env tuple = (True, tuple)"

definition HeapTupleSatisfiesToast :: "XactEnv \<Rightarrow> HeapTuple \<Rightarrow> bool \<times> HeapTuple" where
  "HeapTupleSatisfiesToast env tuple =
     (if \<not> HeapTupleHeaderXminCommitted tuple
      then (if HeapTupleHeaderXminInvalid tuple then (False, tuple)
            else if tuple_moved tuple
            then (case moved_invisible env tuple of (gone, tuple) \<Rightarrow> (\<not> gone, tuple))
            else if \<not> TransactionIdIsValid (HeapTupleHeaderGetXmin tuple) then (False, tuple)
            else (True, tuple))
      else (True, tuple))"

section \<open>Update\<close>

datatype TM_Result =
    TM_Ok
  | TM_Invisible
  | TM_SelfModified
  | TM_Updated
  | TM_Deleted
  | TM_BeingModified
  | TM_WouldBlock

text \<open>The endings that several branches share: whether the tuple was changed after the scan started,
  and whether there is a later version.\<close>

definition self_modified :: "XactEnv \<Rightarrow> CommandId \<Rightarrow> HeapTuple \<Rightarrow> TM_Result" where
  "self_modified env cid tuple = (if HeapTupleHeaderGetCmax env tuple \<ge> cid then TM_SelfModified else TM_Invisible)"

definition updated_or_deleted :: "HeapTuple \<Rightarrow> TM_Result" where
  "updated_or_deleted tuple = (if t_self tuple \<noteq> t_ctid tuple then TM_Updated else TM_Deleted)"

definition update_own_phase :: "XactEnv \<Rightarrow> CommandId \<Rightarrow> HeapTuple \<Rightarrow> TM_Result \<times> HeapTuple" where
  "update_own_phase env cid tuple =
     (if HeapTupleHeaderGetCmin env tuple \<ge> cid then (TM_Invisible, tuple)
      else if infomask_has tuple HEAP_XMAX_INVALID then (TM_Ok, tuple)
      else if HEAP_XMAX_IS_LOCKED_ONLY (t_infomask tuple)
      then (if infomask_has tuple HEAP_XMAX_IS_MULTI
            then (if MultiXactIdIsRunning env (t_xmax tuple) True then TM_BeingModified else TM_Ok, tuple)
            else if \<not> TransactionIdIsInProgress env (t_xmax tuple) then (TM_Ok, tuple)
            else (TM_BeingModified, tuple))
      else if infomask_has tuple HEAP_XMAX_IS_MULTI
      then (if \<not> TransactionIdIsCurrentTransactionId env (HeapTupleGetUpdateXid env tuple)
            then (if MultiXactIdIsRunning env (t_xmax tuple) False then TM_BeingModified else TM_Ok, tuple)
            else (self_modified env cid tuple, tuple))
      else if \<not> TransactionIdIsCurrentTransactionId env (t_xmax tuple)
      then (TM_Ok, set_hint env HEAP_XMAX_INVALID InvalidTransactionId tuple)
      else (self_modified env cid tuple, tuple))"

definition update_xmin_phase :: "XactEnv \<Rightarrow> CommandId \<Rightarrow> HeapTuple \<Rightarrow> TM_Result option \<times> HeapTuple" where
  "update_xmin_phase env cid tuple =
     (if HeapTupleHeaderXminCommitted tuple then (None, tuple)
      else if HeapTupleHeaderXminInvalid tuple then (Some TM_Invisible, tuple)
      else if tuple_moved tuple
      then (case moved_invisible env tuple of (gone, tuple) \<Rightarrow> (if gone then Some TM_Invisible else None, tuple))
      else if TransactionIdIsCurrentTransactionId env (t_xmin tuple)
      then (case update_own_phase env cid tuple of (r, tuple) \<Rightarrow> (Some r, tuple))
      else if TransactionIdIsInProgress env (t_xmin tuple) then (Some TM_Invisible, tuple)
      else if xact_did_commit env (t_xmin tuple)
      then (None, set_hint env HEAP_XMIN_COMMITTED (t_xmin tuple) tuple)
      else (Some TM_Invisible, set_hint env HEAP_XMIN_INVALID InvalidTransactionId tuple))"

definition update_multi_phase :: "XactEnv \<Rightarrow> CommandId \<Rightarrow> HeapTuple \<Rightarrow> TM_Result \<times> HeapTuple" where
  "update_multi_phase env cid tuple =
     (if HEAP_LOCKED_UPGRADED (t_infomask tuple) then (TM_Ok, tuple)
      else if HEAP_XMAX_IS_LOCKED_ONLY (t_infomask tuple)
      then (if MultiXactIdIsRunning env (t_xmax tuple) True then (TM_BeingModified, tuple)
            else (TM_Ok, set_hint env HEAP_XMAX_INVALID InvalidTransactionId tuple))
      else
        let xmax = HeapTupleGetUpdateXid env tuple
        in if \<not> TransactionIdIsValid xmax \<and> MultiXactIdIsRunning env (t_xmax tuple) False
           then (TM_BeingModified, tuple)
           else if TransactionIdIsCurrentTransactionId env xmax then (self_modified env cid tuple, tuple)
           else if MultiXactIdIsRunning env (t_xmax tuple) False then (TM_BeingModified, tuple)
           else if xact_did_commit env xmax then (updated_or_deleted tuple, tuple)
           else if \<not> MultiXactIdIsRunning env (t_xmax tuple) False
           then (TM_Ok, set_hint env HEAP_XMAX_INVALID InvalidTransactionId tuple)
           else (TM_BeingModified, tuple))"

definition update_xmax_phase :: "XactEnv \<Rightarrow> CommandId \<Rightarrow> HeapTuple \<Rightarrow> TM_Result \<times> HeapTuple" where
  "update_xmax_phase env cid tuple =
     (if infomask_has tuple HEAP_XMAX_INVALID then (TM_Ok, tuple)
      else if infomask_has tuple HEAP_XMAX_COMMITTED
      then (if HEAP_XMAX_IS_LOCKED_ONLY (t_infomask tuple) then (TM_Ok, tuple) else (updated_or_deleted tuple, tuple))
      else if infomask_has tuple HEAP_XMAX_IS_MULTI then update_multi_phase env cid tuple
      else if TransactionIdIsCurrentTransactionId env (t_xmax tuple)
      then (if HEAP_XMAX_IS_LOCKED_ONLY (t_infomask tuple) then (TM_BeingModified, tuple)
            else (self_modified env cid tuple, tuple))
      else if TransactionIdIsInProgress env (t_xmax tuple) then (TM_BeingModified, tuple)
      else if \<not> xact_did_commit env (t_xmax tuple)
      then (TM_Ok, set_hint env HEAP_XMAX_INVALID InvalidTransactionId tuple)
      else if HEAP_XMAX_IS_LOCKED_ONLY (t_infomask tuple)
      then (TM_Ok, set_hint env HEAP_XMAX_INVALID InvalidTransactionId tuple)
      else (updated_or_deleted tuple, set_hint env HEAP_XMAX_COMMITTED (t_xmax tuple) tuple))"

definition HeapTupleSatisfiesUpdate :: "XactEnv \<Rightarrow> CommandId \<Rightarrow> HeapTuple \<Rightarrow> TM_Result \<times> HeapTuple" where
  "HeapTupleSatisfiesUpdate env cid tuple =
     (case update_xmin_phase env cid tuple of
        (Some r, tuple) \<Rightarrow> (r, tuple)
      | (None, tuple) \<Rightarrow> update_xmax_phase env cid tuple)"

section \<open>Dirty\<close>

text \<open>The snapshot is an output: it is returned with the identifiers of the transactions in
  progress.\<close>

definition dirty_xmin_phase :: "XactEnv \<Rightarrow> SnapshotData \<Rightarrow> HeapTuple \<Rightarrow> bool option \<times> HeapTuple \<times> SnapshotData" where
  "dirty_xmin_phase env snapshot tuple =
     (if HeapTupleHeaderXminCommitted tuple then (None, tuple, snapshot)
      else if HeapTupleHeaderXminInvalid tuple then (Some False, tuple, snapshot)
      else if tuple_moved tuple
      then (case moved_invisible env tuple of (gone, tuple) \<Rightarrow> (if gone then Some False else None, tuple, snapshot))
      else if TransactionIdIsCurrentTransactionId env (t_xmin tuple)
      then (case own_tuple_visible env tuple of (v, tuple) \<Rightarrow> (Some v, tuple, snapshot))
      else if TransactionIdIsInProgress env (t_xmin tuple)
      then
        let snapshot = (if HeapTupleHeaderIsSpeculative tuple
                        then snapshot\<lparr>speculativeToken := HeapTupleHeaderGetSpeculativeToken tuple\<rparr> else snapshot)
        in (Some True, tuple, snapshot\<lparr>snap_xmin := t_xmin tuple\<rparr>)
      else if xact_did_commit env (t_xmin tuple)
      then (None, set_hint env HEAP_XMIN_COMMITTED (t_xmin tuple) tuple, snapshot)
      else (Some False, set_hint env HEAP_XMIN_INVALID InvalidTransactionId tuple, snapshot))"

definition dirty_xmax_phase :: "XactEnv \<Rightarrow> SnapshotData \<Rightarrow> HeapTuple \<Rightarrow> bool \<times> HeapTuple \<times> SnapshotData" where
  "dirty_xmax_phase env snapshot tuple =
     (if infomask_has tuple HEAP_XMAX_INVALID then (True, tuple, snapshot)
      else if infomask_has tuple HEAP_XMAX_COMMITTED then (HEAP_XMAX_IS_LOCKED_ONLY (t_infomask tuple), tuple, snapshot)
      else if infomask_has tuple HEAP_XMAX_IS_MULTI
      then (if HEAP_XMAX_IS_LOCKED_ONLY (t_infomask tuple) then (True, tuple, snapshot)
            else let xmax = HeapTupleGetUpdateXid env tuple
                 in if TransactionIdIsCurrentTransactionId env xmax then (False, tuple, snapshot)
                    else if TransactionIdIsInProgress env xmax then (True, tuple, snapshot\<lparr>snap_xmax := xmax\<rparr>)
                    else if xact_did_commit env xmax then (False, tuple, snapshot)
                    else (True, tuple, snapshot))
      else if TransactionIdIsCurrentTransactionId env (t_xmax tuple)
      then (HEAP_XMAX_IS_LOCKED_ONLY (t_infomask tuple), tuple, snapshot)
      else if TransactionIdIsInProgress env (t_xmax tuple)
      then (True, tuple, if \<not> HEAP_XMAX_IS_LOCKED_ONLY (t_infomask tuple)
                         then snapshot\<lparr>snap_xmax := t_xmax tuple\<rparr> else snapshot)
      else if \<not> xact_did_commit env (t_xmax tuple)
      then (True, set_hint env HEAP_XMAX_INVALID InvalidTransactionId tuple, snapshot)
      else if HEAP_XMAX_IS_LOCKED_ONLY (t_infomask tuple)
      then (True, set_hint env HEAP_XMAX_INVALID InvalidTransactionId tuple, snapshot)
      else (False, set_hint env HEAP_XMAX_COMMITTED (t_xmax tuple) tuple, snapshot))"

definition HeapTupleSatisfiesDirty :: "XactEnv \<Rightarrow> SnapshotData \<Rightarrow> HeapTuple \<Rightarrow> bool \<times> HeapTuple \<times> SnapshotData" where
  "HeapTupleSatisfiesDirty env snapshot tuple =
     (let snapshot = snapshot\<lparr>snap_xmin := InvalidTransactionId, snap_xmax := InvalidTransactionId, speculativeToken := 0\<rparr>
      in case dirty_xmin_phase env snapshot tuple of
           (Some v, tuple, snapshot) \<Rightarrow> (v, tuple, snapshot)
         | (None, tuple, snapshot) \<Rightarrow> dirty_xmax_phase env snapshot tuple)"

section \<open>MVCC\<close>

type_synonym 's snapshot_check =
  "TransactionId \<Rightarrow> bool \<Rightarrow> 's \<Rightarrow> (XidInMVCCSnapshotCheckResult \<times> bool \<times> 's) result"

text \<open>A call of \<^verbatim>\<open>XidInMVCCSnapshot\<close> on the inserter or the deleter, with the bit of the tuple that
  says to ignore the distributed snapshot, which is set when the call says so.\<close>

definition check_xmin :: "XactEnv \<Rightarrow> 's snapshot_check \<Rightarrow> HeapTuple \<Rightarrow> 's \<Rightarrow>
    (XidInMVCCSnapshotCheckResult \<times> HeapTuple \<times> 's) result" where
  "check_xmin env check tuple s =
     (case check (t_xmin tuple) (t_infomask2 tuple AND HEAP_XMIN_DISTRIBUTED_SNAPSHOT_IGNORE \<noteq> 0) s of
        Inl e \<Rightarrow> Inl e
      | Inr (r, ignore, s) \<Rightarrow>
          Inr (r, if ignore
                  then markDirty env True
                         (tuple\<lparr>t_infomask2 := t_infomask2 tuple OR HEAP_XMIN_DISTRIBUTED_SNAPSHOT_IGNORE\<rparr>)
                  else tuple, s))"

definition check_xmax :: "XactEnv \<Rightarrow> 's snapshot_check \<Rightarrow> TransactionId \<Rightarrow> HeapTuple \<Rightarrow> 's \<Rightarrow>
    (XidInMVCCSnapshotCheckResult \<times> HeapTuple \<times> 's) result" where
  "check_xmax env check xmax tuple s =
     (case check xmax (t_infomask2 tuple AND HEAP_XMAX_DISTRIBUTED_SNAPSHOT_IGNORE \<noteq> 0) s of
        Inl e \<Rightarrow> Inl e
      | Inr (r, ignore, s) \<Rightarrow>
          Inr (r, if ignore
                  then markDirty env False
                         (tuple\<lparr>t_infomask2 := t_infomask2 tuple OR HEAP_XMAX_DISTRIBUTED_SNAPSHOT_IGNORE\<rparr>)
                  else tuple, s))"

definition mvcc_moved_phase :: "XactEnv \<Rightarrow> 's snapshot_check \<Rightarrow> HeapTuple \<Rightarrow> 's \<Rightarrow>
    (bool option \<times> HeapTuple \<times> 's) result" where
  "mvcc_moved_phase env check tuple s =
     (let xvac = HeapTupleHeaderGetXvac tuple
      in if infomask_has tuple HEAP_MOVED_OFF
         then (if TransactionIdIsCurrentTransactionId env xvac then Inr (Some False, tuple, s)
               else case check xvac True s of
                      Inl e \<Rightarrow> Inl e
                    | Inr (r, _, s) \<Rightarrow>
                        (if r = XID_NOT_IN_SNAPSHOT
                         then (if xact_did_commit env xvac
                               then Inr (Some False, set_hint env HEAP_XMIN_INVALID InvalidTransactionId tuple, s)
                               else Inr (None, set_hint env HEAP_XMIN_COMMITTED InvalidTransactionId tuple, s))
                         else Inr (None, tuple, s)))
         else (if \<not> TransactionIdIsCurrentTransactionId env xvac
               then (case check xvac True s of
                       Inl e \<Rightarrow> Inl e
                     | Inr (r, _, s) \<Rightarrow>
                         (if r = XID_IN_SNAPSHOT then Inr (Some False, tuple, s)
                          else if r = XID_SURELY_COMMITTED \<or> xact_did_commit env xvac
                          then Inr (None, set_hint env HEAP_XMIN_COMMITTED InvalidTransactionId tuple, s)
                          else Inr (Some False, set_hint env HEAP_XMIN_INVALID InvalidTransactionId tuple, s)))
               else Inr (None, tuple, s)))"

definition mvcc_own_phase :: "XactEnv \<Rightarrow> CommandId \<Rightarrow> HeapTuple \<Rightarrow> bool \<times> HeapTuple" where
  "mvcc_own_phase env cid tuple =
     (if HeapTupleHeaderGetCmin env tuple \<ge> cid then (False, tuple)
      else if infomask_has tuple HEAP_XMAX_INVALID then (True, tuple)
      else if HEAP_XMAX_IS_LOCKED_ONLY (t_infomask tuple) then (True, tuple)
      else if infomask_has tuple HEAP_XMAX_IS_MULTI
      then (if \<not> TransactionIdIsCurrentTransactionId env (HeapTupleGetUpdateXid env tuple) then (True, tuple)
            else (HeapTupleHeaderGetCmax env tuple \<ge> cid, tuple))
      else if \<not> TransactionIdIsCurrentTransactionId env (t_xmax tuple)
      then (True, set_hint env HEAP_XMAX_INVALID InvalidTransactionId tuple)
      else (HeapTupleHeaderGetCmax env tuple \<ge> cid, tuple))"

definition mvcc_xmin_phase :: "XactEnv \<Rightarrow> 's snapshot_check \<Rightarrow> CommandId \<Rightarrow> HeapTuple \<Rightarrow> 's \<Rightarrow>
    (bool option \<times> HeapTuple \<times> 's) result" where
  "mvcc_xmin_phase env check cid tuple s =
     (if \<not> HeapTupleHeaderXminCommitted tuple
      then (if HeapTupleHeaderXminInvalid tuple then Inr (Some False, tuple, s)
            else if tuple_moved tuple then mvcc_moved_phase env check tuple s
            else if TransactionIdIsCurrentTransactionId env (t_xmin tuple)
            then (case mvcc_own_phase env cid tuple of (v, tuple) \<Rightarrow> Inr (Some v, tuple, s))
            else case check_xmin env check tuple s of
                   Inl e \<Rightarrow> Inl e
                 | Inr (r, tuple, s) \<Rightarrow>
                     (if r = XID_IN_SNAPSHOT then Inr (Some False, tuple, s)
                      else if r = XID_SURELY_COMMITTED \<or> xact_did_commit env (t_xmin tuple)
                      then Inr (None, set_hint env HEAP_XMIN_COMMITTED (t_xmin tuple) tuple, s)
                      else Inr (Some False, set_hint env HEAP_XMIN_INVALID InvalidTransactionId tuple, s)))
      else if \<not> HeapTupleHeaderXminFrozen tuple
      then (case check_xmin env check tuple s of
              Inl e \<Rightarrow> Inl e
            | Inr (r, tuple, s) \<Rightarrow> Inr (if r = XID_IN_SNAPSHOT then Some False else None, tuple, s))
      else Inr (None, tuple, s))"

definition mvcc_xmax_phase :: "XactEnv \<Rightarrow> 's snapshot_check \<Rightarrow> CommandId \<Rightarrow> HeapTuple \<Rightarrow> 's \<Rightarrow>
    (bool \<times> HeapTuple \<times> 's) result" where
  "mvcc_xmax_phase env check cid tuple s =
     (if infomask_has tuple HEAP_XMAX_INVALID then Inr (True, tuple, s)
      else if HEAP_XMAX_IS_LOCKED_ONLY (t_infomask tuple) then Inr (True, tuple, s)
      else if infomask_has tuple HEAP_XMAX_IS_MULTI
      then
        let xmax = HeapTupleGetUpdateXid env tuple
        in (if TransactionIdIsCurrentTransactionId env xmax then Inr (HeapTupleHeaderGetCmax env tuple \<ge> cid, tuple, s)
            else case check_xmax env check xmax tuple s of
                   Inl e \<Rightarrow> Inl e
                 | Inr (r, tuple, s) \<Rightarrow>
                     (if r = XID_IN_SNAPSHOT then Inr (True, tuple, s)
                      else if r = XID_SURELY_COMMITTED \<or> xact_did_commit env xmax then Inr (False, tuple, s)
                      else Inr (True, tuple, s)))
      else if \<not> infomask_has tuple HEAP_XMAX_COMMITTED
      then (if TransactionIdIsCurrentTransactionId env (t_xmax tuple)
            then Inr (HeapTupleHeaderGetCmax env tuple \<ge> cid, tuple, s)
            else case check_xmax env check (t_xmax tuple) tuple s of
                   Inl e \<Rightarrow> Inl e
                 | Inr (r, tuple, s) \<Rightarrow>
                     (if r = XID_IN_SNAPSHOT then Inr (True, tuple, s)
                      else if \<not> (r = XID_SURELY_COMMITTED \<or> xact_did_commit env (t_xmax tuple))
                      then Inr (True, set_hint env HEAP_XMAX_INVALID InvalidTransactionId tuple, s)
                      else Inr (False, set_hint env HEAP_XMAX_COMMITTED (t_xmax tuple) tuple, s)))
      else (case check_xmax env check (t_xmax tuple) tuple s of
              Inl e \<Rightarrow> Inl e
            | Inr (r, tuple, s) \<Rightarrow> Inr (r = XID_IN_SNAPSHOT, tuple, s)))"

definition HeapTupleSatisfiesMVCC :: "XactEnv \<Rightarrow> 's snapshot_check \<Rightarrow> CommandId \<Rightarrow> HeapTuple \<Rightarrow> 's \<Rightarrow>
    (bool \<times> HeapTuple \<times> 's) result" where
  "HeapTupleSatisfiesMVCC env check cid tuple s =
     (case mvcc_xmin_phase env check cid tuple s of
        Inl e \<Rightarrow> Inl e
      | Inr (Some v, tuple, s) \<Rightarrow> Inr (v, tuple, s)
      | Inr (None, tuple, s) \<Rightarrow> mvcc_xmax_phase env check cid tuple s)"

section \<open>Vacuum\<close>

datatype HTSV_Result =
    HEAPTUPLE_DEAD
  | HEAPTUPLE_LIVE
  | HEAPTUPLE_RECENTLY_DEAD
  | HEAPTUPLE_INSERT_IN_PROGRESS
  | HEAPTUPLE_DELETE_IN_PROGRESS

definition HeapTupleHeaderIsOnlyLocked :: "XactEnv \<Rightarrow> HeapTuple \<Rightarrow> bool" where
  "HeapTupleHeaderIsOnlyLocked env tuple =
     (if infomask_has tuple HEAP_XMAX_INVALID then True
      else if infomask_has tuple HEAP_XMAX_LOCK_ONLY then True
      else if \<not> TransactionIdIsValid (t_xmax tuple) then True
      else if \<not> infomask_has tuple HEAP_XMAX_IS_MULTI then False
      else let xmax = HeapTupleGetUpdateXid env tuple
           in if TransactionIdIsCurrentTransactionId env xmax then False
              else if TransactionIdIsInProgress env xmax then False
              else if xact_did_commit env xmax then False
              else True)"

definition vacuum_moved_phase :: "XactEnv \<Rightarrow> HeapTuple \<Rightarrow> HTSV_Result option \<times> HeapTuple" where
  "vacuum_moved_phase env tuple =
     (let xvac = HeapTupleHeaderGetXvac tuple
      in if infomask_has tuple HEAP_MOVED_OFF
         then (if TransactionIdIsCurrentTransactionId env xvac then (Some HEAPTUPLE_DELETE_IN_PROGRESS, tuple)
               else if TransactionIdIsInProgress env xvac then (Some HEAPTUPLE_DELETE_IN_PROGRESS, tuple)
               else if xact_did_commit env xvac
               then (Some HEAPTUPLE_DEAD, set_hint env HEAP_XMIN_INVALID InvalidTransactionId tuple)
               else (None, set_hint env HEAP_XMIN_COMMITTED InvalidTransactionId tuple))
         else (if TransactionIdIsCurrentTransactionId env xvac then (Some HEAPTUPLE_INSERT_IN_PROGRESS, tuple)
               else if TransactionIdIsInProgress env xvac then (Some HEAPTUPLE_INSERT_IN_PROGRESS, tuple)
               else if xact_did_commit env xvac
               then (None, set_hint env HEAP_XMIN_COMMITTED InvalidTransactionId tuple)
               else (Some HEAPTUPLE_DEAD, set_hint env HEAP_XMIN_INVALID InvalidTransactionId tuple)))"

definition vacuum_xmin_phase :: "XactEnv \<Rightarrow> HeapTuple \<Rightarrow> HTSV_Result option \<times> HeapTuple" where
  "vacuum_xmin_phase env tuple =
     (if HeapTupleHeaderXminCommitted tuple then (None, tuple)
      else if HeapTupleHeaderXminInvalid tuple then (Some HEAPTUPLE_DEAD, tuple)
      else if tuple_moved tuple then vacuum_moved_phase env tuple
      else if TransactionIdIsCurrentTransactionId env (t_xmin tuple)
      then (if infomask_has tuple HEAP_XMAX_INVALID then (Some HEAPTUPLE_INSERT_IN_PROGRESS, tuple)
            else if HEAP_XMAX_IS_LOCKED_ONLY (t_infomask tuple) \<or> HeapTupleHeaderIsOnlyLocked env tuple
            then (Some HEAPTUPLE_INSERT_IN_PROGRESS, tuple)
            else if TransactionIdIsCurrentTransactionId env (HeapTupleHeaderGetUpdateXid env tuple)
            then (Some HEAPTUPLE_DELETE_IN_PROGRESS, tuple)
            else (Some HEAPTUPLE_INSERT_IN_PROGRESS, tuple))
      else if TransactionIdIsInProgress env (t_xmin tuple) then (Some HEAPTUPLE_INSERT_IN_PROGRESS, tuple)
      else if xact_did_commit env (t_xmin tuple)
      then (None, set_hint env HEAP_XMIN_COMMITTED (t_xmin tuple) tuple)
      else (Some HEAPTUPLE_DEAD, set_hint env HEAP_XMIN_INVALID InvalidTransactionId tuple))"

text \<open>The results are the status, \<^verbatim>\<open>*dead_after\<close> and the tuple.\<close>

definition vacuum_xmax_phase :: "XactEnv \<Rightarrow> HeapTuple \<Rightarrow> HTSV_Result \<times> TransactionId \<times> HeapTuple" where
  "vacuum_xmax_phase env tuple =
     (let none = InvalidTransactionId; xid = t_xmax tuple
      in if infomask_has tuple HEAP_XMAX_INVALID then (HEAPTUPLE_LIVE, none, tuple)
         else if HEAP_XMAX_IS_LOCKED_ONLY (t_infomask tuple)
         then (if \<not> infomask_has tuple HEAP_XMAX_COMMITTED
               then (if infomask_has tuple HEAP_XMAX_IS_MULTI
                     then (if \<not> HEAP_LOCKED_UPGRADED (t_infomask tuple) \<and> MultiXactIdIsRunning env xid True
                           then (HEAPTUPLE_LIVE, none, tuple)
                           else (HEAPTUPLE_LIVE, none, set_hint env HEAP_XMAX_INVALID InvalidTransactionId tuple))
                     else if TransactionIdIsInProgress env xid then (HEAPTUPLE_LIVE, none, tuple)
                     else (HEAPTUPLE_LIVE, none, set_hint env HEAP_XMAX_INVALID InvalidTransactionId tuple))
               else (HEAPTUPLE_LIVE, none, tuple))
         else if infomask_has tuple HEAP_XMAX_IS_MULTI
         then
           let xmax = HeapTupleGetUpdateXid env tuple
           in (if TransactionIdIsInProgress env xmax then (HEAPTUPLE_DELETE_IN_PROGRESS, none, tuple)
               else if xact_did_commit env xmax then (HEAPTUPLE_RECENTLY_DEAD, xmax, tuple)
               else if \<not> MultiXactIdIsRunning env xid False
               then (HEAPTUPLE_LIVE, none, set_hint env HEAP_XMAX_INVALID InvalidTransactionId tuple)
               else (HEAPTUPLE_LIVE, none, tuple))
         else if \<not> infomask_has tuple HEAP_XMAX_COMMITTED
         then (if TransactionIdIsInProgress env xid then (HEAPTUPLE_DELETE_IN_PROGRESS, none, tuple)
               else if xact_did_commit env xid
               then (HEAPTUPLE_RECENTLY_DEAD, xid, set_hint env HEAP_XMAX_COMMITTED xid tuple)
               else (HEAPTUPLE_LIVE, none, set_hint env HEAP_XMAX_INVALID InvalidTransactionId tuple))
         else (HEAPTUPLE_RECENTLY_DEAD, xid, tuple))"

definition HeapTupleSatisfiesVacuumHorizon :: "XactEnv \<Rightarrow> HeapTuple \<Rightarrow> HTSV_Result \<times> TransactionId \<times> HeapTuple" where
  "HeapTupleSatisfiesVacuumHorizon env tuple =
     (case vacuum_xmin_phase env tuple of
        (Some r, tuple) \<Rightarrow> (r, InvalidTransactionId, tuple)
      | (None, tuple) \<Rightarrow> vacuum_xmax_phase env tuple)"

definition HeapTupleSatisfiesVacuum :: "XactEnv \<Rightarrow> TransactionId \<Rightarrow> HeapTuple \<Rightarrow> HTSV_Result \<times> HeapTuple" where
  "HeapTupleSatisfiesVacuum env OldestXmin tuple =
     (case HeapTupleSatisfiesVacuumHorizon env tuple of
        (res, dead_after, tuple) \<Rightarrow>
          (if res = HEAPTUPLE_RECENTLY_DEAD \<and> TransactionIdPrecedes dead_after OldestXmin then HEAPTUPLE_DEAD else res,
           tuple))"

text \<open>\<^verbatim>\<open>GlobalVisTestIsRemovableXid\<close> with the horizons it tests is the argument \<open>removable\<close>.\<close>

definition HeapTupleSatisfiesNonVacuumable :: "XactEnv \<Rightarrow> (TransactionId \<Rightarrow> bool) \<Rightarrow> HeapTuple \<Rightarrow> bool \<times> HeapTuple" where
  "HeapTupleSatisfiesNonVacuumable env removable tuple =
     (case HeapTupleSatisfiesVacuumHorizon env tuple of
        (res, dead_after, tuple) \<Rightarrow>
          ((if res = HEAPTUPLE_RECENTLY_DEAD \<and> removable dead_after then HEAPTUPLE_DEAD else res) \<noteq> HEAPTUPLE_DEAD,
           tuple))"

definition HeapTupleIsSurelyDead :: "(TransactionId \<Rightarrow> bool) \<Rightarrow> HeapTuple \<Rightarrow> bool" where
  "HeapTupleIsSurelyDead removable tuple =
     (if \<not> HeapTupleHeaderXminCommitted tuple then HeapTupleHeaderXminInvalid tuple
      else if infomask_has tuple HEAP_XMAX_INVALID then False
      else if HEAP_XMAX_IS_LOCKED_ONLY (t_infomask tuple) then False
      else if infomask_has tuple HEAP_XMAX_IS_MULTI then False
      else if \<not> infomask_has tuple HEAP_XMAX_COMMITTED then False
      else removable (t_xmax tuple))"

section \<open>Historic snapshots and dispatch\<close>

text \<open>\<^verbatim>\<open>bsearch\<close> finds an element of a sorted array.\<close>

definition TransactionIdInArray :: "TransactionId \<Rightarrow> TransactionId list \<Rightarrow> bool" where
  "TransactionIdInArray xid xs \<longleftrightarrow> length xs > 0 \<and> xid \<in> set xs"

definition InvalidCommandId :: CommandId where
  "InvalidCommandId = NOT 0"

text \<open>\<^verbatim>\<open>ResolveCminCmaxDuringDecoding\<close> is the argument \<open>resolve\<close>: the two command identifiers of the
  tuple, or \<open>None\<close> when they are not known.\<close>

definition historic_inserted ::
  "XactEnv \<Rightarrow> (HeapTuple \<Rightarrow> (CommandId \<times> CommandId) option) \<Rightarrow> SnapshotData \<Rightarrow> HeapTuple \<Rightarrow> bool" where
  "historic_inserted env resolve snapshot tuple =
     (let xmin = HeapTupleHeaderGetXmin tuple
      in if HeapTupleHeaderXminInvalid tuple then False
         else if TransactionIdInArray xmin (subxip snapshot)
         then (case resolve tuple of None \<Rightarrow> False | Some (cmin, _) \<Rightarrow> \<not> cmin \<ge> curcid snapshot)
         else if TransactionIdPrecedes xmin (snap_xmin snapshot)
         then HeapTupleHeaderXminCommitted tuple \<or> xact_did_commit env xmin
         else if TransactionIdFollowsOrEquals xmin (snap_xmax snapshot) then False
         else TransactionIdInArray xmin (xip snapshot))"

definition HeapTupleSatisfiesHistoricMVCC ::
  "XactEnv \<Rightarrow> (HeapTuple \<Rightarrow> (CommandId \<times> CommandId) option) \<Rightarrow> SnapshotData \<Rightarrow> HeapTuple \<Rightarrow> bool" where
  "HeapTupleSatisfiesHistoricMVCC env resolve snapshot tuple =
     (if \<not> historic_inserted env resolve snapshot tuple then False
      else if infomask_has tuple HEAP_XMAX_INVALID then True
      else if HEAP_XMAX_IS_LOCKED_ONLY (t_infomask tuple) then True
      else
        let xmax = (if infomask_has tuple HEAP_XMAX_IS_MULTI then HeapTupleGetUpdateXid env tuple else t_xmax tuple)
        in if TransactionIdInArray xmax (subxip snapshot)
           then (case resolve tuple of
                   None \<Rightarrow> True
                 | Some (_, cmax) \<Rightarrow> cmax = InvalidCommandId \<or> cmax \<ge> curcid snapshot)
           else if TransactionIdPrecedes xmax (snap_xmin snapshot)
           then (if infomask_has tuple HEAP_XMAX_COMMITTED then False else \<not> xact_did_commit env xmax)
           else if TransactionIdFollowsOrEquals xmax (snap_xmax snapshot) then True
           else \<not> TransactionIdInArray xmax (xip snapshot))"

text \<open>The state that \<^verbatim>\<open>XidInMVCCSnapshot\<close> threads is the snapshot with the backend's cache.\<close>

definition mvcc_check :: "SnapshotEnv \<Rightarrow> (SnapshotData \<times> LocalDistribXactCache) snapshot_check" where
  "mvcc_check senv xid ignore s =
     (case XidInMVCCSnapshot senv xid ignore (fst s) (snd s) of
        Inl e \<Rightarrow> Inl e
      | Inr (r, ign, snapshot, cache) \<Rightarrow> Inr (r, ign, (snapshot, cache)))"

definition HeapTupleSatisfiesVisibility ::
  "XactEnv \<Rightarrow> SnapshotEnv \<Rightarrow> (TransactionId \<Rightarrow> bool) \<Rightarrow> (HeapTuple \<Rightarrow> (CommandId \<times> CommandId) option) \<Rightarrow>
   HeapTuple \<Rightarrow> SnapshotData \<Rightarrow> LocalDistribXactCache \<Rightarrow>
   (bool \<times> HeapTuple \<times> SnapshotData \<times> LocalDistribXactCache) result" where
  "HeapTupleSatisfiesVisibility env senv removable resolve tuple snapshot cache =
     (let plain = (\<lambda>(v, tuple). Inr (v, tuple, snapshot, cache))
      in case snapshot_type snapshot of
           SNAPSHOT_MVCC \<Rightarrow> HeapTupleSatisfiesMVCC env (mvcc_check senv) (curcid snapshot) tuple (snapshot, cache)
         | SNAPSHOT_SELF \<Rightarrow> plain (HeapTupleSatisfiesSelf env tuple)
         | SNAPSHOT_ANY \<Rightarrow> plain (HeapTupleSatisfiesAny env tuple)
         | SNAPSHOT_TOAST \<Rightarrow> plain (HeapTupleSatisfiesToast env tuple)
         | SNAPSHOT_DIRTY \<Rightarrow>
             (case HeapTupleSatisfiesDirty env snapshot tuple of (v, tuple, snapshot) \<Rightarrow> Inr (v, tuple, snapshot, cache))
         | SNAPSHOT_HISTORIC_MVCC \<Rightarrow> plain (HeapTupleSatisfiesHistoricMVCC env resolve snapshot tuple, tuple)
         | SNAPSHOT_NON_VACUUMABLE \<Rightarrow> plain (HeapTupleSatisfiesNonVacuumable env removable tuple))"

end
