(* ===== verification/VisibilityProps.thy ===== *)
theory VisibilityProps
  imports Visibility
begin

text \<open>Correctness of the visibility routines. A tuple is described without its hint bits, by the fates
  of the transactions that inserted and updated it; the hint bits are sound when they repeat a fate.
  The routines keep them sound and give the answers of the description.\<close>

section \<open>Effect of a hint on the tests of a tuple\<close>

lemma mask_disjoint [simp]:
  "HEAP_XMIN_COMMITTED AND HEAP_XMAX_INVALID = 0" "HEAP_XMIN_COMMITTED AND HEAP_XMAX_COMMITTED = 0"
  "HEAP_XMIN_COMMITTED AND HEAP_XMAX_IS_MULTI = 0" "HEAP_XMIN_COMMITTED AND HEAP_MOVED_OFF = 0"
  "HEAP_XMIN_COMMITTED AND HEAP_MOVED_IN = 0" "HEAP_XMIN_COMMITTED AND HEAP_XMAX_LOCK_ONLY = 0"
  "HEAP_XMIN_COMMITTED AND HEAP_COMBOCID = 0" "HEAP_XMIN_INVALID AND HEAP_XMAX_INVALID = 0"
  "HEAP_XMIN_INVALID AND HEAP_XMAX_COMMITTED = 0" "HEAP_XMIN_INVALID AND HEAP_XMAX_IS_MULTI = 0"
  "HEAP_XMIN_INVALID AND HEAP_MOVED_OFF = 0" "HEAP_XMIN_INVALID AND HEAP_MOVED_IN = 0"
  "HEAP_XMIN_INVALID AND HEAP_XMAX_LOCK_ONLY = 0" "HEAP_XMIN_INVALID AND HEAP_COMBOCID = 0"
  "HEAP_XMAX_INVALID AND HEAP_XMAX_COMMITTED = 0" "HEAP_XMAX_INVALID AND HEAP_XMAX_IS_MULTI = 0"
  "HEAP_XMAX_INVALID AND HEAP_MOVED_OFF = 0" "HEAP_XMAX_INVALID AND HEAP_MOVED_IN = 0"
  "HEAP_XMAX_INVALID AND HEAP_XMAX_LOCK_ONLY = 0" "HEAP_XMAX_INVALID AND HEAP_COMBOCID = 0"
  "HEAP_XMAX_COMMITTED AND HEAP_XMAX_INVALID = 0" "HEAP_XMAX_COMMITTED AND HEAP_XMAX_IS_MULTI = 0"
  "HEAP_XMAX_COMMITTED AND HEAP_MOVED_OFF = 0" "HEAP_XMAX_COMMITTED AND HEAP_MOVED_IN = 0"
  "HEAP_XMAX_COMMITTED AND HEAP_XMAX_LOCK_ONLY = 0" "HEAP_XMAX_COMMITTED AND HEAP_COMBOCID = 0"
  by (simp_all add: heap_masks)

abbreviation hint_masks :: "uint16 set" where
  "hint_masks \<equiv> {HEAP_XMIN_INVALID, HEAP_XMIN_COMMITTED, HEAP_XMAX_INVALID, HEAP_XMAX_COMMITTED}"

lemma or_and_disjoint: "m AND k = 0 \<Longrightarrow> (w OR m) AND k = w AND k" for w m k :: uint16
  by (simp add: bit.conj_disj_distrib2)

lemma infomask_has_hint_other [simp]:
  "m \<in> hint_masks \<Longrightarrow> m AND k = 0 \<Longrightarrow> infomask_has (set_hint env m x t) k = infomask_has t k"
  by (simp add: infomask_has_def set_hint_infomask or_and_disjoint)

lemma infomask_has_hint_self:
  "m \<in> hint_masks \<Longrightarrow> infomask_has (set_hint env m x t) m = (infomask_has t m \<or> hint_allowed env x)"
proof -
  assume m: "m \<in> hint_masks"
  then have "m \<noteq> 0" by (auto simp: heap_masks)
  moreover have "(t_infomask t OR m) AND m = m" by (simp add: bit.conj_disj_distrib2)
  ultimately show ?thesis using m by (simp add: infomask_has_def set_hint_infomask)
qed

lemma locked_only_hint [simp]:
  "m \<in> hint_masks \<Longrightarrow> HEAP_XMAX_IS_LOCKED_ONLY (t_infomask (set_hint env m x t)) = HEAP_XMAX_IS_LOCKED_ONLY (t_infomask t)"
proof -
  assume m: "m \<in> hint_masks"
  then have "m AND HEAP_XMAX_LOCK_ONLY = 0" "m AND (HEAP_XMAX_IS_MULTI OR HEAP_LOCK_MASK) = 0"
    by (auto simp: heap_masks)
  then show ?thesis using m by (simp add: HEAP_XMAX_IS_LOCKED_ONLY_def set_hint_infomask or_and_disjoint)
qed

lemma xmin_tests_xmax_hint [simp]:
  assumes "m \<in> {HEAP_XMAX_INVALID, HEAP_XMAX_COMMITTED}"
  shows "HeapTupleHeaderXminCommitted (set_hint env m x t) = HeapTupleHeaderXminCommitted t"
    "HeapTupleHeaderXminInvalid (set_hint env m x t) = HeapTupleHeaderXminInvalid t"
    "HeapTupleHeaderXminFrozen (set_hint env m x t) = HeapTupleHeaderXminFrozen t"
proof -
  have "m AND HEAP_XMIN_COMMITTED = 0" "m AND (HEAP_XMIN_COMMITTED OR HEAP_XMIN_INVALID) = 0" "m AND HEAP_XMIN_FROZEN = 0"
    using assms by (auto simp: heap_masks)
  then show "HeapTupleHeaderXminCommitted (set_hint env m x t) = HeapTupleHeaderXminCommitted t"
    "HeapTupleHeaderXminInvalid (set_hint env m x t) = HeapTupleHeaderXminInvalid t"
    "HeapTupleHeaderXminFrozen (set_hint env m x t) = HeapTupleHeaderXminFrozen t"
    using assms by (simp_all add: HeapTupleHeaderXminCommitted_def HeapTupleHeaderXminInvalid_def
        HeapTupleHeaderXminFrozen_def set_hint_infomask or_and_disjoint)
qed

text \<open>The two bits of the inserter, read together.\<close>

lemma xmin_bits:
  "HeapTupleHeaderXminCommitted t = infomask_has t HEAP_XMIN_COMMITTED"
  "HeapTupleHeaderXminInvalid t = (\<not> infomask_has t HEAP_XMIN_COMMITTED \<and> infomask_has t HEAP_XMIN_INVALID)"
  "HeapTupleHeaderXminFrozen t = (infomask_has t HEAP_XMIN_COMMITTED \<and> infomask_has t HEAP_XMIN_INVALID)"
proof -
  have e: "w AND 2 ^ n = (if bit w n then 2 ^ n else 0)" for w :: uint16 and n
    by (rule bit_word_eqI) (auto simp: bit_and_iff bit_exp_iff)
  have c: "w AND 0x100 = (if bit w 8 then 0x100 else 0)" and i: "w AND 0x200 = (if bit w 9 then 0x200 else 0)"
    for w :: uint16
    using e [of w 8] e [of w 9] by simp_all
  have b: "w AND (0x300 :: uint16) = (w AND 0x100) OR (w AND 0x200)" for w :: uint16
    by (simp flip: bit.conj_disj_distrib)
  show "HeapTupleHeaderXminCommitted t = infomask_has t HEAP_XMIN_COMMITTED"
    by (simp add: HeapTupleHeaderXminCommitted_def infomask_has_def)
  show "HeapTupleHeaderXminInvalid t = (\<not> infomask_has t HEAP_XMIN_COMMITTED \<and> infomask_has t HEAP_XMIN_INVALID)"
    "HeapTupleHeaderXminFrozen t = (infomask_has t HEAP_XMIN_COMMITTED \<and> infomask_has t HEAP_XMIN_INVALID)"
    by (simp_all add: HeapTupleHeaderXminInvalid_def HeapTupleHeaderXminFrozen_def infomask_has_def heap_masks b c i)
qed

lemma mask_disjoint_xmin [simp]:
  "HEAP_XMIN_COMMITTED AND HEAP_XMIN_INVALID = 0" "HEAP_XMIN_INVALID AND HEAP_XMIN_COMMITTED = 0"
  by (simp_all add: heap_masks)

lemma xmin_tests_xmin_hint [simp]:
  "HeapTupleHeaderXminCommitted (set_hint env HEAP_XMIN_COMMITTED x t) = (HeapTupleHeaderXminCommitted t \<or> hint_allowed env x)"
  "HeapTupleHeaderXminCommitted (set_hint env HEAP_XMIN_INVALID x t) = HeapTupleHeaderXminCommitted t"
  "HeapTupleHeaderXminFrozen (set_hint env HEAP_XMIN_COMMITTED x t) =
     (HeapTupleHeaderXminFrozen t \<or> HeapTupleHeaderXminInvalid t \<and> hint_allowed env x)"
  "HeapTupleHeaderXminFrozen (set_hint env HEAP_XMIN_INVALID x t) =
     (HeapTupleHeaderXminFrozen t \<or> HeapTupleHeaderXminCommitted t \<and> hint_allowed env x)"
  "HeapTupleHeaderXminInvalid (set_hint env HEAP_XMIN_COMMITTED x t) = (HeapTupleHeaderXminInvalid t \<and> \<not> hint_allowed env x)"
  "HeapTupleHeaderXminInvalid (set_hint env HEAP_XMIN_INVALID x t) =
     (HeapTupleHeaderXminInvalid t \<or> \<not> HeapTupleHeaderXminCommitted t \<and> hint_allowed env x)"
  by (auto simp: xmin_bits infomask_has_hint_self)

lemma xmax_tests_xmax_hint [simp]:
  "infomask_has (set_hint env HEAP_XMAX_INVALID x t) HEAP_XMAX_INVALID = (infomask_has t HEAP_XMAX_INVALID \<or> hint_allowed env x)"
  "infomask_has (set_hint env HEAP_XMAX_COMMITTED x t) HEAP_XMAX_COMMITTED = (infomask_has t HEAP_XMAX_COMMITTED \<or> hint_allowed env x)"
  by (simp_all add: infomask_has_hint_self)

lemma xmin_frozen_committed: "HeapTupleHeaderXminFrozen t \<Longrightarrow> HeapTupleHeaderXminCommitted t"
  by (simp add: xmin_bits)

lemma xmin_invalid_not_committed: "HeapTupleHeaderXminInvalid t \<Longrightarrow> \<not> HeapTupleHeaderXminCommitted t"
  by (simp add: xmin_bits)

lemma derived_hint [simp]:
  "m \<in> hint_masks \<Longrightarrow> HeapTupleGetUpdateXid env (set_hint env' m x t) = HeapTupleGetUpdateXid env t"
  "m \<in> hint_masks \<Longrightarrow> tuple_moved (set_hint env' m x t) = tuple_moved t"
  "m \<in> hint_masks \<Longrightarrow> HeapTupleHeaderGetXvac (set_hint env' m x t) = HeapTupleHeaderGetXvac t"
  "m \<in> hint_masks \<Longrightarrow> HeapTupleHeaderGetCmax env (set_hint env' m x t) = HeapTupleHeaderGetCmax env t"
  "m \<in> hint_masks \<Longrightarrow> HeapTupleHeaderGetCmin env (set_hint env' m x t) = HeapTupleHeaderGetCmin env t"
proof -
  assume m: "m \<in> hint_masks"
  then have "m AND HEAP_MOVED_OFF = 0" "m AND HEAP_MOVED_IN = 0" "m AND (HEAP_MOVED_OFF OR HEAP_MOVED_IN) = 0"
    "m AND HEAP_COMBOCID = 0" by (auto simp: heap_masks)
  then show "HeapTupleGetUpdateXid env (set_hint env' m x t) = HeapTupleGetUpdateXid env t"
    "tuple_moved (set_hint env' m x t) = tuple_moved t"
    "HeapTupleHeaderGetXvac (set_hint env' m x t) = HeapTupleHeaderGetXvac t"
    "HeapTupleHeaderGetCmax env (set_hint env' m x t) = HeapTupleHeaderGetCmax env t"
    "HeapTupleHeaderGetCmin env (set_hint env' m x t) = HeapTupleHeaderGetCmin env t"
    using m by (simp_all add: HeapTupleGetUpdateXid_def tuple_moved_def HeapTupleHeaderGetXvac_def
        HeapTupleHeaderGetCmax_def HeapTupleHeaderGetCmin_def)
qed

section \<open>Fates\<close>

text \<open>What became of a transaction, in the order in which the routines ask.\<close>

datatype fate = Own | Running | Committed | Aborted

definition fate_of :: "XactEnv \<Rightarrow> TransactionId \<Rightarrow> fate" where
  "fate_of env xid =
     (if TransactionIdIsCurrentTransactionId env xid then Own
      else if TransactionIdIsInProgress env xid then Running
      else if xact_did_commit env xid then Committed
      else Aborted)"

lemma fate_tests:
  "fate_of env x = Own \<Longrightarrow> TransactionIdIsCurrentTransactionId env x"
  "fate_of env x = Running \<Longrightarrow> \<not> TransactionIdIsCurrentTransactionId env x"
  "fate_of env x = Running \<Longrightarrow> TransactionIdIsInProgress env x"
  "fate_of env x = Committed \<Longrightarrow> \<not> TransactionIdIsCurrentTransactionId env x"
  "fate_of env x = Committed \<Longrightarrow> \<not> TransactionIdIsInProgress env x"
  "fate_of env x = Committed \<Longrightarrow> xact_did_commit env x"
  "fate_of env x = Aborted \<Longrightarrow> \<not> TransactionIdIsCurrentTransactionId env x"
  "fate_of env x = Aborted \<Longrightarrow> \<not> TransactionIdIsInProgress env x"
  "fate_of env x = Aborted \<Longrightarrow> \<not> xact_did_commit env x"
  by (simp_all add: fate_of_def split: if_splits)

text \<open>The transaction that updated or deleted a tuple, and the tuples no transaction has updated.\<close>

definition updater :: "XactEnv \<Rightarrow> HeapTuple \<Rightarrow> TransactionId" where
  "updater env t = (if infomask_has t HEAP_XMAX_IS_MULTI then HeapTupleGetUpdateXid env t else t_xmax t)"

definition locked_only :: "HeapTuple \<Rightarrow> bool" where
  "locked_only t = HEAP_XMAX_IS_LOCKED_ONLY (t_infomask t)"

text \<open>The fate of the insertion: of the inserter, or, for a tuple moved by an old vacuum, of the move.
  A tuple moved off is there as long as the vacuum has not committed.\<close>

definition insertion_succeeded :: "XactEnv \<Rightarrow> HeapTuple \<Rightarrow> bool" where
  "insertion_succeeded env t =
     (if infomask_has t HEAP_MOVED_OFF then fate_of env (HeapTupleHeaderGetXvac t) = Aborted
      else if infomask_has t HEAP_MOVED_IN then fate_of env (HeapTupleHeaderGetXvac t) = Committed
      else fate_of env (t_xmin t) = Committed)"

definition insertion_failed :: "XactEnv \<Rightarrow> HeapTuple \<Rightarrow> bool" where
  "insertion_failed env t =
     (if infomask_has t HEAP_MOVED_OFF then fate_of env (HeapTupleHeaderGetXvac t) = Committed
      else if infomask_has t HEAP_MOVED_IN then fate_of env (HeapTupleHeaderGetXvac t) = Aborted
      else fate_of env (t_xmin t) = Aborted)"

text \<open>The hint bits are sound: each repeats a fate.\<close>

definition hints_sound :: "XactEnv \<Rightarrow> HeapTuple \<Rightarrow> bool" where
  "hints_sound env t \<longleftrightarrow>
     (HeapTupleHeaderXminCommitted t \<and> \<not> HeapTupleHeaderXminFrozen t \<longrightarrow> insertion_succeeded env t) \<and>
     (HeapTupleHeaderXminInvalid t \<longrightarrow> insertion_failed env t) \<and>
     (infomask_has t HEAP_XMAX_INVALID \<longrightarrow> locked_only t \<or> fate_of env (updater env t) = Aborted) \<and>
     (infomask_has t HEAP_XMAX_COMMITTED \<longrightarrow> locked_only t \<or> fate_of env (updater env t) = Committed)"

text \<open>A tuple the current transaction has inserted can only be updated by the current transaction.\<close>

definition own_rule :: "XactEnv \<Rightarrow> HeapTuple \<Rightarrow> bool" where
  "own_rule env t \<longleftrightarrow>
     (\<not> tuple_moved t \<and> fate_of env (t_xmin t) = Own \<and> \<not> locked_only t \<longrightarrow> fate_of env (updater env t) \<in> {Own, Aborted})"

lemma described_hint [simp]:
  "m \<in> hint_masks \<Longrightarrow> locked_only (set_hint env m x t) = locked_only t"
  "m \<in> hint_masks \<Longrightarrow> updater env (set_hint env' m x t) = updater env t"
  "m \<in> hint_masks \<Longrightarrow> insertion_succeeded env (set_hint env' m x t) = insertion_succeeded env t"
  "m \<in> hint_masks \<Longrightarrow> insertion_failed env (set_hint env' m x t) = insertion_failed env t"
  by (auto simp: locked_only_def updater_def insertion_succeeded_def insertion_failed_def)

lemma sound_xmin_committed:
  "hints_sound env t \<Longrightarrow> \<not> HeapTupleHeaderXminInvalid t \<Longrightarrow> insertion_succeeded env t \<Longrightarrow>
   hints_sound env (set_hint env HEAP_XMIN_COMMITTED x t)"
  by (auto simp: hints_sound_def)

lemma sound_xmin_invalid:
  "hints_sound env t \<Longrightarrow> \<not> HeapTupleHeaderXminCommitted t \<Longrightarrow> insertion_failed env t \<Longrightarrow>
   hints_sound env (set_hint env HEAP_XMIN_INVALID x t)"
  by (auto simp: hints_sound_def)

lemma sound_xmax_invalid:
  "hints_sound env t \<Longrightarrow> locked_only t \<or> fate_of env (updater env t) = Aborted \<Longrightarrow>
   hints_sound env (set_hint env HEAP_XMAX_INVALID x t)"
  by (auto simp: hints_sound_def)

lemma sound_xmax_committed:
  "hints_sound env t \<Longrightarrow> locked_only t \<or> fate_of env (updater env t) = Committed \<Longrightarrow>
   hints_sound env (set_hint env HEAP_XMAX_COMMITTED x t)"
  by (auto simp: hints_sound_def)

lemmas sound_hints = sound_xmin_committed sound_xmin_invalid sound_xmax_invalid sound_xmax_committed

section \<open>What a routine may change\<close>

text \<open>A routine only adds hint bits, besides the dirty flag and the second infomask.\<close>

definition hinted :: "HeapTuple \<Rightarrow> HeapTuple \<Rightarrow> bool" where
  "hinted t t' \<longleftrightarrow> t_xmin t' = t_xmin t \<and> t_xmax t' = t_xmax t \<and> t_field3 t' = t_field3 t \<and> t_ctid t' = t_ctid t \<and>
     t_self t' = t_self t \<and> (\<exists>m. t_infomask t' = t_infomask t OR m \<and> m AND 0xF0FF = 0)"

lemma hinted_refl [simp]: "hinted t t"
proof -
  have "t_infomask t = t_infomask t OR 0 \<and> (0 :: uint16) AND 0xF0FF = 0" by simp
  then show ?thesis unfolding hinted_def by blast
qed

lemma hinted_trans: "hinted t t' \<Longrightarrow> hinted t' t'' \<Longrightarrow> hinted t t''"
proof -
  assume a: "hinted t t'" "hinted t' t''"
  then obtain m m' where "t_infomask t' = t_infomask t OR m" "m AND 0xF0FF = 0"
    "t_infomask t'' = t_infomask t' OR m'" "m' AND 0xF0FF = 0" unfolding hinted_def by blast
  then have "t_infomask t'' = t_infomask t OR (m OR m') \<and> (m OR m') AND 0xF0FF = 0"
    by (simp add: or.assoc bit.conj_disj_distrib2)
  then show ?thesis using a unfolding hinted_def by (metis (no_types))
qed

lemma hinted_set_hint [simp]: "m \<in> hint_masks \<Longrightarrow> hinted t (set_hint env m x t)"
proof -
  assume m: "m \<in> hint_masks"
  have "t_infomask (set_hint env m x t) = t_infomask t OR (if hint_allowed env x then m else 0)"
    using m by (simp add: set_hint_infomask)
  moreover have "(if hint_allowed env x then m else 0) AND 0xF0FF = 0" using m by (auto simp: heap_masks)
  ultimately have "\<exists>k. t_infomask (set_hint env m x t) = t_infomask t OR k \<and> k AND 0xF0FF = 0" by blast
  then show ?thesis unfolding hinted_def by (simp only: set_hint_frame simp_thms)
qed

lemma hinted_has:
  assumes "hinted t t'" "k AND 0x0F00 = 0"
  shows "t_infomask t' AND k = t_infomask t AND k"
proof -
  obtain m where m: "t_infomask t' = t_infomask t OR m" "m AND 0xF0FF = 0" using assms(1) unfolding hinted_def by blast
  have all: "(0xF0FF OR 0x0F00 :: uint16) = - 1" by simp
  have "m AND k = (m AND k) AND (0xF0FF OR 0x0F00)" unfolding all by simp
  also have "\<dots> = (m AND 0xF0FF) AND k OR m AND (k AND 0x0F00)"
    unfolding bit.conj_disj_distrib by (simp only: ac_simps)
  finally have "m AND k = (m AND 0xF0FF) AND k OR m AND (k AND 0x0F00)" .
  then have "m AND k = 0" using m(2) assms(2) by simp
  then show ?thesis by (simp add: m(1) or_and_disjoint)
qed

lemma hinted_described:
  assumes "hinted t t'"
  shows "locked_only t' = locked_only t" "updater env t' = updater env t" "tuple_moved t' = tuple_moved t"
    "HeapTupleHeaderGetCmin env t' = HeapTupleHeaderGetCmin env t" "HeapTupleHeaderGetCmax env t' = HeapTupleHeaderGetCmax env t"
    "insertion_succeeded env t' = insertion_succeeded env t" "insertion_failed env t' = insertion_failed env t"
proof -
  have k: "HEAP_XMAX_LOCK_ONLY AND 0x0F00 = 0" "(HEAP_XMAX_IS_MULTI OR HEAP_LOCK_MASK) AND 0x0F00 = 0"
    "HEAP_XMAX_IS_MULTI AND 0x0F00 = 0" "HEAP_MOVED_OFF AND 0x0F00 = 0" "HEAP_MOVED_IN AND 0x0F00 = 0"
    "(HEAP_MOVED_OFF OR HEAP_MOVED_IN) AND 0x0F00 = 0" "HEAP_COMBOCID AND 0x0F00 = 0"
    by (simp_all add: heap_masks)
  note h = k [THEN hinted_has [OF assms]]
  have f: "t_xmin t' = t_xmin t" "t_xmax t' = t_xmax t" "t_field3 t' = t_field3 t" using assms by (auto simp: hinted_def)
  have x: "HeapTupleHeaderGetXvac t' = HeapTupleHeaderGetXvac t"
    by (simp add: HeapTupleHeaderGetXvac_def infomask_has_def h f)
  show "locked_only t' = locked_only t" by (simp add: locked_only_def HEAP_XMAX_IS_LOCKED_ONLY_def h)
  show "updater env t' = updater env t" by (simp add: updater_def infomask_has_def HeapTupleGetUpdateXid_def h f)
  show "tuple_moved t' = tuple_moved t" by (simp add: tuple_moved_def infomask_has_def h)
  show "HeapTupleHeaderGetCmin env t' = HeapTupleHeaderGetCmin env t" "HeapTupleHeaderGetCmax env t' = HeapTupleHeaderGetCmax env t"
    by (simp_all add: HeapTupleHeaderGetCmin_def HeapTupleHeaderGetCmax_def infomask_has_def h f)
  show "insertion_succeeded env t' = insertion_succeeded env t" "insertion_failed env t' = insertion_failed env t"
    by (simp_all add: insertion_succeeded_def insertion_failed_def infomask_has_def h f x)
qed

section \<open>Self\<close>

text \<open>Whether the insertion counts for the current transaction, and whether an update does.\<close>

definition inserted :: "XactEnv \<Rightarrow> HeapTuple \<Rightarrow> bool" where
  "inserted env t \<longleftrightarrow> HeapTupleHeaderXminFrozen t \<or>
     (if infomask_has t HEAP_MOVED_OFF then fate_of env (HeapTupleHeaderGetXvac t) \<in> {Running, Aborted}
      else if infomask_has t HEAP_MOVED_IN then fate_of env (HeapTupleHeaderGetXvac t) \<in> {Own, Committed}
      else fate_of env (t_xmin t) \<in> {Own, Committed})"

definition deleted :: "XactEnv \<Rightarrow> HeapTuple \<Rightarrow> bool" where
  "deleted env t \<longleftrightarrow> \<not> locked_only t \<and> fate_of env (updater env t) \<in> {Own, Committed}"

lemma moved_invisible_spec:
  assumes "hints_sound env t" "\<not> HeapTupleHeaderXminCommitted t" "\<not> HeapTupleHeaderXminInvalid t" "tuple_moved t"
  shows "fst (moved_invisible env t) \<longleftrightarrow> \<not> inserted env t"
    and "hints_sound env (snd (moved_invisible env t))" and "hinted t (snd (moved_invisible env t))"
proof -
  have nf: "\<not> HeapTupleHeaderXminFrozen t" using assms(2) xmin_frozen_committed by blast
  show "fst (moved_invisible env t) \<longleftrightarrow> \<not> inserted env t"
    using assms(4) nf by (auto simp: moved_invisible_def inserted_def tuple_moved_def fate_of_def Let_def)
  show "hints_sound env (snd (moved_invisible env t))"
    using assms
    by (auto simp: moved_invisible_def Let_def tuple_moved_def insertion_succeeded_def insertion_failed_def fate_of_def intro!: sound_hints)
  show "hinted t (snd (moved_invisible env t))"
    by (simp add: moved_invisible_def Let_def)
qed

lemma own_tuple_visible_spec:
  assumes "hints_sound env t" "own_rule env t" "\<not> tuple_moved t" "fate_of env (t_xmin t) = Own"
  shows "fst (own_tuple_visible env t) \<longleftrightarrow> \<not> deleted env t"
    and "hints_sound env (snd (own_tuple_visible env t))" and "hinted t (snd (own_tuple_visible env t))"
proof -
  have own: "locked_only t \<or> fate_of env (updater env t) = Own \<or> fate_of env (updater env t) = Aborted"
    using assms by (auto simp: own_rule_def)
  have cur: "TransactionIdIsCurrentTransactionId env x \<longleftrightarrow> fate_of env x = Own" for x
    by (simp add: fate_of_def)
  show "fst (own_tuple_visible env t) \<longleftrightarrow> \<not> deleted env t"
    using assms(1) own
    by (auto simp: own_tuple_visible_def deleted_def locked_only_def [symmetric] updater_def cur hints_sound_def)
  show "hints_sound env (snd (own_tuple_visible env t))"
    using assms(1) own
    by (auto simp: own_tuple_visible_def locked_only_def [symmetric] updater_def cur intro!: sound_xmax_invalid)
  show "hinted t (snd (own_tuple_visible env t))"
    by (simp add: own_tuple_visible_def)
qed

text \<open>The four ways a routine meets a tuple, given sound hints.\<close>

lemma xmin_cases:
  assumes "hints_sound env t"
  obtains (known) "HeapTupleHeaderXminCommitted t" "inserted env t"
      "HeapTupleHeaderXminFrozen t \<or> insertion_succeeded env t"
  | (failed) "\<not> HeapTupleHeaderXminCommitted t" "HeapTupleHeaderXminInvalid t" "\<not> inserted env t" "insertion_failed env t"
  | (moved) "\<not> HeapTupleHeaderXminCommitted t" "\<not> HeapTupleHeaderXminInvalid t" "tuple_moved t"
  | (plain) "\<not> HeapTupleHeaderXminCommitted t" "\<not> HeapTupleHeaderXminInvalid t" "\<not> tuple_moved t"
      "inserted env t \<longleftrightarrow> fate_of env (t_xmin t) \<in> {Own, Committed}"
      "\<And>x. fate_of env (t_xmin t) = Committed \<Longrightarrow> hints_sound env (set_hint env HEAP_XMIN_COMMITTED x t)"
      "\<And>x. fate_of env (t_xmin t) = Aborted \<Longrightarrow> hints_sound env (set_hint env HEAP_XMIN_INVALID x t)"
proof -
  have c: "inserted env t \<and> (HeapTupleHeaderXminFrozen t \<or> insertion_succeeded env t)" if "HeapTupleHeaderXminCommitted t"
    using that assms by (auto simp: inserted_def hints_sound_def insertion_succeeded_def)
  have i: "\<not> inserted env t \<and> insertion_failed env t \<and> \<not> HeapTupleHeaderXminCommitted t" if "HeapTupleHeaderXminInvalid t"
    using that assms xmin_invalid_not_committed xmin_frozen_committed [of t]
    by (auto simp: inserted_def hints_sound_def insertion_failed_def)
  show thesis
  proof (cases "HeapTupleHeaderXminCommitted t \<or> HeapTupleHeaderXminInvalid t \<or> tuple_moved t")
    case True
    then show thesis using c i known failed moved by blast
  next
    case False
    then have n: "\<not> HeapTupleHeaderXminCommitted t" "\<not> HeapTupleHeaderXminInvalid t" "\<not> tuple_moved t" by blast+
    have "inserted env t \<longleftrightarrow> fate_of env (t_xmin t) \<in> {Own, Committed}"
      using n xmin_frozen_committed [of t] by (auto simp: inserted_def tuple_moved_def)
    moreover have "fate_of env (t_xmin t) = Committed \<Longrightarrow> hints_sound env (set_hint env HEAP_XMIN_COMMITTED x t)"
      "fate_of env (t_xmin t) = Aborted \<Longrightarrow> hints_sound env (set_hint env HEAP_XMIN_INVALID x t)" for x
      using n assms by (auto intro!: sound_hints simp: insertion_succeeded_def insertion_failed_def tuple_moved_def)
    ultimately show thesis using n plain by blast
  qed
qed

text \<open>The hints of the updater.\<close>

lemma xmax_hints:
  assumes "hints_sound env t"
  shows "infomask_has t HEAP_XMAX_INVALID \<Longrightarrow> locked_only t \<or> fate_of env (updater env t) = Aborted"
    "infomask_has t HEAP_XMAX_COMMITTED \<Longrightarrow> locked_only t \<or> fate_of env (updater env t) = Committed"
  using assms by (auto simp: hints_sound_def)

lemma self_xmin_spec:
  assumes "hints_sound env t" "own_rule env t"
  shows "case self_xmin_phase env t of (r, t') \<Rightarrow> hints_sound env t' \<and> hinted t t' \<and>
    (case r of None \<Rightarrow> inserted env t | Some v \<Rightarrow> v \<longleftrightarrow> inserted env t \<and> \<not> deleted env t)"
  using assms(1)
proof (cases rule: xmin_cases)
  case moved
  then show ?thesis using moved_invisible_spec [OF assms(1) moved] by (simp add: self_xmin_phase_def case_prod_beta)
next
  case plain
  show ?thesis
  proof (cases "fate_of env (t_xmin t)")
    case Own
    then show ?thesis
      using plain own_tuple_visible_spec [OF assms plain(3) Own] by (simp add: self_xmin_phase_def case_prod_beta fate_tests)
  qed (use plain assms(1) in \<open>simp_all add: self_xmin_phase_def fate_tests\<close>)
qed (use assms in \<open>simp_all add: self_xmin_phase_def\<close>)

lemma self_xmax_spec:
  assumes "hints_sound env t"
  shows "fst (self_xmax_phase env t) \<longleftrightarrow> \<not> deleted env t"
    and "hints_sound env (snd (self_xmax_phase env t))" and "hinted t (snd (self_xmax_phase env t))"
proof -
  note h = xmax_hints [OF assms]
  have "(fst (self_xmax_phase env t) \<longleftrightarrow> \<not> deleted env t) \<and> hints_sound env (snd (self_xmax_phase env t))"
  proof (cases "infomask_has t HEAP_XMAX_IS_MULTI")
    case True
    then show ?thesis using h assms
      by (cases "fate_of env (updater env t)")
        (auto simp: self_xmax_phase_def deleted_def locked_only_def [symmetric] updater_def fate_tests Let_def)
  next
    case False
    then have u: "updater env t = t_xmax t" by (simp add: updater_def)
    show ?thesis
    proof (cases "locked_only t")
      case True
      then show ?thesis using False assms
        by (simp add: self_xmax_phase_def deleted_def locked_only_def [symmetric] sound_xmax_invalid)
    next
      case unlocked: False
      then show ?thesis using False h assms u
        by (cases "fate_of env (t_xmax t)")
          (auto simp: self_xmax_phase_def deleted_def locked_only_def [symmetric] fate_tests sound_xmax_invalid sound_xmax_committed)
    qed
  qed
  then show "fst (self_xmax_phase env t) \<longleftrightarrow> \<not> deleted env t" "hints_sound env (snd (self_xmax_phase env t))" by blast+
  show "hinted t (snd (self_xmax_phase env t))"
    by (simp add: self_xmax_phase_def Let_def)
qed

lemma self_spec:
  assumes "hints_sound env t" "own_rule env t"
  shows "fst (HeapTupleSatisfiesSelf env t) \<longleftrightarrow> inserted env t \<and> \<not> deleted env t"
    and "hints_sound env (snd (HeapTupleSatisfiesSelf env t))" and "hinted t (snd (HeapTupleSatisfiesSelf env t))"
proof -
  obtain r t' where p: "self_xmin_phase env t = (r, t')" by fastforce
  note x = self_xmin_spec [OF assms, unfolded p, simplified]
  note y = self_xmax_spec [of env t']
  have d: "deleted env t' = deleted env t" using x hinted_described [of t t'] by (simp add: deleted_def)
  show "fst (HeapTupleSatisfiesSelf env t) \<longleftrightarrow> inserted env t \<and> \<not> deleted env t"
    "hints_sound env (snd (HeapTupleSatisfiesSelf env t))" "hinted t (snd (HeapTupleSatisfiesSelf env t))"
    using x y d hinted_trans [of t t'] by (auto simp: HeapTupleSatisfiesSelf_def p split: option.splits)
qed

section \<open>Dirty\<close>

definition insertion_running :: "XactEnv \<Rightarrow> HeapTuple \<Rightarrow> bool" where
  "insertion_running env t \<longleftrightarrow> \<not> tuple_moved t \<and> \<not> HeapTupleHeaderXminFrozen t \<and> fate_of env (t_xmin t) = Running"

lemma dirty_xmin_spec:
  assumes "hints_sound env t" "own_rule env t"
  shows "case dirty_xmin_phase env snap t of (r, t', snap') \<Rightarrow> hints_sound env t' \<and> hinted t t' \<and>
    (if insertion_running env t
     then r = Some True \<and> snap_xmin snap' = t_xmin t \<and> snap_xmax snap' = snap_xmax snap
     else snap' = snap \<and> (case r of None \<Rightarrow> inserted env t
       | Some v \<Rightarrow> (v \<longleftrightarrow> inserted env t \<and> \<not> deleted env t) \<and>
           (locked_only t \<or> fate_of env (updater env t) \<noteq> Running \<or> \<not> inserted env t)))"
  using assms(1)
proof (cases rule: xmin_cases)
  case known
  then have "\<not> insertion_running env t" by (auto simp: insertion_running_def insertion_succeeded_def tuple_moved_def)
  then show ?thesis using known assms by (simp add: dirty_xmin_phase_def)
next
  case failed
  then have "\<not> insertion_running env t" by (auto simp: insertion_running_def insertion_failed_def tuple_moved_def)
  then show ?thesis using failed assms by (simp add: dirty_xmin_phase_def)
next
  case moved
  then have "\<not> insertion_running env t" by (auto simp: insertion_running_def)
  then show ?thesis
    using moved moved_invisible_spec [OF assms(1) moved] by (simp add: dirty_xmin_phase_def case_prod_beta)
next
  case plain
  have run: "insertion_running env t \<longleftrightarrow> fate_of env (t_xmin t) = Running"
    using plain xmin_frozen_committed [of t] by (auto simp: insertion_running_def)
  show ?thesis
  proof (cases "fate_of env (t_xmin t)")
    case Own
    then show ?thesis
      using plain own_tuple_visible_spec [OF assms plain(3) Own] run assms(2) Own
      by (auto simp: dirty_xmin_phase_def case_prod_beta fate_tests own_rule_def)
  qed (use plain assms(1) run in \<open>simp_all add: dirty_xmin_phase_def fate_tests Let_def\<close>)
qed

lemma dirty_xmax_spec:
  assumes "hints_sound env t"
  shows "case dirty_xmax_phase env snap t of (v, t', snap') \<Rightarrow>
    (v \<longleftrightarrow> \<not> deleted env t) \<and> hints_sound env t' \<and> hinted t t' \<and>
    snap' = (if \<not> locked_only t \<and> fate_of env (updater env t) = Running then snap\<lparr>snap_xmax := updater env t\<rparr> else snap)"
proof (cases "infomask_has t HEAP_XMAX_IS_MULTI")
  case True
  then show ?thesis using xmax_hints [OF assms] assms
    by (cases "fate_of env (updater env t)")
      (auto simp: dirty_xmax_phase_def deleted_def locked_only_def [symmetric] updater_def fate_tests Let_def)
next
  case False
  then have u: "updater env t = t_xmax t" by (simp add: updater_def)
  show ?thesis
  proof (cases "locked_only t")
    case True
    then show ?thesis using False assms
      by (simp add: dirty_xmax_phase_def deleted_def locked_only_def [symmetric] sound_xmax_invalid)
  next
    case unlocked: False
    then show ?thesis using False xmax_hints [OF assms] assms u
      by (cases "fate_of env (t_xmax t)")
        (auto simp: dirty_xmax_phase_def deleted_def locked_only_def [symmetric] fate_tests sound_xmax_invalid sound_xmax_committed)
  qed
qed

lemma dirty_spec:
  assumes "hints_sound env t" "own_rule env t"
  shows "case HeapTupleSatisfiesDirty env snap t of (v, t', snap') \<Rightarrow> hints_sound env t' \<and> hinted t t' \<and>
    (v \<longleftrightarrow> insertion_running env t \<or> inserted env t \<and> \<not> deleted env t) \<and>
    snap_xmin snap' = (if insertion_running env t then t_xmin t else InvalidTransactionId) \<and>
    snap_xmax snap' = (if \<not> insertion_running env t \<and> inserted env t \<and> \<not> locked_only t \<and> fate_of env (updater env t) = Running
       then updater env t else InvalidTransactionId)"
proof -
  let ?s = "snap\<lparr>snap_xmin := InvalidTransactionId, snap_xmax := InvalidTransactionId, speculativeToken := 0\<rparr>"
  obtain r t' s' where p: "dirty_xmin_phase env ?s t = (r, t', s')" by (cases "dirty_xmin_phase env ?s t") auto
  note x = dirty_xmin_spec [OF assms, of ?s, unfolded p, simplified]
  show ?thesis
  proof (cases r)
    case None
    have ht: "hinted t t'" "hints_sound env t'" "\<not> insertion_running env t" "s' = ?s" "inserted env t"
      using x None by (auto split: if_splits)
    have d: "deleted env t' = deleted env t" "locked_only t' = locked_only t" "updater env t' = updater env t"
      using hinted_described [OF ht(1)] by (simp_all add: deleted_def)
    show ?thesis
      using None dirty_xmax_spec [OF ht(2), of s'] ht d hinted_trans [OF ht(1)]
      by (cases "dirty_xmax_phase env s' t'") (auto simp: HeapTupleSatisfiesDirty_def p)
  next
    case (Some v)
    then show ?thesis using x by (auto simp: HeapTupleSatisfiesDirty_def p split: if_splits)
  qed
qed

section \<open>Properties\<close>

text \<open>A backend for the examples: 50 is its own transaction, 60 runs elsewhere, 10 and 20 have
  committed. The tuple was inserted by 10 and deleted by 20, and carries no hint.\<close>

definition sample_env :: XactEnv where
  "sample_env = \<lparr>TransactionIdIsCurrentTransactionId = (\<lambda>x. x = 50), TransactionIdIsInProgress = (\<lambda>x. x = 50 \<or> x = 60),
     xact_did_commit = (\<lambda>x. x = 10 \<or> x = 20), xact_commit_lsn = (\<lambda>_. 7), GetMultiXactIdMembers = (\<lambda>_. []),
     MultiXactIdIsRunning = (\<lambda>_ _. False), GetRealCmin = id, GetRealCmax = id, BufferIsPermanent = True,
     XLogNeedsFlush = (\<lambda>_. True), BufferGetLSNAtomic = 9, gp_disable_tuple_hints = False, system_relation = False,
     CLOGTransactionIsOld = (\<lambda>_. False)\<rparr>"

definition sample_tuple :: HeapTuple where
  "sample_tuple = \<lparr>t_xmin = 10, t_xmax = 20, t_field3 = 0, t_ctid = (1, 2), t_infomask2 = 3, t_infomask = 0,
     t_self = (1, 1), buffer_dirty = False\<rparr>"

lemma sample_fates [simp]:
  "fate_of sample_env 10 = Committed" "fate_of sample_env 20 = Committed" "fate_of sample_env 50 = Own"
  "fate_of sample_env 60 = Running"
  by (simp_all add: fate_of_def sample_env_def)

lemma sample_tests [simp]:
  "\<not> infomask_has sample_tuple m" "\<not> locked_only sample_tuple" "\<not> tuple_moved sample_tuple"
  "\<not> HeapTupleHeaderXminCommitted sample_tuple" "\<not> HeapTupleHeaderXminInvalid sample_tuple"
  "\<not> HeapTupleHeaderXminFrozen sample_tuple" "updater env sample_tuple = 20" "t_xmin sample_tuple = 10"
  by (simp_all add: infomask_has_def locked_only_def HEAP_XMAX_IS_LOCKED_ONLY_def tuple_moved_def xmin_bits updater_def
      sample_tuple_def heap_masks)

lemma sample_sound [simp]: "hints_sound sample_env sample_tuple" "own_rule sample_env sample_tuple"
  by (simp_all add: hints_sound_def own_rule_def)

text \<open>a tuple is valid for itself exactly when its insertion counts, by the current transaction or
  a committed one, and no update by the current transaction or a committed one has ended it; the
  answer depends on the fates only, not on which hint bits are set. The routine adds only hint bits,
  and only ones that are right.\<close>

theorem self_visibility_correct:
  assumes "hints_sound env t" "own_rule env t"
  shows "(fst (HeapTupleSatisfiesSelf env t) \<longleftrightarrow> inserted env t \<and> \<not> deleted env t) \<and>
    hints_sound env (snd (HeapTupleSatisfiesSelf env t)) \<and> hinted t (snd (HeapTupleSatisfiesSelf env t))"
  using self_spec [OF assms] by blast

theorem self_visibility_correct_witness:
  "\<not> fst (HeapTupleSatisfiesSelf sample_env sample_tuple) \<and> hints_sound sample_env (snd (HeapTupleSatisfiesSelf sample_env sample_tuple))"
  using self_visibility_correct [of sample_env sample_tuple] by (simp add: deleted_def)

text \<open>C34: the dirty routine sees in addition a tuple whose insertion by another transaction is in
  progress, and it reports the other transaction: the inserter while the insertion is in progress,
  otherwise the updater of a valid tuple while its update is in progress, otherwise none. With no
  other transaction involved it answers as for itself.\<close>

theorem dirty_visibility_correct:
  assumes "hints_sound env t" "own_rule env t" "HeapTupleSatisfiesDirty env snap t = (v, t', snap')"
  shows "(v \<longleftrightarrow> insertion_running env t \<or> inserted env t \<and> \<not> deleted env t) \<and>
    snap_xmin snap' = (if insertion_running env t then t_xmin t else InvalidTransactionId) \<and>
    snap_xmax snap' = (if \<not> insertion_running env t \<and> inserted env t \<and> \<not> locked_only t \<and> fate_of env (updater env t) = Running
       then updater env t else InvalidTransactionId) \<and>
    (\<not> insertion_running env t \<longrightarrow> v = fst (HeapTupleSatisfiesSelf env t)) \<and>
    hints_sound env t' \<and> hinted t t'"
  using dirty_spec [OF assms(1,2), of snap] self_spec(1) [OF assms(1,2)] assms(3) by simp

theorem dirty_visibility_correct_witness:
  "fst (HeapTupleSatisfiesDirty sample_env sample_snapshot (sample_tuple\<lparr>t_xmin := 60\<rparr>))"
proof -
  let ?t = "sample_tuple\<lparr>t_xmin := 60\<rparr>"
  have t: "\<not> infomask_has ?t m" "\<not> locked_only ?t" "\<not> tuple_moved ?t" "\<not> HeapTupleHeaderXminCommitted ?t"
    "\<not> HeapTupleHeaderXminInvalid ?t" "\<not> HeapTupleHeaderXminFrozen ?t" for m
    by (simp_all add: infomask_has_def locked_only_def HEAP_XMAX_IS_LOCKED_ONLY_def tuple_moved_def xmin_bits sample_tuple_def heap_masks)
  obtain v t' snap' where d: "HeapTupleSatisfiesDirty sample_env sample_snapshot ?t = (v, t', snap')"
    by (cases "HeapTupleSatisfiesDirty sample_env sample_snapshot ?t") auto
  have "hints_sound sample_env ?t" "own_rule sample_env ?t" using t by (simp_all add: hints_sound_def own_rule_def)
  from dirty_visibility_correct [OF this d] show ?thesis using d t by (simp add: insertion_running_def)
qed

end
