(* ===== verification/VisibilityVacuum.thy ===== *)
theory VisibilityVacuum
  imports VisibilityProps
begin

text \<open>The update and vacuum routines, described by fates. Two facts about the rest of the system are
  named here: a transaction of the current backend is in progress, and a multixact that is not running
  has no updater in progress.\<close>

definition own_runs :: "XactEnv \<Rightarrow> bool" where
  "own_runs env \<longleftrightarrow> (\<forall>x. TransactionIdIsCurrentTransactionId env x \<longrightarrow> TransactionIdIsInProgress env x)"

definition multi_rule :: "XactEnv \<Rightarrow> HeapTuple \<Rightarrow> bool" where
  "multi_rule env t \<longleftrightarrow> (infomask_has t HEAP_XMAX_IS_MULTI \<and> \<not> locked_only t \<and> \<not> MultiXactIdIsRunning env (t_xmax t) False \<longrightarrow>
     \<not> TransactionIdIsInProgress env (HeapTupleGetUpdateXid env t))"

section \<open>Update\<close>

text \<open>What each result code says of the tuple.\<close>

definition tm_justified :: "XactEnv \<Rightarrow> CommandId \<Rightarrow> HeapTuple \<Rightarrow> TM_Result \<Rightarrow> bool" where
  "tm_justified env cid t r =
     (case r of
        TM_Ok \<Rightarrow> inserted env t \<and> \<not> deleted env t
      | TM_Invisible \<Rightarrow> \<not> inserted env t \<or> HeapTupleHeaderGetCmin env t \<ge> cid \<or>
          deleted env t \<and> fate_of env (updater env t) = Own \<and> HeapTupleHeaderGetCmax env t < cid
      | TM_SelfModified \<Rightarrow> inserted env t \<and> deleted env t \<and> fate_of env (updater env t) = Own \<and>
          HeapTupleHeaderGetCmax env t \<ge> cid
      | TM_Updated \<Rightarrow> inserted env t \<and> deleted env t \<and> fate_of env (updater env t) = Committed \<and> t_self t \<noteq> t_ctid t
      | TM_Deleted \<Rightarrow> inserted env t \<and> deleted env t \<and> fate_of env (updater env t) = Committed \<and> t_self t = t_ctid t
      | TM_BeingModified \<Rightarrow> inserted env t \<and>
          (TransactionIdIsInProgress env (t_xmax t) \<or> TransactionIdIsCurrentTransactionId env (t_xmax t) \<or>
           (\<exists>b. MultiXactIdIsRunning env (t_xmax t) b))
      | TM_WouldBlock \<Rightarrow> False)"

lemma inserted_hint:
  "\<not> HeapTupleHeaderXminCommitted t \<Longrightarrow> \<not> HeapTupleHeaderXminInvalid t \<Longrightarrow> m \<in> hint_masks \<Longrightarrow>
   inserted env (set_hint env' m x t) = inserted env t"
  by (auto simp: inserted_def)

lemma upgraded_locked: "HEAP_LOCKED_UPGRADED (t_infomask t) \<Longrightarrow> locked_only t"
  by (simp add: HEAP_LOCKED_UPGRADED_def locked_only_def HEAP_XMAX_IS_LOCKED_ONLY_def)

lemma update_own_spec:
  assumes "hints_sound env t" "own_rule env t" "\<not> tuple_moved t" "fate_of env (t_xmin t) = Own" "inserted env t"
  shows "tm_justified env cid t (fst (update_own_phase env cid t))"
    and "hints_sound env (snd (update_own_phase env cid t))" and "hinted t (snd (update_own_phase env cid t))"
proof -
  note h = xmax_hints [OF assms(1)]
  have own: "locked_only t \<or> fate_of env (updater env t) = Own \<or> fate_of env (updater env t) = Aborted"
    using assms by (auto simp: own_rule_def)
  have cur: "TransactionIdIsCurrentTransactionId env x \<longleftrightarrow> fate_of env x = Own" for x
    by (simp add: fate_of_def)
  show "tm_justified env cid t (fst (update_own_phase env cid t))"
  proof (cases "infomask_has t HEAP_XMAX_IS_MULTI")
    case True
    then show ?thesis using assms(5) own h
      by (auto simp: update_own_phase_def tm_justified_def deleted_def locked_only_def [symmetric] self_modified_def updater_def cur not_le)
  next
    case False
    then show ?thesis using assms(5) own h
      by (auto simp: update_own_phase_def tm_justified_def deleted_def locked_only_def [symmetric] self_modified_def updater_def cur not_le)
  qed
  show "hints_sound env (snd (update_own_phase env cid t))"
    using assms(1) own
    by (auto simp: update_own_phase_def locked_only_def [symmetric] updater_def cur intro!: sound_xmax_invalid)
  show "hinted t (snd (update_own_phase env cid t))"
    by (simp add: update_own_phase_def)
qed

lemma update_xmax_spec:
  assumes "hints_sound env t" "multi_rule env t" "inserted env t"
  shows "tm_justified env cid t (fst (update_xmax_phase env cid t))"
    and "hints_sound env (snd (update_xmax_phase env cid t))" and "hinted t (snd (update_xmax_phase env cid t))"
proof -
  note h = xmax_hints [OF assms(1)]
  note d = update_xmax_phase_def update_multi_phase_def tm_justified_def deleted_def locked_only_def [symmetric]
    self_modified_def updated_or_deleted_def
  have "tm_justified env cid t (fst (update_xmax_phase env cid t)) \<and> hints_sound env (snd (update_xmax_phase env cid t))"
  proof (cases "infomask_has t HEAP_XMAX_IS_MULTI")
    case multi: True
    then have u: "updater env t = HeapTupleGetUpdateXid env t" by (simp add: updater_def)
    show ?thesis
    proof (cases "locked_only t")
      case True
      then show ?thesis using multi assms by (auto simp: d sound_xmax_invalid)
    next
      case False
      moreover from this have "\<not> HEAP_LOCKED_UPGRADED (t_infomask t)" using upgraded_locked by blast
      ultimately show ?thesis using multi assms h u
        by (cases "fate_of env (HeapTupleGetUpdateXid env t)")
          (auto simp: d fate_tests Let_def multi_rule_def sound_xmax_invalid not_le)
    qed
  next
    case single: False
    then have u: "updater env t = t_xmax t" by (simp add: updater_def)
    show ?thesis
    proof (cases "locked_only t")
      case True
      then show ?thesis using single assms by (auto simp: d sound_xmax_invalid)
    next
      case False
      then show ?thesis using single assms h u
        by (cases "fate_of env (t_xmax t)") (auto simp: d fate_tests sound_xmax_invalid sound_xmax_committed not_le)
    qed
  qed
  then show "tm_justified env cid t (fst (update_xmax_phase env cid t))"
    "hints_sound env (snd (update_xmax_phase env cid t))" by blast+
  show "hinted t (snd (update_xmax_phase env cid t))"
    by (simp add: update_xmax_phase_def update_multi_phase_def Let_def)
qed

lemma tm_justified_hinted:
  assumes "hinted t t'" "inserted env t" "inserted env t'"
  shows "tm_justified env cid t' r = tm_justified env cid t r"
  using hinted_described [OF assms(1)] assms
  by (simp add: tm_justified_def deleted_def hinted_def split: TM_Result.split)

lemma update_xmin_spec:
  assumes "hints_sound env t" "own_rule env t"
  shows "case update_xmin_phase env cid t of (r, t') \<Rightarrow> hints_sound env t' \<and> hinted t t' \<and>
    (case r of None \<Rightarrow> inserted env t \<and> inserted env t' | Some v \<Rightarrow> tm_justified env cid t v)"
  using assms(1)
proof (cases rule: xmin_cases)
  case moved
  note m = moved_invisible_spec [OF assms(1) moved]
  have "inserted env (snd (moved_invisible env t)) = inserted env t"
    using moved inserted_hint [of t] by (auto simp: moved_invisible_def Let_def)
  then show ?thesis using m moved by (simp add: update_xmin_phase_def case_prod_beta tm_justified_def)
next
  case plain
  show ?thesis
  proof (cases "fate_of env (t_xmin t)")
    case Own
    then show ?thesis
      using plain update_own_spec [OF assms plain(3) Own, of cid] by (simp add: update_xmin_phase_def case_prod_beta fate_tests)
  next
    case Committed
    then have "inserted env (set_hint env HEAP_XMIN_COMMITTED (t_xmin t) t)"
      using plain inserted_hint [of t] by simp
    then show ?thesis using plain Committed by (simp add: update_xmin_phase_def fate_tests)
  qed (use plain assms(1) in \<open>simp_all add: update_xmin_phase_def fate_tests tm_justified_def\<close>)
qed (use assms in \<open>simp_all add: update_xmin_phase_def tm_justified_def\<close>)

lemma multi_rule_hinted: "hinted t t' \<Longrightarrow> multi_rule env t' = multi_rule env t"
proof -
  assume h: "hinted t t'"
  have "HEAP_XMAX_IS_MULTI AND 0x0F00 = 0" by (simp add: heap_masks)
  then have "infomask_has t' HEAP_XMAX_IS_MULTI = infomask_has t HEAP_XMAX_IS_MULTI"
    using hinted_has [OF h] by (simp add: infomask_has_def)
  moreover have "t_xmax t' = t_xmax t" using h by (simp add: hinted_def)
  ultimately show ?thesis using hinted_described(1) [OF h] by (simp add: multi_rule_def HeapTupleGetUpdateXid_def)
qed

lemma update_spec:
  assumes "hints_sound env t" "own_rule env t" "multi_rule env t"
  shows "tm_justified env cid t (fst (HeapTupleSatisfiesUpdate env cid t))"
    and "hints_sound env (snd (HeapTupleSatisfiesUpdate env cid t))" and "hinted t (snd (HeapTupleSatisfiesUpdate env cid t))"
proof -
  obtain r t' where p: "update_xmin_phase env cid t = (r, t')" by fastforce
  note x = update_xmin_spec [OF assms(1,2), of cid, unfolded p, simplified]
  then have ht: "hints_sound env t'" "hinted t t'" by blast+
  have m: "multi_rule env t'" using multi_rule_hinted [OF ht(2)] assms(3) by simp
  have "tm_justified env cid t (fst (HeapTupleSatisfiesUpdate env cid t)) \<and>
      hints_sound env (snd (HeapTupleSatisfiesUpdate env cid t)) \<and> hinted t (snd (HeapTupleSatisfiesUpdate env cid t))"
  proof (cases r)
    case None
    then have i: "inserted env t" "inserted env t'" using x by auto
    note y = update_xmax_spec [OF ht(1) m i(2), of cid]
    show ?thesis
      using y hinted_trans [OF ht(2)] tm_justified_hinted [OF ht(2) i] None by (simp add: HeapTupleSatisfiesUpdate_def p)
  next
    case (Some v)
    then show ?thesis using x by (simp add: HeapTupleSatisfiesUpdate_def p)
  qed
  then show "tm_justified env cid t (fst (HeapTupleSatisfiesUpdate env cid t))"
    "hints_sound env (snd (HeapTupleSatisfiesUpdate env cid t))" "hinted t (snd (HeapTupleSatisfiesUpdate env cid t))" by blast+
qed

section \<open>Vacuum\<close>

definition surely_inserted :: "XactEnv \<Rightarrow> HeapTuple \<Rightarrow> bool" where
  "surely_inserted env t \<longleftrightarrow> HeapTupleHeaderXminFrozen t \<or> insertion_succeeded env t"

lemma own_runs_fate:
  "own_runs env \<Longrightarrow> \<not> TransactionIdIsInProgress env x \<Longrightarrow> fate_of env x = (if xact_did_commit env x then Committed else Aborted)"
  by (auto simp: own_runs_def fate_of_def)

lemma vacuum_xmin_spec:
  assumes "hints_sound env t"
  shows "case vacuum_xmin_phase env t of (r, t') \<Rightarrow> hints_sound env t' \<and> hinted t t' \<and>
    (case r of None \<Rightarrow> surely_inserted env t
     | Some v \<Rightarrow> v \<noteq> HEAPTUPLE_LIVE \<and> v \<noteq> HEAPTUPLE_RECENTLY_DEAD \<and> (v = HEAPTUPLE_DEAD \<longleftrightarrow> insertion_failed env t))"
  using assms
proof (cases rule: xmin_cases)
  case known
  then show ?thesis using assms by (simp add: vacuum_xmin_phase_def surely_inserted_def)
next
  case failed
  then show ?thesis using assms by (simp add: vacuum_xmin_phase_def)
next
  case moved
  have "case vacuum_moved_phase env t of (r, t') \<Rightarrow> hints_sound env t' \<and> hinted t t' \<and>
    (case r of None \<Rightarrow> insertion_succeeded env t
     | Some v \<Rightarrow> v \<noteq> HEAPTUPLE_LIVE \<and> v \<noteq> HEAPTUPLE_RECENTLY_DEAD \<and> (v = HEAPTUPLE_DEAD \<longleftrightarrow> insertion_failed env t))"
    using assms moved
    by (cases "fate_of env (HeapTupleHeaderGetXvac t)"; cases "infomask_has t HEAP_MOVED_OFF")
      (auto simp: vacuum_moved_phase_def Let_def fate_tests insertion_succeeded_def insertion_failed_def tuple_moved_def intro!: sound_hints)
  then show ?thesis using moved by (simp add: vacuum_xmin_phase_def surely_inserted_def split: prod.splits option.splits)
next
  case plain
  have "insertion_failed env t \<longleftrightarrow> fate_of env (t_xmin t) = Aborted" "insertion_succeeded env t \<longleftrightarrow> fate_of env (t_xmin t) = Committed"
    using plain(3) by (auto simp: insertion_failed_def insertion_succeeded_def tuple_moved_def)
  then show ?thesis
    using plain assms by (cases "fate_of env (t_xmin t)") (simp_all add: vacuum_xmin_phase_def fate_tests surely_inserted_def)
qed

lemma vacuum_xmax_spec:
  assumes "hints_sound env t" "own_runs env" "multi_rule env t"
  shows "case vacuum_xmax_phase env t of (r, d, t') \<Rightarrow> hints_sound env t' \<and> hinted t t' \<and>
    r = (if locked_only t \<or> fate_of env (updater env t) = Aborted then HEAPTUPLE_LIVE
         else if fate_of env (updater env t) = Committed then HEAPTUPLE_RECENTLY_DEAD else HEAPTUPLE_DELETE_IN_PROGRESS) \<and>
    d = (if r = HEAPTUPLE_RECENTLY_DEAD then updater env t else InvalidTransactionId)"
proof -
  note h = xmax_hints [OF assms(1)]
  note d = vacuum_xmax_phase_def locked_only_def [symmetric] Let_def
  have prog: "TransactionIdIsInProgress env x \<longleftrightarrow> fate_of env x \<in> {Own, Running}" for x
    using assms(2) by (auto simp: own_runs_def fate_of_def)
  show ?thesis
  proof (cases "locked_only t")
    case True
    then show ?thesis using assms by (simp add: d sound_xmax_invalid)
  next
    case unlocked: False
    show ?thesis
    proof (cases "infomask_has t HEAP_XMAX_IS_MULTI")
      case True
      then have u: "updater env t = HeapTupleGetUpdateXid env t" by (simp add: updater_def)
      show ?thesis using True unlocked assms h u
        by (cases "fate_of env (HeapTupleGetUpdateXid env t)") (auto simp: d prog fate_tests sound_xmax_invalid)
    next
      case False
      then have u: "updater env t = t_xmax t" by (simp add: updater_def)
      show ?thesis using False unlocked assms h u
        by (cases "fate_of env (t_xmax t)") (auto simp: d prog fate_tests sound_xmax_invalid sound_xmax_committed)
    qed
  qed
qed

lemma vacuum_spec:
  assumes "hints_sound env t" "own_runs env" "multi_rule env t"
  shows "case HeapTupleSatisfiesVacuumHorizon env t of (r, d, t') \<Rightarrow> hints_sound env t' \<and> hinted t t' \<and>
    (r = HEAPTUPLE_DEAD \<longleftrightarrow> insertion_failed env t \<and> \<not> HeapTupleHeaderXminFrozen t) \<and>
    (r = HEAPTUPLE_RECENTLY_DEAD \<longrightarrow> surely_inserted env t \<and> \<not> locked_only t \<and> fate_of env (updater env t) = Committed) \<and>
    (r = HEAPTUPLE_LIVE \<longrightarrow> surely_inserted env t \<and> (locked_only t \<or> fate_of env (updater env t) = Aborted)) \<and>
    d = (if r = HEAPTUPLE_RECENTLY_DEAD then updater env t else InvalidTransactionId)"
proof -
  obtain r t' where p: "vacuum_xmin_phase env t = (r, t')" by fastforce
  note x = vacuum_xmin_spec [OF assms(1), unfolded p, simplified]
  then have ht: "hints_sound env t'" "hinted t t'" by blast+
  have m: "multi_rule env t'" using multi_rule_hinted [OF ht(2)] assms(3) by simp
  show ?thesis
  proof (cases r)
    case None
    then have s: "surely_inserted env t" using x by simp
    then have "\<not> (insertion_failed env t \<and> \<not> HeapTupleHeaderXminFrozen t)"
      by (auto simp: surely_inserted_def insertion_succeeded_def insertion_failed_def split: if_splits)
    moreover obtain r' d' t'' where q: "vacuum_xmax_phase env t' = (r', d', t'')" by (cases "vacuum_xmax_phase env t'") auto
    ultimately show ?thesis
      using vacuum_xmax_spec [OF ht(1) assms(2) m] hinted_described [OF ht(2)] hinted_trans [OF ht(2)] None s
      by (simp add: HeapTupleSatisfiesVacuumHorizon_def p)
  next
    case (Some v)
    moreover have "\<not> HeapTupleHeaderXminFrozen t"
      using p Some xmin_frozen_committed [of t] by (auto simp: vacuum_xmin_phase_def)
    ultimately show ?thesis using x by (auto simp: HeapTupleSatisfiesVacuumHorizon_def p)
  qed
qed

section \<open>Properties\<close>



text \<open>a tuple the cheap test calls surely dead is one the full vacuum test calls removable with
  the same horizon.\<close>

theorem surely_dead_is_vacuumable:
  assumes "HeapTupleIsSurelyDead removable t"
  shows "\<not> fst (HeapTupleSatisfiesNonVacuumable env removable t)"
  using assms
  by (simp add: HeapTupleIsSurelyDead_def HeapTupleSatisfiesNonVacuumable_def HeapTupleSatisfiesVacuumHorizon_def
      vacuum_xmin_phase_def vacuum_xmax_phase_def Let_def split: if_splits)

theorem surely_dead_is_vacuumable_witness:
  "\<not> fst (HeapTupleSatisfiesNonVacuumable sample_env (\<lambda>x. x = 20) (sample_tuple\<lparr>t_infomask := 0x0500\<rparr>))"
  using surely_dead_is_vacuumable [of "\<lambda>x. x = 20" "sample_tuple\<lparr>t_infomask := 0x0500\<rparr>" sample_env]
  by (simp add: HeapTupleIsSurelyDead_def HeapTupleHeaderXminCommitted_def infomask_has_def HEAP_XMAX_IS_LOCKED_ONLY_def
      sample_tuple_def heap_masks)

end
