(* ===== verification/VisibilityMVCC.thy ===== *)
theory VisibilityMVCC
  imports VisibilityVacuum
begin

text \<open>The MVCC routine. What it needs of \<^verbatim>\<open>XidInMVCCSnapshot\<close> is an interface: as long as an
  invariant of the snapshot and its caches holds, a call does not fail and gives an answer that does
  not depend on the calls before. The routine is verified over the interface, and the interface is
  discharged for the test of \<^verbatim>\<open>snapmgr.c\<close>.\<close>

section \<open>Answers of a snapshot\<close>

text \<open>How the answers fit the fates: an answer other than in progress means that the transaction has
  ended, one of surely committed that it has committed; the latter is never given with the distributed
  snapshot ignored.\<close>

definition answers_fit :: "XactEnv \<Rightarrow> (TransactionId \<Rightarrow> bool \<Rightarrow> XidInMVCCSnapshotCheckResult) \<Rightarrow> bool" where
  "answers_fit env ans \<longleftrightarrow>
     (\<forall>x g. ans x g = XID_SURELY_COMMITTED \<longrightarrow> xact_did_commit env x) \<and>
     (\<forall>x g. ans x g \<noteq> XID_IN_SNAPSHOT \<and> \<not> TransactionIdIsCurrentTransactionId env x \<longrightarrow> \<not> TransactionIdIsInProgress env x)"

text \<open>Whether the effects of a transaction are visible: those of earlier commands of the current
  transaction, and those of a transaction that has committed and is not in progress for the
  snapshot.\<close>

definition xact_visible ::
  "XactEnv \<Rightarrow> (TransactionId \<Rightarrow> bool \<Rightarrow> XidInMVCCSnapshotCheckResult) \<Rightarrow> bool \<Rightarrow> bool \<Rightarrow> TransactionId \<Rightarrow> bool" where
  "xact_visible env ans ignore earlier x =
     (if TransactionIdIsCurrentTransactionId env x then earlier
      else ans x ignore \<noteq> XID_IN_SNAPSHOT \<and> xact_did_commit env x)"

definition mvcc_inserted ::
  "XactEnv \<Rightarrow> (TransactionId \<Rightarrow> bool \<Rightarrow> XidInMVCCSnapshotCheckResult) \<Rightarrow> CommandId \<Rightarrow> HeapTuple \<Rightarrow> bool" where
  "mvcc_inserted env ans cid t \<longleftrightarrow> HeapTupleHeaderXminFrozen t \<or>
     xact_visible env ans (t_infomask2 t AND HEAP_XMIN_DISTRIBUTED_SNAPSHOT_IGNORE \<noteq> 0)
       (HeapTupleHeaderGetCmin env t < cid) (t_xmin t)"

definition mvcc_deleted ::
  "XactEnv \<Rightarrow> (TransactionId \<Rightarrow> bool \<Rightarrow> XidInMVCCSnapshotCheckResult) \<Rightarrow> CommandId \<Rightarrow> HeapTuple \<Rightarrow> bool" where
  "mvcc_deleted env ans cid t \<longleftrightarrow> \<not> locked_only t \<and>
     xact_visible env ans (t_infomask2 t AND HEAP_XMAX_DISTRIBUTED_SNAPSHOT_IGNORE \<noteq> 0)
       (HeapTupleHeaderGetCmax env t < cid) (updater env t)"

section \<open>The bits that ignore the distributed snapshot\<close>

lemma hinted_infomask2 [simp]: "hinted t (t\<lparr>t_infomask2 := w\<rparr>)"
  using hinted_refl [of t] unfolding hinted_def by simp

lemma hinted_markDirty [simp]: "hinted t (markDirty env b u) = hinted t u"
  by (simp add: hinted_def)

lemma infomask_same:
  assumes "t_infomask t' = t_infomask t"
  shows "infomask_has t' k = infomask_has t k" "HeapTupleHeaderXminCommitted t' = HeapTupleHeaderXminCommitted t"
    "HeapTupleHeaderXminInvalid t' = HeapTupleHeaderXminInvalid t" "HeapTupleHeaderXminFrozen t' = HeapTupleHeaderXminFrozen t"
  using assms by (simp_all add: infomask_has_def HeapTupleHeaderXminCommitted_def HeapTupleHeaderXminInvalid_def
      HeapTupleHeaderXminFrozen_def)

lemma sound_infomask_same:
  assumes "hinted t t'" "t_infomask t' = t_infomask t"
  shows "hints_sound env t' = hints_sound env t"
  using hinted_described [OF assms(1)] infomask_same [OF assms(2)] by (simp add: hints_sound_def)

lemma ignore_bits_independent:
  "(w OR HEAP_XMIN_DISTRIBUTED_SNAPSHOT_IGNORE) AND HEAP_XMAX_DISTRIBUTED_SNAPSHOT_IGNORE =
     w AND HEAP_XMAX_DISTRIBUTED_SNAPSHOT_IGNORE"
  by (rule or_and_disjoint) (simp add: heap_masks)

lemma mvcc_own_spec:
  assumes "hints_sound env t" "own_rule env t" "\<not> tuple_moved t" "fate_of env (t_xmin t) = Own"
  shows "fst (mvcc_own_phase env cid t) \<longleftrightarrow> HeapTupleHeaderGetCmin env t < cid \<and> \<not> mvcc_deleted env ans cid t"
    and "hints_sound env (snd (mvcc_own_phase env cid t))" and "hinted t (snd (mvcc_own_phase env cid t))"
    and "t_infomask2 (snd (mvcc_own_phase env cid t)) = t_infomask2 t"
proof -
  note h = xmax_hints [OF assms(1)]
  have own: "locked_only t \<or> fate_of env (updater env t) = Own \<or> fate_of env (updater env t) = Aborted"
    using assms by (auto simp: own_rule_def)
  show "fst (mvcc_own_phase env cid t) \<longleftrightarrow> HeapTupleHeaderGetCmin env t < cid \<and> \<not> mvcc_deleted env ans cid t"
  proof (cases "infomask_has t HEAP_XMAX_IS_MULTI")
    case True
    then show ?thesis using own h
      by (auto simp: mvcc_own_phase_def mvcc_deleted_def xact_visible_def locked_only_def [symmetric] updater_def fate_tests not_le)
  next
    case False
    then show ?thesis using own h
      by (auto simp: mvcc_own_phase_def mvcc_deleted_def xact_visible_def locked_only_def [symmetric] updater_def fate_tests not_le)
  qed
  have cur: "TransactionIdIsCurrentTransactionId env x \<longleftrightarrow> fate_of env x = Own" for x
    by (simp add: fate_of_def)
  show "hints_sound env (snd (mvcc_own_phase env cid t))"
    using assms(1) own
    by (auto simp: mvcc_own_phase_def locked_only_def [symmetric] updater_def cur intro!: sound_xmax_invalid)
  show "hinted t (snd (mvcc_own_phase env cid t))" "t_infomask2 (snd (mvcc_own_phase env cid t)) = t_infomask2 t"
    by (simp_all add: mvcc_own_phase_def)
qed

section \<open>The routine over the interface\<close>

locale snapshot_test =
  fixes check :: "TransactionId \<Rightarrow> bool \<Rightarrow> 's \<Rightarrow> (XidInMVCCSnapshotCheckResult \<times> bool \<times> 's) result"
    and inv :: "'s \<Rightarrow> bool" and answer :: "'s \<Rightarrow> TransactionId \<Rightarrow> bool \<Rightarrow> XidInMVCCSnapshotCheckResult"
  assumes check_answers: "inv s \<Longrightarrow> \<exists>i s'. check x g s = Inr (answer s x g, i, s') \<and> inv s' \<and> answer s' = answer s"
begin

lemma check_xmin_spec:
  assumes "inv s"
  obtains t' s' where "check_xmin env check t s =
      Inr (answer s (t_xmin t) (t_infomask2 t AND HEAP_XMIN_DISTRIBUTED_SNAPSHOT_IGNORE \<noteq> 0), t', s')"
    "inv s'" "answer s' = answer s" "hinted t t'" "t_infomask t' = t_infomask t"
    "t_infomask2 t' AND HEAP_XMAX_DISTRIBUTED_SNAPSHOT_IGNORE = t_infomask2 t AND HEAP_XMAX_DISTRIBUTED_SNAPSHOT_IGNORE"
proof -
  obtain i s' where c: "check (t_xmin t) (t_infomask2 t AND HEAP_XMIN_DISTRIBUTED_SNAPSHOT_IGNORE \<noteq> 0) s =
      Inr (answer s (t_xmin t) (t_infomask2 t AND HEAP_XMIN_DISTRIBUTED_SNAPSHOT_IGNORE \<noteq> 0), i, s')"
    "inv s'" "answer s' = answer s" using check_answers [OF assms] by blast
  define t' where "t' = (if i then markDirty env True
      (t\<lparr>t_infomask2 := t_infomask2 t OR HEAP_XMIN_DISTRIBUTED_SNAPSHOT_IGNORE\<rparr>) else t)"
  have "check_xmin env check t s =
      Inr (answer s (t_xmin t) (t_infomask2 t AND HEAP_XMIN_DISTRIBUTED_SNAPSHOT_IGNORE \<noteq> 0), t', s')"
    by (simp only: check_xmin_def c t'_def sum.case prod.case)
  moreover have "hinted t t'" "t_infomask t' = t_infomask t"
    "t_infomask2 t' AND HEAP_XMAX_DISTRIBUTED_SNAPSHOT_IGNORE = t_infomask2 t AND HEAP_XMAX_DISTRIBUTED_SNAPSHOT_IGNORE"
    by (simp_all add: t'_def ignore_bits_independent)
  ultimately show thesis using c that by blast
qed

lemma check_xmax_spec:
  assumes "inv s"
  obtains t' s' where "check_xmax env check x t s =
      Inr (answer s x (t_infomask2 t AND HEAP_XMAX_DISTRIBUTED_SNAPSHOT_IGNORE \<noteq> 0), t', s')"
    "inv s'" "answer s' = answer s" "hinted t t'" "t_infomask t' = t_infomask t"
proof -
  obtain i s' where c: "check x (t_infomask2 t AND HEAP_XMAX_DISTRIBUTED_SNAPSHOT_IGNORE \<noteq> 0) s =
      Inr (answer s x (t_infomask2 t AND HEAP_XMAX_DISTRIBUTED_SNAPSHOT_IGNORE \<noteq> 0), i, s')"
    "inv s'" "answer s' = answer s" using check_answers [OF assms] by blast
  define t' where "t' = (if i then markDirty env False
      (t\<lparr>t_infomask2 := t_infomask2 t OR HEAP_XMAX_DISTRIBUTED_SNAPSHOT_IGNORE\<rparr>) else t)"
  have "check_xmax env check x t s =
      Inr (answer s x (t_infomask2 t AND HEAP_XMAX_DISTRIBUTED_SNAPSHOT_IGNORE \<noteq> 0), t', s')"
    by (simp only: check_xmax_def c t'_def sum.case prod.case)
  moreover have "hinted t t'" "t_infomask t' = t_infomask t" by (simp_all add: t'_def)
  ultimately show thesis using c that by blast
qed

lemma mvcc_xmin_spec:
  assumes inv: "inv s" and sound: "hints_sound env t" and own: "own_rule env t" and plain: "\<not> tuple_moved t"
    and fit: "answers_fit env (answer s)"
  shows "\<exists>r t' s'. mvcc_xmin_phase env check cid t s = Inr (r, t', s') \<and> hints_sound env t' \<and> hinted t t' \<and>
    inv s' \<and> answer s' = answer s \<and>
    t_infomask2 t' AND HEAP_XMAX_DISTRIBUTED_SNAPSHOT_IGNORE = t_infomask2 t AND HEAP_XMAX_DISTRIBUTED_SNAPSHOT_IGNORE \<and>
    (case r of None \<Rightarrow> mvcc_inserted env (answer s) cid t
     | Some v \<Rightarrow> v \<longleftrightarrow> mvcc_inserted env (answer s) cid t \<and> \<not> mvcc_deleted env (answer s) cid t)"
proof -
  let ?a = "answer s (t_xmin t) (t_infomask2 t AND HEAP_XMIN_DISTRIBUTED_SNAPSHOT_IGNORE \<noteq> 0)"
  obtain t1 s1 where c: "check_xmin env check t s = Inr (?a, t1, s1)" and keep: "inv s1" "answer s1 = answer s"
      "hinted t t1" "t_infomask t1 = t_infomask t"
      "t_infomask2 t1 AND HEAP_XMAX_DISTRIBUTED_SNAPSHOT_IGNORE = t_infomask2 t AND HEAP_XMAX_DISTRIBUTED_SNAPSHOT_IGNORE"
    by (rule check_xmin_spec [OF inv, of env t])
  have s1: "hints_sound env t1" using sound sound_infomask_same [OF keep(3,4)] by simp
  have x1: "t_xmin t1 = t_xmin t" using keep(3) by (simp add: hinted_def)
  show ?thesis
    using sound
  proof (cases rule: xmin_cases)
    case known
    show ?thesis
    proof (cases "HeapTupleHeaderXminFrozen t")
      case True
      then show ?thesis using known sound inv by (simp add: mvcc_xmin_phase_def mvcc_inserted_def)
    next
      case False
      then have "fate_of env (t_xmin t) = Committed"
        using known(3) plain by (auto simp: insertion_succeeded_def tuple_moved_def)
      then have "mvcc_inserted env (answer s) cid t \<longleftrightarrow> ?a \<noteq> XID_IN_SNAPSHOT"
        using False by (simp add: mvcc_inserted_def xact_visible_def fate_tests)
      then show ?thesis using False known s1 keep c by (simp add: mvcc_xmin_phase_def)
    qed
  next
    case failed
    then have "fate_of env (t_xmin t) = Aborted" "\<not> HeapTupleHeaderXminFrozen t"
      using plain xmin_frozen_committed [of t] by (auto simp: insertion_failed_def tuple_moved_def)
    then have "\<not> mvcc_inserted env (answer s) cid t" by (simp add: mvcc_inserted_def xact_visible_def fate_tests)
    then show ?thesis using failed sound inv by (simp add: mvcc_xmin_phase_def)
  next
    case moved
    then show ?thesis using plain by simp
  next
    case p: plain
    have nf: "\<not> HeapTupleHeaderXminFrozen t" using p xmin_frozen_committed [of t] by blast
    show ?thesis
    proof (cases "TransactionIdIsCurrentTransactionId env (t_xmin t)")
      case True
      then have o: "fate_of env (t_xmin t) = Own" by (simp add: fate_of_def)
      show ?thesis
        using mvcc_own_spec(1) [OF sound own plain o, of cid "answer s"] mvcc_own_spec(2-4) [OF sound own plain o, of cid] True p nf inv
        by (simp add: mvcc_xmin_phase_def mvcc_inserted_def xact_visible_def case_prod_beta)
    next
      case False
      have ins: "mvcc_inserted env (answer s) cid t \<longleftrightarrow> ?a \<noteq> XID_IN_SNAPSHOT \<and> xact_did_commit env (t_xmin t)"
        using False nf by (simp add: mvcc_inserted_def xact_visible_def)
      have ended: "\<not> TransactionIdIsInProgress env (t_xmin t)" if "?a \<noteq> XID_IN_SNAPSHOT"
        using fit that False by (auto simp: answers_fit_def)
      have surely: "xact_did_commit env (t_xmin t)" if "?a = XID_SURELY_COMMITTED" using fit that by (auto simp: answers_fit_def)
      have com: "hints_sound env (set_hint env HEAP_XMIN_COMMITTED (t_xmin t) t1)"
        if "?a \<noteq> XID_IN_SNAPSHOT" "xact_did_commit env (t_xmin t)"
        using that ended False s1 plain keep(3) p(2) infomask_same(3) [OF keep(4)] hinted_described(6) [OF keep(3)]
        by (intro sound_xmin_committed) (auto simp: insertion_succeeded_def tuple_moved_def fate_of_def)
      have abo: "hints_sound env (set_hint env HEAP_XMIN_INVALID InvalidTransactionId t1)"
        if "?a \<noteq> XID_IN_SNAPSHOT" "\<not> xact_did_commit env (t_xmin t)"
        using that ended False s1 plain keep(3) p(1) infomask_same(2) [OF keep(4)] hinted_described(7) [OF keep(3)]
        by (intro sound_xmin_invalid) (auto simp: insertion_failed_def tuple_moved_def fate_of_def)
      have "mvcc_xmin_phase env check cid t s =
          (if ?a = XID_IN_SNAPSHOT then Inr (Some False, t1, s1)
           else if xact_did_commit env (t_xmin t) then Inr (None, set_hint env HEAP_XMIN_COMMITTED (t_xmin t) t1, s1)
           else Inr (Some False, set_hint env HEAP_XMIN_INVALID InvalidTransactionId t1, s1))"
        using False p surely x1 by (auto simp: mvcc_xmin_phase_def c)
      then show ?thesis using ins com abo s1 keep hinted_trans [OF keep(3)] by auto
    qed
  qed
qed

lemma mvcc_xmax_spec:
  assumes inv: "inv s" and sound: "hints_sound env t" and fit: "answers_fit env (answer s)"
  shows "\<exists>t' s'. mvcc_xmax_phase env check cid t s = Inr (\<not> mvcc_deleted env (answer s) cid t, t', s') \<and>
    hints_sound env t' \<and> hinted t t' \<and> inv s' \<and> answer s' = answer s"
proof (cases "infomask_has t HEAP_XMAX_INVALID \<or> locked_only t \<or> TransactionIdIsCurrentTransactionId env (updater env t)")
  case True
  then show ?thesis using inv sound xmax_hints [OF sound]
    by (auto simp: mvcc_xmax_phase_def mvcc_deleted_def xact_visible_def locked_only_def [symmetric] updater_def Let_def fate_tests not_less)
next
  case False
  let ?u = "updater env t"
  let ?a = "answer s ?u (t_infomask2 t AND HEAP_XMAX_DISTRIBUTED_SNAPSHOT_IGNORE \<noteq> 0)"
  obtain t1 s1 where c: "check_xmax env check ?u t s = Inr (?a, t1, s1)" and keep: "inv s1" "answer s1 = answer s"
      "hinted t t1" "t_infomask t1 = t_infomask t"
    by (rule check_xmax_spec [OF inv, of env ?u t])
  have s1: "hints_sound env t1" using sound sound_infomask_same [OF keep(3,4)] by simp
  have x1: "t_xmax t1 = t_xmax t" using keep(3) by (simp add: hinted_def)
  have del: "mvcc_deleted env (answer s) cid t \<longleftrightarrow> ?a \<noteq> XID_IN_SNAPSHOT \<and> xact_did_commit env ?u"
    using False by (simp add: mvcc_deleted_def xact_visible_def)
  have ended: "\<not> TransactionIdIsInProgress env ?u" if "?a \<noteq> XID_IN_SNAPSHOT"
    using fit that False by (auto simp: answers_fit_def)
  have surely: "xact_did_commit env ?u" if "?a = XID_SURELY_COMMITTED" using fit that by (auto simp: answers_fit_def)
  have fate: "fate_of env ?u = (if xact_did_commit env ?u then Committed else Aborted)" if "?a \<noteq> XID_IN_SNAPSHOT"
    using False ended that by (simp add: fate_of_def)
  have u1: "updater env t1 = ?u" using hinted_described(2) [OF keep(3)] by simp
  have hint: "hints_sound env (set_hint env (if xact_did_commit env ?u then HEAP_XMAX_COMMITTED else HEAP_XMAX_INVALID) x t1)"
    if "?a \<noteq> XID_IN_SNAPSHOT" for x
    using fate [OF that] s1 u1 sound_xmax_committed [of env t1 x] sound_xmax_invalid [of env t1 x] by auto
  show ?thesis
  proof (cases "infomask_has t HEAP_XMAX_IS_MULTI")
    case True
    then have "updater env t = HeapTupleGetUpdateXid env t" by (simp add: updater_def)
    then show ?thesis
      using True False c s1 keep del surely by (auto simp: mvcc_xmax_phase_def locked_only_def [symmetric] Let_def)
  next
    case single: False
    then have u: "?u = t_xmax t" by (simp add: updater_def)
    show ?thesis
    proof (cases "infomask_has t HEAP_XMAX_COMMITTED")
      case True
      then have "fate_of env ?u = Committed" using xmax_hints(2) [OF sound] False by blast
      then have "mvcc_deleted env (answer s) cid t \<longleftrightarrow> ?a \<noteq> XID_IN_SNAPSHOT" using del by (simp add: fate_tests)
      then show ?thesis
        using True single False c s1 keep u by (auto simp: mvcc_xmax_phase_def locked_only_def [symmetric])
    next
      case unhinted: False
      have "mvcc_xmax_phase env check cid t s =
          (if ?a = XID_IN_SNAPSHOT then Inr (True, t1, s1)
           else if xact_did_commit env ?u then Inr (False, set_hint env HEAP_XMAX_COMMITTED ?u t1, s1)
           else Inr (True, set_hint env HEAP_XMAX_INVALID InvalidTransactionId t1, s1))"
        using unhinted single False c u surely x1 by (auto simp: mvcc_xmax_phase_def locked_only_def [symmetric])
      then show ?thesis using del hint s1 keep hinted_trans [OF keep(3)] by (auto split: if_splits)
    qed
  qed
qed

lemma mvcc_spec:
  assumes inv: "inv s" and sound: "hints_sound env t" and own: "own_rule env t" and plain: "\<not> tuple_moved t"
    and fit: "answers_fit env (answer s)"
  shows "\<exists>t' s'. HeapTupleSatisfiesMVCC env check cid t s =
      Inr (mvcc_inserted env (answer s) cid t \<and> \<not> mvcc_deleted env (answer s) cid t, t', s') \<and>
    hints_sound env t' \<and> hinted t t' \<and> inv s' \<and> answer s' = answer s"
proof -
  obtain r t1 s1 where x: "mvcc_xmin_phase env check cid t s = Inr (r, t1, s1)" "hints_sound env t1" "hinted t t1"
      "inv s1" "answer s1 = answer s"
      "t_infomask2 t1 AND HEAP_XMAX_DISTRIBUTED_SNAPSHOT_IGNORE = t_infomask2 t AND HEAP_XMAX_DISTRIBUTED_SNAPSHOT_IGNORE"
    and r: "case r of None \<Rightarrow> mvcc_inserted env (answer s) cid t
     | Some v \<Rightarrow> v \<longleftrightarrow> mvcc_inserted env (answer s) cid t \<and> \<not> mvcc_deleted env (answer s) cid t"
    using mvcc_xmin_spec [OF assms, of cid] by blast
  show ?thesis
  proof (cases r)
    case None
    have d: "mvcc_deleted env (answer s) cid t1 = mvcc_deleted env (answer s) cid t"
      using hinted_described [OF x(3)] x(6) by (simp add: mvcc_deleted_def)
    obtain t2 s2 where "mvcc_xmax_phase env check cid t1 s1 = Inr (\<not> mvcc_deleted env (answer s) cid t1, t2, s2)"
      "hints_sound env t2" "hinted t1 t2" "inv s2" "answer s2 = answer s"
      using mvcc_xmax_spec [OF x(4,2), of cid] fit x(5) by auto
    then show ?thesis using None x r d hinted_trans [OF x(3)] by (simp add: HeapTupleSatisfiesMVCC_def)
  next
    case (Some v)
    then show ?thesis using x r by (simp add: HeapTupleSatisfiesMVCC_def)
  qed
qed

end

section \<open>The interface for the snapshot test\<close>

text \<open>The state is a snapshot with the cache of local and distributed identifiers. Where the distributed
  snapshot counts, the maps and the cache have to be right and the log has to answer for the
  identifiers below \<^verbatim>\<open>xmax\<close>.\<close>

definition distributed_counts :: "SnapshotEnv \<Rightarrow> SnapshotData \<times> LocalDistribXactCache \<Rightarrow> bool" where
  "distributed_counts senv s \<longleftrightarrow> haveDistribSnapshot (fst s) \<and> \<not> IS_QUERY_DISPATCHER senv"

definition mvcc_inv :: "SnapshotEnv \<Rightarrow> SnapshotData \<times> LocalDistribXactCache \<Rightarrow> bool" where
  "mvcc_inv senv s \<longleftrightarrow> (distributed_counts senv s \<longrightarrow>
     dslm_ok (dlog_pages (env_dlog senv)) (distribSnapshotWithLocalMapping (fst s)) \<and>
     cache_coherent (gp_max_local_distributed_cache senv) (dlog_pages (env_dlog senv)) (snd s) \<and>
     (\<forall>x. TransactionIdIsNormal x \<and> \<not> TransactionIdFollowsOrEquals x (snap_xmax (fst s)) \<longrightarrow>
        log_answers (env_dlog senv) (ds (distribSnapshotWithLocalMapping (fst s))) x))"

definition mvcc_answer :: "SnapshotEnv \<Rightarrow> SnapshotData \<times> LocalDistribXactCache \<Rightarrow> TransactionId \<Rightarrow> bool \<Rightarrow> XidInMVCCSnapshotCheckResult" where
  "mvcc_answer senv s x g =
     (let local = xid_check_result (XidInMVCCSnapshot_Local (env_subtrans senv) x (fst s))
      in if distributed_counts senv s \<and> \<not> g
         then (if \<not> TransactionIdIsNormal x then XID_NOT_IN_SNAPSHOT
               else if TransactionIdFollowsOrEquals x (snap_xmax (fst s)) then XID_IN_SNAPSHOT
               else case snapshot_verdict (ds (distribSnapshotWithLocalMapping (fst s))) False (gxid_of (dlog_pages (env_dlog senv)) x) of
                      DISTRIBUTEDSNAPSHOT_COMMITTED_INPROGRESS \<Rightarrow> XID_IN_SNAPSHOT
                    | DISTRIBUTEDSNAPSHOT_COMMITTED_VISIBLE \<Rightarrow> XID_SURELY_COMMITTED
                    | _ \<Rightarrow> local)
         else local)"

lemma local_test_mapping [simp]:
  "XidInMVCCSnapshot_Local log x (snapshot\<lparr>distribSnapshotWithLocalMapping := m\<rparr>) = XidInMVCCSnapshot_Local log x snapshot"
  by (simp add: XidInMVCCSnapshot_Local_def)

lemma mvcc_answer_mapping:
  "ds m = ds (distribSnapshotWithLocalMapping snapshot) \<Longrightarrow>
   mvcc_answer senv (snapshot\<lparr>distribSnapshotWithLocalMapping := m\<rparr>, cache') = mvcc_answer senv (snapshot, cache)"
  by (simp add: mvcc_answer_def distributed_counts_def fun_eq_iff Let_def)

lemma mvcc_check_answers:
  assumes "mvcc_inv senv s"
  shows "\<exists>i s'. mvcc_check senv x g s = Inr (mvcc_answer senv s x g, i, s') \<and> mvcc_inv senv s' \<and>
    mvcc_answer senv s' = mvcc_answer senv s"
proof -
  obtain snapshot cache where s: "s = (snapshot, cache)" by fastforce
  show ?thesis
  proof (cases "distributed_counts senv s \<and> \<not> g \<and> TransactionIdIsNormal x \<and> \<not> TransactionIdFollowsOrEquals x (snap_xmax snapshot)")
    case False
    then show ?thesis
      using assms by (auto simp: mvcc_check_def XidInMVCCSnapshot_def mvcc_answer_def distributed_counts_def s Let_def)
  next
    case True
    let ?m = "distribSnapshotWithLocalMapping snapshot"
    let ?v = "snapshot_verdict (ds ?m) False (gxid_of (dlog_pages (env_dlog senv)) x)"
    obtain r m' cache' where t: "DistributedSnapshotWithLocalMapping_CommittedTest (gp_max_local_distributed_cache senv)
        (env_dlog senv) x False ?m cache = Inr (r, m', cache')"
      and keep: "dslm_ok (dlog_pages (env_dlog senv)) m'" "ds m' = ds ?m"
        "cache_coherent (gp_max_local_distributed_cache senv) (dlog_pages (env_dlog senv)) cache'"
      and r: "r = ?v \<or> ?v = DISTRIBUTEDSNAPSHOT_COMMITTED_IGNORE \<and> r = DISTRIBUTEDSNAPSHOT_COMMITTED_UNKNOWN"
      using committed_test_spec [of "env_dlog senv" ?m "gp_max_local_distributed_cache senv" cache x False] True assms
      by (auto simp: mvcc_inv_def s Let_def)
    have "?v \<noteq> DISTRIBUTEDSNAPSHOT_COMMITTED_NONE" by (simp add: snapshot_verdict_def split: option.splits)
    then have "\<exists>i. mvcc_check senv x g s = Inr (mvcc_answer senv s x g, i, snapshot\<lparr>distribSnapshotWithLocalMapping := m'\<rparr>, cache')"
      using True t r
      by (cases r) (auto simp: mvcc_check_def XidInMVCCSnapshot_def mvcc_answer_def distributed_counts_def s Let_def)
    moreover have "mvcc_inv senv (snapshot\<lparr>distribSnapshotWithLocalMapping := m'\<rparr>, cache')"
      using keep assms True by (simp add: mvcc_inv_def s)
    ultimately show ?thesis using mvcc_answer_mapping [OF keep(2)] s by blast
  qed
qed

interpretation mvcc_snap: snapshot_test "mvcc_check senv" "mvcc_inv senv" "mvcc_answer senv" for senv
  by unfold_locales (rule mvcc_check_answers)

section \<open>Two backends\<close>

text \<open>Two backends that see the same states of the transactions; each has transactions of its own.\<close>

definition same_xacts :: "XactEnv \<Rightarrow> XactEnv \<Rightarrow> bool" where
  "same_xacts env env' \<longleftrightarrow> own_runs env \<and> own_runs env' \<and>
     TransactionIdIsInProgress env' = TransactionIdIsInProgress env \<and> xact_did_commit env' = xact_did_commit env \<and>
     GetMultiXactIdMembers env' = GetMultiXactIdMembers env"

lemma same_fates:
  assumes "same_xacts env env'"
  shows "fate_of env' x = Committed \<longleftrightarrow> fate_of env x = Committed" "fate_of env' x = Aborted \<longleftrightarrow> fate_of env x = Aborted"
    "updater env' t = updater env t"
  using assms by (auto simp: same_xacts_def own_runs_def fate_of_def updater_def HeapTupleGetUpdateXid_def MultiXactIdGetUpdateXid_def)

lemma same_sound: "same_xacts env env' \<Longrightarrow> hints_sound env' t = hints_sound env t"
  using same_fates by (simp add: hints_sound_def insertion_succeeded_def insertion_failed_def)

section \<open>An example\<close>

definition sample_senv :: SnapshotEnv where
  "sample_senv = \<lparr>IS_QUERY_DISPATCHER = False, gp_max_local_distributed_cache = 4, env_dlog = sample_dlog,
     env_subtrans = zeroed_subtrans\<rparr>"

text \<open>Snapshots of a segment between two identifiers, with one transaction running.\<close>

definition sample_range :: "TransactionId \<Rightarrow> TransactionId \<Rightarrow> SnapshotData \<times> LocalDistribXactCache" where
  "sample_range lo hi = (sample_snapshot\<lparr>snap_xmin := lo, snap_xmax := hi, xip := [lo], suboverflowed := False\<rparr>, empty_cache)"

lemma sample_logged: "logged (dlog_pages sample_dlog) x = (if x = 7 then 70 else 0)"
proof -
  have "TransactionIdToPage 7 = 0" "TransactionIdToEntry 7 = 7"
    by (simp_all add: TransactionIdToPage_def TransactionIdToEntry_def ENTRIES_PER_PAGE_def)
  then have "TransactionIdToPage x = 0 \<and> TransactionIdToEntry x = 7 \<longleftrightarrow> x = 7" using page_entry_inject [of x 7] by auto
  then show ?thesis by (auto simp: logged_def sample_dlog_def)
qed

lemma sample_gxid: "gxid_of (dlog_pages sample_dlog) x = (if x = 7 then Some 70 else None)"
  by (simp add: gxid_of_def sample_logged)

lemma sample_inv:
  assumes "hi = 20 \<or> hi = 55"
  shows "mvcc_inv sample_senv (sample_range lo hi)"
proof -
  have oldest: "dlog_oldestXmin sample_dlog = 5" "InvalidTransactionId = 0" by (simp_all add: sample_dlog_def xid_defs)
  have 1: "dslm_ok (dlog_pages sample_dlog) sample_dslm"
    by (simp add: dslm_ok_def ds_ok_def sample_dslm_def InvalidTransactionId_def)
  have 2: "cache_coherent 4 (dlog_pages sample_dlog) empty_cache"
    by (simp add: cache_coherent_def empty_cache_inv) (simp add: empty_cache_def cache_lookup_def)
  have 3: "log_answers sample_dlog (ds sample_dslm) x"
    if "TransactionIdIsNormal x" "\<not> TransactionIdFollowsOrEquals x hi" for x
  proof (cases "TransactionIdPrecedes x 5")
    case True
    then have "x \<noteq> 7" by (auto simp: TransactionIdPrecedes_def xid_defs)
    then show ?thesis using True by (simp add: log_answers_def DistributedLog_CommittedCheck_def sample_gxid oldest)
  next
    case False
    have w: "in_window 5 x" "in_window 5 hi"
      using not_precedes_window [OF _ that(1) False] assms by (auto simp: xid_defs in_window_def xid_offset_def)
    have "xid_offset 5 x < 50"
      using window_comparisons(4) [OF w] that(2) assms by (auto simp: xid_offset_def)
    moreover have "x = of_nat (5 + xid_offset 5 x)" using xid_offset_elim [of x 5] by simp
    moreover have "unat (of_nat (5 + k) :: uint32) < 4096" if "k < 50" for k
      using that by (simp add: unat_of_nat del: of_nat_add)
    ultimately have "unat x < 4096" by metis
    then have "dlog_pages sample_dlog (TransactionIdToPage x) = Some ((\<lambda>_. 0)(7 := 70))"
      by (simp add: dlog_eval)
    then show ?thesis
      using False sample_logged [of x]
      by (auto simp: log_answers_def DistributedLog_CommittedCheck_def DistributedLog_GetDistributedXid_def sample_gxid logged_def oldest)
  qed
  show ?thesis using 1 2 3 by (auto simp: mvcc_inv_def sample_range_def sample_senv_def sample_snapshot_def)
qed

lemma sample_answer:
  "mvcc_answer sample_senv (sample_range lo hi) x g =
     (if g \<or> TransactionIdIsNormal x \<and> \<not> TransactionIdFollowsOrEquals x hi \<and> x \<noteq> 7
      then xid_check_result (XidInMVCCSnapshot_Local zeroed_subtrans x (fst (sample_range lo hi)))
      else if TransactionIdIsNormal x then XID_IN_SNAPSHOT else XID_NOT_IN_SNAPSHOT)"
  by (auto simp: mvcc_answer_def distributed_counts_def sample_gxid snapshot_verdict_def sample_range_def sample_senv_def
      sample_snapshot_def sample_dslm_def running_gxids_def Let_def)

lemma sample_local:
  "XidInMVCCSnapshot_Local zeroed_subtrans x (fst (sample_range lo hi)) \<longleftrightarrow>
     \<not> TransactionIdPrecedes x lo \<and> (TransactionIdFollowsOrEquals x hi \<or> x = lo)"
  by (auto simp: XidInMVCCSnapshot_Local_def sample_range_def sample_snapshot_def)

lemmas sample_answers = sample_answer sample_local xid_check_result_def TransactionIdPrecedes_def
  TransactionIdFollowsOrEquals_def xid_defs

section \<open>Properties\<close>



text \<open>C13: vacuum never removes a tuple someone can still see. When the vacuum test calls a tuple dead
  with a horizon such that the snapshot of another backend regards no transaction below it as in
  progress once it has committed, the multiversion test of that backend does not see the tuple.\<close>

theorem vacuum_dead_invisible:
  assumes "fst (HeapTupleSatisfiesVacuum env OldestXmin t) = HEAPTUPLE_DEAD"
    "hints_sound env t" "multi_rule env t" "\<not> tuple_moved t" "same_xacts env env'" "own_rule env' t"
    "mvcc_inv senv (snapshot, cache)" "answers_fit env' (mvcc_answer senv (snapshot, cache))"
    "\<And>x g. TransactionIdPrecedes x OldestXmin \<Longrightarrow> xact_did_commit env x \<Longrightarrow> \<not> TransactionIdIsInProgress env x \<Longrightarrow>
       mvcc_answer senv (snapshot, cache) x g \<noteq> XID_IN_SNAPSHOT"
  shows "\<exists>t' s'. HeapTupleSatisfiesMVCC env' (mvcc_check senv) (curcid snapshot) t (snapshot, cache) = Inr (False, t', s')"
proof -
  let ?a = "mvcc_answer senv (snapshot, cache)"
  have runs: "own_runs env" "own_runs env'" using assms(5) by (auto simp: same_xacts_def)
  have dead: "insertion_failed env t \<and> \<not> HeapTupleHeaderXminFrozen t \<or>
      \<not> locked_only t \<and> fate_of env (updater env t) = Committed \<and> TransactionIdPrecedes (updater env t) OldestXmin"
    using vacuum_spec [OF assms(2) runs(1) assms(3)] assms(1)
    by (auto simp: HeapTupleSatisfiesVacuum_def split: prod.splits if_splits)
  have "\<not> (mvcc_inserted env' ?a cid t \<and> \<not> mvcc_deleted env' ?a cid t)" for cid
    using dead
  proof
    assume "insertion_failed env t \<and> \<not> HeapTupleHeaderXminFrozen t"
    then have "fate_of env' (t_xmin t) = Aborted" "\<not> HeapTupleHeaderXminFrozen t"
      using assms(4) same_fates(2) [OF assms(5)] by (auto simp: insertion_failed_def tuple_moved_def)
    then show ?thesis by (simp add: mvcc_inserted_def xact_visible_def fate_tests)
  next
    let ?u = "updater env t"
    assume d: "\<not> locked_only t \<and> fate_of env ?u = Committed \<and> TransactionIdPrecedes ?u OldestXmin"
    then have c: "fate_of env' ?u = Committed" using same_fates(1) [OF assms(5)] by simp
    then have "xact_did_commit env ?u" "\<not> TransactionIdIsInProgress env ?u" using d by (simp_all add: fate_tests)
    then have "?a ?u g \<noteq> XID_IN_SNAPSHOT" for g using assms(9) d by blast
    then show ?thesis using d c same_fates(3) [OF assms(5)] by (simp add: mvcc_deleted_def xact_visible_def fate_tests)
  qed
  then show ?thesis
    using mvcc_snap.mvcc_spec [OF assms(7) _ assms(6,4,8), of "curcid snapshot"] same_sound [OF assms(5)] assms(2) by auto
qed

theorem vacuum_dead_invisible_witness:
  "\<exists>t' s'. HeapTupleSatisfiesMVCC (sample_env\<lparr>TransactionIdIsCurrentTransactionId := \<lambda>x. x = 60\<rparr>) (mvcc_check sample_senv) 0
     sample_tuple (sample_range 50 55) = Inr (False, t', s')"
proof -
  let ?env' = "sample_env\<lparr>TransactionIdIsCurrentTransactionId := \<lambda>x. x = 60\<rparr>"
  have same: "same_xacts sample_env ?env'" by (auto simp: same_xacts_def own_runs_def sample_env_def)
  have f: "answers_fit ?env' (mvcc_answer sample_senv (sample_range 50 55))"
    by (auto simp: answers_fit_def sample_env_def sample_answers)
  have m: "multi_rule sample_env sample_tuple" "own_rule ?env' sample_tuple"
    by (simp_all add: multi_rule_def own_rule_def fate_of_def sample_env_def)
  have d: "fst (HeapTupleSatisfiesVacuum sample_env 30 sample_tuple) = HEAPTUPLE_DEAD"
    by (simp add: HeapTupleSatisfiesVacuum_def HeapTupleSatisfiesVacuumHorizon_def vacuum_xmin_phase_def vacuum_xmax_phase_def
        sample_env_def set_hint_def SetHintBits_def markDirty_def HEAP_XMAX_IS_LOCKED_ONLY_def infomask_has_def tuple_moved_def
        HeapTupleHeaderXminCommitted_def HeapTupleHeaderXminInvalid_def sample_tuple_def heap_masks TransactionIdPrecedes_def
        xid_defs Let_def)
  have old: "mvcc_answer sample_senv (sample_range 50 55) x g \<noteq> XID_IN_SNAPSHOT"
    if "TransactionIdPrecedes x 30" "xact_did_commit sample_env x" "\<not> TransactionIdIsInProgress sample_env x" for x g
    using that by (auto simp: sample_answers) (auto simp: sample_env_def)
  have "curcid (fst (sample_range 50 55)) = 0" by (simp add: sample_range_def sample_snapshot_def)
  then show ?thesis
    using vacuum_dead_invisible [OF d sample_sound(1) m(1) _ same m(2), of sample_senv "fst (sample_range 50 55)" "snd (sample_range 50 55)"]
      f sample_inv [of 55 50] old by auto
qed

end
