(* ===== verification/GlobalDeadlock.thy ===== *)
theory GlobalDeadlock
  imports LocalDistribCache
begin

text \<open>The detector of global deadlocks, \<^verbatim>\<open>src/backend/utils/gdd/gdddetector.c\<close> with the iterators
  of \<^verbatim>\<open>gdddetectorpriv.h\<close>: one wait graph per segment, whose verts are distributed transactions,
  the reduction of the graphs, and the choice of the transactions to cancel. A map is the list of its
  pairs in array order; a pointer to a vert is its segment and its id, a pointer to the accounting of
  a vert its id, and an edge carries the number of its allocation as its address. Degrees are unbounded
  integers.\<close>

section \<open>Maps and iterators\<close>

type_synonym 'a GddMap = "(DistributedTransactionId \<times> 'a) list"

definition gddMapGet :: "'a GddMap \<Rightarrow> DistributedTransactionId \<Rightarrow> 'a option" where
  "gddMapGet m key = map_of m key"

definition gddMapSetUnsafe :: "'a GddMap \<Rightarrow> DistributedTransactionId \<Rightarrow> 'a \<Rightarrow> 'a GddMap" where
  "gddMapSetUnsafe m key p = m @ [(key, p)]"

definition gdd_map_iter_delete :: "'a GddMap \<Rightarrow> nat \<Rightarrow> 'a GddMap" where
  "gdd_map_iter_delete m pos = butlast (m[pos := last m])"

text \<open>Changing what the pointer stored under a key points to.\<close>

definition map_adjust :: "DistributedTransactionId \<Rightarrow> ('a \<Rightarrow> 'a) \<Rightarrow> 'a GddMap \<Rightarrow> 'a GddMap" where
  "map_adjust key f m = map (\<lambda>(k, p). (k, if k = key then f p else p)) m"

text \<open>The list iterator: its list, and the indices of the previous and of the current cell. A loop whose
  body deletes the current cell or leaves it gives the elements it visits and the list that is left.\<close>

definition list_head :: "'a list \<Rightarrow> nat option" where
  "list_head xs = (if xs = [] then None else Some 0)"

definition lnext :: "'a list \<Rightarrow> nat \<Rightarrow> nat option" where
  "lnext xs cell = (if cell + 1 < length xs then Some (cell + 1) else None)"

function list_iter_loop :: "('a \<Rightarrow> bool) \<Rightarrow> 'a list \<Rightarrow> nat option \<Rightarrow> nat option \<Rightarrow> 'a list \<times> 'a list" where
  "list_iter_loop del xs prev cell =
     (case cell of
        None \<Rightarrow> ([], xs)
      | Some c \<Rightarrow>
          if length xs \<le> c then ([], xs)
          else if del (xs ! c)
          then
            let rest = take c xs @ drop (Suc c) xs;
                prev = (if rest \<noteq> [] then prev else None);
                cell = prev;
                (vs, ys) = list_iter_loop del rest cell (case cell of None \<Rightarrow> list_head rest | Some p \<Rightarrow> lnext rest p)
            in (xs ! c # vs, ys)
          else
            let (vs, ys) = list_iter_loop del xs cell (lnext xs c)
            in (xs ! c # vs, ys))"
  by pat_completeness auto
termination
  by (relation "measures [\<lambda>(del, xs, prev, cell). length xs, \<lambda>(del, xs, prev, cell). case cell of None \<Rightarrow> 0 | Some c \<Rightarrow> length xs - c]")
     (auto simp: lnext_def split: if_splits)

declare list_iter_loop.simps [simp del]

definition gdd_list_foreach_safe :: "('a \<Rightarrow> bool) \<Rightarrow> 'a list \<Rightarrow> 'a list \<times> 'a list" where
  "gdd_list_foreach_safe del xs = list_iter_loop del xs None (list_head xs)"

section \<open>The context\<close>

record GddEdge =
  edge_addr :: nat
  edge_solid :: bool
  edge_from :: DistributedTransactionId
  edge_to :: DistributedTransactionId

record GddVert =
  vert_id :: DistributedTransactionId
  edgesIn :: "GddEdge list"
  edgesOut :: "GddEdge list"

record GddGraph =
  graph_id :: int
  verts :: "GddVert GddMap"

record GddStat =
  stat_id :: DistributedTransactionId
  indeg :: int
  outdeg :: int

record GddCtx =
  topstat :: GddStat
  globals :: "GddStat GddMap"
  graphs :: "GddGraph GddMap"
  edges_allocated :: nat

definition gddStatInit :: "DistributedTransactionId \<Rightarrow> GddStat" where
  "gddStatInit vid = \<lparr>stat_id = vid, indeg = 0, outdeg = 0\<rparr>"

definition gddGraphNew :: "int \<Rightarrow> GddGraph" where
  "gddGraphNew n = \<lparr>graph_id = n, verts = []\<rparr>"

definition gddVertNew :: "DistributedTransactionId \<Rightarrow> GddVert" where
  "gddVertNew vid = \<lparr>vert_id = vid, edgesIn = [], edgesOut = []\<rparr>"

definition GddCtxNew :: GddCtx where
  "GddCtxNew = \<lparr>topstat = gddStatInit 0, globals = [], graphs = [], edges_allocated = 0\<rparr>"

text \<open>Segment ids are keys of the map of graphs and are converted to the type of the keys.\<close>

definition segkey :: "int \<Rightarrow> DistributedTransactionId" where
  "segkey segid = of_int segid"

definition gddCtxGetGraph :: "int \<Rightarrow> GddCtx \<Rightarrow> GddCtx" where
  "gddCtxGetGraph segid ctx =
     (case gddMapGet (graphs ctx) (segkey segid) of
        None \<Rightarrow> ctx\<lparr>graphs := gddMapSetUnsafe (graphs ctx) (segkey segid) (gddGraphNew segid)\<rparr>
      | Some g \<Rightarrow> ctx)"

definition gddCtxGetGlobalStat :: "DistributedTransactionId \<Rightarrow> GddCtx \<Rightarrow> GddCtx" where
  "gddCtxGetGlobalStat vid ctx =
     (case gddMapGet (globals ctx) vid of
        None \<Rightarrow> ctx\<lparr>globals := gddMapSetUnsafe (globals ctx) vid (gddStatInit vid)\<rparr>
      | Some st \<Rightarrow> ctx)"

definition gddGraphGetVert :: "DistributedTransactionId \<Rightarrow> GddGraph \<Rightarrow> GddGraph" where
  "gddGraphGetVert vid graph =
     (case gddMapGet (verts graph) vid of
        None \<Rightarrow> graph\<lparr>verts := gddMapSetUnsafe (verts graph) vid (gddVertNew vid)\<rparr>
      | Some v \<Rightarrow> graph)"

definition gddEdgeNew :: "DistributedTransactionId \<Rightarrow> DistributedTransactionId \<Rightarrow> bool \<Rightarrow> GddCtx \<Rightarrow> GddEdge \<times> GddCtx" where
  "gddEdgeNew src dst solid ctx =
     (\<lparr>edge_addr = edges_allocated ctx, edge_solid = solid, edge_from = src, edge_to = dst\<rparr>,
      ctx\<lparr>edges_allocated := edges_allocated ctx + 1\<rparr>)"

definition gddGraphMakeEdge ::
  "DistributedTransactionId \<Rightarrow> DistributedTransactionId \<Rightarrow> DistributedTransactionId \<Rightarrow> bool \<Rightarrow> GddCtx \<Rightarrow> GddEdge \<times> GddCtx" where
  "gddGraphMakeEdge seg src dst solid ctx =
     gddEdgeNew src dst solid
       (ctx\<lparr>graphs := map_adjust seg (\<lambda>g. gddGraphGetVert dst (gddGraphGetVert src g)) (graphs ctx)\<rparr>)"

definition vert_adjust ::
  "DistributedTransactionId \<Rightarrow> DistributedTransactionId \<Rightarrow> (GddVert \<Rightarrow> GddVert) \<Rightarrow> GddCtx \<Rightarrow> GddCtx" where
  "vert_adjust seg vid f ctx = ctx\<lparr>graphs := map_adjust seg (\<lambda>g. g\<lparr>verts := map_adjust vid f (verts g)\<rparr>) (graphs ctx)\<rparr>"

definition global_adjust :: "DistributedTransactionId \<Rightarrow> (GddStat \<Rightarrow> GddStat) \<Rightarrow> GddCtx \<Rightarrow> GddCtx" where
  "global_adjust vid f ctx = ctx\<lparr>globals := map_adjust vid f (globals ctx)\<rparr>"

definition add_indeg :: "int \<Rightarrow> GddStat \<Rightarrow> GddStat" where
  "add_indeg d st = st\<lparr>indeg := indeg st + d\<rparr>"

definition add_outdeg :: "int \<Rightarrow> GddStat \<Rightarrow> GddStat" where
  "add_outdeg d st = st\<lparr>outdeg := outdeg st + d\<rparr>"

definition gddEdgeLink :: "DistributedTransactionId \<Rightarrow> GddEdge \<Rightarrow> GddCtx \<Rightarrow> GddCtx" where
  "gddEdgeLink seg edge ctx =
     (let ctx = ctx\<lparr>topstat := add_indeg 1 (add_outdeg 1 (topstat ctx))\<rparr>;
          ctx = global_adjust (edge_from edge) (add_outdeg 1) ctx;
          ctx = global_adjust (edge_to edge) (add_indeg 1) ctx;
          ctx = vert_adjust seg (edge_from edge) (\<lambda>v. v\<lparr>edgesOut := edgesOut v @ [edge]\<rparr>) ctx
      in vert_adjust seg (edge_to edge) (\<lambda>v. v\<lparr>edgesIn := edgesIn v @ [edge]\<rparr>) ctx)"

text \<open>Binding the accounting to a vert needs no step of its own, since it is found by the id.\<close>

definition GddCtxAddEdge ::
  "int \<Rightarrow> DistributedTransactionId \<Rightarrow> DistributedTransactionId \<Rightarrow> bool \<Rightarrow> GddCtx \<Rightarrow> GddCtx" where
  "GddCtxAddEdge segid src dst solid ctx =
     (let ctx = gddCtxGetGraph segid ctx;
          (edge, ctx) = gddGraphMakeEdge (segkey segid) src dst solid ctx;
          ctx = gddCtxGetGlobalStat src ctx;
          ctx = gddCtxGetGlobalStat dst ctx
      in gddEdgeLink (segkey segid) edge ctx)"

section \<open>Removing edges\<close>

text \<open>What a vert of a segment is, and its lists.\<close>

definition graph_verts :: "GddCtx \<Rightarrow> DistributedTransactionId \<Rightarrow> GddVert GddMap" where
  "graph_verts ctx seg = (case gddMapGet (graphs ctx) seg of None \<Rightarrow> [] | Some g \<Rightarrow> verts g)"

definition edges_in :: "GddCtx \<Rightarrow> DistributedTransactionId \<Rightarrow> DistributedTransactionId \<Rightarrow> GddEdge list" where
  "edges_in ctx seg vid = (case gddMapGet (graph_verts ctx seg) vid of None \<Rightarrow> [] | Some v \<Rightarrow> edgesIn v)"

definition edges_out :: "GddCtx \<Rightarrow> DistributedTransactionId \<Rightarrow> DistributedTransactionId \<Rightarrow> GddEdge list" where
  "edges_out ctx seg vid = (case gddMapGet (graph_verts ctx seg) vid of None \<Rightarrow> [] | Some v \<Rightarrow> edgesOut v)"

definition gddVertGetInDegree :: "GddCtx \<Rightarrow> DistributedTransactionId \<Rightarrow> DistributedTransactionId \<Rightarrow> nat" where
  "gddVertGetInDegree ctx seg vid = length (edges_in ctx seg vid)"

definition gddVertGetOutDegree :: "GddCtx \<Rightarrow> DistributedTransactionId \<Rightarrow> DistributedTransactionId \<Rightarrow> nat" where
  "gddVertGetOutDegree ctx seg vid = length (edges_out ctx seg vid)"

definition gddEdgeUnlinkFrom :: "DistributedTransactionId \<Rightarrow> GddEdge \<Rightarrow> GddCtx \<Rightarrow> GddCtx" where
  "gddEdgeUnlinkFrom seg edge ctx =
     (let ctx = ctx\<lparr>topstat := add_outdeg (- 1) (topstat ctx)\<rparr>;
          ctx = global_adjust (edge_from edge) (add_outdeg (- 1)) ctx
      in vert_adjust seg (edge_from edge) (\<lambda>v. v\<lparr>edgesOut := remove1 edge (edgesOut v)\<rparr>) ctx)"

definition gddEdgeUnlinkTo :: "DistributedTransactionId \<Rightarrow> GddEdge \<Rightarrow> GddCtx \<Rightarrow> GddCtx" where
  "gddEdgeUnlinkTo seg edge ctx =
     (let ctx = ctx\<lparr>topstat := add_indeg (- 1) (topstat ctx)\<rparr>;
          ctx = global_adjust (edge_to edge) (add_indeg (- 1)) ctx
      in vert_adjust seg (edge_to edge) (\<lambda>v. v\<lparr>edgesIn := remove1 edge (edgesIn v)\<rparr>) ctx)"

definition gddEdgeUnlink :: "DistributedTransactionId \<Rightarrow> GddEdge \<Rightarrow> GddCtx \<Rightarrow> GddCtx" where
  "gddEdgeUnlink seg edge ctx = gddEdgeUnlinkTo seg edge (gddEdgeUnlinkFrom seg edge ctx)"

text \<open>Each loop unlinks the edges its iterator visits and does not skip; the iterator walks the list as
  the loop finds it.\<close>

definition gddVertUnlinkAll :: "DistributedTransactionId \<Rightarrow> DistributedTransactionId \<Rightarrow> GddCtx \<Rightarrow> bool \<times> GddCtx" where
  "gddVertUnlinkAll seg vid ctx =
     (let ins = fst (gdd_list_foreach_safe (\<lambda>_. True) (edges_in ctx seg vid));
          ctx = fold (gddEdgeUnlink seg) ins ctx;
          outs = fst (gdd_list_foreach_safe (\<lambda>_. True) (edges_out ctx seg vid));
          ctx = fold (gddEdgeUnlink seg) outs ctx
      in (ins \<noteq> [] \<or> outs \<noteq> [], ctx))"

definition gddVertReduce :: "DistributedTransactionId \<Rightarrow> DistributedTransactionId \<Rightarrow> GddCtx \<Rightarrow> bool \<times> GddCtx" where
  "gddVertReduce seg vid ctx =
     (case gddMapGet (globals ctx) vid of
        None \<Rightarrow> (False, ctx)
      | Some global \<Rightarrow>
          if indeg global = 0 \<or> outdeg global = 0 then gddVertUnlinkAll seg vid ctx
          else if gddVertGetOutDegree ctx seg vid = 0
          then
            let dotted = filter (\<lambda>e. \<not> edge_solid e)
                  (fst (gdd_list_foreach_safe (\<lambda>e. \<not> edge_solid e) (edges_in ctx seg vid)))
            in (dotted \<noteq> [], fold (gddEdgeUnlink seg) dotted ctx)
          else (False, ctx))"

section \<open>Reduction and choice of the victims\<close>

lemma map_adjust_keys [simp]: "map fst (map_adjust k f m) = map fst m"
  by (simp add: map_adjust_def case_prod_beta comp_def)

lemma map_of_adjust: "map_of (map_adjust k f m) k' = (if k' = k then map_option f (map_of m k) else map_of m k')"
  by (induction m) (auto simp: map_adjust_def)

lemma map_adjust_Nil [simp]: "map_adjust k f [] = []"
  by (simp add: map_adjust_def)

lemma graph_verts_adjust:
  "graph_verts (vert_adjust s v f ctx) s' = (if s' = s then map_adjust v f (graph_verts ctx s) else graph_verts ctx s')"
  by (simp add: graph_verts_def vert_adjust_def gddMapGet_def map_of_adjust split: option.splits)

lemma graph_verts_global [simp]:
  "graph_verts (global_adjust v f ctx) s = graph_verts ctx s" "graph_verts (ctx\<lparr>topstat := t\<rparr>) s = graph_verts ctx s"
  by (simp_all add: graph_verts_def global_adjust_def)

lemma unlink_keys [simp]:
  "map fst (graph_verts (gddEdgeUnlink seg e ctx) s) = map fst (graph_verts ctx s)"
  by (simp add: gddEdgeUnlink_def gddEdgeUnlinkFrom_def gddEdgeUnlinkTo_def graph_verts_adjust)

lemma unlinks_keys [simp]:
  "map fst (graph_verts (fold (gddEdgeUnlink seg) es ctx) s) = map fst (graph_verts ctx s)"
  by (induction es arbitrary: ctx) simp_all

lemma reduce_keys [simp]:
  "map fst (graph_verts (snd (gddVertReduce seg v ctx)) s) = map fst (graph_verts ctx s)"
  by (simp add: gddVertReduce_def gddVertUnlinkAll_def Let_def split: option.splits)

lemma reduce_verts_length [simp]: "length (graph_verts (snd (gddVertReduce seg v ctx)) s) = length (graph_verts ctx s)"
  using reduce_keys [of seg v ctx s] map_eq_imp_length_eq by blast

definition graph_delete :: "DistributedTransactionId \<Rightarrow> nat \<Rightarrow> GddCtx \<Rightarrow> GddCtx" where
  "graph_delete seg pos ctx = ctx\<lparr>graphs := map_adjust seg (\<lambda>g. g\<lparr>verts := gdd_map_iter_delete (verts g) pos\<rparr>) (graphs ctx)\<rparr>"

lemma graph_verts_delete:
  "graph_verts (graph_delete s pos ctx) s' =
     (if s' = s \<and> gddMapGet (graphs ctx) s \<noteq> None then gdd_map_iter_delete (graph_verts ctx s) pos else graph_verts ctx s')"
  by (simp add: graph_verts_def graph_delete_def gddMapGet_def map_of_adjust split: option.splits)

lemma graph_verts_found: "graph_verts ctx s \<noteq> [] \<Longrightarrow> gddMapGet (graphs ctx) s \<noteq> None"
  by (auto simp: graph_verts_def split: option.splits)

text \<open>The inner loop of \<^verbatim>\<open>GddCtxReduce\<close> over the verts of one graph; deleting a pair moves the last
  one to its place, where the loop goes on.\<close>

function reduce_verts :: "DistributedTransactionId \<Rightarrow> nat \<Rightarrow> bool \<Rightarrow> GddCtx \<Rightarrow> bool \<times> GddCtx" where
  "reduce_verts seg pos dirty ctx =
     (if pos < length (graph_verts ctx seg)
      then
        let vid = fst (graph_verts ctx seg ! pos);
            r = gddVertReduce seg vid ctx;
            dirty = (if fst r then True else dirty);
            ctx = snd r
        in if gddVertGetInDegree ctx seg vid = 0 \<and> gddVertGetOutDegree ctx seg vid = 0
           then reduce_verts seg pos dirty (graph_delete seg pos ctx)
           else reduce_verts seg (pos + 1) dirty ctx
      else (dirty, ctx))"
  by pat_completeness auto
termination
proof (relation "measure (\<lambda>(seg, pos, dirty, ctx). length (graph_verts ctx seg) - pos)", goal_cases)
  case (2 seg pos dirty ctx vid r dirty' ctx')
  then have "length (graph_verts ctx' seg) = length (graph_verts ctx seg)" "0 < length (graph_verts ctx' seg)" by auto
  moreover from this have "gddMapGet (graphs ctx') seg \<noteq> None" using graph_verts_found [of ctx' seg] by (metis length_greater_0_conv)
  ultimately show ?case using 2(1) by (simp add: graph_verts_delete gdd_map_iter_delete_def)
qed auto

declare reduce_verts.simps [simp del]

definition reduce_pass :: "GddCtx \<Rightarrow> bool \<times> GddCtx" where
  "reduce_pass ctx = fold (\<lambda>seg (dirty, ctx). reduce_verts seg 0 dirty ctx) (map fst (graphs ctx)) (False, ctx)"

text \<open>A reduction that never ends has the value \<open>None\<close>.\<close>

partial_function (option) GddCtxReduce :: "GddCtx \<Rightarrow> GddCtx option" where
  "GddCtxReduce ctx =
     (let r = reduce_pass ctx in if fst r then GddCtxReduce (snd r) else Some (snd r))"

definition GddCtxEmpty :: "GddCtx \<Rightarrow> bool" where
  "GddCtxEmpty ctx \<longleftrightarrow> indeg (topstat ctx) = 0"

text \<open>The result has the type \<^verbatim>\<open>int\<close> of C; the caller converts it back.\<close>

definition gddCtxGetMaxVid :: "GddCtx \<Rightarrow> uint32" where
  "gddCtxGetMaxVid ctx =
     ucast (fold (\<lambda>(seg, graph). fold (\<lambda>(vid, v) maxvid. if edgesIn v \<noteq> [] \<or> edgesOut v \<noteq> [] then max maxvid vid else maxvid)
       (verts graph)) (graphs ctx) 0)"

definition gddGraphRemoveVid :: "DistributedTransactionId \<Rightarrow> DistributedTransactionId \<Rightarrow> GddCtx \<Rightarrow> GddCtx" where
  "gddGraphRemoveVid vid seg ctx =
     (case find (\<lambda>i. fst (graph_verts ctx seg ! i) = vid) [0..<length (graph_verts ctx seg)] of
        None \<Rightarrow> ctx
      | Some pos \<Rightarrow> graph_delete seg pos (snd (gddVertUnlinkAll seg vid ctx)))"

definition gddCtxRemoveVid :: "DistributedTransactionId \<Rightarrow> GddCtx \<Rightarrow> GddCtx" where
  "gddCtxRemoveVid vid ctx = fold (gddGraphRemoveVid vid) (map fst (graphs ctx)) ctx"

partial_function (option) break_loop ::
  "DistributedTransactionId list \<Rightarrow> GddCtx \<Rightarrow> (DistributedTransactionId list \<times> GddCtx) option" where
  "break_loop vids ctx =
     (if GddCtxEmpty ctx then Some (vids, ctx)
      else
        let maxvid = scast (gddCtxGetMaxVid ctx)
        in case GddCtxReduce (gddCtxRemoveVid maxvid ctx) of
             None \<Rightarrow> None
           | Some ctx \<Rightarrow> break_loop (vids @ [maxvid]) ctx)"

definition GddCtxBreakDeadLock :: "GddCtx \<Rightarrow> (DistributedTransactionId list \<times> GddCtx) option" where
  "GddCtxBreakDeadLock ctx = break_loop [] ctx"

end
