(* ===== verification/GlobalDeadlockProps.thy ===== *)
theory GlobalDeadlockProps
  imports GlobalDeadlock "HOL-Library.Multiset"
begin

text \<open>Correctness of the deadlock detector. A set of waits, edges with their segments, is irreducible
  when no edge in it can be removed by the rules of the reduction; the greatest irreducible subset is
  what is locked. The reduction computes it, whatever the order in which verts are visited, and the
  breaking of deadlocks is verified over it.\<close>

section \<open>What is locked\<close>

type_synonym wait = "DistributedTransactionId \<times> GddEdge"

abbreviation wait_from :: "wait \<Rightarrow> DistributedTransactionId" where
  "wait_from w \<equiv> edge_from (snd w)"

abbreviation wait_to :: "wait \<Rightarrow> DistributedTransactionId" where
  "wait_to w \<equiv> edge_to (snd w)"

text \<open>A wait is stuck: someone waits for the one who waits, the one waited for waits for someone, and
  if the edge is dotted, on the same segment.\<close>

definition stuck :: "wait set \<Rightarrow> wait \<Rightarrow> bool" where
  "stuck S w \<longleftrightarrow> (\<exists>w' \<in> S. wait_to w' = wait_from w) \<and> (\<exists>w' \<in> S. wait_from w' = wait_to w) \<and>
     (edge_solid (snd w) \<or> (\<exists>w' \<in> S. fst w' = fst w \<and> wait_from w' = wait_to w))"

definition irreducible :: "wait set \<Rightarrow> bool" where
  "irreducible S \<longleftrightarrow> (\<forall>w \<in> S. stuck S w)"

definition locked :: "wait set \<Rightarrow> wait set" where
  "locked E = \<Union>{S. S \<subseteq> E \<and> irreducible S}"

lemma stuck_mono: "stuck S w \<Longrightarrow> S \<subseteq> T \<Longrightarrow> stuck T w"
  unfolding stuck_def by blast

lemma locked_greatest: "S \<subseteq> E \<Longrightarrow> irreducible S \<Longrightarrow> S \<subseteq> locked E"
  by (auto simp: locked_def)

lemma locked_subset: "locked E \<subseteq> E"
  by (auto simp: locked_def)

lemma irreducible_locked: "irreducible (locked E)"
  unfolding irreducible_def
proof
  fix w assume "w \<in> locked E"
  then obtain S where S: "w \<in> S" "S \<subseteq> E" "irreducible S" by (auto simp: locked_def)
  then show "stuck (locked E) w" using stuck_mono [of S w "locked E"] locked_greatest by (auto simp: irreducible_def)
qed

lemma locked_irreducible: "irreducible E \<Longrightarrow> locked E = E"
  using locked_greatest [of E E] locked_subset [of E] by auto

lemma locked_mono: "E \<subseteq> F \<Longrightarrow> locked E \<subseteq> locked F"
  unfolding locked_def by blast

lemma locked_between: "locked E \<subseteq> F \<Longrightarrow> F \<subseteq> E \<Longrightarrow> locked F = locked E"
  using locked_greatest [of "locked E" F] irreducible_locked [of E] locked_mono [of F E] by blast

section \<open>The iterator\<close>

text \<open>The loop visits every cell once and in order, whichever of them its body deletes.\<close>

lemma list_iter_from:
  "list_iter_loop del (ys @ xs) (if ys = [] then None else Some (length ys - 1)) (if xs = [] then None else Some (length ys)) =
   (xs, ys @ filter (\<lambda>x. \<not> del x) xs)"
proof (induction xs arbitrary: ys)
  case Nil
  show ?case by (subst list_iter_loop.simps) simp
next
  case (Cons x xs)
  show ?case
  proof (cases "del x")
    case True
    show ?thesis
      using True Cons.IH [of ys]
      by (subst list_iter_loop.simps) (auto simp: list_head_def lnext_def nth_append)
  next
    case False
    show ?thesis
      using False Cons.IH [of "ys @ [x]"]
      by (subst list_iter_loop.simps) (auto simp: lnext_def nth_append)
  qed
qed

lemma foreach_visits [simp]: "gdd_list_foreach_safe del xs = (xs, filter (\<lambda>x. \<not> del x) xs)"
  using list_iter_from [of del "[]" xs] by (cases xs) (simp_all add: gdd_list_foreach_safe_def list_head_def)

section \<open>The representation\<close>

definition global_in :: "GddCtx \<Rightarrow> DistributedTransactionId \<Rightarrow> int" where
  "global_in ctx v = (case gddMapGet (globals ctx) v of None \<Rightarrow> 0 | Some st \<Rightarrow> indeg st)"

definition global_out :: "GddCtx \<Rightarrow> DistributedTransactionId \<Rightarrow> int" where
  "global_out ctx v = (case gddMapGet (globals ctx) v of None \<Rightarrow> 0 | Some st \<Rightarrow> outdeg st)"

text \<open>A context represents a set of waits: the lists of every vert hold exactly its waits, all the
  counters count them, and every vert has its accounting.\<close>

definition gdd_lists :: "GddCtx \<Rightarrow> wait set \<Rightarrow> bool" where
  "gdd_lists ctx E \<longleftrightarrow> (\<forall>s v.
     distinct (edges_in ctx s v) \<and> set (edges_in ctx s v) = {e. (s, e) \<in> E \<and> edge_to e = v} \<and>
     distinct (edges_out ctx s v) \<and> set (edges_out ctx s v) = {e. (s, e) \<in> E \<and> edge_from e = v})"

definition gdd_counts :: "GddCtx \<Rightarrow> wait set \<Rightarrow> bool" where
  "gdd_counts ctx E \<longleftrightarrow> indeg (topstat ctx) = int (card E) \<and> outdeg (topstat ctx) = int (card E) \<and>
     (\<forall>v. global_in ctx v = int (card {w \<in> E. wait_to w = v}) \<and> global_out ctx v = int (card {w \<in> E. wait_from w = v}))"

definition gdd_keys :: "GddCtx \<Rightarrow> bool" where
  "gdd_keys ctx \<longleftrightarrow> distinct (map fst (graphs ctx)) \<and> (\<forall>s. distinct (map fst (graph_verts ctx s))) \<and>
     (\<forall>s v. gddMapGet (graph_verts ctx s) v \<noteq> None \<longrightarrow> gddMapGet (globals ctx) v \<noteq> None)"

definition gdd_rep :: "GddCtx \<Rightarrow> wait set \<Rightarrow> bool" where
  "gdd_rep ctx E \<longleftrightarrow> finite E \<and> gdd_lists ctx E \<and> gdd_counts ctx E \<and> gdd_keys ctx \<and>
     (\<forall>w \<in> E. edge_addr (snd w) < edges_allocated ctx)"

section \<open>Accessors\<close>

lemma edges_cong:
  "graph_verts ctx s = graph_verts ctx' s \<Longrightarrow> edges_in ctx s v = edges_in ctx' s v"
  "graph_verts ctx s = graph_verts ctx' s \<Longrightarrow> edges_out ctx s v = edges_out ctx' s v"
  by (simp_all add: edges_in_def edges_out_def)

lemma edges_frame [simp]:
  "edges_in (global_adjust u f ctx) s v = edges_in ctx s v" "edges_in (ctx\<lparr>topstat := t\<rparr>) s v = edges_in ctx s v"
  "edges_out (global_adjust u f ctx) s v = edges_out ctx s v" "edges_out (ctx\<lparr>topstat := t\<rparr>) s v = edges_out ctx s v"
  by (rule edges_cong; simp)+

lemma edges_vert_adjust:
  "edges_in (vert_adjust s v f ctx) s' v' =
     (if s' = s \<and> v' = v then (case gddMapGet (graph_verts ctx s) v of None \<Rightarrow> [] | Some u \<Rightarrow> edgesIn (f u)) else edges_in ctx s' v')"
  "edges_out (vert_adjust s v f ctx) s' v' =
     (if s' = s \<and> v' = v then (case gddMapGet (graph_verts ctx s) v of None \<Rightarrow> [] | Some u \<Rightarrow> edgesOut (f u)) else edges_out ctx s' v')"
  by (auto simp: edges_in_def edges_out_def graph_verts_adjust gddMapGet_def map_of_adjust split: option.splits)

lemma globals_adjust [simp]:
  "globals (vert_adjust s v f ctx) = globals ctx"
  "topstat (vert_adjust s v f ctx) = topstat ctx" "topstat (global_adjust v g ctx) = topstat ctx"
  "edges_allocated (vert_adjust s v f ctx) = edges_allocated ctx" "edges_allocated (global_adjust v g ctx) = edges_allocated ctx"
  "map fst (graphs (vert_adjust s v f ctx)) = map fst (graphs ctx)" "graphs (global_adjust v g ctx) = graphs ctx"
  by (simp_all add: vert_adjust_def global_adjust_def)

lemma get_global_adjust:
  "gddMapGet (globals (global_adjust v f ctx)) v' =
     (if v' = v then map_option f (gddMapGet (globals ctx) v) else gddMapGet (globals ctx) v')"
  by (simp add: gddMapGet_def global_adjust_def map_of_adjust)

lemma edges_unlink:
  "edges_in (gddEdgeUnlink s e ctx) s' v = (if s' = s \<and> v = edge_to e then remove1 e (edges_in ctx s' v) else edges_in ctx s' v)"
  "edges_out (gddEdgeUnlink s e ctx) s' v = (if s' = s \<and> v = edge_from e then remove1 e (edges_out ctx s' v) else edges_out ctx s' v)"
  by (auto simp: gddEdgeUnlink_def gddEdgeUnlinkFrom_def gddEdgeUnlinkTo_def edges_vert_adjust Let_def
      edges_in_def edges_out_def graph_verts_adjust gddMapGet_def map_of_adjust split: option.splits)

lemma unlink_frame [simp]:
  "edges_allocated (gddEdgeUnlink s e ctx) = edges_allocated ctx"
  "map fst (graphs (gddEdgeUnlink s e ctx)) = map fst (graphs ctx)"
  "indeg (topstat (gddEdgeUnlink s e ctx)) = indeg (topstat ctx) - 1"
  "outdeg (topstat (gddEdgeUnlink s e ctx)) = outdeg (topstat ctx) - 1"
  by (simp_all add: gddEdgeUnlink_def gddEdgeUnlinkFrom_def gddEdgeUnlinkTo_def add_indeg_def add_outdeg_def Let_def)

lemma unlink_globals:
  "gddMapGet (globals (gddEdgeUnlink s e ctx)) v = None \<longleftrightarrow> gddMapGet (globals ctx) v = None"
  "gddMapGet (globals ctx) (edge_to e) \<noteq> None \<Longrightarrow>
     global_in (gddEdgeUnlink s e ctx) v = (if v = edge_to e then global_in ctx v - 1 else global_in ctx v)"
  "gddMapGet (globals ctx) (edge_from e) \<noteq> None \<Longrightarrow>
     global_out (gddEdgeUnlink s e ctx) v = (if v = edge_from e then global_out ctx v - 1 else global_out ctx v)"
  by (auto simp: gddEdgeUnlink_def gddEdgeUnlinkFrom_def gddEdgeUnlinkTo_def global_in_def global_out_def
      get_global_adjust add_indeg_def add_outdeg_def Let_def split: option.splits)

lemma unlinks_graph_keys [simp]: "map fst (graphs (fold (gddEdgeUnlink s) es ctx)) = map fst (graphs ctx)"
  by (induction es arbitrary: ctx) simp_all

lemma reduce_graph_keys: "map fst (graphs (snd (gddVertReduce s v ctx))) = map fst (graphs ctx)"
  by (simp add: gddVertReduce_def gddVertUnlinkAll_def Let_def split: option.splits)

lemma get_verts_keys: "map fst m = map fst m' \<Longrightarrow> gddMapGet m v = None \<longleftrightarrow> gddMapGet m' v = None"
  by (metis gddMapGet_def list.set_map map_of_eq_None_iff)

lemma wait_has_verts:
  assumes "gdd_rep ctx E" "(s, e) \<in> E"
  shows "gddMapGet (graph_verts ctx s) (edge_from e) \<noteq> None" "gddMapGet (graph_verts ctx s) (edge_to e) \<noteq> None"
    "gddMapGet (globals ctx) (edge_from e) \<noteq> None" "gddMapGet (globals ctx) (edge_to e) \<noteq> None"
proof -
  have "e \<in> set (edges_out ctx s (edge_from e))" using assms by (auto simp: gdd_rep_def gdd_lists_def)
  then show v1: "gddMapGet (graph_verts ctx s) (edge_from e) \<noteq> None" 
    by (cases "gddMapGet (graph_verts ctx s) (edge_from e)") (simp_all add: edges_out_def)
  have "e \<in> set (edges_in ctx s (edge_to e))" using assms by (auto simp: gdd_rep_def gdd_lists_def)
  then show v2: "gddMapGet (graph_verts ctx s) (edge_to e) \<noteq> None" 
    by (cases "gddMapGet (graph_verts ctx s) (edge_to e)") (simp_all add: edges_in_def)
  show "gddMapGet (globals ctx) (edge_from e) \<noteq> None" "gddMapGet (globals ctx) (edge_to e) \<noteq> None"
    using assms(1) v1 v2 unfolding gdd_rep_def gdd_keys_def by blast+
qed

section \<open>Unlinking\<close>

lemma card_remove_if:
  assumes "finite E" "x \<in> E"
  shows "int (card {w \<in> E - {x}. P w}) = (if P x then int (card {w \<in> E. P w}) - 1 else int (card {w \<in> E. P w}))"
proof (cases "P x")
  case True
  have "{w \<in> E - {x}. P w} = {w \<in> E. P w} - {x}" by auto
  then show ?thesis using True card_Suc_Diff1 [of "{w \<in> E. P w}" x] assms by simp
next
  case False
  then have "{w \<in> E - {x}. P w} = {w \<in> E. P w}" by auto
  then show ?thesis using False by simp
qed

lemma unlink_rep:
  assumes rep: "gdd_rep ctx E" and w: "(s, e) \<in> E"
  shows "gdd_rep (gddEdgeUnlink s e ctx) (E - {(s, e)})"
proof -
  have fin: "finite E" using rep by (simp add: gdd_rep_def)
  have "gdd_lists (gddEdgeUnlink s e ctx) (E - {(s, e)})"
    using rep by (auto simp: gdd_rep_def gdd_lists_def edges_unlink)
  moreover have "gdd_counts (gddEdgeUnlink s e ctx) (E - {(s, e)})"
    using rep wait_has_verts [OF rep w] card_Suc_Diff1 [OF fin w]
      card_remove_if [OF fin w, of "\<lambda>x. wait_to x = v" for v] card_remove_if [OF fin w, of "\<lambda>x. wait_from x = v" for v]
    by (simp add: gdd_rep_def gdd_counts_def unlink_globals)
  moreover have "gdd_keys (gddEdgeUnlink s e ctx)"
    using rep get_verts_keys [OF unlink_keys] by (simp add: gdd_rep_def gdd_keys_def unlink_globals)
  ultimately show ?thesis using rep by (simp add: gdd_rep_def)
qed

lemma unlinks_rep:
  assumes "gdd_rep ctx E" "Pair s ` set es \<subseteq> E" "distinct es"
  shows "gdd_rep (fold (gddEdgeUnlink s) es ctx) (E - Pair s ` set es)"
  using assms
proof (induction es arbitrary: ctx E)
  case (Cons e es)
  then have "gdd_rep (gddEdgeUnlink s e ctx) (E - {(s, e)})" by (intro unlink_rep) auto
  then have "gdd_rep (fold (gddEdgeUnlink s) es (gddEdgeUnlink s e ctx)) (E - {(s, e)} - Pair s ` set es)"
    using Cons.prems by (intro Cons.IH) auto
  moreover have "E - {(s, e)} - Pair s ` set es = E - Pair s ` set (e # es)" by auto
  ultimately show ?case by simp
qed simp

definition touching :: "DistributedTransactionId \<Rightarrow> DistributedTransactionId \<Rightarrow> wait \<Rightarrow> bool" where
  "touching s v w \<longleftrightarrow> fst w = s \<and> (wait_from w = v \<or> wait_to w = v)"

lemma touching_ex: "(\<exists>w \<in> E. touching s v w) \<longleftrightarrow> (\<exists>e. (s, e) \<in> E \<and> (edge_from e = v \<or> edge_to e = v))"
  by (force simp: touching_def)

lemma unlink_all_rep:
  assumes "gdd_rep ctx E"
  shows "gdd_rep (snd (gddVertUnlinkAll s v ctx)) {w \<in> E. \<not> touching s v w}"
    and "fst (gddVertUnlinkAll s v ctx) \<longleftrightarrow> (\<exists>w \<in> E. touching s v w)"
proof -
  let ?ins = "edges_in ctx s v"
  let ?ctx1 = "fold (gddEdgeUnlink s) ?ins ctx"
  let ?outs = "edges_out ?ctx1 s v"
  have ins: "Pair s ` set ?ins \<subseteq> E" "distinct ?ins" "set ?ins = {e. (s, e) \<in> E \<and> edge_to e = v}"
    using assms by (auto simp: gdd_rep_def gdd_lists_def)
  note r1 = unlinks_rep [OF assms ins(1,2)]
  have outs: "distinct ?outs" "set ?outs = {e. (s, e) \<in> E - Pair s ` set ?ins \<and> edge_from e = v}"
    using r1 by (auto simp: gdd_rep_def gdd_lists_def)
  then have "gdd_rep (fold (gddEdgeUnlink s) ?outs ?ctx1) (E - Pair s ` set ?ins - Pair s ` set ?outs)"
    by (intro unlinks_rep [OF r1]) auto
  moreover have "E - Pair s ` set ?ins - Pair s ` set ?outs = {w \<in> E. \<not> touching s v w}"
    unfolding outs(2) ins(3) by (auto simp: touching_def)
  ultimately show "gdd_rep (snd (gddVertUnlinkAll s v ctx)) {w \<in> E. \<not> touching s v w}"
    by (simp add: gddVertUnlinkAll_def Let_def)
  have "?ins \<noteq> [] \<or> ?outs \<noteq> [] \<longleftrightarrow> set ?ins \<noteq> {} \<or> set ?outs \<noteq> {}" by simp
  also have "\<dots> \<longleftrightarrow> (\<exists>w \<in> E. touching s v w)" unfolding outs(2) ins(3) touching_ex by auto
  finally show "fst (gddVertUnlinkAll s v ctx) \<longleftrightarrow> (\<exists>w \<in> E. touching s v w)"
    by (simp add: gddVertUnlinkAll_def Let_def)
qed

section \<open>Reducing one vert\<close>

text \<open>The rules remove nothing at a vert of a segment.\<close>

definition settled :: "wait set \<Rightarrow> DistributedTransactionId \<Rightarrow> DistributedTransactionId \<Rightarrow> bool" where
  "settled E s v \<longleftrightarrow>
     (\<forall>w \<in> E. touching s v w \<longrightarrow> (\<exists>w' \<in> E. wait_to w' = v) \<and> (\<exists>w' \<in> E. wait_from w' = v)) \<and>
     (\<forall>w \<in> E. fst w = s \<and> wait_to w = v \<and> \<not> edge_solid (snd w) \<longrightarrow> (\<exists>w' \<in> E. fst w' = s \<and> wait_from w' = v))"

lemma settled_irreducible:
  assumes "\<And>s v. \<exists>w \<in> E. touching s v w \<Longrightarrow> settled E s v"
  shows "irreducible E"
  unfolding irreducible_def
proof
  fix w assume w: "w \<in> E"
  then have "settled E (fst w) (wait_from w)" "settled E (fst w) (wait_to w)"
    using assms by (auto simp: touching_def)
  then show "stuck E w" using w by (auto simp: settled_def stuck_def touching_def)
qed

text \<open>What a step of the reduction does to the set of waits: it removes some that are not locked, it is
  dirty when it removes any.\<close>

definition reduces :: "wait set \<Rightarrow> bool \<Rightarrow> wait set \<Rightarrow> bool" where
  "reduces E d E' \<longleftrightarrow> E' \<subseteq> E \<and> locked E \<subseteq> E' \<and> (d \<longleftrightarrow> E' \<noteq> E)"

lemma reduces_refl: "reduces E False E"
  using locked_subset by (auto simp: reduces_def)

lemma reduces_trans: "reduces E d E1 \<Longrightarrow> reduces E1 d' E2 \<Longrightarrow> reduces E (d \<or> d') E2"
  using locked_between [of E E1] by (auto simp: reduces_def)

lemma reduces_dead_vert:
  assumes "(\<forall>w \<in> E. wait_to w \<noteq> v) \<or> (\<forall>w \<in> E. wait_from w \<noteq> v)"
  shows "reduces E (\<exists>w \<in> E. touching s v w) {w \<in> E. \<not> touching s v w}"
proof -
  have "\<not> touching s v w" if "w \<in> locked E" for w
  proof
    assume t: "touching s v w"
    have "stuck (locked E) w" using that irreducible_locked by (auto simp: irreducible_def)
    then show False
      using t that assms locked_subset [of E] by (auto simp: stuck_def touching_def)
  qed
  then show ?thesis using locked_subset [of E] by (auto simp: reduces_def)
qed

lemma reduces_dotted:
  assumes "\<forall>w \<in> E. \<not> (fst w = s \<and> wait_from w = v)"
  shows "reduces E (\<exists>w \<in> E. fst w = s \<and> wait_to w = v \<and> \<not> edge_solid (snd w))
    {w \<in> E. \<not> (fst w = s \<and> wait_to w = v \<and> \<not> edge_solid (snd w))}"
proof -
  have "edge_solid (snd w)" if "w \<in> locked E" "fst w = s" "wait_to w = v" for w
  proof -
    have "stuck (locked E) w" using that irreducible_locked by (auto simp: irreducible_def)
    then show ?thesis using that assms locked_subset [of E] by (auto simp: stuck_def)
  qed
  then show ?thesis using locked_subset [of E] by (auto simp: reduces_def)
qed

lemma card_zero_iff: "finite E \<Longrightarrow> int (card {w \<in> E. P w}) = 0 \<longleftrightarrow> (\<forall>w \<in> E. \<not> P w)"
  by (simp, blast)

lemma global_zero:
  assumes "gdd_rep ctx E" "gddMapGet (globals ctx) v = Some st"
  shows "indeg st = 0 \<longleftrightarrow> (\<forall>w \<in> E. wait_to w \<noteq> v)" "outdeg st = 0 \<longleftrightarrow> (\<forall>w \<in> E. wait_from w \<noteq> v)"
proof -
  have fin: "finite E" using assms by (simp add: gdd_rep_def)
  have "indeg st = global_in ctx v" "outdeg st = global_out ctx v"
    using assms(2) by (simp_all add: global_in_def global_out_def)
  then have "indeg st = int (card {w \<in> E. wait_to w = v})" "outdeg st = int (card {w \<in> E. wait_from w = v})"
    using assms(1) by (simp_all add: gdd_rep_def gdd_counts_def)
  then show "indeg st = 0 \<longleftrightarrow> (\<forall>w \<in> E. wait_to w \<noteq> v)" "outdeg st = 0 \<longleftrightarrow> (\<forall>w \<in> E. wait_from w \<noteq> v)"
    by (simp_all only: card_zero_iff [OF fin])
qed

lemma vert_reduce_spec:
  assumes rep: "gdd_rep ctx E" and v: "gddMapGet (graph_verts ctx s) v \<noteq> None"
  shows "\<exists>E'. gdd_rep (snd (gddVertReduce s v ctx)) E' \<and> reduces E (fst (gddVertReduce s v ctx)) E' \<and>
    (\<not> fst (gddVertReduce s v ctx) \<longrightarrow> settled E s v)"
proof -
  obtain st where st: "gddMapGet (globals ctx) v = Some st"
    using rep v unfolding gdd_rep_def gdd_keys_def by blast
  note z = global_zero [OF rep st]
  have outs: "gddVertGetOutDegree ctx s v = 0 \<longleftrightarrow> (\<forall>w \<in> E. \<not> (fst w = s \<and> wait_from w = v))"
  proof -
    have "gddVertGetOutDegree ctx s v = 0 \<longleftrightarrow> set (edges_out ctx s v) = {}" by (simp add: gddVertGetOutDegree_def)
    also have "\<dots> \<longleftrightarrow> (\<forall>w \<in> E. \<not> (fst w = s \<and> wait_from w = v))"
      using rep by (force simp: gdd_rep_def gdd_lists_def)
    finally show ?thesis .
  qed
  show ?thesis
  proof (cases "indeg st = 0 \<or> outdeg st = 0")
    case True
    then have "gddVertReduce s v ctx = gddVertUnlinkAll s v ctx" using st by (simp add: gddVertReduce_def)
    moreover have "settled E s v" if "\<not> (\<exists>w \<in> E. touching s v w)"
      using that by (auto simp: settled_def touching_def)
    ultimately show ?thesis using unlink_all_rep [OF rep, of s v] reduces_dead_vert [of E v s] True z by auto
  next
    case False
    show ?thesis
    proof (cases "gddVertGetOutDegree ctx s v = 0")
      case True
      let ?ds = "filter (\<lambda>e. \<not> edge_solid e) (edges_in ctx s v)"
      have ds: "distinct ?ds" "set ?ds = {e. (s, e) \<in> E \<and> edge_to e = v \<and> \<not> edge_solid e}"
        using rep by (auto simp: gdd_rep_def gdd_lists_def)
      have r: "gddVertReduce s v ctx = (?ds \<noteq> [], fold (gddEdgeUnlink s) ?ds ctx)"
        using True False st by (simp add: gddVertReduce_def Let_def)
      have "gdd_rep (fold (gddEdgeUnlink s) ?ds ctx) (E - Pair s ` set ?ds)"
        using rep ds by (intro unlinks_rep) auto
      moreover have "E - Pair s ` set ?ds = {w \<in> E. \<not> (fst w = s \<and> wait_to w = v \<and> \<not> edge_solid (snd w))}"
        unfolding ds(2) by auto
      moreover have "?ds \<noteq> [] \<longleftrightarrow> (\<exists>w \<in> E. fst w = s \<and> wait_to w = v \<and> \<not> edge_solid (snd w))"
        unfolding set_empty [symmetric] ds(2) by force
      moreover have "settled E s v" if "\<not> (\<exists>w \<in> E. fst w = s \<and> wait_to w = v \<and> \<not> edge_solid (snd w))"
        using that False z by (auto simp: settled_def)
      ultimately show ?thesis using r reduces_dotted [of E s v] True outs by auto
    next
      case outpos: False
      then have "settled E s v" using False z outs by (auto simp: settled_def)
      then show ?thesis using outpos False st rep reduces_refl by (auto simp: gddVertReduce_def)
    qed
  qed
qed

section \<open>Deleting verts\<close>

lemma option_eqI: "(\<And>v. x = Some v \<longleftrightarrow> y = Some v) \<Longrightarrow> x = y"
  by (cases x; cases y) auto

lemma iter_delete_mset:
  assumes "pos < length m"
  shows "mset (gdd_map_iter_delete m pos) = mset m - {#m ! pos#}"
proof -
  from assms obtain xs l where m: "m = xs @ [l]" by (cases m rule: rev_cases) auto
  show ?thesis
  proof (cases "pos < length xs")
    case True
    then have "gdd_map_iter_delete m pos = xs[pos := l]" by (simp add: gdd_map_iter_delete_def m list_update_append)
    moreover have "xs ! pos \<in># mset xs" using True by simp
    ultimately show ?thesis using True by (simp add: m nth_append mset_update)
  next
    case False
    then have "pos = length xs" using assms m by simp
    then show ?thesis by (simp add: gdd_map_iter_delete_def m)
  qed
qed

lemma iter_delete_spec:
  assumes "pos < length m" "distinct (map fst m)"
  shows "distinct (map fst (gdd_map_iter_delete m pos))"
    and "gddMapGet (gdd_map_iter_delete m pos) k = (if k = fst (m ! pos) then None else gddMapGet m k)"
    and "i < pos \<Longrightarrow> gdd_map_iter_delete m pos ! i = m ! i"
    and "length (gdd_map_iter_delete m pos) = length m - 1"
proof -
  note ms = iter_delete_mset [OF assms(1)]
  have d: "distinct m" using assms(2) distinct_map by blast
  have "mset (gdd_map_iter_delete m pos) = mset (remove1 (m ! pos) m)" using ms by simp
  then have st: "set (gdd_map_iter_delete m pos) = set m - {m ! pos}" 
    using mset_eq_setD set_remove1_eq [OF d] by metis
  have "mset (map fst (gdd_map_iter_delete m pos)) = mset (map fst m) - {#fst (m ! pos)#}"
    using ms assms(1) by (simp add: image_mset_Diff)
  then show dk: "distinct (map fst (gdd_map_iter_delete m pos))"
    using assms(2) mset_eq_imp_distinct_iff [of "map fst (gdd_map_iter_delete m pos)" "remove1 (fst (m ! pos)) (map fst m)"]
    by simp
  show "gddMapGet (gdd_map_iter_delete m pos) k = (if k = fst (m ! pos) then None else gddMapGet m k)"
  proof (cases "k = fst (m ! pos)")
    case True
    have "k \<notin> fst ` set (gdd_map_iter_delete m pos)"
    proof
      assume "k \<in> fst ` set (gdd_map_iter_delete m pos)"
      then obtain x where "x \<in> set (gdd_map_iter_delete m pos)" "fst x = k" by blast
      then have "x \<in> set m" "x \<noteq> m ! pos" "fst x = fst (m ! pos)" using st True by auto
      moreover have "inj_on fst (set m)" "m ! pos \<in> set m" using assms by (simp_all add: distinct_map)
      ultimately show False by (meson inj_onD)
    qed
    then show ?thesis using True by (simp add: gddMapGet_def map_of_eq_None_iff)
  next
    case False
    have "(k, v) \<noteq> m ! pos" for v using False by (metis fst_conv)
    then have "map_of (gdd_map_iter_delete m pos) k = Some v \<longleftrightarrow> map_of m k = Some v" for v
      by (simp add: map_of_eq_Some_iff [OF dk] map_of_eq_Some_iff [OF assms(2)] st)
    then have "map_of (gdd_map_iter_delete m pos) k = map_of m k" by (meson option_eqI)
    then show ?thesis using False by (simp add: gddMapGet_def)
  qed
  show "i < pos \<Longrightarrow> gdd_map_iter_delete m pos ! i = m ! i"
    using assms(1) by (simp add: gdd_map_iter_delete_def nth_butlast)
  show "length (gdd_map_iter_delete m pos) = length m - 1" by (simp add: gdd_map_iter_delete_def)
qed

lemma delete_frame [simp]:
  "topstat (graph_delete s pos ctx) = topstat ctx" "globals (graph_delete s pos ctx) = globals ctx"
  "edges_allocated (graph_delete s pos ctx) = edges_allocated ctx"
  "map fst (graphs (graph_delete s pos ctx)) = map fst (graphs ctx)"
  by (simp_all add: graph_delete_def)

lemma graph_verts_deleted:
  "pos < length (graph_verts ctx s) \<Longrightarrow>
   graph_verts (graph_delete s pos ctx) s' = (if s' = s then gdd_map_iter_delete (graph_verts ctx s) pos else graph_verts ctx s')"
  using graph_verts_found [of ctx s] by (cases "graph_verts ctx s = []") (simp_all add: graph_verts_delete)

lemma delete_rep:
  assumes rep: "gdd_rep ctx E" and pos: "pos < length (graph_verts ctx s)"
    and empty: "edges_in ctx s (fst (graph_verts ctx s ! pos)) = []" "edges_out ctx s (fst (graph_verts ctx s ! pos)) = []"
  shows "gdd_rep (graph_delete s pos ctx) E"
proof -
  have d: "distinct (map fst (graph_verts ctx s'))" for s' using rep by (simp add: gdd_rep_def gdd_keys_def)
  note del = iter_delete_spec [OF pos d]
  have get: "gddMapGet (graph_verts (graph_delete s pos ctx) s') v =
      (if s' = s \<and> v = fst (graph_verts ctx s ! pos) then None else gddMapGet (graph_verts ctx s') v)" for s' v
    using del(2) by (simp add: graph_verts_deleted [OF pos])
  have e: "edges_in (graph_delete s pos ctx) s' v = edges_in ctx s' v" "edges_out (graph_delete s pos ctx) s' v = edges_out ctx s' v" for s' v
    using empty by (auto simp: edges_in_def edges_out_def get)
  have "distinct (map fst (graph_verts (graph_delete s pos ctx) s'))" for s'
    using d del(1) by (simp add: graph_verts_deleted [OF pos])
  moreover have "gddMapGet (graph_verts ctx s') v \<noteq> None" if "gddMapGet (graph_verts (graph_delete s pos ctx) s') v \<noteq> None" for s' v
    using that by (simp add: get split: if_splits)
  ultimately have "gdd_keys (graph_delete s pos ctx)"
    using rep unfolding gdd_rep_def gdd_keys_def delete_frame by blast
  then show ?thesis using rep by (simp add: gdd_rep_def gdd_lists_def gdd_counts_def e global_in_def global_out_def)
qed

section \<open>The reduction\<close>

lemma touched_vert:
  assumes "gdd_rep ctx E" "w \<in> E" "touching s v w"
  shows "v \<in> fst ` set (graph_verts ctx s)"
  using wait_has_verts(1,2) [OF assms(1), of s "snd w"] assms(2,3)
  by (auto simp: touching_def gddMapGet_def map_of_eq_None_iff)

text \<open>What the inner loop over the verts of a segment achieves: nothing is left to reduce there unless
  it is dirty.\<close>

definition reduces_at :: "wait set \<Rightarrow> DistributedTransactionId \<Rightarrow> bool \<Rightarrow> GddCtx \<Rightarrow> bool \<times> GddCtx \<Rightarrow> bool" where
  "reduces_at E s dirty ctx r \<longleftrightarrow> (\<exists>E' d. gdd_rep (snd r) E' \<and> reduces E d E' \<and> (fst r \<longleftrightarrow> dirty \<or> d) \<and>
     map fst (graphs (snd r)) = map fst (graphs ctx) \<and>
     (\<not> fst r \<longrightarrow> (\<forall>w \<in> E. \<forall>v. touching s v w \<longrightarrow> settled E s v)))"

lemma reduces_at_step:
  assumes "reduces E d E1" "map fst (graphs ctx1) = map fst (graphs ctx)" "reduces_at E1 s (dirty \<or> d) ctx1 r"
  shows "reduces_at E s dirty ctx r"
proof -
  obtain E2 d2 where e2: "gdd_rep (snd r) E2" "reduces E1 d2 E2" "fst r \<longleftrightarrow> (dirty \<or> d) \<or> d2"
      "map fst (graphs (snd r)) = map fst (graphs ctx)"
      "\<not> fst r \<longrightarrow> (\<forall>w \<in> E1. \<forall>v. touching s v w \<longrightarrow> settled E1 s v)"
    using assms(2,3) unfolding reduces_at_def by auto
  have "E1 = E" if "\<not> fst r" using that e2(3) assms(1) by (auto simp: reduces_def)
  then show ?thesis
    unfolding reduces_at_def using e2 reduces_trans [OF assms(1) e2(2)] by (intro exI [of _ E2] exI [of _ "d \<or> d2"]) auto
qed

lemma reduce_verts_spec:
  assumes "gdd_rep ctx E" "\<not> dirty \<Longrightarrow> \<forall>i < pos. settled E s (fst (graph_verts ctx s ! i))"
  shows "reduces_at E s dirty ctx (reduce_verts s pos dirty ctx)"
  using assms
proof (induction s pos dirty ctx arbitrary: E rule: reduce_verts.induct)
  case (1 s pos dirty ctx)
  show ?case
  proof (cases "pos < length (graph_verts ctx s)")
    case False
    have "settled E s v" if "\<not> dirty" "w \<in> E" "touching s v w" for w v
    proof -
      from touched_vert [OF 1(3) that(2,3)] obtain i where "i < length (graph_verts ctx s)" "v = fst (graph_verts ctx s ! i)"
        by (auto simp: in_set_conv_nth)
      then show ?thesis using 1(4) [OF that(1)] False by auto
    qed
    then show ?thesis
      using False 1(3) reduces_refl [of E] by (subst reduce_verts.simps) (auto simp: reduces_at_def)
  next
    case pos: True
    define vid where "vid = fst (graph_verts ctx s ! pos)"
    define r where "r = gddVertReduce s vid ctx"
    define dirty' where "dirty' = (if fst r then True else dirty)"
    have "gddMapGet (graph_verts ctx s) vid \<noteq> None"
      using pos by (simp add: gddMapGet_def map_of_eq_None_iff vid_def)
    from vert_reduce_spec [OF 1(3) this] obtain E1 where e1: "gdd_rep (snd r) E1" "reduces E (fst r) E1"
      "\<not> fst r \<longrightarrow> settled E s vid" by (auto simp: r_def)
    have keys: "map fst (graph_verts (snd r) s') = map fst (graph_verts ctx s')" for s' by (simp add: r_def)
    then have len: "length (graph_verts (snd r) s) = length (graph_verts ctx s)" using map_eq_imp_length_eq by blast
    have nth: "fst (graph_verts (snd r) s ! i) = fst (graph_verts ctx s ! i)" if "i < length (graph_verts ctx s)" for i
      using keys [of s] len that by (metis nth_map)
    have gk: "map fst (graphs (snd r)) = map fst (graphs ctx)" by (simp add: r_def reduce_graph_keys)
    have settled: "settled E1 s (fst (graph_verts ctx s ! i))" if "\<not> dirty'" "i \<le> pos" for i
      using that 1(4) e1 by (auto simp: dirty'_def reduces_def vid_def le_less split: if_splits)
    show ?thesis
    proof (cases "gddVertGetInDegree (snd r) s vid = 0 \<and> gddVertGetOutDegree (snd r) s vid = 0")
      case True
      have step: "reduce_verts s pos dirty ctx = reduce_verts s pos dirty' (graph_delete s pos (snd r))"
        using pos True by (subst reduce_verts.simps) (simp add: vid_def r_def dirty'_def Let_def)
      have rep2: "gdd_rep (graph_delete s pos (snd r)) E1"
        using e1(1) pos len nth True by (intro delete_rep) (auto simp: vid_def gddVertGetInDegree_def gddVertGetOutDegree_def)
      have "\<forall>i < pos. settled E1 s (fst (graph_verts (graph_delete s pos (snd r)) s ! i))" if "\<not> dirty'"
        using settled [OF that] pos len nth e1(1)
        by (auto simp: graph_verts_deleted iter_delete_spec(3) gdd_rep_def gdd_keys_def)
      from 1(1) [OF pos vid_def r_def dirty'_def refl True rep2 this]
      have "reduces_at E1 s (dirty \<or> fst r) (graph_delete s pos (snd r)) (reduce_verts s pos dirty ctx)"
        by (cases "fst r") (simp_all add: step dirty'_def)
      then show ?thesis by (rule reduces_at_step [OF e1(2), rotated]) (simp add: gk)
    next
      case False
      have step: "reduce_verts s pos dirty ctx = reduce_verts s (pos + 1) dirty' (snd r)"
        using pos False by (subst reduce_verts.simps) (auto simp: vid_def r_def dirty'_def Let_def)
      have "\<forall>i < pos + 1. settled E1 s (fst (graph_verts (snd r) s ! i))" if "\<not> dirty'"
        using settled [OF that] pos nth by auto
      from 1(2) [OF pos vid_def r_def dirty'_def refl False e1(1) this]
      have "reduces_at E1 s (dirty \<or> fst r) (snd r) (reduce_verts s pos dirty ctx)"
        by (cases "fst r") (simp_all add: step dirty'_def)
      then show ?thesis by (rule reduces_at_step [OF e1(2) gk])
    qed
  qed
qed

lemma pass_fold:
  assumes "gdd_rep ctx E" "\<And>s. \<not> dirty \<Longrightarrow> s \<notin> set ss \<Longrightarrow> \<forall>w \<in> E. \<forall>v. touching s v w \<longrightarrow> settled E s v"
  shows "\<exists>E' d. let r = fold (\<lambda>seg (dirty, ctx). reduce_verts seg 0 dirty ctx) ss (dirty, ctx)
     in gdd_rep (snd r) E' \<and> reduces E d E' \<and> (fst r \<longleftrightarrow> dirty \<or> d) \<and> (\<not> fst r \<longrightarrow> irreducible E')"
  using assms
proof (induction ss arbitrary: dirty ctx E)
  case Nil
  have "irreducible E" if "\<not> dirty"
    using Nil(2) that by (intro settled_irreducible) auto
  then show ?case using Nil(1) reduces_refl [of E] by auto
next
  case (Cons s ss)
  obtain d1 ctx1 where r1: "reduce_verts s 0 dirty ctx = (d1, ctx1)" by fastforce
  obtain E1 d where e1: "gdd_rep ctx1 E1" "reduces E d E1" "d1 \<longleftrightarrow> dirty \<or> d"
      "\<not> d1 \<longrightarrow> (\<forall>w \<in> E. \<forall>v. touching s v w \<longrightarrow> settled E s v)"
    using reduce_verts_spec [OF Cons.prems(1), of dirty 0 s] r1 by (auto simp: reduces_at_def)
  have "\<forall>w \<in> E1. \<forall>v. touching s' v w \<longrightarrow> settled E1 s' v" if "\<not> d1" "s' \<notin> set ss" for s'
    using that e1 Cons.prems(2) [of s'] by (cases "s' = s") (auto simp: reduces_def)
  from Cons.IH [OF e1(1) this] obtain E2 d2 where e2:
    "let r = fold (\<lambda>seg (dirty, ctx). reduce_verts seg 0 dirty ctx) ss (d1, ctx1)
     in gdd_rep (snd r) E2 \<and> reduces E1 d2 E2 \<and> (fst r \<longleftrightarrow> d1 \<or> d2) \<and> (\<not> fst r \<longrightarrow> irreducible E2)" by blast
  then show ?case
    using reduces_trans [OF e1(2), of d2 E2] e1(3) r1 by (intro exI [of _ E2] exI [of _ "d \<or> d2"]) (auto simp: Let_def)
qed

lemma wait_segment: "gdd_rep ctx E \<Longrightarrow> (s, e) \<in> E \<Longrightarrow> s \<in> fst ` set (graphs ctx)"
  using wait_has_verts(1) [of ctx E s e]
  by (cases "gddMapGet (graphs ctx) s") (auto simp: graph_verts_def gddMapGet_def dest: map_of_SomeD intro: rev_image_eqI)

lemma reduce_pass_spec:
  assumes "gdd_rep ctx E"
  shows "\<exists>E'. gdd_rep (snd (reduce_pass ctx)) E' \<and> reduces E (fst (reduce_pass ctx)) E' \<and>
    (\<not> fst (reduce_pass ctx) \<longrightarrow> irreducible E')"
  using pass_fold [OF assms, of False "map fst (graphs ctx)"] wait_segment [OF assms]
  by (force simp: reduce_pass_def Let_def touching_def)

lemma ctx_reduce_spec:
  assumes "gdd_rep ctx E"
  shows "\<exists>ctx'. GddCtxReduce ctx = Some ctx' \<and> gdd_rep ctx' (locked E)"
  using assms
proof (induction "card E" arbitrary: ctx E rule: less_induct)
  case less
  obtain E' where e: "gdd_rep (snd (reduce_pass ctx)) E'" "reduces E (fst (reduce_pass ctx)) E'"
      "\<not> fst (reduce_pass ctx) \<longrightarrow> irreducible E'" using reduce_pass_spec [OF less.prems] by blast
  have l: "locked E' = locked E" using e(2) locked_between by (auto simp: reduces_def)
  show ?case
  proof (cases "fst (reduce_pass ctx)")
    case True
    then have "E' \<subset> E" using e(2) by (auto simp: reduces_def)
    then have "card E' < card E" using less.prems by (intro psubset_card_mono) (auto simp: gdd_rep_def)
    from less.hyps [OF this e(1)] show ?thesis using True l by (subst GddCtxReduce.simps) (simp add: Let_def)
  next
    case False
    then show ?thesis using e l locked_irreducible [of E'] by (subst GddCtxReduce.simps) (simp add: Let_def)
  qed
qed

section \<open>Adding waits\<close>

lemma get_set_unsafe:
  "gddMapGet m key = None \<Longrightarrow> gddMapGet (gddMapSetUnsafe m key p) k = (if k = key then Some p else gddMapGet m k)"
  by (auto simp: gddMapGet_def gddMapSetUnsafe_def map_add_def split: option.splits)

lemma distinct_set_unsafe:
  "gddMapGet m key = None \<Longrightarrow> distinct (map fst m) \<Longrightarrow> distinct (map fst (gddMapSetUnsafe m key p))"
  by (auto simp: gddMapGet_def gddMapSetUnsafe_def map_of_eq_None_iff)

lemma get_graph_spec:
  "graph_verts (gddCtxGetGraph n ctx) s = graph_verts ctx s"
  "gddMapGet (graphs (gddCtxGetGraph n ctx)) (segkey n) \<noteq> None"
  "distinct (map fst (graphs ctx)) \<Longrightarrow> distinct (map fst (graphs (gddCtxGetGraph n ctx)))"
  "globals (gddCtxGetGraph n ctx) = globals ctx" "topstat (gddCtxGetGraph n ctx) = topstat ctx"
  "edges_allocated (gddCtxGetGraph n ctx) = edges_allocated ctx"
  by (auto simp: gddCtxGetGraph_def graph_verts_def get_set_unsafe distinct_set_unsafe gddGraphNew_def split: option.splits)

lemma get_vert_spec:
  "gddMapGet (verts (gddGraphGetVert v g)) u = (if u = v \<and> gddMapGet (verts g) v = None then Some (gddVertNew v) else gddMapGet (verts g) u)"
  "distinct (map fst (verts g)) \<Longrightarrow> distinct (map fst (verts (gddGraphGetVert v g)))"
  by (auto simp: gddGraphGetVert_def get_set_unsafe distinct_set_unsafe split: option.splits)

lemma get_global_spec:
  "gddMapGet (globals (gddCtxGetGlobalStat v ctx)) u =
     (if u = v \<and> gddMapGet (globals ctx) v = None then Some (gddStatInit v) else gddMapGet (globals ctx) u)"
  "graphs (gddCtxGetGlobalStat v ctx) = graphs ctx" "topstat (gddCtxGetGlobalStat v ctx) = topstat ctx"
  "edges_allocated (gddCtxGetGlobalStat v ctx) = edges_allocated ctx"
  by (auto simp: gddCtxGetGlobalStat_def get_set_unsafe split: option.splits)

text \<open>The context with the graph, the verts and their accounting, before the edge is linked.\<close>

definition prepared :: "int \<Rightarrow> DistributedTransactionId \<Rightarrow> DistributedTransactionId \<Rightarrow> bool \<Rightarrow> GddCtx \<Rightarrow> GddCtx" where
  "prepared n a b solid ctx = gddCtxGetGlobalStat b (gddCtxGetGlobalStat a (snd (gddGraphMakeEdge (segkey n) a b solid (gddCtxGetGraph n ctx))))"

definition new_edge :: "DistributedTransactionId \<Rightarrow> DistributedTransactionId \<Rightarrow> bool \<Rightarrow> GddCtx \<Rightarrow> GddEdge" where
  "new_edge a b solid ctx = \<lparr>edge_addr = edges_allocated ctx, edge_solid = solid, edge_from = a, edge_to = b\<rparr>"

lemma add_edge_eq: "GddCtxAddEdge n a b solid ctx = gddEdgeLink (segkey n) (new_edge a b solid ctx) (prepared n a b solid ctx)"
  by (simp add: GddCtxAddEdge_def prepared_def new_edge_def gddGraphMakeEdge_def gddEdgeNew_def get_graph_spec Let_def)

lemma make_edge_verts:
  assumes "gddMapGet (graphs ctx) s = Some g"
  shows "graph_verts (snd (gddGraphMakeEdge s a b solid ctx)) s' =
    (if s' = s then verts (gddGraphGetVert b (gddGraphGetVert a g)) else graph_verts ctx s')"
  using assms by (simp add: graph_verts_def gddGraphMakeEdge_def gddEdgeNew_def gddMapGet_def map_of_adjust)

lemma prepared_graph:
  "\<exists>g. verts g = graph_verts ctx (segkey n) \<and>
    (\<forall>s. graph_verts (prepared n a b solid ctx) s =
      (if s = segkey n then verts (gddGraphGetVert b (gddGraphGetVert a g)) else graph_verts ctx s))"
proof -
  obtain g where g: "gddMapGet (graphs (gddCtxGetGraph n ctx)) (segkey n) = Some g" using get_graph_spec(2) by blast
  then have "verts g = graph_verts ctx (segkey n)" using get_graph_spec(1) [of n ctx "segkey n"] by (simp add: graph_verts_def)
  moreover have "graph_verts (prepared n a b solid ctx) s = graph_verts (snd (gddGraphMakeEdge (segkey n) a b solid (gddCtxGetGraph n ctx))) s" for s
    by (simp add: graph_verts_def prepared_def get_global_spec)
  ultimately show ?thesis using make_edge_verts [OF g] get_graph_spec(1) by auto
qed

lemma prepared_verts:
  "gddMapGet (graph_verts (prepared n a b solid ctx) s) v =
     (if s = segkey n \<and> (v = a \<or> v = b) \<and> gddMapGet (graph_verts ctx s) v = None then Some (gddVertNew v)
      else gddMapGet (graph_verts ctx s) v)"
proof -
  obtain g where "verts g = graph_verts ctx (segkey n)"
    "\<And>s. graph_verts (prepared n a b solid ctx) s =
      (if s = segkey n then verts (gddGraphGetVert b (gddGraphGetVert a g)) else graph_verts ctx s)"
    using prepared_graph [of ctx n a b solid] by blast
  then show ?thesis by (auto simp: get_vert_spec)
qed

lemma prepared_rep:
  assumes rep: "gdd_rep ctx E"
  shows "gdd_rep (prepared n a b solid ctx) E" "edges_allocated (prepared n a b solid ctx) = edges_allocated ctx + 1"
proof -
  let ?c = "prepared n a b solid ctx"
  have e: "edges_in ?c s v = edges_in ctx s v" "edges_out ?c s v = edges_out ctx s v" for s v
    by (auto simp: edges_in_def edges_out_def prepared_verts gddVertNew_def split: option.splits)
  have top: "topstat ?c = topstat ctx"
    by (simp add: prepared_def get_global_spec gddGraphMakeEdge_def gddEdgeNew_def get_graph_spec)
  have glob: "gddMapGet (globals ?c) v = (if (v = a \<or> v = b) \<and> gddMapGet (globals ctx) v = None then Some (gddStatInit v)
      else gddMapGet (globals ctx) v)" for v
    by (auto simp: prepared_def get_global_spec gddGraphMakeEdge_def gddEdgeNew_def get_graph_spec)
  have cnt: "global_in ?c v = global_in ctx v" "global_out ?c v = global_out ctx v" for v
    by (auto simp: global_in_def global_out_def glob gddStatInit_def split: option.splits)
  show al: "edges_allocated ?c = edges_allocated ctx + 1"
    by (simp add: prepared_def get_global_spec gddGraphMakeEdge_def gddEdgeNew_def get_graph_spec)
  have dg: "distinct (map fst (graphs ?c))"
    using rep get_graph_spec(3) [of ctx n]
    by (simp add: prepared_def get_global_spec gddGraphMakeEdge_def gddEdgeNew_def gdd_rep_def gdd_keys_def)
  have dv: "distinct (map fst (graph_verts ?c s))" for s
  proof -
    have "distinct (map fst (graph_verts ctx s'))" for s' using rep by (simp add: gdd_rep_def gdd_keys_def)
    moreover obtain g where "verts g = graph_verts ctx (segkey n)"
      "\<And>s. graph_verts ?c s = (if s = segkey n then verts (gddGraphGetVert b (gddGraphGetVert a g)) else graph_verts ctx s)"
      using prepared_graph [of ctx n a b solid] by blast
    ultimately show ?thesis by (simp add: get_vert_spec(2))
  qed
  have "gddMapGet (globals ?c) v \<noteq> None" if "gddMapGet (graph_verts ?c s) v \<noteq> None" for s v
    using that rep unfolding gdd_rep_def gdd_keys_def prepared_verts glob by (metis option.distinct(1))
  then have "gdd_keys ?c" using dg dv unfolding gdd_keys_def by blast
  then show "gdd_rep ?c E" using rep by (auto simp: gdd_rep_def gdd_lists_def gdd_counts_def e top cnt al less_SucI)
qed

lemma link_edges:
  assumes "gddMapGet (graph_verts ctx s) (edge_from e) \<noteq> None" "gddMapGet (graph_verts ctx s) (edge_to e) \<noteq> None"
  shows "edges_in (gddEdgeLink s e ctx) s' v = (if s' = s \<and> v = edge_to e then edges_in ctx s' v @ [e] else edges_in ctx s' v)"
    and "edges_out (gddEdgeLink s e ctx) s' v = (if s' = s \<and> v = edge_from e then edges_out ctx s' v @ [e] else edges_out ctx s' v)"
proof -
  obtain x y where xy: "gddMapGet (graph_verts ctx s) (edge_from e) = Some x" "gddMapGet (graph_verts ctx s) (edge_to e) = Some y"
    using assms by blast
  show "edges_in (gddEdgeLink s e ctx) s' v = (if s' = s \<and> v = edge_to e then edges_in ctx s' v @ [e] else edges_in ctx s' v)"
    using xy by (simp add: gddEdgeLink_def Let_def edges_vert_adjust) (auto simp: edges_in_def graph_verts_adjust gddMapGet_def map_of_adjust)
  show "edges_out (gddEdgeLink s e ctx) s' v = (if s' = s \<and> v = edge_from e then edges_out ctx s' v @ [e] else edges_out ctx s' v)"
    using xy by (simp add: gddEdgeLink_def Let_def edges_vert_adjust) (auto simp: edges_out_def graph_verts_adjust gddMapGet_def map_of_adjust)
qed

lemma link_globals:
  assumes "gddMapGet (globals ctx) (edge_from e) \<noteq> None" "gddMapGet (globals ctx) (edge_to e) \<noteq> None"
  shows "global_in (gddEdgeLink s e ctx) v = (if v = edge_to e then global_in ctx v + 1 else global_in ctx v)"
    and "global_out (gddEdgeLink s e ctx) v = (if v = edge_from e then global_out ctx v + 1 else global_out ctx v)"
    and "gddMapGet (globals (gddEdgeLink s e ctx)) v = None \<longleftrightarrow> gddMapGet (globals ctx) v = None"
  using assms
  by (auto simp: gddEdgeLink_def global_in_def global_out_def get_global_adjust add_indeg_def add_outdeg_def Let_def)

lemma link_frame [simp]:
  "edges_allocated (gddEdgeLink s e ctx) = edges_allocated ctx" "map fst (graphs (gddEdgeLink s e ctx)) = map fst (graphs ctx)"
  "indeg (topstat (gddEdgeLink s e ctx)) = indeg (topstat ctx) + 1" "outdeg (topstat (gddEdgeLink s e ctx)) = outdeg (topstat ctx) + 1"
  "map fst (graph_verts (gddEdgeLink s e ctx) s') = map fst (graph_verts ctx s')"
  by (simp_all add: gddEdgeLink_def add_indeg_def add_outdeg_def graph_verts_adjust Let_def)

lemma card_insert_if:
  assumes "finite E" "x \<notin> E"
  shows "int (card {w \<in> insert x E. P w}) = (if P x then int (card {w \<in> E. P w}) + 1 else int (card {w \<in> E. P w}))"
proof (cases "P x")
  case True
  then have "{w \<in> insert x E. P w} = insert x {w \<in> E. P w}" by auto
  then show ?thesis using True assms by simp
next
  case False
  then have "{w \<in> insert x E. P w} = {w \<in> E. P w}" by auto
  then show ?thesis using False by simp
qed

lemma link_rep:
  assumes r: "gdd_rep ctx E" and v: "gddMapGet (graph_verts ctx s) (edge_from e) \<noteq> None" "gddMapGet (graph_verts ctx s) (edge_to e) \<noteq> None"
    and fresh: "\<And>s. (s, e) \<notin> E" and addr: "edge_addr e < edges_allocated ctx"
  shows "gdd_rep (gddEdgeLink s e ctx) (insert (s, e) E)"
proof -
  have fin: "finite E" using r by (simp add: gdd_rep_def)
  have g: "gddMapGet (globals ctx) (edge_from e) \<noteq> None" "gddMapGet (globals ctx) (edge_to e) \<noteq> None"
    using r v unfolding gdd_rep_def gdd_keys_def by blast+
  have "gdd_lists (gddEdgeLink s e ctx) (insert (s, e) E)"
    using r fresh by (auto simp: gdd_rep_def gdd_lists_def link_edges [OF v])
  moreover have "gdd_counts (gddEdgeLink s e ctx) (insert (s, e) E)"
    using r fresh fin card_insert_if [OF fin fresh [of s], of "\<lambda>x. wait_to x = u" for u]
      card_insert_if [OF fin fresh [of s], of "\<lambda>x. wait_from x = u" for u]
    by (simp add: gdd_rep_def gdd_counts_def link_globals [OF g])
  moreover have "gdd_keys (gddEdgeLink s e ctx)"
    using r get_verts_keys [OF link_frame(5)] by (simp add: gdd_rep_def gdd_keys_def link_globals [OF g])
  ultimately show ?thesis using r addr by (simp add: gdd_rep_def)
qed

lemma add_edge_rep:
  assumes rep: "gdd_rep ctx E"
  shows "gdd_rep (GddCtxAddEdge n a b solid ctx) (insert (segkey n, new_edge a b solid ctx) E)"
proof -
  have "(s, new_edge a b solid ctx) \<notin> E" for s using rep by (auto simp: gdd_rep_def new_edge_def)
  then show ?thesis
    using prepared_rep [OF rep, of n a b solid]
    by (auto simp: add_edge_eq intro!: link_rep simp: prepared_verts) (simp_all add: new_edge_def)
qed

section \<open>Removing a transaction\<close>

definition waiters :: "wait set \<Rightarrow> DistributedTransactionId set" where
  "waiters E = wait_from ` E \<union> wait_to ` E"

lemma waiters_iff: "v \<in> waiters E \<longleftrightarrow> (\<exists>s e. (s, e) \<in> E \<and> (edge_from e = v \<or> edge_to e = v))"
  by (force simp: waiters_def)

definition without :: "DistributedTransactionId set \<Rightarrow> wait set \<Rightarrow> wait set" where
  "without V E = {w \<in> E. wait_from w \<notin> V \<and> wait_to w \<notin> V}"

lemma unlink_all_keys:
  "map fst (graph_verts (snd (gddVertUnlinkAll s v ctx)) s') = map fst (graph_verts ctx s')"
  "map fst (graphs (snd (gddVertUnlinkAll s v ctx))) = map fst (graphs ctx)"
  by (simp_all add: gddVertUnlinkAll_def Let_def)

lemma graph_remove_rep:
  assumes rep: "gdd_rep ctx E"
  shows "gdd_rep (gddGraphRemoveVid v s ctx) {w \<in> E. \<not> touching s v w}"
    and "map fst (graphs (gddGraphRemoveVid v s ctx)) = map fst (graphs ctx)"
proof -
  let ?find = "find (\<lambda>i. fst (graph_verts ctx s ! i) = v) [0..<length (graph_verts ctx s)]"
  have "gdd_rep (gddGraphRemoveVid v s ctx) {w \<in> E. \<not> touching s v w} \<and>
      map fst (graphs (gddGraphRemoveVid v s ctx)) = map fst (graphs ctx)"
  proof (cases ?find)
    case None
    then have "v \<notin> fst ` set (graph_verts ctx s)" by (fastforce simp: find_None_iff in_set_conv_nth)
    then have "{w \<in> E. \<not> touching s v w} = E" using touched_vert [OF rep] by blast
    moreover have "gddGraphRemoveVid v s ctx = ctx" by (simp only: gddGraphRemoveVid_def None option.case)
    ultimately show ?thesis using rep by simp
  next
    case (Some pos)
    then have pos: "pos < length (graph_verts ctx s)" "fst (graph_verts ctx s ! pos) = v"
      by (auto simp: find_Some_iff)
    let ?ctx1 = "snd (gddVertUnlinkAll s v ctx)"
    note r1 = unlink_all_rep(1) [OF rep, of s v]
    have len: "length (graph_verts ?ctx1 s) = length (graph_verts ctx s)"
      using unlink_all_keys(1) map_eq_imp_length_eq by blast
    have nth: "fst (graph_verts ?ctx1 s ! pos) = v"
      using unlink_all_keys(1) [of s v ctx s] pos len by (metis nth_map)
    have "set (edges_in ?ctx1 s v) = {}" "set (edges_out ?ctx1 s v) = {}"
      using r1 by (auto simp: gdd_rep_def gdd_lists_def touching_def)
    then have "gdd_rep (graph_delete s pos ?ctx1) {w \<in> E. \<not> touching s v w}"
      using pos len nth by (intro delete_rep [OF r1]) auto
    moreover have "gddGraphRemoveVid v s ctx = graph_delete s pos ?ctx1"
      by (simp only: gddGraphRemoveVid_def Some option.case)
    ultimately show ?thesis by (simp add: unlink_all_keys)
  qed
  then show "gdd_rep (gddGraphRemoveVid v s ctx) {w \<in> E. \<not> touching s v w}"
    "map fst (graphs (gddGraphRemoveVid v s ctx)) = map fst (graphs ctx)" by blast+
qed

lemma removes_rep:
  "gdd_rep ctx E \<Longrightarrow> gdd_rep (fold (gddGraphRemoveVid v) ss ctx) {w \<in> E. \<forall>s \<in> set ss. \<not> touching s v w}"
proof (induction ss arbitrary: ctx E)
  case (Cons s ss)
  have "{w \<in> {w \<in> E. \<not> touching s v w}. \<forall>s \<in> set ss. \<not> touching s v w} = {w \<in> E. \<forall>s \<in> set (s # ss). \<not> touching s v w}" by auto
  then show ?case using Cons.IH [OF graph_remove_rep(1) [OF Cons.prems, of v s]] by simp
qed simp

lemma remove_vid_rep:
  assumes "gdd_rep ctx E"
  shows "gdd_rep (gddCtxRemoveVid v ctx) (without {v} E)"
proof -
  have "{w \<in> E. \<forall>s \<in> set (map fst (graphs ctx)). \<not> touching s v w} = without {v} E"
    using wait_segment [OF assms] by (force simp: touching_def without_def)
  then show ?thesis using removes_rep [OF assms, of v "map fst (graphs ctx)"] by (simp add: gddCtxRemoveVid_def)
qed

section \<open>The youngest transaction\<close>

lemma fold_max_spec:
  fixes m :: "'k :: linorder"
  assumes "r = fold (\<lambda>(k, x) m. if P x then max m k else m) xs m"
  shows "m \<le> r" "(k, x) \<in> set xs \<Longrightarrow> P x \<Longrightarrow> k \<le> r" "r = m \<or> (\<exists>x. (r, x) \<in> set xs \<and> P x)"
proof -
  have "m \<le> r \<and> (\<forall>k x. (k, x) \<in> set xs \<longrightarrow> P x \<longrightarrow> k \<le> r) \<and> (r = m \<or> (\<exists>x. (r, x) \<in> set xs \<and> P x))"
    using assms
  proof (induction xs arbitrary: m)
    case (Cons y ys)
    show ?case
    proof (cases "P (snd y)")
      case True
      then show ?thesis
        using Cons.IH [of "max m (fst y)"] Cons.prems by (cases y) (auto simp: max_def split: if_splits)
    next
      case False
      then show ?thesis using Cons.IH [of m] Cons.prems by (cases y) auto
    qed
  qed simp
  then show "m \<le> r" "(k, x) \<in> set xs \<Longrightarrow> P x \<Longrightarrow> k \<le> r" "r = m \<or> (\<exists>x. (r, x) \<in> set xs \<and> P x)" by blast+
qed

definition max_vid :: "GddCtx \<Rightarrow> DistributedTransactionId" where
  "max_vid ctx = fold (\<lambda>(seg, graph). fold (\<lambda>(vid, v) maxvid. if edgesIn v \<noteq> [] \<or> edgesOut v \<noteq> [] then max maxvid vid else maxvid)
       (verts graph)) (graphs ctx) 0"

lemma max_vid_flat:
  "max_vid ctx = fold (\<lambda>(vid, v) m. if edgesIn v \<noteq> [] \<or> edgesOut v \<noteq> [] then max m vid else m)
     (concat (map (verts \<circ> snd) (graphs ctx))) 0"
proof -
  have "fold (\<lambda>(seg, graph). fold f (verts graph)) gs m = fold f (concat (map (verts \<circ> snd) gs)) m"
    for f :: "DistributedTransactionId \<times> GddVert \<Rightarrow> 'a \<Rightarrow> 'a" and gs m
    by (induction gs arbitrary: m) (auto simp: case_prod_beta)
  then show ?thesis by (simp add: max_vid_def)
qed

lemma linked_vert_iff:
  assumes "gdd_rep ctx E"
  shows "(\<exists>vt. (v, vt) \<in> set (concat (map (verts \<circ> snd) (graphs ctx))) \<and> (edgesIn vt \<noteq> [] \<or> edgesOut vt \<noteq> [])) \<longleftrightarrow> v \<in> waiters E"
proof -
  have get: "(s, g) \<in> set (graphs ctx) \<and> (v, vt) \<in> set (verts g) \<longleftrightarrow>
      gddMapGet (graphs ctx) s = Some g \<and> gddMapGet (graph_verts ctx s) v = Some vt" for s g vt
  proof -
    have d: "distinct (map fst (graphs ctx))" "distinct (map fst (graph_verts ctx s))"
      using assms by (auto simp: gdd_rep_def gdd_keys_def)
    have 1: "(s, g) \<in> set (graphs ctx) \<longleftrightarrow> gddMapGet (graphs ctx) s = Some g"
      by (simp only: gddMapGet_def map_of_eq_Some_iff [OF d(1)])
    have 2: "(v, vt) \<in> set (graph_verts ctx s) \<longleftrightarrow> gddMapGet (graph_verts ctx s) v = Some vt"
      by (simp only: gddMapGet_def map_of_eq_Some_iff [OF d(2)])
    show ?thesis
    proof (cases "gddMapGet (graphs ctx) s = Some g")
      case True
      then have "graph_verts ctx s = verts g" by (simp add: graph_verts_def)
      then show ?thesis using 1 2 by simp
    qed (simp add: 1)
  qed
  have ex: "(\<exists>vt. (v, vt) \<in> set (concat (map (verts \<circ> snd) (graphs ctx))) \<and> (edgesIn vt \<noteq> [] \<or> edgesOut vt \<noteq> [])) \<longleftrightarrow>
      (\<exists>s g vt. ((s, g) \<in> set (graphs ctx) \<and> (v, vt) \<in> set (verts g)) \<and> (edgesIn vt \<noteq> [] \<or> edgesOut vt \<noteq> []))"
  proof -
    have "x \<in> set (concat (map (verts \<circ> snd) (graphs ctx))) \<longleftrightarrow> (\<exists>s g. (s, g) \<in> set (graphs ctx) \<and> x \<in> set (verts g))" for x
      by force
    then show ?thesis by blast
  qed
  also have "\<dots> \<longleftrightarrow> (\<exists>s. edges_in ctx s v \<noteq> [] \<or> edges_out ctx s v \<noteq> [])"
  proof -
    have "gddMapGet (graphs ctx) s \<noteq> None" if "gddMapGet (graph_verts ctx s) v = Some vt" for s vt
      using that by (auto simp: graph_verts_def gddMapGet_def split: option.splits)
    moreover have "edges_in ctx s v \<noteq> [] \<or> edges_out ctx s v \<noteq> [] \<longleftrightarrow>
        (\<exists>vt. gddMapGet (graph_verts ctx s) v = Some vt \<and> (edgesIn vt \<noteq> [] \<or> edgesOut vt \<noteq> []))" for s
      by (cases "gddMapGet (graph_verts ctx s) v") (simp_all add: edges_in_def edges_out_def)
    ultimately show ?thesis unfolding get by blast
  qed
  also have "\<dots> \<longleftrightarrow> (\<exists>s. set (edges_in ctx s v) \<noteq> {} \<or> set (edges_out ctx s v) \<noteq> {})" by simp
  also have "\<dots> \<longleftrightarrow> v \<in> waiters E"
  proof -
    have l: "set (edges_in ctx s v) = {e. (s, e) \<in> E \<and> edge_to e = v}" "set (edges_out ctx s v) = {e. (s, e) \<in> E \<and> edge_from e = v}" for s
      using assms by (simp_all add: gdd_rep_def gdd_lists_def)
    show ?thesis unfolding l waiters_iff by blast
  qed
  finally show ?thesis .
qed

lemma max_vid_Max:
  assumes "gdd_rep ctx E" "E \<noteq> {}"
  shows "max_vid ctx = Max (waiters E)"
proof -
  let ?xs = "concat (map (verts \<circ> snd) (graphs ctx))"
  note m = fold_max_spec [where P = "\<lambda>v. edgesIn v \<noteq> [] \<or> edgesOut v \<noteq> []", OF max_vid_flat [of ctx]]
  have up: "v \<le> max_vid ctx" if "v \<in> waiters E" for v
    using m(2) [of v] linked_vert_iff [OF assms(1), of v] that by blast
  obtain v where v: "v \<in> waiters E" using assms(2) by (auto simp: waiters_def)
  have "max_vid ctx \<in> waiters E"
  proof (cases "max_vid ctx = 0")
    case True
    then show ?thesis using up [OF v] v by simp
  next
    case False
    then show ?thesis using m(3) linked_vert_iff [OF assms(1), of "max_vid ctx"] by blast
  qed
  moreover have "finite (waiters E)" using assms(1) by (simp add: gdd_rep_def waiters_def)
  ultimately show ?thesis using up by (intro Max_eqI [symmetric]) auto
qed

end
