(* ===== verification/DeadlockVictims.thy ===== *)
theory DeadlockVictims
  imports GlobalDeadlockProps
begin

text \<open>From the waits collected on the segments to the backends cancelled: a round of the detector,
  \<^verbatim>\<open>src/backend/utils/gdd/gddbackend.c\<close>, with the lookups of \<^verbatim>\<open>procarray.c\<close> it makes. The rows of
  \<^verbatim>\<open>gp_dist_wait_status()\<close> and the array of processes are arguments; the data attached to verts and
  edges is only printed. A round that never ends has the value \<open>None\<close>.\<close>

section \<open>A round of the detector\<close>

type_synonym collected_wait = "int \<times> DistributedTransactionId \<times> DistributedTransactionId \<times> bool"

record ProcEntry =
  proc_gxid :: DistributedTransactionId
  proc_pid :: int

definition ListAllGxid :: "ProcEntry list \<Rightarrow> DistributedTransactionId list" where
  "ListAllGxid procs = filter (\<lambda>gxid. gxid \<noteq> InvalidDistributedTransactionId) (map proc_gxid procs)"

definition GetPidByGxid :: "ProcEntry list \<Rightarrow> DistributedTransactionId \<Rightarrow> int" where
  "GetPidByGxid procs gxid = (case find (\<lambda>p. proc_gxid p = gxid) procs of None \<Rightarrow> 0 | Some p \<Rightarrow> proc_pid p)"

definition IsValidGxid :: "DistributedTransactionId list \<Rightarrow> DistributedTransactionId \<Rightarrow> bool" where
  "IsValidGxid gxids check_gxid = list_ex (\<lambda>gxid. gxid = check_gxid) gxids"

definition buildWaitGraph :: "DistributedTransactionId list \<Rightarrow> collected_wait list \<Rightarrow> GddCtx \<Rightarrow> GddCtx" where
  "buildWaitGraph gxids rows ctx =
     fold (\<lambda>(segid, waiter_xid, holder_xid, solidedge) ctx.
       if \<not> IsValidGxid gxids waiter_xid \<or> \<not> IsValidGxid gxids holder_xid then ctx
       else GddCtxAddEdge segid waiter_xid holder_xid solidedge ctx) rows ctx"

text \<open>The result is the list of the processes that are sent a cancel request; the processes are looked up
  after the graph has been built.\<close>

definition breakDeadLock :: "ProcEntry list \<Rightarrow> GddCtx \<Rightarrow> int list option" where
  "breakDeadLock procs ctx = map_option (\<lambda>(xids, ctx). map (GetPidByGxid procs) xids) (GddCtxBreakDeadLock ctx)"

definition doDeadLockCheck :: "ProcEntry list \<Rightarrow> ProcEntry list \<Rightarrow> collected_wait list \<Rightarrow> int list option" where
  "doDeadLockCheck procs procs_later rows =
     (case GddCtxReduce (buildWaitGraph (ListAllGxid procs) rows GddCtxNew) of
        None \<Rightarrow> None
      | Some ctx \<Rightarrow> if \<not> GddCtxEmpty ctx then breakDeadLock procs_later ctx else Some [])"

section \<open>The context of a list of waits\<close>

definition add_wait :: "collected_wait \<Rightarrow> GddCtx \<Rightarrow> GddCtx" where
  "add_wait = (\<lambda>(segid, src, dst, solid). GddCtxAddEdge segid src dst solid)"

definition wait_graph :: "collected_wait list \<Rightarrow> GddCtx" where
  "wait_graph ws = fold add_wait ws GddCtxNew"

text \<open>The waits as a set; the number of a wait in the list is the address of its edge.\<close>

definition numbered :: "nat \<Rightarrow> collected_wait \<Rightarrow> wait" where
  "numbered i = (\<lambda>(segid, src, dst, solid).
     (segkey segid, \<lparr>edge_addr = i, edge_solid = solid, edge_from = src, edge_to = dst\<rparr>))"

definition waits_of :: "collected_wait list \<Rightarrow> wait set" where
  "waits_of ws = (\<lambda>i. numbered i (ws ! i)) ` {..<length ws}"

lemma new_rep: "gdd_rep GddCtxNew {}"
  by (simp add: gdd_rep_def gdd_lists_def gdd_counts_def gdd_keys_def GddCtxNew_def gddStatInit_def edges_in_def edges_out_def
      graph_verts_def gddMapGet_def global_in_def global_out_def)

lemma add_edge_allocated [simp]: "edges_allocated (GddCtxAddEdge n a b solid ctx) = edges_allocated ctx + 1"
  by (simp add: add_edge_eq prepared_def get_global_spec gddGraphMakeEdge_def gddEdgeNew_def get_graph_spec)

lemma waits_of_snoc: "waits_of (ws @ [w]) = insert (numbered (length ws) w) (waits_of ws)"
  by (auto simp: waits_of_def nth_append lessThan_Suc image_iff)

lemma wait_graph_rep: "gdd_rep (wait_graph ws) (waits_of ws) \<and> edges_allocated (wait_graph ws) = length ws"
proof (induction ws rule: rev_induct)
  case Nil
  then show ?case using new_rep by (simp add: wait_graph_def waits_of_def GddCtxNew_def)
next
  case (snoc w ws)
  obtain n a b solid where w: "w = (n, a, b, solid)" by (cases w)
  have "wait_graph (ws @ [w]) = GddCtxAddEdge n a b solid (wait_graph ws)" by (simp add: wait_graph_def add_wait_def w)
  moreover have "(segkey n, new_edge a b solid (wait_graph ws)) = numbered (length ws) w"
    using snoc by (simp add: numbered_def new_edge_def w)
  ultimately show ?case using add_edge_rep [of "wait_graph ws" "waits_of ws" n a b solid] snoc by (simp add: waits_of_snoc)
qed

section \<open>Cycles\<close>

definition waits_for :: "wait set \<Rightarrow> (DistributedTransactionId \<times> DistributedTransactionId) set" where
  "waits_for E = (\<lambda>w. (wait_from w, wait_to w)) ` E"

text \<open>Without a cycle nothing is locked.\<close>

lemma acyclic_not_locked:
  assumes "finite E" "acyclic (waits_for E)"
  shows "locked E = {}"
proof (rule ccontr)
  let ?L = "locked E"
  assume "?L \<noteq> {}"
  moreover have "finite (waits_for ?L)" using finite_subset [OF locked_subset assms(1)] by (simp add: waits_for_def)
  moreover have "waits_for ?L \<subseteq> waits_for E" unfolding waits_for_def by (rule image_mono [OF locked_subset])
  then have "acyclic (waits_for ?L)" by (rule acyclic_subset [OF assms(2)])
  ultimately have wf: "wf ((waits_for ?L)\<inverse>)" by (simp add: finite_acyclic_wf_converse)
  obtain w where w: "w \<in> ?L" using \<open>?L \<noteq> {}\<close> by blast
  obtain z where z: "z \<in> wait_to ` ?L" "\<And>y. (y, z) \<in> (waits_for ?L)\<inverse> \<Longrightarrow> y \<notin> wait_to ` ?L"
    using wfE_min [OF wf, of "wait_to w" "wait_to ` ?L"] w by blast
  obtain w1 where w1: "w1 \<in> ?L" "wait_to w1 = z" using z(1) by blast
  then obtain w2 where "w2 \<in> ?L" "wait_from w2 = z"
    using irreducible_locked [of E] by (auto simp: irreducible_def stuck_def)
  then show False using z(2) [of "wait_to w2"] by (force simp: waits_for_def)
qed

text \<open>With solid edges only, a cycle is locked.\<close>

lemma solid_cycle_locked:
  assumes solid: "\<forall>w \<in> E. edge_solid (snd w)" and cycle: "\<not> acyclic (waits_for E)"
  shows "locked E \<noteq> {}"
proof -
  let ?R = "waits_for E"
  define S where "S = {w \<in> E. (wait_to w, wait_from w) \<in> ?R\<^sup>*}"
  have edge: "(wait_from w, wait_to w) \<in> ?R" if "w \<in> E" for w using that by (auto simp: waits_for_def)
  have "stuck S w" if "w \<in> S" for w
  proof -
    have w: "w \<in> E" "(wait_to w, wait_from w) \<in> ?R\<^sup>*" using that by (auto simp: S_def)
    have out: "\<exists>w' \<in> S. wait_from w' = wait_to w"
      using w(2)
    proof (cases rule: converse_rtranclE)
      case base
      then show ?thesis using that by auto
    next
      case (step y)
      then obtain w' where w': "w' \<in> E" "wait_from w' = wait_to w" "wait_to w' = y" by (auto simp: waits_for_def)
      moreover have "(y, wait_to w) \<in> ?R\<^sup>*" using step(2) edge [OF w(1)] by simp
      ultimately have "w' \<in> S" by (simp add: S_def)
      then show ?thesis using w' by blast
    qed
    have "\<exists>w' \<in> S. wait_to w' = wait_from w"
      using w(2)
    proof (cases rule: rtranclE)
      case base
      then show ?thesis using that by auto
    next
      case (step y)
      then obtain w' where w': "w' \<in> E" "wait_from w' = y" "wait_to w' = wait_from w" by (auto simp: waits_for_def)
      moreover have "(wait_from w, y) \<in> ?R\<^sup>*" using step(1) edge [OF w(1)] by (meson converse_rtrancl_into_rtrancl)
      ultimately have "w' \<in> S" by (simp add: S_def)
      then show ?thesis using w' by blast
    qed
    then show ?thesis using out solid w(1) by (simp add: stuck_def)
  qed
  then have "S \<subseteq> locked E" by (intro locked_greatest) (auto simp: S_def irreducible_def)
  moreover obtain x where "(x, x) \<in> ?R\<^sup>+" using cycle by (auto simp: acyclic_def)
  then obtain y where "(x, y) \<in> ?R" "(y, x) \<in> ?R\<^sup>*" by (meson tranclD)
  then obtain w where "w \<in> E" "(wait_to w, wait_from w) \<in> ?R\<^sup>*" unfolding waits_for_def by blast
  then have "S \<noteq> {}" unfolding S_def by blast
  ultimately show ?thesis by auto
qed

section \<open>Breaking deadlocks\<close>

lemma empty_iff: "gdd_rep ctx E \<Longrightarrow> GddCtxEmpty ctx \<longleftrightarrow> E = {}"
  by (auto simp: GddCtxEmpty_def gdd_rep_def gdd_counts_def)

lemma int_vid_small: "v < 2 ^ 31 \<Longrightarrow> scast (ucast (v :: DistributedTransactionId) :: uint32) = v"
proof -
  assume "v < 2 ^ 31"
  then have "uint v < 2 ^ 31" by (simp add: word_less_def)
  moreover have "- (2 ^ 31) \<le> uint v" by (rule order_trans [OF _ uint_ge_0]) simp
  then have "signed_take_bit 31 (uint v) = uint v"
    using \<open>uint v < 2 ^ 31\<close> by (rule signed_take_bit_int_eq_self)
  ultimately have "sint (ucast v :: uint32) = uint v"
    by (simp add: sint_uint unsigned_ucast_eq take_bit_int_eq_self)
  then show ?thesis by (metis of_int_sint word_of_int_uint)
qed

lemma waiters_mono: "E \<subseteq> F \<Longrightarrow> waiters E \<subseteq> waiters F"
  by (auto simp: waiters_def)

lemma waiters_without: "waiters (without V E) \<subseteq> waiters E - V"
  by (auto simp: waiters_def without_def)

lemma locked_without_step:
  assumes "locked (without V (locked (without {v} E))) = {}"
  shows "locked (without (insert v V) E) = {}"
proof -
  let ?S = "locked (without (insert v V) E)"
  have i: "irreducible ?S" by (rule irreducible_locked)
  have "?S \<subseteq> locked (without {v} E)"
    using locked_subset [of "without (insert v V) E"] by (intro locked_greatest i) (auto simp: without_def)
  then have "?S \<subseteq> locked (without V (locked (without {v} E)))"
    using locked_subset [of "without (insert v V) E"] by (intro locked_greatest i) (auto simp: without_def)
  then show ?thesis using assms by blast
qed

lemma break_loop_spec:
  assumes "gdd_rep ctx E" "\<forall>v \<in> waiters E. v < 2 ^ 31"
  shows "\<exists>vs ctx'. break_loop vids ctx = Some (vids @ vs, ctx') \<and> gdd_rep ctx' {} \<and> distinct vs \<and>
    set vs \<subseteq> waiters E \<and> locked (without (set vs) E) = {} \<and> (E \<noteq> {} \<longrightarrow> vs \<noteq> [] \<and> hd vs = Max (waiters E))"
  using assms
proof (induction "card E" arbitrary: ctx E vids rule: less_induct)
  case less
  have fin: "finite E" using less.prems by (simp add: gdd_rep_def)
  show ?case
  proof (cases "E = {}")
    case True
    then have "locked (without {} E) = {}" using locked_subset [of "without {} E"] by (auto simp: without_def)
    then show ?thesis using True less.prems empty_iff [of ctx E] by (intro exI [of _ "[]"] exI [of _ ctx]) (simp add: break_loop.simps)
  next
    case False
    define v where "v = Max (waiters E)"
    have wf: "finite (waiters E)" "waiters E \<noteq> {}" using fin False by (auto simp: waiters_def)
    then have v: "v \<in> waiters E" using Max_in v_def by blast
    have "gddCtxGetMaxVid ctx = ucast (max_vid ctx)" by (simp add: gddCtxGetMaxVid_def max_vid_def)
    then have mx: "scast (gddCtxGetMaxVid ctx) = v"
      using max_vid_Max [OF less.prems(1) False] int_vid_small [of v] less.prems(2) v by (simp add: v_def)
    obtain ctx1 where r: "GddCtxReduce (gddCtxRemoveVid v ctx) = Some ctx1" "gdd_rep ctx1 (locked (without {v} E))"
      using ctx_reduce_spec [OF remove_vid_rep [OF less.prems(1)]] by blast
    let ?E1 = "locked (without {v} E)"
    have sub: "?E1 \<subseteq> without {v} E" by (rule locked_subset)
    have "without {v} E \<subset> E" using v by (auto simp: without_def waiters_def)
    then have "card ?E1 < card E" using sub fin by (meson psubset_card_mono subset_psubset_trans)
    moreover have w1: "waiters ?E1 \<subseteq> waiters E - {v}" using waiters_mono [OF sub] waiters_without [of "{v}" E] by blast
    ultimately obtain vs ctx' where ih: "break_loop (vids @ [v]) ctx1 = Some ((vids @ [v]) @ vs, ctx')" "gdd_rep ctx' {}"
        "distinct vs" "set vs \<subseteq> waiters ?E1" "locked (without (set vs) ?E1) = {}"
      using less.hyps [of ?E1 ctx1 "vids @ [v]"] r(2) less.prems(2) by blast
    have "break_loop vids ctx = break_loop (vids @ [v]) ctx1"
      using False empty_iff [OF less.prems(1)] r(1) by (subst break_loop.simps) (simp add: mx Let_def)
    moreover have "locked (without (set (v # vs)) E) = {}" using locked_without_step [OF ih(5)] by simp
    ultimately show ?thesis
      using ih w1 v by (intro exI [of _ "v # vs"] exI [of _ ctx']) (auto simp: v_def)
  qed
qed

text \<open>When the youngest transaction of a deadlock does not survive the conversion to \<^verbatim>\<open>int\<close>, none
  is removed and the loop goes on forever.\<close>

lemma break_loop_diverges:
  assumes "gdd_rep ctx E" "irreducible E" "E \<noteq> {}" "scast (ucast (Max (waiters E)) :: uint32) \<notin> waiters E"
  shows "break_loop vids ctx = None"
proof -
  have "\<not> gdd_rep ctx E" if "break_loop vids ctx = Some r" for vids ctx r
  proof (rule break_loop.raw_induct [of "\<lambda>vids ctx r. \<not> gdd_rep ctx E", OF _ that], goal_cases)
    case (1 f vids ctx r)
    show ?case
    proof
      assume rep: "gdd_rep ctx E"
      have "gddCtxGetMaxVid ctx = ucast (max_vid ctx)" by (simp add: gddCtxGetMaxVid_def max_vid_def)
      then have out: "(scast (gddCtxGetMaxVid ctx) :: DistributedTransactionId) \<notin> waiters E"
        using max_vid_Max [OF rep assms(3)] assms(4) by simp
      then have "without {scast (gddCtxGetMaxVid ctx)} E = E" by (auto simp: without_def waiters_iff)
      then obtain ctx1 where red: "GddCtxReduce (gddCtxRemoveVid (scast (gddCtxGetMaxVid ctx)) ctx) = Some ctx1" "gdd_rep ctx1 E"
        using ctx_reduce_spec [OF remove_vid_rep [OF rep]] locked_irreducible [OF assms(2)] by metis
      then have "f (vids @ [scast (gddCtxGetMaxVid ctx)]) ctx1 = Some r"
        using 1(2) empty_iff [OF rep] assms(3) by (simp add: Let_def)
      then show False using 1(1) red(2) by blast
    qed
  qed
  then show ?thesis using assms(1) by (cases "break_loop vids ctx") auto
qed

section \<open>Properties\<close>

lemma waits_of_finite: "finite (waits_of ws)"
  by (simp add: waits_of_def)

lemma waits_of_collected: "w \<in> waits_of ws \<Longrightarrow> \<exists>segid. (segid, wait_from w, wait_to w, edge_solid (snd w)) \<in> set ws"
proof -
  assume "w \<in> waits_of ws"
  then obtain i where i: "i < length ws" "w = numbered i (ws ! i)" by (auto simp: waits_of_def)
  obtain n a b solid where c: "ws ! i = (n, a, b, solid)" by (cases "ws ! i")
  then have "(n, a, b, solid) \<in> set ws" using i(1) by (metis nth_mem)
  then show ?thesis using i(2) c by (auto simp: numbered_def)
qed

lemma reduced_graph: "\<exists>ctx. GddCtxReduce (wait_graph ws) = Some ctx \<and> gdd_rep ctx (locked (waits_of ws))"
  using ctx_reduce_spec wait_graph_rep by blast

lemma break_succeeds:
  assumes "\<forall>(segid, src, dst, solid) \<in> set ws. src < 2 ^ 31 \<and> dst < 2 ^ 31"
  shows "\<exists>ctx vids ctx'. GddCtxReduce (wait_graph ws) = Some ctx \<and> GddCtxBreakDeadLock ctx = Some (vids, ctx') \<and>
    GddCtxEmpty ctx' \<and> distinct vids \<and> set vids \<subseteq> waiters (locked (waits_of ws)) \<and>
    locked (without (set vids) (waits_of ws)) = {} \<and> (locked (waits_of ws) \<noteq> {} \<longrightarrow> vids \<noteq> [] \<and> hd vids = Max (waiters (locked (waits_of ws))))"
proof -
  let ?L = "locked (waits_of ws)"
  obtain ctx where r: "GddCtxReduce (wait_graph ws) = Some ctx" "gdd_rep ctx ?L" using reduced_graph by blast
  have "v < 2 ^ 31" if "v \<in> waiters (waits_of ws)" for v
  proof -
    obtain w where w: "w \<in> waits_of ws" "wait_from w = v \<or> wait_to w = v" using \<open>v \<in> waiters (waits_of ws)\<close> by (auto simp: waiters_def)
    then show ?thesis using assms waits_of_collected [OF w(1)] by blast
  qed
  then have "\<forall>v \<in> waiters ?L. v < 2 ^ 31" using waiters_mono [OF locked_subset] by blast
  then obtain vids ctx' where b: "break_loop [] ctx = Some (vids, ctx')" "gdd_rep ctx' {}" "distinct vids"
      "set vids \<subseteq> waiters ?L" "locked (without (set vids) ?L) = {}" "?L \<noteq> {} \<longrightarrow> vids \<noteq> [] \<and> hd vids = Max (waiters ?L)"
    using break_loop_spec [OF r(2), of "[]"] by auto
  have "locked (without (set vids) (waits_of ws)) \<subseteq> without (set vids) ?L"
    using locked_subset [of "without (set vids) (waits_of ws)"] locked_mono [of "without (set vids) (waits_of ws)" "waits_of ws"]
    by (auto simp: without_def)
  then have "locked (without (set vids) (waits_of ws)) = {}"
    using locked_greatest [OF _ irreducible_locked] b(5) by blast
  then show ?thesis using r(1) b empty_iff [OF b(2)] by (auto simp: GddCtxBreakDeadLock_def)
qed

text \<open>The waits among running transactions, the only ones a round keeps.\<close>

definition valid_waits :: "ProcEntry list \<Rightarrow> collected_wait list \<Rightarrow> collected_wait list" where
  "valid_waits procs rows =
     filter (\<lambda>(segid, src, dst, solid). IsValidGxid (ListAllGxid procs) src \<and> IsValidGxid (ListAllGxid procs) dst) rows"

lemma build_wait_graph: "buildWaitGraph (ListAllGxid procs) rows GddCtxNew = wait_graph (valid_waits procs rows)"
proof -
  have "buildWaitGraph (ListAllGxid procs) rows ctx = fold add_wait (valid_waits procs rows) ctx" for ctx
  proof (induction rows arbitrary: ctx)
    case (Cons row rows)
    obtain n a b solid where row: "row = (n, a, b, solid)" by (cases row)
    show ?case
      using Cons.IH [of ctx] Cons.IH [of "GddCtxAddEdge n a b solid ctx"]
      by (cases "IsValidGxid (ListAllGxid procs) a \<and> IsValidGxid (ListAllGxid procs) b")
        (auto simp: buildWaitGraph_def valid_waits_def add_wait_def row)
  qed (simp add: buildWaitGraph_def valid_waits_def)
  then show ?thesis by (simp add: wait_graph_def)
qed

lemma valid_waiters: "waiters (waits_of (valid_waits procs rows)) \<subseteq> set (ListAllGxid procs)"
proof
  fix v assume "v \<in> waiters (waits_of (valid_waits procs rows))"
  then obtain w where w: "w \<in> waits_of (valid_waits procs rows)" "wait_from w = v \<or> wait_to w = v" by (auto simp: waiters_def)
  then show "v \<in> set (ListAllGxid procs)"
    using waits_of_collected [OF w(1)] by (auto simp: valid_waits_def IsValidGxid_def list_ex_iff)
qed

text \<open>C15: the reduction of the graphs of any collected waits ends, and what is left is exactly the greatest
  set of waits none of which the rules can remove, whatever the order in which graphs, verts and edges
  are visited; the lists of all verts and all the degree counters agree with it.\<close>

theorem gdd_reduce_computes_locked:
  "\<exists>ctx. GddCtxReduce (wait_graph ws) = Some ctx \<and> gdd_rep ctx (locked (waits_of ws))"
  by (rule reduced_graph)

text \<open>C16: no deadlock is reported without a cycle of waits: if the transactions do not wait in a cycle,
  the reduced context is empty. When all waits are solid, it is empty exactly then.\<close>

theorem gdd_detects_cycles:
  "\<exists>ctx. GddCtxReduce (wait_graph ws) = Some ctx \<and>
     (acyclic (waits_for (waits_of ws)) \<longrightarrow> GddCtxEmpty ctx) \<and>
     ((\<forall>(segid, src, dst, solid) \<in> set ws. solid) \<longrightarrow> (GddCtxEmpty ctx \<longleftrightarrow> acyclic (waits_for (waits_of ws))))"
proof -
  obtain ctx where r: "GddCtxReduce (wait_graph ws) = Some ctx" "gdd_rep ctx (locked (waits_of ws))"
    using reduced_graph by blast
  note e = empty_iff [OF r(2)]
  have solid: "edge_solid (snd w)" if "\<forall>(segid, src, dst, solid) \<in> set ws. solid" "w \<in> waits_of ws" for w
    using that(1) waits_of_collected [OF that(2)] by blast
  have 1: "acyclic (waits_for (waits_of ws)) \<longrightarrow> GddCtxEmpty ctx"
    using e acyclic_not_locked [OF waits_of_finite, of ws] by simp
  have 2: "acyclic (waits_for (waits_of ws))" if "\<forall>(segid, src, dst, solid) \<in> set ws. solid" "GddCtxEmpty ctx"
    using e that(2) solid [OF that(1)] solid_cycle_locked [of "waits_of ws"] by auto
  show ?thesis by (intro exI [of _ ctx] conjI impI iffI r(1) 2) (simp_all add: 1)
qed

theorem gdd_detects_cycles_witness:
  "\<exists>ctx. GddCtxReduce (wait_graph [(0, 1, 2, True), (1, 2, 1, True)]) = Some ctx \<and> \<not> GddCtxEmpty ctx"
proof -
  let ?ws = "[(0, 1, 2, True), (1, 2, 1, True)]"
  have "waits_for (waits_of ?ws) = {(1, 2), (2, 1)}"
    by (auto simp: waits_for_def waits_of_def numbered_def lessThan_Suc numeral_2_eq_2)
  then have "\<not> acyclic (waits_for (waits_of ?ws))"
    unfolding acyclic_def by (metis insertI1 insertI2 trancl.simps)
  then show ?thesis using gdd_detects_cycles [of ?ws] by auto
qed

text \<open>C14: with every running distributed transaction below \<open>2 ^ 31\<close>, a round of the detector ends. It
  cancels distinct running transactions, some exactly if the waits among running transactions are
  locked, starting with the youngest locked one, none if there is no cycle of waits; without the waits
  of the cancelled ones nothing is locked any more.\<close>

theorem deadlock_check_round_correct:
  assumes "\<forall>g \<in> set (ListAllGxid procs). g < 2 ^ 31"
  shows "\<exists>vids. doDeadLockCheck procs procs' rows = Some (map (GetPidByGxid procs') vids) \<and> distinct vids \<and>
    set vids \<subseteq> set (ListAllGxid procs) \<and>
    locked (without (set vids) (waits_of (valid_waits procs rows))) = {} \<and>
    (vids \<noteq> [] \<longleftrightarrow> locked (waits_of (valid_waits procs rows)) \<noteq> {}) \<and>
    (vids \<noteq> [] \<longrightarrow> hd vids = Max (waiters (locked (waits_of (valid_waits procs rows))))) \<and>
    (acyclic (waits_for (waits_of (valid_waits procs rows))) \<longrightarrow> vids = [])"
proof -
  let ?ws = "valid_waits procs rows" and ?L = "locked (waits_of (valid_waits procs rows))"
  have v: "waiters (waits_of ?ws) \<subseteq> set (ListAllGxid procs)" by (rule valid_waiters)
  have "\<forall>(segid, src, dst, solid) \<in> set ?ws. src < 2 ^ 31 \<and> dst < 2 ^ 31"
    using assms by (auto simp: valid_waits_def IsValidGxid_def list_ex_iff)
  from break_succeeds [OF this] obtain ctx vids ctx' where
    r: "GddCtxReduce (wait_graph ?ws) = Some ctx" and b: "GddCtxBreakDeadLock ctx = Some (vids, ctx')" "GddCtxEmpty ctx'"
      "distinct vids" "set vids \<subseteq> waiters ?L" "locked (without (set vids) (waits_of ?ws)) = {}"
      "?L \<noteq> {} \<longrightarrow> vids \<noteq> [] \<and> hd vids = Max (waiters ?L)"
    by blast
  have rep: "gdd_rep ctx ?L" using reduced_graph [of ?ws] r by simp
  have e: "vids = [] \<longleftrightarrow> ?L = {}" using b(4,6) by (auto simp: waiters_def)
  have "doDeadLockCheck procs procs' rows = Some (map (GetPidByGxid procs') vids)"
    using r b(1) e empty_iff [OF rep]
    by (cases "?L = {}") (simp_all add: doDeadLockCheck_def build_wait_graph breakDeadLock_def)
  moreover have "set vids \<subseteq> set (ListAllGxid procs)" using b(4) v waiters_mono [OF locked_subset] by blast
  moreover have "acyclic (waits_for (waits_of ?ws)) \<longrightarrow> vids = []"
    using e acyclic_not_locked [OF waits_of_finite, of ?ws] by blast
  ultimately show ?thesis using b(3,5,6) e by blast
qed

theorem deadlock_check_round_correct_witness:
  "\<exists>vids. doDeadLockCheck [\<lparr>proc_gxid = 1, proc_pid = 100\<rparr>, \<lparr>proc_gxid = 2, proc_pid = 200\<rparr>]
     [\<lparr>proc_gxid = 1, proc_pid = 100\<rparr>, \<lparr>proc_gxid = 2, proc_pid = 200\<rparr>] [(0, 1, 2, True), (1, 2, 7, True)] =
     Some (map (GetPidByGxid [\<lparr>proc_gxid = 1, proc_pid = 100\<rparr>, \<lparr>proc_gxid = 2, proc_pid = 200\<rparr>]) vids) \<and> distinct vids"
  using deadlock_check_round_correct [of "[\<lparr>proc_gxid = 1, proc_pid = 100\<rparr>, \<lparr>proc_gxid = 2, proc_pid = 200\<rparr>]"
    "[\<lparr>proc_gxid = 1, proc_pid = 100\<rparr>, \<lparr>proc_gxid = 2, proc_pid = 200\<rparr>]" "[(0, 1, 2, True), (1, 2, 7, True)]"]
  by (auto simp: ListAllGxid_def InvalidDistributedTransactionId_def)

text \<open>C21: a deadlock whose youngest transaction does not survive the conversion of the result of
  \<^verbatim>\<open>gddCtxGetMaxVid\<close> to \<^verbatim>\<open>int\<close> is never broken: \<^verbatim>\<open>GddCtxBreakDeadLock\<close> does not return.\<close>

theorem gdd_break_deadlock_int_overflow:
  assumes "GddCtxReduce (wait_graph ws) = Some ctx" "locked (waits_of ws) \<noteq> {}"
    "scast (ucast (Max (waiters (locked (waits_of ws)))) :: uint32) \<notin> waiters (waits_of ws)"
  shows "GddCtxBreakDeadLock ctx = None"
proof -
  have "gdd_rep ctx (locked (waits_of ws))" using reduced_graph [of ws] assms(1) by simp
  then show ?thesis
    using break_loop_diverges [OF _ irreducible_locked assms(2)] assms(3) waiters_mono [OF locked_subset]
    by (auto simp: GddCtxBreakDeadLock_def)
qed

theorem gdd_break_deadlock_int_overflow_witness:
  "\<exists>ctx. GddCtxReduce (wait_graph [(0, 4294967297, 4294967298, True), (1, 4294967298, 4294967297, True)]) = Some ctx \<and>
     GddCtxBreakDeadLock ctx = None"
proof -
  let ?ws = "[(0, 4294967297, 4294967298, True), (1, 4294967298, 4294967297, True)]"
  let ?e = "\<lparr>edge_addr = 0, edge_solid = True, edge_from = 4294967297, edge_to = 4294967298\<rparr>"
  let ?f = "\<lparr>edge_addr = 1, edge_solid = True, edge_from = 4294967298, edge_to = 4294967297\<rparr>"
  have w: "waits_of ?ws = {(0, ?e), (1, ?f)}"
    by (auto simp: waits_of_def numbered_def segkey_def lessThan_Suc numeral_2_eq_2)
  have "irreducible (waits_of ?ws)" unfolding w irreducible_def stuck_def by simp
  then have l: "locked (waits_of ?ws) = waits_of ?ws" by (rule locked_irreducible)
  have v: "waiters (waits_of ?ws) = {4294967297, 4294967298}" unfolding w waiters_def by auto
  have m: "Max {4294967297, 4294967298 :: DistributedTransactionId} = 4294967298" by (simp add: max_def)
  obtain ctx where r: "GddCtxReduce (wait_graph ?ws) = Some ctx" using reduced_graph by blast
  have "GddCtxBreakDeadLock ctx = None"
    using gdd_break_deadlock_int_overflow [OF r] unfolding l v m by (simp add: w)
  then show ?thesis using r by blast
qed

end
