(* ===== verification/LegacyHash.thy ===== *)
theory LegacyHash
  imports CB_Prelude "HOL-Library.Signed_Division"
begin

text \<open>The hash functions of the legacy distribution scheme,
  \<^verbatim>\<open>src/backend/cdb/cdblegacyhash.c\<close>: each hashes the bytes of a value with FNV-1, starting
  from the global \<^verbatim>\<open>magic_hash_stash\<close>, which is the first argument here. Values are given as the
  functions see them: integers and times as words, floating-point numbers as their bit patterns,
  variable-length values as the bytes of their data. Integers are stored with the least significant
  byte first.

  A hash function of an operator class must give equal hashes to values its equality operator calls
  equal, or equal rows are sent to different segments. The equality operators of the two types for
  which this is not a matter of the bytes alone are modelled too: \<^verbatim>\<open>bpchareq\<close> of
  \<^verbatim>\<open>src/backend/utils/adt/varchar.c\<close> under a deterministic collation, and
  \<^verbatim>\<open>interval_eq\<close> of \<^verbatim>\<open>src/backend/utils/adt/timestamp.c\<close>.\<close>

unbundle bit_operations_syntax

section \<open>FNV-1\<close>

definition FNV1_32_INIT :: uint32 where "FNV1_32_INIT = 0x811c9dc5"
definition FNV_32_PRIME :: uint32 where "FNV_32_PRIME = 0x01000193"
definition NULL_VAL :: uint32 where "NULL_VAL = 0xF0F0F0F1"
definition NAN_VAL :: uint32 where "NAN_VAL = 0xE0E0E0E1"

definition fnv1_step :: "uint8 \<Rightarrow> uint32 \<Rightarrow> uint32" where
  "fnv1_step octet hval =
     (let hval = hval + (push_bit 1 hval + push_bit 4 hval + push_bit 7 hval + push_bit 8 hval + push_bit 24 hval)
      in hval XOR ucast octet)"

definition fnv1_32_buf :: "uint8 list \<Rightarrow> uint32 \<Rightarrow> uint32" where
  "fnv1_32_buf buf hval = fold fnv1_step buf hval"

definition hashFn :: "uint32 \<Rightarrow> uint8 list \<Rightarrow> uint32" where
  "hashFn magic_hash_stash buf = fnv1_32_buf buf magic_hash_stash"

text \<open>The bytes of a word in memory.\<close>

definition bytes_of :: "'a::len word \<Rightarrow> uint8 list" where
  "bytes_of w = map (\<lambda>i. ucast (drop_bit (8 * i) w)) [0..<LENGTH('a) div 8]"

section \<open>The hash functions\<close>

definition cdblegacyhash_int2 :: "uint32 \<Rightarrow> 16 word \<Rightarrow> uint32" where
  "cdblegacyhash_int2 stash v = hashFn stash (bytes_of (scast v :: 64 word))"

definition cdblegacyhash_int4 :: "uint32 \<Rightarrow> 32 word \<Rightarrow> uint32" where
  "cdblegacyhash_int4 stash v = hashFn stash (bytes_of (scast v :: 64 word))"

definition cdblegacyhash_int8 :: "uint32 \<Rightarrow> 64 word \<Rightarrow> uint32" where
  "cdblegacyhash_int8 stash v = hashFn stash (bytes_of v)"

text \<open>A float compares equal to zero when all bits but the sign are clear.\<close>

definition cdblegacyhash_float4 :: "uint32 \<Rightarrow> 32 word \<Rightarrow> uint32" where
  "cdblegacyhash_float4 stash v =
     (let buf_f4 = (if v AND 0x7FFFFFFF = 0 then 0 else v) in hashFn stash (bytes_of buf_f4))"

definition float8_zero :: "64 word \<Rightarrow> 64 word" where
  "float8_zero v = (if v AND 0x7FFFFFFFFFFFFFFF = 0 then 0 else v)"

definition cdblegacyhash_float8 :: "uint32 \<Rightarrow> 64 word \<Rightarrow> uint32" where
  "cdblegacyhash_float8 stash v = hashFn stash (bytes_of (float8_zero v))"

datatype NumericData = NUMERIC_NAN | NUMERIC_DIGITS "16 word list"

definition cdblegacyhash_numeric :: "uint32 \<Rightarrow> NumericData \<Rightarrow> uint32" where
  "cdblegacyhash_numeric stash num =
     (case num of
        NUMERIC_NAN \<Rightarrow> hashFn stash (bytes_of NAN_VAL)
      | NUMERIC_DIGITS digits \<Rightarrow> hashFn stash (concat (map bytes_of digits)))"

definition cdblegacyhash_char :: "uint32 \<Rightarrow> uint8 \<Rightarrow> uint32" where
  "cdblegacyhash_char stash v = hashFn stash [v]"

text \<open>The length without trailing blanks, but at least 1. The callers give at least 2 bytes.\<close>

fun ignoreblanks :: "uint8 list \<Rightarrow> nat \<Rightarrow> nat" where
  "ignoreblanks data (Suc (Suc n)) =
     (if data ! Suc n = 32
      then let len = Suc n in if len = 1 then len else ignoreblanks data len
      else Suc (Suc n))"
| "ignoreblanks data len = len"

definition cdblegacyhash_text :: "uint32 \<Rightarrow> uint8 list \<Rightarrow> uint32" where
  "cdblegacyhash_text stash buf =
     (let len = length buf;
          len = (if len > 1 then ignoreblanks buf len else len)
      in hashFn stash (take len buf))"

definition cdblegacyhash_bpchar :: "uint32 \<Rightarrow> uint8 list \<Rightarrow> uint32" where
  "cdblegacyhash_bpchar stash buf = cdblegacyhash_text stash buf"

definition cdblegacyhash_bytea :: "uint32 \<Rightarrow> uint8 list \<Rightarrow> uint32" where
  "cdblegacyhash_bytea stash buf = hashFn stash buf"

text \<open>A name is an array of \<^verbatim>\<open>NAMEDATALEN\<close> bytes.\<close>

definition cdblegacyhash_name :: "uint32 \<Rightarrow> uint8 list \<Rightarrow> uint32" where
  "cdblegacyhash_name stash namebuf = hashFn stash (take (ignoreblanks namebuf 64) namebuf)"

definition cdblegacyhash_oid :: "uint32 \<Rightarrow> 32 word \<Rightarrow> uint32" where
  "cdblegacyhash_oid stash v = hashFn stash (bytes_of (scast v :: 64 word))"

text \<open>An item pointer is two 16-bit halves of the block number, high half first, and the offset.\<close>

record ItemPointerData =
  bi_hi :: "16 word"
  bi_lo :: "16 word"
  ip_posid :: "16 word"

definition cdblegacyhash_tid :: "uint32 \<Rightarrow> ItemPointerData \<Rightarrow> uint32" where
  "cdblegacyhash_tid stash tid = hashFn stash (bytes_of (bi_hi tid) @ bytes_of (bi_lo tid) @ bytes_of (ip_posid tid))"

definition cdblegacyhash_timestamp :: "uint32 \<Rightarrow> 64 word \<Rightarrow> uint32" where
  "cdblegacyhash_timestamp stash v = hashFn stash (bytes_of v)"

definition cdblegacyhash_timestamptz :: "uint32 \<Rightarrow> 64 word \<Rightarrow> uint32" where
  "cdblegacyhash_timestamptz stash v = hashFn stash (bytes_of v)"

definition cdblegacyhash_date :: "uint32 \<Rightarrow> 32 word \<Rightarrow> uint32" where
  "cdblegacyhash_date stash v = hashFn stash (bytes_of v)"

definition cdblegacyhash_time :: "uint32 \<Rightarrow> 64 word \<Rightarrow> uint32" where
  "cdblegacyhash_time stash v = hashFn stash (bytes_of v)"

record TimeTzADT =
  tz_time :: "64 word"
  tz_zone :: "32 word"

definition cdblegacyhash_timetz :: "uint32 \<Rightarrow> TimeTzADT \<Rightarrow> uint32" where
  "cdblegacyhash_timetz stash v = hashFn stash (take (8 + 4) (bytes_of (tz_time v) @ bytes_of (tz_zone v)))"

text \<open>The fields of an interval in the order of the structure; the function hashes as many bytes as
  the time and the month have, from the start of the structure.\<close>

record Interval =
  iv_time :: "64 word"
  iv_day :: "32 word"
  iv_month :: "32 word"

definition cdblegacyhash_interval :: "uint32 \<Rightarrow> Interval \<Rightarrow> uint32" where
  "cdblegacyhash_interval stash v =
     hashFn stash (take (8 + 4) (bytes_of (iv_time v) @ bytes_of (iv_day v) @ bytes_of (iv_month v)))"

text \<open>\<^verbatim>\<open>PGSQL_AF_INET\<close> is 2 and \<^verbatim>\<open>PGSQL_AF_INET6\<close> is 3.\<close>

record inet_struct =
  ip_family :: uint8
  ip_bits :: uint8
  ip_addr :: "uint8 list"

definition inet_getkey :: "inet_struct \<Rightarrow> uint8 list" where
  "inet_getkey addr =
     (let addrsize = (if ip_family addr = 2 then 4 else if ip_family addr = 3 then 16 else 0)
      in [ip_family addr, ip_bits addr] @ take addrsize (ip_addr addr))"

definition cdblegacyhash_inet :: "uint32 \<Rightarrow> inet_struct \<Rightarrow> uint32" where
  "cdblegacyhash_inet stash v = hashFn stash (inet_getkey v)"

definition cdblegacyhash_macaddr :: "uint32 \<Rightarrow> uint8 list \<Rightarrow> uint32" where
  "cdblegacyhash_macaddr stash v = hashFn stash (take 6 v)"

definition cdblegacyhash_bit :: "uint32 \<Rightarrow> uint8 list \<Rightarrow> uint32" where
  "cdblegacyhash_bit stash varbits = hashFn stash varbits"

definition cdblegacyhash_bool :: "uint32 \<Rightarrow> bool \<Rightarrow> uint32" where
  "cdblegacyhash_bool stash v = hashFn stash [if v then 1 else 0]"

definition cdblegacyhash_array :: "uint32 \<Rightarrow> uint8 list \<Rightarrow> uint32" where
  "cdblegacyhash_array stash buf = hashFn stash buf"

definition cdblegacyhash_oidvector :: "uint32 \<Rightarrow> 32 word list \<Rightarrow> uint32" where
  "cdblegacyhash_oidvector stash oids = hashFn stash (concat (map bytes_of oids))"

definition cdblegacyhash_cash :: "uint32 \<Rightarrow> 64 word \<Rightarrow> uint32" where
  "cdblegacyhash_cash stash v = hashFn stash (bytes_of v)"

definition cdblegacyhash_uuid :: "uint32 \<Rightarrow> uint8 list \<Rightarrow> uint32" where
  "cdblegacyhash_uuid stash v = hashFn stash (take 16 v)"

definition cdblegacyhash_complex :: "uint32 \<Rightarrow> 64 word \<times> 64 word \<Rightarrow> uint32" where
  "cdblegacyhash_complex stash v =
     hashFn stash (bytes_of (float8_zero (fst v)) @ bytes_of (float8_zero (snd v)))"

definition cdblegacyhash_anyenum :: "uint32 \<Rightarrow> 32 word \<Rightarrow> uint32" where
  "cdblegacyhash_anyenum stash v = hashFn stash (bytes_of (scast v :: 64 word))"

definition cdblegacyhash_null :: "uint32 \<Rightarrow> uint32" where
  "cdblegacyhash_null stash = hashFn stash (bytes_of NULL_VAL)"

text \<open>The object identifiers of the functions above, in the order of the switch.\<close>

definition legacy_hash_oids :: "nat list" where
  "legacy_hash_oids =
     [6140, 6141, 6142, 6143, 6144, 6145, 6146, 6147, 6148, 6149, 7099, 7183, 7184, 7185, 7186, 7187, 7188, 7189,
      7190, 7191, 7192, 7193, 7194, 7195, 7196, 7197, 7144, 7143, 7145]"

definition isLegacyCdbHashFunction :: "nat \<Rightarrow> bool" where
  "isLegacyCdbHashFunction funcid \<longleftrightarrow> funcid \<in> set legacy_hash_oids"

section \<open>Equality of the hashed types\<close>

definition bpchartruelen :: "uint8 list \<Rightarrow> nat" where
  "bpchartruelen s = (case find (\<lambda>i. s ! i \<noteq> 32) (rev [0..<length s]) of None \<Rightarrow> 0 | Some i \<Rightarrow> i + 1)"

definition bpchareq :: "uint8 list \<Rightarrow> uint8 list \<Rightarrow> bool" where
  "bpchareq arg1 arg2 =
     (let len1 = bpchartruelen arg1; len2 = bpchartruelen arg2
      in if len1 \<noteq> len2 then False else take len1 arg1 = take len1 arg2)"

definition USECS_PER_DAY :: int where "USECS_PER_DAY = 86400000000"

definition interval_cmp_value :: "Interval \<Rightarrow> int" where
  "interval_cmp_value v =
     (let dayfraction = sint (iv_time v) smod USECS_PER_DAY;
          days = sint (iv_time v) sdiv USECS_PER_DAY;
          days = days + sint (iv_month v) * 30;
          days = days + sint (iv_day v)
      in dayfraction + days * USECS_PER_DAY)"

definition interval_eq :: "Interval \<Rightarrow> Interval \<Rightarrow> bool" where
  "interval_eq v w \<longleftrightarrow> interval_cmp_value v = interval_cmp_value w"

section \<open>Equal values have equal hashes\<close>

text \<open>The shifts and additions are the multiplication by the FNV prime.\<close>

lemma fnv1_step_prime: "fnv1_step octet hval = (hval * FNV_32_PRIME) XOR ucast octet"
proof -
  have "hval + (push_bit 1 hval + push_bit 4 hval + push_bit 7 hval + push_bit 8 hval + push_bit 24 hval)
      = hval * FNV_32_PRIME"
    by (simp add: push_bit_eq_mult FNV_32_PRIME_def algebra_simps)
  then show ?thesis by (simp add: fnv1_step_def Let_def)
qed

lemma bpchartruelen_le: "bpchartruelen s \<le> length s"
  by (auto simp: bpchartruelen_def find_rev_upt_Some split: option.split)

lemma bpchartruelen_blank: "bpchartruelen s \<le> i \<Longrightarrow> i < length s \<Longrightarrow> s ! i = 32"
  by (auto simp: bpchartruelen_def find_rev_upt_Some split: option.splits)

lemma bpchartruelen_last: "0 < bpchartruelen s \<Longrightarrow> s ! (bpchartruelen s - 1) \<noteq> 32"
  by (auto simp: bpchartruelen_def find_rev_upt_Some split: option.splits)

text \<open>Ignoring blanks gives the true length of a padded string, but at least 1.\<close>

lemma ignoreblanks_truelen:
  assumes "1 \<le> len" "len \<le> length s" "bpchartruelen s \<le> len"
  shows "ignoreblanks s len = max 1 (bpchartruelen s)"
  using assms
proof (induction s len rule: ignoreblanks.induct)
  case (1 s n)
  show ?case
  proof (cases "bpchartruelen s = Suc (Suc n)")
    case True
    then show ?thesis using bpchartruelen_last [of s] by simp
  next
    case False
    then have "bpchartruelen s \<le> Suc n" using 1 by simp
    then show ?thesis using 1 bpchartruelen_blank [of s "Suc n"] by (cases "n = 0") (auto simp: Let_def max_def)
  qed
qed auto

lemma bpchar_hash_truelen:
  assumes "s \<noteq> []"
  shows "cdblegacyhash_bpchar stash s = hashFn stash (take (max 1 (bpchartruelen s)) s)"
proof -
  have "1 \<le> length s" using assms by (cases s) auto
  then have "ignoreblanks s (length s) = max 1 (bpchartruelen s)"
    using bpchartruelen_le by (intro ignoreblanks_truelen) auto
  moreover have "length s = 1 \<Longrightarrow> max 1 (bpchartruelen s) = length s" using bpchartruelen_le [of s] by simp
  ultimately show ?thesis
    using \<open>1 \<le> length s\<close> by (cases "length s = 1") (auto simp: cdblegacyhash_bpchar_def cdblegacyhash_text_def Let_def)
qed

lemma bpchar_hash_equal:
  assumes "bpchareq s t" "s \<noteq> []" "t \<noteq> []"
  shows "cdblegacyhash_bpchar stash s = cdblegacyhash_bpchar stash t"
proof -
  have eq: "bpchartruelen s = bpchartruelen t" "take (bpchartruelen s) s = take (bpchartruelen s) t"
    using assms(1) by (auto simp: bpchareq_def Let_def split: if_splits)
  have "take (max 1 (bpchartruelen s)) s = take (max 1 (bpchartruelen s)) t"
  proof (cases "bpchartruelen s = 0")
    case True
    then have "s ! 0 = 32" "t ! 0 = 32" using assms bpchartruelen_blank [of s 0] bpchartruelen_blank [of t 0] eq by auto
    then show ?thesis using True assms by (cases s; cases t) auto
  qed (use eq in \<open>auto simp: max_def\<close>)
  then show ?thesis using assms eq by (simp add: bpchar_hash_truelen)
qed

lemma scast_sint_eq: "sint v = sint w \<Longrightarrow> (scast v :: 'a::len word) = scast w"
  by (simp only: scast_eq)



end
