(* ===== verification/CdbHash.thy ===== *)
theory CdbHash
  imports Complex_Main LegacyHash
begin

text \<open>The choice of a segment for a row, \<^verbatim>\<open>src/backend/cdb/cdbhash.c\<close>, with its caller
  \<^verbatim>\<open>evalHashKey\<close> of \<^verbatim>\<open>src/backend/executor/nodeMotion.c\<close>.

  A hash function is called through the function manager: its model takes the global
  \<^verbatim>\<open>magic_hash_stash\<close> and a datum, and returns \<open>None\<close> for a null result. The stash is threaded
  through every operation, also through one that raises an error, which leaves it as it is. Catalog
  lookups and the choice of operator classes are not modelled: \<open>fmgr\<close> gives the function of an object
  identifier.

  The arithmetic on doubles in \<^verbatim>\<open>jump_consistent_hash\<close> is IEEE 754 binary64 with rounding to
  nearest, ties to even: a double is a rational number and \<open>double_round\<close> rounds one that is at least 1
  to 53 significant bits.\<close>

unbundle bit_operations_syntax

section \<open>Doubles\<close>

fun ilog2 :: "nat \<Rightarrow> nat" where
  "ilog2 n = (if n < 2 then 0 else Suc (ilog2 (n div 2)))"

declare ilog2.simps [simp del]

definition round_half_even :: "rat \<Rightarrow> int" where
  "round_half_even y =
     (let q = \<lfloor>y\<rfloor>; f = y - of_int q
      in if f < 1 / 2 then q else if f > 1 / 2 then q + 1 else if even q then q else q + 1)"

text \<open>The distance of neighbouring doubles in \<open>2 ^ e .. 2 ^ (e + 1)\<close>.\<close>

definition quantum :: "nat \<Rightarrow> rat" where
  "quantum e = (if e \<le> 52 then 1 / 2 ^ (52 - e) else 2 ^ (e - 52))"

definition double_round :: "rat \<Rightarrow> rat" where
  "double_round x = (let u = quantum (ilog2 (nat \<lfloor>x\<rfloor>)) in of_int (round_half_even (x / u)) * u)"

section \<open>The jump consistent hash\<close>

definition jump_next_key :: "uint64 \<Rightarrow> uint64" where
  "jump_next_key key = key * 2862933555777941757 + 1"

definition jump_step :: "nat \<Rightarrow> uint64 \<Rightarrow> nat" where
  "jump_step b key =
     nat \<lfloor>double_round (of_nat (b + 1) * double_round (2 ^ 31 / of_nat (unat (drop_bit 33 key) + 1)))\<rfloor>"

lemma ilog2_bounds:
  assumes "1 \<le> n"
  shows "2 ^ ilog2 n \<le> n \<and> n < 2 ^ Suc (ilog2 n)"
  using assms
proof (induction n rule: ilog2.induct)
  case (1 n)
  show ?case
  proof (cases "n < 2")
    case True
    then show ?thesis using 1 by (simp add: ilog2.simps)
  next
    case False
    then have "2 ^ ilog2 (n div 2) \<le> n div 2 \<and> n div 2 < 2 ^ Suc (ilog2 (n div 2))" using 1 by simp
    then show ?thesis using False by (simp add: ilog2.simps [of n]) linarith
  qed
qed

lemma round_half_even_floor: "\<lfloor>y\<rfloor> \<le> round_half_even y" "round_half_even y \<le> \<lfloor>y\<rfloor> + 1"
  by (simp_all add: round_half_even_def Let_def)

lemma round_half_even_ge: "of_int N \<le> y \<Longrightarrow> N \<le> round_half_even y"
  using round_half_even_floor(1) [of y] by (simp add: le_floor_iff [symmetric])

lemma round_half_even_le: "y \<le> of_int N \<Longrightarrow> round_half_even y \<le> N"
proof -
  assume y: "y \<le> of_int N"
  show ?thesis
  proof (cases "of_int \<lfloor>y\<rfloor> = y")
    case True
    then obtain n where n: "y = of_int n" by metis
    then have "round_half_even y = n" by (simp add: round_half_even_def Let_def)
    then show ?thesis using y n by simp
  next
    case False
    then have "of_int \<lfloor>y\<rfloor> < y" using of_int_floor_le [of y] by linarith
    then have "\<lfloor>y\<rfloor> + 1 \<le> N" using y by (metis less_le_trans of_int_less_iff zless_imp_add1_zle)
    then show ?thesis using round_half_even_floor(2) [of y] by linarith
  qed
qed

lemma quantum_pos: "0 < quantum e"
  by (simp add: quantum_def)

text \<open>Powers of two from \<open>2 ^ e\<close> on, and below \<open>2 ^ 53\<close> all whole numbers, are multiples of the
  quantum.\<close>

lemma quantum_power: "e \<le> k \<Longrightarrow> \<exists>N :: int. 2 ^ k = of_int N * quantum e"
proof -
  assume k: "e \<le> k"
  show ?thesis
  proof (cases "e \<le> 52")
    case True
    then show ?thesis by (intro exI [of _ "2 ^ k * 2 ^ (52 - e)"]) (simp add: quantum_def)
  next
    case False
    then have "(2::rat) ^ k = 2 ^ (k - (e - 52)) * 2 ^ (e - 52)" using k by (simp flip: power_add)
    then show ?thesis using False by (intro exI [of _ "2 ^ (k - (e - 52))"]) (simp add: quantum_def)
  qed
qed

lemma exponent_le:
  assumes "1 \<le> x" "x \<le> 2 ^ k"
  shows "ilog2 (nat \<lfloor>x::rat\<rfloor>) \<le> k"
proof -
  have "1 \<le> nat \<lfloor>x\<rfloor>" using assms(1) by (simp add: le_nat_iff le_floor_iff)
  then have "2 ^ ilog2 (nat \<lfloor>x\<rfloor>) \<le> nat \<lfloor>x\<rfloor>" using ilog2_bounds by blast
  moreover have "int (nat \<lfloor>x\<rfloor>) \<le> 2 ^ k"
  proof -
    have "of_int \<lfloor>x\<rfloor> \<le> (of_int (2 ^ k) :: rat)" by (rule order_trans [OF of_int_floor_le]) (simp add: assms(2))
    then have "\<lfloor>x\<rfloor> \<le> 2 ^ k" by (simp only: of_int_le_iff)
    then show ?thesis using assms(1) by simp
  qed
  ultimately have "(2::nat) ^ ilog2 (nat \<lfloor>x\<rfloor>) \<le> 2 ^ k" by (metis of_nat_le_iff of_nat_numeral of_nat_power order_trans)
  then show ?thesis by simp
qed

lemma double_round_le:
  assumes "1 \<le> x" "x \<le> 2 ^ k"
  shows "double_round x \<le> 2 ^ k"
proof -
  let ?u = "quantum (ilog2 (nat \<lfloor>x\<rfloor>))"
  obtain N :: int where N: "2 ^ k = of_int N * ?u" using quantum_power [OF exponent_le [OF assms]] by blast
  have "x / ?u \<le> of_int N" using assms(2) N quantum_pos by (simp add: pos_divide_le_eq)
  then have "of_int (round_half_even (x / ?u)) \<le> (of_int N :: rat)" using round_half_even_le by simp
  then show ?thesis using N quantum_pos [of "ilog2 (nat \<lfloor>x\<rfloor>)"] by (simp add: double_round_def Let_def)
qed

lemma double_round_ge:
  assumes "1 \<le> x" "of_nat n \<le> x" "n < 2 ^ 53"
  shows "of_nat n \<le> double_round x"
proof -
  let ?e = "ilog2 (nat \<lfloor>x\<rfloor>)"
  let ?u = "quantum ?e"
  have "\<exists>N :: int. of_nat n \<le> of_int N * ?u \<and> of_int N * ?u \<le> x"
  proof (cases "?e \<le> 52")
    case True
    then have "of_int (int n * 2 ^ (52 - ?e)) * ?u = (of_nat n :: rat)" by (simp add: quantum_def)
    then show ?thesis using assms(2) by (metis order_refl)
  next
    case False
    have f: "1 \<le> nat \<lfloor>x\<rfloor>" using assms(1) by (simp add: le_nat_iff le_floor_iff)
    have "of_nat (2 ^ ?e) \<le> (of_nat (nat \<lfloor>x\<rfloor>) :: rat)" using ilog2_bounds [OF f] of_nat_le_iff by blast
    also have "\<dots> \<le> x" using assms(1) by simp
    finally have hi: "2 ^ ?e \<le> x" by simp
    obtain N :: int where N: "2 ^ ?e = of_int N * ?u" using quantum_power [OF order_refl] by blast
    have "(2::nat) ^ 53 \<le> 2 ^ ?e" using False by (intro power_increasing) auto
    then have "n \<le> 2 ^ ?e" using assms(3) by linarith
    then have "(of_nat n :: rat) \<le> of_nat (2 ^ ?e)" using of_nat_le_iff by blast
    then have "of_nat n \<le> of_int N * ?u" using N by simp
    then show ?thesis using N hi by metis
  qed
  then obtain N :: int where N: "of_nat n \<le> of_int N * ?u" "of_int N * ?u \<le> x" by blast
  have "of_int N \<le> x / ?u" using N(2) quantum_pos by (simp add: pos_le_divide_eq)
  then have "(of_int N :: rat) \<le> of_int (round_half_even (x / ?u))" using round_half_even_ge by simp
  then have "of_int N * ?u \<le> double_round x" using quantum_pos [of ?e] by (simp add: double_round_def Let_def)
  then show ?thesis using N(1) by linarith
qed

text \<open>The next bucket is a later one, and fits a signed 64-bit integer.\<close>

lemma jump_step_bounds:
  assumes "b < 2 ^ 31"
  shows "b < jump_step b key" "jump_step b key \<le> 2 ^ 62"
proof -
  define k where "k = unat (drop_bit 33 key) + 1"
  define r where "r = double_round (2 ^ 31 / of_nat k)"
  have "unat (drop_bit 33 key) < 2 ^ 31"
  proof -
    have "unat key < 2 ^ LENGTH(64)" by (rule unsigned_less)
    then have "unat key div 2 ^ 33 < 2 ^ 31" by (intro less_mult_imp_div_less) simp
    then show ?thesis by (simp add: drop_bit_eq_div unat_div_distrib)
  qed
  then have k: "1 \<le> k" "k \<le> 2 ^ 31" by (simp_all add: k_def)
  then have "(of_nat k :: rat) \<le> of_nat (2 ^ 31)" using of_nat_le_iff by blast
  then have q: "1 \<le> (2 ^ 31 / of_nat k :: rat)" "2 ^ 31 / of_nat k \<le> (2 ^ 31 :: rat)"
    using k by (simp_all add: pos_le_divide_eq pos_divide_le_eq)
  have r: "1 \<le> r" "r \<le> 2 ^ 31"
    unfolding r_def using double_round_ge [OF q(1), of 1] double_round_le [OF q] q(1) by simp_all
  have x: "of_nat (b + 1) \<le> of_nat (b + 1) * r" using r(1) mult_left_mono [of 1 r "of_nat (b + 1)"] by simp
  have x1: "1 \<le> of_nat (b + 1) * r" using x by (rule order_trans [rotated]) simp
  have "of_nat (b + 1) \<le> (2 ^ 31 :: rat)"
  proof -
    have "(of_nat (b + 1) :: rat) \<le> of_nat (2 ^ 31)" using assms of_nat_le_iff by (metis Suc_eq_plus1 less_eq_Suc_le)
    then show ?thesis by simp
  qed
  then have "of_nat (b + 1) * r \<le> 2 ^ 31 * 2 ^ 31" using r by (intro mult_mono) simp_all
  then have x2: "of_nat (b + 1) * r \<le> 2 ^ 62" by (simp flip: power_add)
  have step: "jump_step b key = nat \<lfloor>double_round (of_nat (b + 1) * r)\<rfloor>"
    by (simp add: jump_step_def r_def k_def)
  have "of_nat (b + 1) \<le> double_round (of_nat (b + 1) * r)"
    using assms by (intro double_round_ge [OF x1 x]) simp
  then have "int (b + 1) \<le> \<lfloor>double_round (of_nat (b + 1) * r)\<rfloor>" by (simp add: le_floor_iff)
  then show "b < jump_step b key" unfolding step by linarith
  have "of_int \<lfloor>double_round (of_nat (b + 1) * r)\<rfloor> \<le> (of_int (2 ^ 62) :: rat)"
    using order_trans [OF of_int_floor_le double_round_le [OF x1 x2]] by simp
  then have "\<lfloor>double_round (of_nat (b + 1) * r)\<rfloor> \<le> 2 ^ 62" by (simp only: of_int_le_iff)
  then show "jump_step b key \<le> 2 ^ 62" unfolding step by (simp add: nat_le_iff)
qed

lemma sint32_less: "sint (n :: 32 word) < 2 ^ 31"
  using sint_less [of n] by simp

function jump_loop :: "uint64 \<Rightarrow> 32 word \<Rightarrow> int \<Rightarrow> nat \<Rightarrow> int" where
  "jump_loop key num_segments b j =
     (if int j < sint num_segments
      then let key = jump_next_key key
           in jump_loop key num_segments (int j) (jump_step j key)
      else b)"
  by pat_completeness auto
termination
proof (relation "measure (\<lambda>(key, n, b, j). nat (sint n) - j)", goal_cases)
  case (2 key n b j x)
  have "int j < int (2 ^ 31)" using 2(1) sint32_less [of n] by simp
  then have "j < 2 ^ 31" by (simp only: of_nat_less_iff)
  then show ?case using jump_step_bounds(1) [of j x] 2(1) by simp
qed simp

declare jump_loop.simps [simp del]

definition jump_consistent_hash :: "uint64 \<Rightarrow> 32 word \<Rightarrow> 32 word" where
  "jump_consistent_hash key num_segments = word_of_int (jump_loop key num_segments (-1) 0)"

section \<open>Hashing a row\<close>

record 'd FmgrInfo =
  fn_oid :: nat
  fn_call :: "uint32 \<Rightarrow> 'd \<Rightarrow> uint32 option"

datatype CdbHashReduce = REDUCE_LAZYMOD | REDUCE_BITMASK | REDUCE_JUMP_HASH

record 'd CdbHash =
  hash :: uint32
  numsegs :: "32 word"
  reducealg :: CdbHashReduce
  is_legacy_hash :: bool
  natts :: nat
  hashfuncs :: "'d FmgrInfo list"

definition ispowof2 :: "32 word \<Rightarrow> bool" where
  "ispowof2 n \<longleftrightarrow> n AND (n - 1) = 0"

definition makeCdbHash :: "(nat \<Rightarrow> uint32 \<Rightarrow> 'd \<Rightarrow> uint32 option) \<Rightarrow> 32 word \<Rightarrow> nat list \<Rightarrow> 'd CdbHash" where
  "makeCdbHash fmgr nsegs funcids =
     (let is_legacy = (\<exists>funcid \<in> set funcids. isLegacyCdbHashFunction funcid)
      in \<lparr>hash = 0, numsegs = nsegs,
          reducealg = (if is_legacy then (if ispowof2 nsegs then REDUCE_BITMASK else REDUCE_LAZYMOD)
                       else REDUCE_JUMP_HASH),
          is_legacy_hash = is_legacy, natts = length funcids,
          hashfuncs = map (\<lambda>funcid. \<lparr>fn_oid = funcid, fn_call = fmgr funcid\<rparr>) funcids\<rparr>)"

definition cdbhashinit :: "'d CdbHash \<Rightarrow> 'd CdbHash" where
  "cdbhashinit h = (if \<not> is_legacy_hash h then h\<lparr>hash := 0\<rparr> else h\<lparr>hash := FNV1_32_INIT\<rparr>)"

text \<open>The datum is \<open>None\<close> when \<^verbatim>\<open>isnull\<close> is set. The result is the stash, also after an
  error, and the updated structure.\<close>

definition cdbhash :: "uint32 \<Rightarrow> 'd CdbHash \<Rightarrow> nat \<Rightarrow> 'd option \<Rightarrow> uint32 \<times> 'd CdbHash result" where
  "cdbhash magic_hash_stash h attno datum =
     (let hashkey = hash h; flinfo = hashfuncs h ! (attno - 1)
      in if \<not> is_legacy_hash h
         then let hashkey = push_bit 1 hashkey OR (if hashkey AND 0x80000000 \<noteq> 0 then 1 else 0)
              in case datum of
                   Some v \<Rightarrow>
                     (case fn_call flinfo magic_hash_stash v of
                        None \<Rightarrow> (magic_hash_stash, Inl (ERROR ''function returned NULL''))
                      | Some hkey \<Rightarrow> (magic_hash_stash, Inr (h\<lparr>hash := hashkey XOR hkey\<rparr>)))
                 | None \<Rightarrow> (magic_hash_stash, Inr (h\<lparr>hash := hashkey\<rparr>))
         else let magic_hash_stash = hashkey
              in case datum of
                   Some v \<Rightarrow>
                     (case fn_call flinfo magic_hash_stash v of
                        None \<Rightarrow> (magic_hash_stash, Inl (ERROR ''function returned NULL''))
                      | Some hkey \<Rightarrow> (FNV1_32_INIT, Inr (h\<lparr>hash := hkey\<rparr>)))
                 | None \<Rightarrow> (FNV1_32_INIT, Inr (h\<lparr>hash := cdblegacyhash_null magic_hash_stash\<rparr>)))"

definition cdbhashreduce :: "'d CdbHash \<Rightarrow> 32 word" where
  "cdbhashreduce h =
     (case reducealg h of
        REDUCE_BITMASK \<Rightarrow> hash h AND (numsegs h - 1)
      | REDUCE_LAZYMOD \<Rightarrow> hash h mod numsegs h
      | REDUCE_JUMP_HASH \<Rightarrow> jump_consistent_hash (ucast (hash h)) (numsegs h))"

text \<open>The value of \<^verbatim>\<open>random()\<close>, a non-negative long integer, is the first argument.\<close>

definition cdbhashrandomseg :: "nat \<Rightarrow> 32 word \<Rightarrow> 32 word" where
  "cdbhashrandomseg random_value nsegs = word_of_int (int random_value mod sint nsegs)"

text \<open>The loop of \<^verbatim>\<open>evalHashKey\<close> over the evaluated keys, \<open>None\<close> a null, from attribute number
  \<open>i + 1\<close> on.\<close>

fun hash_keys :: "uint32 \<Rightarrow> 'd CdbHash \<Rightarrow> nat \<Rightarrow> 'd option list \<Rightarrow> uint32 \<times> 'd CdbHash result" where
  "hash_keys stash h i [] = (stash, Inr h)"
| "hash_keys stash h i (key # keys) =
     (case cdbhash stash h (i + 1) key of
        (stash, Inl e) \<Rightarrow> (stash, Inl e)
      | (stash, Inr h) \<Rightarrow> hash_keys stash h (i + 1) keys)"

definition evalHashKey :: "nat \<Rightarrow> uint32 \<Rightarrow> 'd CdbHash \<Rightarrow> 'd option list \<Rightarrow> uint32 \<times> 32 word result" where
  "evalHashKey random_value stash h keys =
     (if keys \<noteq> []
      then (case hash_keys stash (cdbhashinit h) 0 keys of
              (stash, Inl e) \<Rightarrow> (stash, Inl e)
            | (stash, Inr h) \<Rightarrow> (stash, Inr (cdbhashreduce h)))
      else (stash, Inr (cdbhashrandomseg random_value (numsegs h))))"

section \<open>The jump hash moves only what it must\<close>

lemma jump_loop_result:
  "0 < sint n \<Longrightarrow> (int j < sint n \<or> 0 \<le> b \<and> b < sint n) \<Longrightarrow>
   0 \<le> jump_loop key n b j \<and> jump_loop key n b j < sint n"
proof (induction key n b j rule: jump_loop.induct)
  case (1 key n b j)
  show ?case
  proof (cases "int j < sint n")
    case True
    then show ?thesis using 1(1) [OF True refl] 1(2) by (subst (1 2) jump_loop.simps) (simp add: Let_def)
  next
    case False
    then show ?thesis using 1(3) by (subst (1 2) jump_loop.simps) simp
  qed
qed

lemma jump_loop_grow:
  "sint m = sint n + 1 \<Longrightarrow> jump_loop key m b j = jump_loop key n b j \<or> jump_loop key m b j = sint n"
proof (induction key n b j rule: jump_loop.induct)
  case (1 key n b j)
  let ?key = "jump_next_key key"
  consider "int j < sint n" | "int j = sint n" | "sint m \<le> int j" using 1(2) by linarith
  then show ?case
  proof cases
    case 1
    then show ?thesis
      using "1.IH" [OF 1 refl "1.prems"] "1.prems"
      by (simp add: jump_loop.simps [of key m b] jump_loop.simps [of key n b] Let_def)
  next
    case 2
    have "j < 2 ^ 31"
    proof -
      have "int j < int (2 ^ 31)" using 2 sint32_less [of n] by simp
      then show ?thesis by (simp only: of_nat_less_iff)
    qed
    then have "sint m \<le> int (jump_step j ?key)" using jump_step_bounds(1) [of j ?key] 2 "1.prems" by linarith
    then have "jump_loop key m b j = int j"
      using 2 "1.prems" by (simp add: jump_loop.simps [of key m b] jump_loop.simps [of ?key m] Let_def)
    then show ?thesis using 2 by simp
  next
    case 3
    then show ?thesis using "1.prems" by (simp add: jump_loop.simps [of key m b] jump_loop.simps [of key n b])
  qed
qed

lemma sint_jump_consistent_hash:
  assumes "0 < sint n"
  shows "sint (jump_consistent_hash key n) = jump_loop key n (-1) 0"
proof -
  have "0 \<le> jump_loop key n (-1) 0" "jump_loop key n (-1) 0 < 2 ^ 31"
    using jump_loop_result [of n 0 "-1" key] assms sint32_less [of n] by auto
  then have "signed_take_bit 31 (jump_loop key n (-1) 0) = jump_loop key n (-1) 0"
    by (intro signed_take_bit_int_eq_self) auto
  then show ?thesis by (simp add: jump_consistent_hash_def signed_of_int)
qed

text \<open>C18: The jump consistent hash returns, in the IEEE arithmetic the code uses, one of the given
  number of segments. When a segment is added, a key either stays where it is or moves to the new
  segment. The bucket numbers computed on the way grow and fit a signed 64-bit integer.\<close>

theorem jump_hash_minimal_movement:
  assumes "0 < sint n"
  shows "0 \<le> sint (jump_consistent_hash key n) \<and> sint (jump_consistent_hash key n) < sint n \<and>
    (sint m = sint n + 1 \<longrightarrow>
       jump_consistent_hash key m = jump_consistent_hash key n \<or> jump_consistent_hash key m = n) \<and>
    (\<forall>b k. int b < sint n \<longrightarrow> b < jump_step b k \<and> jump_step b k < 2 ^ 63)"
proof (intro conjI allI impI)
  show "0 \<le> sint (jump_consistent_hash key n)" "sint (jump_consistent_hash key n) < sint n"
    using jump_loop_result [of n 0 "-1" key] assms unfolding sint_jump_consistent_hash [OF assms] by auto
  show "jump_consistent_hash key m = jump_consistent_hash key n \<or> jump_consistent_hash key m = n"
    if "sint m = sint n + 1"
    using jump_loop_grow [OF that, of key "-1" 0] by (auto simp: jump_consistent_hash_def)
  fix b k assume b: "int b < sint n"
  then have "int b < int (2 ^ 31)" using sint32_less [of n] by simp
  then have "b < 2 ^ 31" by (simp only: of_nat_less_iff)
  from jump_step_bounds [OF this, of k] show "b < jump_step b k" "jump_step b k < 2 ^ 63" by simp_all
qed

theorem jump_hash_minimal_movement_witness:
  "sint (jump_consistent_hash 42 3) < 3 \<and>
   (jump_consistent_hash 42 4 = jump_consistent_hash 42 3 \<or> jump_consistent_hash 42 4 = 3)"
  using jump_hash_minimal_movement [of 3 42 4] by simp

section \<open>The chosen segment exists\<close>

lemma bit_word_odd: "bit (w :: 'a::len word) k \<longleftrightarrow> odd (unat w div 2 ^ k)"
proof -
  have "bit (unat w) k \<longleftrightarrow> bit w k" by (simp add: bit_unsigned_iff)
  then show ?thesis by (simp only: bit_iff_odd [of "unat w"])
qed

lemma ispowof2_power:
  assumes "ispowof2 n" "n \<noteq> 0"
  shows "\<exists>k < 32. n = 2 ^ k"
proof -
  define k where "k = ilog2 (unat n)"
  have "1 \<le> unat n" using assms(2) by (simp add: Suc_le_eq unat_gt_0)
  then have k: "2 ^ k \<le> unat n" "unat n < 2 ^ Suc k" using ilog2_bounds unfolding k_def by blast+
  have "unat n < 2 ^ LENGTH(32)" by (rule unsigned_less)
  then have "(2::nat) ^ k < 2 ^ 32" using k(1) by simp
  then have k32: "k < 32" by (rule power_less_imp_less_exp [rotated]) simp
  have "unat n = 2 ^ k"
  proof (rule ccontr)
    assume "unat n \<noteq> 2 ^ k"
    then have less: "2 ^ k < unat n" using k(1) by simp
    have pred: "unat (n - 1) = unat n - 1" using assms(2) by (simp add: unat_minus_one)
    have "unat n div 2 ^ k = 1" using k by (intro div_nat_eqI) auto
    moreover have "unat (n - 1) div 2 ^ k = 1" unfolding pred using k less by (intro div_nat_eqI) auto
    ultimately have "bit n k" "bit (n - 1) k" unfolding bit_word_odd by simp_all
    then have "bit (n AND (n - 1)) k" by (simp add: bit_and_iff)
    then show False using assms(1) by (simp add: ispowof2_def)
  qed
  moreover have "unat (2 ^ k :: 32 word) = 2 ^ k" using k32 by (intro unat_two_power) simp
  ultimately have "n = 2 ^ k" by (intro unsigned_word_eqI [where 'a = nat]) simp
  then show ?thesis using k32 by blast
qed

lemma uint_nonneg_sint:
  assumes "0 \<le> sint (w :: 32 word)"
  shows "uint w = sint w"
proof -
  have "take_bit LENGTH(32) (sint w) = sint w"
    using assms sint32_less [of w] by (intro take_bit_int_eq_self) auto
  then have "uint (word_of_int (sint w) :: 32 word) = sint w" by (simp only: uint_word_of_int_eq)
  then show ?thesis by simp
qed

text \<open>For a power of two the bit mask is the remainder.\<close>

lemma reduce_bitmask_mod:
  assumes "ispowof2 n" "n \<noteq> 0"
  shows "x AND (n - 1) = x mod n"
proof -
  obtain k where "n = 2 ^ k" using ispowof2_power [OF assms] by blast
  then show ?thesis by (simp add: take_bit_eq_mod [symmetric] take_bit_eq_mask mask_eq_exp_minus_1)
qed

lemma cdbhashreduce_range:
  assumes "0 < sint (numsegs h)" "reducealg h = REDUCE_BITMASK \<longrightarrow> ispowof2 (numsegs h)"
  shows "uint (cdbhashreduce h) < uint (numsegs h)"
proof -
  have n: "uint (numsegs h) = sint (numsegs h)" using assms(1) by (intro uint_nonneg_sint) simp
  then have n0: "numsegs h \<noteq> 0" using assms(1) by auto
  have mod: "uint (hash h mod numsegs h) < uint (numsegs h)"
    using n assms(1) by (simp add: uint_mod_distrib)
  show ?thesis
  proof (cases "reducealg h")
    case REDUCE_JUMP_HASH
    let ?j = "jump_consistent_hash (ucast (hash h)) (numsegs h)"
    have j: "0 \<le> sint ?j" "sint ?j < sint (numsegs h)"
      using jump_loop_result [of "numsegs h" 0 "-1" "ucast (hash h)"] assms(1)
      unfolding sint_jump_consistent_hash [OF assms(1)] by auto
    show ?thesis using REDUCE_JUMP_HASH n j uint_nonneg_sint [OF j(1)] by (simp add: cdbhashreduce_def)
  qed (use mod assms(2) reduce_bitmask_mod n0 in \<open>simp_all add: cdbhashreduce_def\<close>)
qed

text \<open>The fields that hashing leaves alone, and the stash.\<close>

lemma cdbhash_keeps:
  assumes "cdbhash stash h attno datum = (stash', Inr h')"
  shows "numsegs h' = numsegs h" "reducealg h' = reducealg h" "is_legacy_hash h' = is_legacy_hash h"
    "hashfuncs h' = hashfuncs h" "stash' = (if is_legacy_hash h then FNV1_32_INIT else stash)"
  using assms by (auto simp: cdbhash_def Let_def split: if_splits option.splits)

lemma hash_keys_keeps:
  "hash_keys stash h i keys = (stash', Inr h') \<Longrightarrow>
   numsegs h' = numsegs h \<and> reducealg h' = reducealg h \<and> is_legacy_hash h' = is_legacy_hash h \<and>
   (stash' = stash \<or> is_legacy_hash h \<and> stash' = FNV1_32_INIT)"
proof (induction stash h i keys rule: hash_keys.induct)
  case (2 stash h i key keys)
  then obtain stash1 h1 where c: "cdbhash stash h (i + 1) key = (stash1, Inr h1)" "hash_keys stash1 h1 (i + 1) keys = (stash', Inr h')"
    by (auto split: prod.splits sum.splits)
  then show ?case using 2(1) [OF c(1) [symmetric] refl c(2)] cdbhash_keeps [OF c(1)] by auto
qed auto

lemma hash_keys_error:
  "hash_keys stash h i keys = (stash', Inl e) \<Longrightarrow> e = ERROR ''function returned NULL''"
proof (induction stash h i keys rule: hash_keys.induct)
  case (2 stash h i key keys)
  show ?case
  proof (cases "cdbhash stash h (i + 1) key")
    case (Pair stash1 r)
    then show ?thesis
      using 2 by (cases r) (auto simp: cdbhash_def Let_def split: if_splits option.splits)
  qed
qed auto


text \<open>The function manager for a single column of a type with the given legacy hash function.\<close>

definition legacy_fmgr :: "(uint32 \<Rightarrow> 'd \<Rightarrow> uint32) \<Rightarrow> nat \<Rightarrow> uint32 \<Rightarrow> 'd \<Rightarrow> uint32 option" where
  "legacy_fmgr f oid stash v = (if isLegacyCdbHashFunction oid then Some (f stash v) else None)"

lemma single_key_segment:
  "isLegacyCdbHashFunction oid \<Longrightarrow> \<not> ispowof2 nsegs \<Longrightarrow>
   evalHashKey r stash (makeCdbHash (legacy_fmgr f) nsegs [oid]) [Some v] =
     (FNV1_32_INIT, Inr (f FNV1_32_INIT v mod nsegs))"
  by (simp add: evalHashKey_def makeCdbHash_def cdbhashinit_def cdbhash_def cdbhashreduce_def legacy_fmgr_def Let_def)

lemma legacy_oids: "isLegacyCdbHashFunction 6148" "isLegacyCdbHashFunction 7190" "isLegacyCdbHashFunction 6141"
  by (simp_all add: isLegacyCdbHashFunction_def legacy_hash_oids_def)

lemma three_not_power: "\<not> ispowof2 3"
  by (simp add: ispowof2_def)

lemmas fnv_values = hashFn_def fnv1_32_buf_def fnv1_step_prime FNV_32_PRIME_def FNV1_32_INIT_def

lemma sample_bytes:
  "bytes_of (0 :: 64 word) = [0, 0, 0, 0, 0, 0, 0, 0]" "bytes_of (0 :: 32 word) = [0, 0, 0, 0]"
  "bytes_of (30 :: 32 word) = [30, 0, 0, 0]" "bytes_of (1 :: 64 word) = [1, 0, 0, 0, 0, 0, 0, 0]"
  "bytes_of (5 :: 64 word) = [5, 0, 0, 0, 0, 0, 0, 0]" "bytes_of (1 :: 32 word) = [1, 0, 0, 0]"
  by code_simp+


text \<open>C20: Two pairs of values that their types call equal are sent to different segments of three by
  the legacy hash: the empty and the blank string of type \<^verbatim>\<open>bpchar\<close>, because a single blank is
  not ignored, and the intervals of one month and of thirty days, because the bytes hashed are those
  of the time and the days.\<close>

theorem legacy_hash_splits_equal_values:
  "bpchareq [] [32] \<and>
   snd (evalHashKey 0 FNV1_32_INIT (makeCdbHash (legacy_fmgr cdblegacyhash_bpchar) 3 [6148]) [Some []]) = Inr 1 \<and>
   snd (evalHashKey 0 FNV1_32_INIT (makeCdbHash (legacy_fmgr cdblegacyhash_bpchar) 3 [6148]) [Some [32]]) = Inr 2 \<and>
   interval_eq \<lparr>iv_time = 0, iv_day = 0, iv_month = 1\<rparr> \<lparr>iv_time = 0, iv_day = 30, iv_month = 0\<rparr> \<and>
   snd (evalHashKey 0 FNV1_32_INIT (makeCdbHash (legacy_fmgr cdblegacyhash_interval) 3 [7190])
     [Some \<lparr>iv_time = 0, iv_day = 0, iv_month = 1\<rparr>]) = Inr 1 \<and>
   snd (evalHashKey 0 FNV1_32_INIT (makeCdbHash (legacy_fmgr cdblegacyhash_interval) 3 [7190])
     [Some \<lparr>iv_time = 0, iv_day = 30, iv_month = 0\<rparr>]) = Inr 2"
proof (intro conjI)
  show "bpchareq [] [32]" by code_simp
  show "interval_eq \<lparr>iv_time = 0, iv_day = 0, iv_month = 1\<rparr> \<lparr>iv_time = 0, iv_day = 30, iv_month = 0\<rparr>" by code_simp
qed (simp_all add: single_key_segment [OF legacy_oids(1) three_not_power] single_key_segment [OF legacy_oids(2) three_not_power]
       cdblegacyhash_bpchar_def cdblegacyhash_text_def cdblegacyhash_interval_def sample_bytes fnv_values)

text \<open>When a legacy hash function fails in \<^verbatim>\<open>cdbhash\<close>, the error leaves in
  \<^verbatim>\<open>magic_hash_stash\<close> the hash of the columns before it. A legacy function that is then called
  directly, outside \<^verbatim>\<open>cdbhash\<close>, does not compute the hash of a single column.\<close>

theorem legacy_error_leaves_stash:
  "(cdbhash stash h attno datum = (stash', Inl e) \<and> is_legacy_hash h \<longrightarrow> stash' = hash h) \<and>
   (case evalHashKey 0 FNV1_32_INIT (makeCdbHash (\<lambda>oid stash v. if oid = 6141 then Some (cdblegacyhash_int4 stash v) else None)
           3 [6141, 99]) [Some 5, Some 6] of
      (stash, r) \<Rightarrow> r = Inl (ERROR ''function returned NULL'') \<and>
        cdblegacyhash_int4 stash 1 \<noteq> cdblegacyhash_int4 FNV1_32_INIT 1)"
proof (intro conjI impI)
  show "stash' = hash h" if "cdbhash stash h attno datum = (stash', Inl e) \<and> is_legacy_hash h"
    using that by (auto simp: cdbhash_def Let_def split: option.splits)
  have "cdblegacyhash_int4 stash 5 = hashFn stash [5, 0, 0, 0, 0, 0, 0, 0]"
    "cdblegacyhash_int4 stash 1 = hashFn stash [1, 0, 0, 0, 0, 0, 0, 0]" for stash
    by (simp_all add: cdblegacyhash_int4_def sample_bytes)
  then show "case evalHashKey 0 FNV1_32_INIT (makeCdbHash (\<lambda>oid stash v. if oid = 6141 then Some (cdblegacyhash_int4 stash v) else None)
         3 [6141, 99]) [Some 5, Some 6] of
      (stash, r) \<Rightarrow> r = Inl (ERROR ''function returned NULL'') \<and>
        cdblegacyhash_int4 stash 1 \<noteq> cdblegacyhash_int4 FNV1_32_INIT 1"
    by (simp add: evalHashKey_def makeCdbHash_def cdbhashinit_def cdbhash_def legacy_oids Let_def fnv_values)
qed

theorem legacy_error_leaves_stash_witness:
  "cdbhash 0 \<lparr>hash = 77, numsegs = 3, reducealg = REDUCE_LAZYMOD, is_legacy_hash = True, natts = 1,
     hashfuncs = [\<lparr>fn_oid = 6141, fn_call = (\<lambda>_ (_::unit). None)\<rparr>]\<rparr> 1 (Some ()) =
   (77, Inl (ERROR ''function returned NULL''))"
proof -
  let ?h = "\<lparr>hash = 77, numsegs = 3, reducealg = REDUCE_LAZYMOD, is_legacy_hash = True, natts = 1,
     hashfuncs = [\<lparr>fn_oid = 6141, fn_call = (\<lambda>_ (_::unit). None)\<rparr>]\<rparr> :: unit CdbHash"
  have "snd (cdbhash 0 ?h 1 (Some ())) = Inl (ERROR ''function returned NULL'')"
    by (simp add: cdbhash_def)
  then show ?thesis
    using legacy_error_leaves_stash [of 0 ?h 1 "Some ()" "fst (cdbhash 0 ?h 1 (Some ()))" "ERROR ''function returned NULL''"]
    by (metis (no_types, lifting) CdbHash.select_convs(1) CdbHash.select_convs(4) prod.collapse)
qed

end
