(* ===== verification/FtsProbe.thy ===== *)
theory FtsProbe
  imports CB_Prelude "HOL-Library.Sublist"
begin

text \<open>
  Model of the prober of the fault tolerance service, \<^verbatim>\<open>src/backend/fts/ftsprobe.c\<close>, which asks
  the primary of every pair of segments for its state, marks segments as down in the catalog, and
  promotes mirrors. A cycle is a loop of six steps over the pairs: connect, poll, send, receive,
  retry, process. The catalog update is \<^verbatim>\<open>probeWalRepUpdateConfig\<close> of \<^verbatim>\<open>src/backend/fts/fts.c\<close>.

  The outcome of a call of libpq, of \<^verbatim>\<open>poll\<close> and of \<^verbatim>\<open>time\<close> depends on the network and on the
  segments: the calls of one round of the loop are the functions of a record \<open>fts_env\<close>, on
  connections of an arbitrary type, and a cycle runs against a sequence of such records. Log
  messages have no effect. Assertions are compiled out.
\<close>

section \<open>Segments, states and responses\<close>

definition GP_SEGMENT_CONFIGURATION_ROLE_PRIMARY :: char where "GP_SEGMENT_CONFIGURATION_ROLE_PRIMARY = CHR ''p''"
definition GP_SEGMENT_CONFIGURATION_ROLE_MIRROR :: char where "GP_SEGMENT_CONFIGURATION_ROLE_MIRROR = CHR ''m''"
definition GP_SEGMENT_CONFIGURATION_STATUS_UP :: char where "GP_SEGMENT_CONFIGURATION_STATUS_UP = CHR ''u''"
definition GP_SEGMENT_CONFIGURATION_STATUS_DOWN :: char where "GP_SEGMENT_CONFIGURATION_STATUS_DOWN = CHR ''d''"
definition GP_SEGMENT_CONFIGURATION_MODE_INSYNC :: char where "GP_SEGMENT_CONFIGURATION_MODE_INSYNC = CHR ''s''"
definition GP_SEGMENT_CONFIGURATION_MODE_NOTINSYNC :: char where "GP_SEGMENT_CONFIGURATION_MODE_NOTINSYNC = CHR ''n''"

lemmas fts_chars = GP_SEGMENT_CONFIGURATION_ROLE_PRIMARY_def GP_SEGMENT_CONFIGURATION_ROLE_MIRROR_def
  GP_SEGMENT_CONFIGURATION_STATUS_UP_def GP_SEGMENT_CONFIGURATION_STATUS_DOWN_def
  GP_SEGMENT_CONFIGURATION_MODE_INSYNC_def GP_SEGMENT_CONFIGURATION_MODE_NOTINSYNC_def

record GpSegConfigEntry =
  seg_dbid :: int
  seg_index :: int
  seg_role :: char
  seg_mode :: char
  seg_status :: char
  seg_port :: int
  seg_hostip :: "string option"

definition SEGMENT_IS_ACTIVE_PRIMARY :: "GpSegConfigEntry \<Rightarrow> bool" where
  "SEGMENT_IS_ACTIVE_PRIMARY p \<longleftrightarrow> seg_role p = GP_SEGMENT_CONFIGURATION_ROLE_PRIMARY"

definition SEGMENT_IS_ALIVE :: "GpSegConfigEntry \<Rightarrow> bool" where
  "SEGMENT_IS_ALIVE p \<longleftrightarrow> seg_status p = GP_SEGMENT_CONFIGURATION_STATUS_UP"

definition SEGMENT_IS_IN_SYNC :: "GpSegConfigEntry \<Rightarrow> bool" where
  "SEGMENT_IS_IN_SYNC p \<longleftrightarrow> seg_mode p = GP_SEGMENT_CONFIGURATION_MODE_INSYNC"

datatype FtsMessageState =
    FTS_PROBE_SEGMENT | FTS_SYNCREP_OFF_SEGMENT | FTS_PROMOTE_SEGMENT
  | FTS_PROBE_RETRY_WAIT | FTS_SYNCREP_OFF_RETRY_WAIT | FTS_PROMOTE_RETRY_WAIT
  | FTS_PROBE_SUCCESS | FTS_SYNCREP_OFF_SUCCESS | FTS_PROMOTE_SUCCESS
  | FTS_PROBE_FAILED | FTS_SYNCREP_OFF_FAILED | FTS_PROMOTE_FAILED
  | FTS_RESPONSE_PROCESSED

datatype PMRestartState =
    PM_NOT_IN_RESTART | PM_IN_RESETTING
  | PM_IN_RECOVERY_MAKING_PROGRESS | PM_IN_RECOVERY_NOT_MAKING_PROGRESS

definition IsFtsMessageStateSuccess :: "FtsMessageState \<Rightarrow> bool" where
  "IsFtsMessageStateSuccess s \<longleftrightarrow> s = FTS_PROBE_SUCCESS \<or> s = FTS_SYNCREP_OFF_SUCCESS \<or> s = FTS_PROMOTE_SUCCESS"

definition IsFtsMessageStateFailed :: "FtsMessageState \<Rightarrow> bool" where
  "IsFtsMessageStateFailed s \<longleftrightarrow> s = FTS_PROBE_FAILED \<or> s = FTS_SYNCREP_OFF_FAILED \<or> s = FTS_PROMOTE_FAILED"

record fts_result =
  isPrimaryAlive :: bool
  isMirrorAlive :: bool
  isInSync :: bool
  isSyncRepEnabled :: bool
  isRoleMirror :: bool
  retryRequested :: bool

text \<open>The result cleared by \<^verbatim>\<open>memset\<close>.\<close>

definition no_result :: fts_result where
  "no_result = \<lparr>isPrimaryAlive = False, isMirrorAlive = False, isInSync = False, isSyncRepEnabled = False,
     isRoleMirror = False, retryRequested = False\<rparr>"

record 'c fts_segment_info =
  primary_cdbinfo :: GpSegConfigEntry
  mirror_cdbinfo :: GpSegConfigEntry
  seg_result :: fts_result
  seg_state :: FtsMessageState
  poll_events :: "16 word"
  poll_revents :: "16 word"
  fd_index :: int
  startTime :: int
  retryStartTime :: int
  seg_conn :: "'c option"
  retry_count :: nat
  xlogrecptr :: uint64
  restart_state :: PMRestartState
  timeout_count :: nat

text \<open>The parameters \<^verbatim>\<open>gp_fts_probe_retries\<close> and \<^verbatim>\<open>gp_fts_probe_timeout\<close>, which do not change
  during a cycle.\<close>

record fts_guc =
  gp_fts_probe_retries :: nat
  gp_fts_probe_timeout :: int

section \<open>The environment of a round\<close>

text \<open>The bits of \<^verbatim>\<open>poll.h\<close>.\<close>

definition POLLIN :: "16 word" where "POLLIN = 1"
definition POLLOUT :: "16 word" where "POLLOUT = 4"
definition POLLERR :: "16 word" where "POLLERR = 8"
definition POLLHUP :: "16 word" where "POLLHUP = 16"

lemmas poll_bits = POLLIN_def POLLOUT_def POLLERR_def POLLHUP_def

datatype ConnStatusType = CONNECTION_OK | CONNECTION_BAD | CONNECTION_STARTED
datatype PostgresPollingStatusType = PGRES_POLLING_FAILED | PGRES_POLLING_READING | PGRES_POLLING_WRITING | PGRES_POLLING_OK | PGRES_POLLING_ACTIVE
datatype poll_outcome = POLL_READY nat | POLL_EINTR | POLL_FAILED

text \<open>A result of libpq: whether its status is \<^verbatim>\<open>PGRES_TUPLES_OK\<close>, its dimensions, and the first byte
  of each field of its first row. \<open>CONNECTION_STARTED\<close> stands for every status that is neither
  \<^verbatim>\<open>CONNECTION_OK\<close> nor \<^verbatim>\<open>CONNECTION_BAD\<close>.\<close>

record PGresult =
  tuples_ok :: bool
  PQntuples :: nat
  PQnfields :: nat
  PQgetvalue :: "nat \<Rightarrow> uint8"

record 'c fts_env =
  PQconnectStart :: "string \<Rightarrow> 'c option"
  conn_status :: "'c \<Rightarrow> ConnStatusType"
  async_idle :: "'c \<Rightarrow> bool"
  PQconnectPoll :: "'c \<Rightarrow> PostgresPollingStatusType \<times> 'c"
  PQerrorMessage :: "'c \<Rightarrow> string"
  PQsocket :: "'c \<Rightarrow> int"
  PQsendQuery :: "'c \<Rightarrow> string \<Rightarrow> bool \<times> 'c"
  PQconsumeInput :: "'c \<Rightarrow> bool \<times> 'c"
  PQisBusy :: "'c \<Rightarrow> bool \<times> 'c"
  PQgetResult :: "'c \<Rightarrow> PGresult option \<times> 'c"
  poll :: "(int \<times> 16 word) list \<Rightarrow> poll_outcome \<times> 16 word list"
  time_connect :: int
  time_poll :: int
  time_retry :: int
  active_at :: "nat \<Rightarrow> bool"
  loop_active :: bool

definition PQstatus :: "'c fts_env \<Rightarrow> 'c option \<Rightarrow> ConnStatusType" where
  "PQstatus env c = (case c of None \<Rightarrow> CONNECTION_BAD | Some c \<Rightarrow> conn_status env c)"

section \<open>Numbers in messages\<close>

text \<open>The conversions \<^verbatim>\<open>%d\<close> of \<^verbatim>\<open>snprintf\<close> and \<^verbatim>\<open>%X\<close> of \<^verbatim>\<open>sscanf\<close>. The latter skips blanks, takes an
  optional sign and prefix, and stores the value of \<^verbatim>\<open>strtoul\<close> in 32 bits.\<close>

definition digit_char :: "nat \<Rightarrow> char" where
  "digit_char d = char_of (48 + d)"

fun show_nat :: "nat \<Rightarrow> string" where
  "show_nat n = (if n < 10 then [digit_char n] else show_nat (n div 10) @ [digit_char (n mod 10)])"

declare show_nat.simps [simp del]

definition show_int :: "int \<Rightarrow> string" where
  "show_int i = (if i < 0 then CHR ''-'' # show_nat (nat (- i)) else show_nat (nat i))"

definition is_blank :: "char \<Rightarrow> bool" where
  "is_blank c \<longleftrightarrow> (of_char c :: nat) = 32 \<or> (9 \<le> (of_char c :: nat) \<and> (of_char c :: nat) \<le> 13)"

definition hex_digit :: "char \<Rightarrow> nat option" where
  "hex_digit c =
     (let n = of_char c :: nat
      in if 48 \<le> n \<and> n \<le> 57 then Some (n - 48)
         else if 65 \<le> n \<and> n \<le> 70 then Some (n - 55)
         else if 97 \<le> n \<and> n \<le> 102 then Some (n - 87) else None)"

fun scan_hex_digits :: "nat \<Rightarrow> string \<Rightarrow> nat \<times> string" where
  "scan_hex_digits v [] = (v, [])"
| "scan_hex_digits v (c # s) = (case hex_digit c of Some d \<Rightarrow> scan_hex_digits (16 * v + d) s | None \<Rightarrow> (v, c # s))"

definition strtoul32 :: "bool \<Rightarrow> nat \<Rightarrow> uint32" where
  "strtoul32 neg v = (if 2 ^ 64 \<le> v then - 1 else if neg then - word_of_nat v else word_of_nat v)"

definition skip_hex_prefix :: "string \<Rightarrow> string" where
  "skip_hex_prefix s =
     (case s of
        a # x # d # rest \<Rightarrow>
          if a = CHR ''0'' \<and> (x = CHR ''x'' \<or> x = CHR ''X'') \<and> hex_digit d \<noteq> None then d # rest else s
      | _ \<Rightarrow> s)"

definition scan_hex :: "string \<Rightarrow> (uint32 \<times> string) option" where
  "scan_hex s =
     (let s = dropWhile is_blank s;
          neg = (s \<noteq> [] \<and> hd s = CHR ''-'');
          s = (if s \<noteq> [] \<and> (hd s = CHR ''-'' \<or> hd s = CHR ''+'') then tl s else s);
          s = skip_hex_prefix s
      in if s = [] \<or> hex_digit (hd s) = None then None
         else case scan_hex_digits 0 s of (v, rest) \<Rightarrow> Some (strtoul32 neg v, rest))"

text \<open>\<^verbatim>\<open>strstr\<close> as the suffix that starts with the first occurrence.\<close>

fun strstr :: "string \<Rightarrow> string \<Rightarrow> string option" where
  "strstr s t = (if prefix t s then Some s else case s of [] \<Rightarrow> None | _ # s' \<Rightarrow> strstr s' t)"

declare strstr.simps [simp del]

section \<open>The states\<close>

definition nextSuccessState :: "FtsMessageState \<Rightarrow> FtsMessageState result" where
  "nextSuccessState s =
     (case s of
        FTS_PROBE_SEGMENT \<Rightarrow> Inr FTS_PROBE_SUCCESS
      | FTS_SYNCREP_OFF_SEGMENT \<Rightarrow> Inr FTS_SYNCREP_OFF_SUCCESS
      | FTS_PROMOTE_SEGMENT \<Rightarrow> Inr FTS_PROMOTE_SUCCESS
      | _ \<Rightarrow> Inl (ERROR ''cannot determine next success state''))"

definition nextFailedState :: "FtsMessageState \<Rightarrow> FtsMessageState result" where
  "nextFailedState s =
     (case s of
        FTS_PROBE_SEGMENT \<Rightarrow> Inr FTS_PROBE_FAILED
      | FTS_SYNCREP_OFF_SEGMENT \<Rightarrow> Inr FTS_SYNCREP_OFF_FAILED
      | FTS_PROMOTE_SEGMENT \<Rightarrow> Inr FTS_PROMOTE_FAILED
      | FTS_PROBE_FAILED \<Rightarrow> Inr FTS_PROBE_FAILED
      | FTS_SYNCREP_OFF_FAILED \<Rightarrow> Inr FTS_SYNCREP_OFF_FAILED
      | FTS_PROMOTE_FAILED \<Rightarrow> Inr FTS_PROMOTE_FAILED
      | FTS_PROBE_RETRY_WAIT \<Rightarrow> Inr FTS_PROBE_FAILED
      | FTS_SYNCREP_OFF_RETRY_WAIT \<Rightarrow> Inr FTS_SYNCREP_OFF_FAILED
      | FTS_PROMOTE_RETRY_WAIT \<Rightarrow> Inr FTS_PROMOTE_FAILED
      | _ \<Rightarrow> Inl (ERROR ''cannot determine next failed state''))"

definition allDone :: "'c fts_segment_info list \<Rightarrow> bool" where
  "allDone context \<longleftrightarrow> list_all (\<lambda>ftsInfo. seg_state ftsInfo = FTS_RESPONSE_PROCESSED) context"

text \<open>The states in which a message is sent to the segment.\<close>

definition messaging :: "FtsMessageState \<Rightarrow> bool" where
  "messaging s \<longleftrightarrow> s = FTS_PROBE_SEGMENT \<or> s = FTS_SYNCREP_OFF_SEGMENT \<or> s = FTS_PROMOTE_SEGMENT"

text \<open>The assignment \<^verbatim>\<open>ftsInfo->state = nextFailedState(ftsInfo->state)\<close>.\<close>

definition fail_segment :: "'c fts_segment_info \<Rightarrow> 'c fts_segment_info result" where
  "fail_segment ftsInfo =
     (case nextFailedState (seg_state ftsInfo) of
        Inl e \<Rightarrow> Inl e
      | Inr s \<Rightarrow> Inr (ftsInfo\<lparr>seg_state := s\<rparr>))"

text \<open>A loop over the pairs of segments, left at the first error.\<close>

fun each_segment :: "('c fts_segment_info \<Rightarrow> 'c fts_segment_info result) \<Rightarrow> 'c fts_segment_info list \<Rightarrow> 'c fts_segment_info list result" where
  "each_segment f [] = Inr []"
| "each_segment f (x # xs) =
     (case f x of
        Inl e \<Rightarrow> Inl e
      | Inr y \<Rightarrow> (case each_segment f xs of Inl e \<Rightarrow> Inl e | Inr ys \<Rightarrow> Inr (y # ys)))"

section \<open>Connecting\<close>

definition GPCONN_TYPE_FTS :: string where "GPCONN_TYPE_FTS = ''fts''"

definition conninfo :: "GpSegConfigEntry \<Rightarrow> string" where
  "conninfo p = take 1023 (''host='' @ (case seg_hostip p of Some h \<Rightarrow> h | None \<Rightarrow> []) @
     '' port='' @ show_int (seg_port p) @ '' gpconntype='' @ GPCONN_TYPE_FTS)"

definition ftsConnectStart :: "'c fts_env \<Rightarrow> 'c fts_segment_info \<Rightarrow> (bool \<times> 'c fts_segment_info) result" where
  "ftsConnectStart env ftsInfo =
     (case PQconnectStart env (conninfo (primary_cdbinfo ftsInfo)) of
        None \<Rightarrow> Inl (ERROR ''FTS: cannot create libpq connection object, possibly out of memory'')
      | Some c \<Rightarrow>
          if conn_status env c = CONNECTION_BAD then Inr (False, ftsInfo\<lparr>seg_conn := Some c\<rparr>)
          else Inr (True, ftsInfo\<lparr>seg_conn := Some c, poll_events := poll_events ftsInfo OR POLLOUT,
                            startTime := time_connect env\<rparr>))"

definition POSTMASTER_IN_STARTUP_MSG :: string where
  "POSTMASTER_IN_STARTUP_MSG = ''the database system is starting up''"
definition POSTMASTER_IN_RESET_MSG :: string where
  "POSTMASTER_IN_RESET_MSG = ''the database system is resetting''"
definition POSTMASTER_IN_RECOVERY_MSG :: string where
  "POSTMASTER_IN_RECOVERY_MSG = ''the database system is in recovery mode''"
definition POSTMASTER_IN_RECOVERY_DETAIL_MSG :: string where
  "POSTMASTER_IN_RECOVERY_DETAIL_MSG = ''last replayed record at''"

text \<open>The scan of \<^verbatim>\<open>" %X/%X\n"\<close> behind the detail message.\<close>

definition scan_replayed :: "string \<Rightarrow> (uint32 \<times> uint32) option" where
  "scan_replayed s =
     (case scan_hex (drop (length POSTMASTER_IN_RECOVERY_DETAIL_MSG) s) of
        Some (xlogid, c # rest) \<Rightarrow>
          if c = CHR ''/'' then map_option (\<lambda>(xrecoff, _). (xlogid, xrecoff)) (scan_hex rest) else None
      | _ \<Rightarrow> None)"

definition checkIfFailedDueToNormalRestart :: "string \<Rightarrow> 'c fts_segment_info \<Rightarrow> 'c fts_segment_info" where
  "checkIfFailedDueToNormalRestart msg ftsInfo =
     (if strstr msg POSTMASTER_IN_RECOVERY_MSG \<noteq> None \<or> strstr msg POSTMASTER_IN_STARTUP_MSG \<noteq> None
      then case Option.bind (strstr msg POSTMASTER_IN_RECOVERY_DETAIL_MSG) scan_replayed of
             None \<Rightarrow> ftsInfo
           | Some (tmp_xlogid, tmp_xrecoff) \<Rightarrow>
               let tmpptr = push_bit 32 (ucast tmp_xlogid) OR ucast tmp_xrecoff :: uint64
               in if tmpptr \<le> xlogrecptr ftsInfo
                  then ftsInfo\<lparr>restart_state := PM_IN_RECOVERY_NOT_MAKING_PROGRESS\<rparr>
                  else ftsInfo\<lparr>restart_state := PM_IN_RECOVERY_MAKING_PROGRESS, xlogrecptr := tmpptr\<rparr>
      else if strstr msg POSTMASTER_IN_RESET_MSG \<noteq> None then ftsInfo\<lparr>restart_state := PM_IN_RESETTING\<rparr>
      else ftsInfo)"

text \<open>The body of the loop of \<^verbatim>\<open>ftsConnect\<close>.\<close>

definition connect_segment :: "'c fts_env \<Rightarrow> 'c fts_segment_info \<Rightarrow> 'c fts_segment_info result" where
  "connect_segment env ftsInfo =
     (if seg_conn ftsInfo \<noteq> None \<and> PQstatus env (seg_conn ftsInfo) = CONNECTION_OK then Inr ftsInfo
      else if messaging (seg_state ftsInfo)
      then let ftsInfo = ftsInfo\<lparr>restart_state := PM_NOT_IN_RESTART\<rparr>
           in case seg_conn ftsInfo of
                None \<Rightarrow>
                  (case ftsConnectStart env ftsInfo of
                     Inl e \<Rightarrow> Inl e
                   | Inr (started, ftsInfo) \<Rightarrow> if \<not> started then fail_segment ftsInfo else Inr ftsInfo)
              | Some c \<Rightarrow>
                  if poll_revents ftsInfo AND (POLLOUT OR POLLIN) \<noteq> 0
                  then case PQconnectPoll env c of
                         (PGRES_POLLING_OK, c) \<Rightarrow> Inr (ftsInfo\<lparr>seg_conn := Some c, poll_events := POLLOUT\<rparr>)
                       | (PGRES_POLLING_READING, c) \<Rightarrow>
                           Inr (ftsInfo\<lparr>seg_conn := Some c, poll_events := poll_events ftsInfo OR POLLIN\<rparr>)
                       | (PGRES_POLLING_WRITING, c) \<Rightarrow>
                           Inr (ftsInfo\<lparr>seg_conn := Some c, poll_events := poll_events ftsInfo OR POLLOUT\<rparr>)
                       | (PGRES_POLLING_FAILED, c) \<Rightarrow>
                           map_sum id (checkIfFailedDueToNormalRestart (PQerrorMessage env c))
                             (fail_segment (ftsInfo\<lparr>seg_conn := Some c\<rparr>))
                       | (PGRES_POLLING_ACTIVE, c) \<Rightarrow> Inl (ERROR ''FTS: invalid response to PQconnectPoll'')
                  else Inr ftsInfo
      else Inr ftsInfo)"

definition ftsConnect :: "'c fts_env \<Rightarrow> 'c fts_segment_info list \<Rightarrow> 'c fts_segment_info list result" where
  "ftsConnect env = each_segment (connect_segment env)"

section \<open>Polling\<close>

text \<open>The conversion of a difference of times to \<^verbatim>\<open>int\<close>.\<close>

definition to_int32 :: "int \<Rightarrow> int" where
  "to_int32 i = signed_take_bit 31 i"

definition ftsCheckTimeout :: "fts_guc \<Rightarrow> int \<Rightarrow> 'c fts_segment_info \<Rightarrow> 'c fts_segment_info result" where
  "ftsCheckTimeout guc now ftsInfo =
     (if \<not> IsFtsMessageStateSuccess (seg_state ftsInfo) \<and> to_int32 (now - startTime ftsInfo) > gp_fts_probe_timeout guc
      then fail_segment (ftsInfo\<lparr>timeout_count := 0\<rparr>)
      else Inr ftsInfo)"

definition polled :: "'c fts_segment_info \<Rightarrow> bool" where
  "polled ftsInfo \<longleftrightarrow> poll_events ftsInfo AND (POLLIN OR POLLOUT) \<noteq> 0"

text \<open>The first loop of \<^verbatim>\<open>ftsPoll\<close>: the descriptors to poll, and the index of each segment in them.\<close>

fun collect_fds :: "'c fts_env \<Rightarrow> nat \<Rightarrow> 'c fts_segment_info list \<Rightarrow> 'c fts_segment_info list \<times> (int \<times> 16 word) list" where
  "collect_fds env nfds [] = ([], [])"
| "collect_fds env nfds (x # xs) =
     (if polled x
      then case collect_fds env (nfds + 1) xs of
             (ys, fds) \<Rightarrow> (x\<lparr>fd_index := int nfds\<rparr> # ys,
               (case seg_conn x of Some c \<Rightarrow> PQsocket env c | None \<Rightarrow> - 1, poll_events x) # fds)
      else case collect_fds env nfds xs of (ys, fds) \<Rightarrow> (x\<lparr>fd_index := - 1\<rparr> # ys, fds))"

text \<open>The body of the second loop, on the bits \<^verbatim>\<open>poll\<close> returned.\<close>

definition poll_segment :: "fts_guc \<Rightarrow> int \<Rightarrow> bool \<Rightarrow> 16 word list \<Rightarrow> 'c fts_segment_info \<Rightarrow> 'c fts_segment_info result" where
  "poll_segment guc now timed_out revents ftsInfo =
     (if polled ftsInfo
      then let ftsInfo = ftsInfo\<lparr>poll_revents := revents ! nat (fd_index ftsInfo)\<rparr>;
               r = (if poll_revents ftsInfo AND poll_events ftsInfo \<noteq> 0 then Inr (ftsInfo\<lparr>poll_events := 0\<rparr>)
                    else if poll_revents ftsInfo AND (POLLHUP OR POLLERR) \<noteq> 0 then fail_segment ftsInfo
                    else if poll_revents ftsInfo \<noteq> 0 then fail_segment ftsInfo
                    else Inr ftsInfo)
           in case r of
                Inl e \<Rightarrow> Inl e
              | Inr ftsInfo \<Rightarrow>
                  ftsCheckTimeout guc now
                    (if \<not> IsFtsMessageStateSuccess (seg_state ftsInfo) \<and> timed_out
                     then ftsInfo\<lparr>timeout_count := timeout_count ftsInfo + 1\<rparr> else ftsInfo)
      else Inr ftsInfo)"

definition ftsPoll :: "fts_guc \<Rightarrow> 'c fts_env \<Rightarrow> 'c fts_segment_info list \<Rightarrow> 'c fts_segment_info list result" where
  "ftsPoll guc env context =
     (case collect_fds env 0 context of
        (context, fds) \<Rightarrow>
          if fds = [] then Inr context
          else case poll env fds of
                 (POLL_FAILED, _) \<Rightarrow> Inl (ERROR ''FTS: ftsPoll() failed'')
               | (nready, revents) \<Rightarrow>
                   each_segment (poll_segment guc (time_poll env) (nready = POLL_READY 0) revents) context)"

section \<open>Sending and receiving\<close>

definition FTS_MSG_PROBE :: string where "FTS_MSG_PROBE = ''PROBE''"
definition FTS_MSG_SYNCREP_OFF :: string where "FTS_MSG_SYNCREP_OFF = ''SYNCREP_OFF''"
definition FTS_MSG_PROMOTE :: string where "FTS_MSG_PROMOTE = ''PROMOTE''"
definition FTS_MSG_MAX_LEN :: nat where "FTS_MSG_MAX_LEN = 100"

text \<open>The text of a message, by \<^verbatim>\<open>FTS_MSG_FORMAT\<close>.\<close>

definition fts_message :: "string \<Rightarrow> int \<Rightarrow> int \<Rightarrow> string" where
  "fts_message message_type dbid contid =
     take (FTS_MSG_MAX_LEN - 1) (message_type @ '' dbid='' @ show_int dbid @ '' contid='' @ show_int contid)"

definition message_type :: "FtsMessageState \<Rightarrow> string" where
  "message_type s = (if s = FTS_PROBE_SEGMENT then FTS_MSG_PROBE
                     else if s = FTS_SYNCREP_OFF_SEGMENT then FTS_MSG_SYNCREP_OFF else FTS_MSG_PROMOTE)"

text \<open>The test before a message is sent, and the body of the loop of \<^verbatim>\<open>ftsSend\<close>.\<close>

definition ready_to_send :: "'c fts_env \<Rightarrow> 'c fts_segment_info \<Rightarrow> bool" where
  "ready_to_send env ftsInfo \<longleftrightarrow>
     (case seg_conn ftsInfo of
        None \<Rightarrow> False
      | Some c \<Rightarrow> conn_status env c = CONNECTION_OK \<and> async_idle env c \<and> poll_revents ftsInfo AND POLLOUT \<noteq> 0)"

definition send_segment :: "'c fts_env \<Rightarrow> 'c fts_segment_info \<Rightarrow> 'c fts_segment_info result" where
  "send_segment env ftsInfo =
     (if messaging (seg_state ftsInfo) \<and> ready_to_send env ftsInfo
      then let message = fts_message (message_type (seg_state ftsInfo))
                 (seg_dbid (primary_cdbinfo ftsInfo)) (seg_index (primary_cdbinfo ftsInfo))
           in case PQsendQuery env (the (seg_conn ftsInfo)) message of
                (True, c) \<Rightarrow> Inr (ftsInfo\<lparr>seg_conn := Some c, poll_events := POLLIN\<rparr>)
              | (False, c) \<Rightarrow> fail_segment (ftsInfo\<lparr>seg_conn := Some c\<rparr>)
      else Inr ftsInfo)"

definition ftsSend :: "'c fts_env \<Rightarrow> 'c fts_segment_info list \<Rightarrow> 'c fts_segment_info list result" where
  "ftsSend env = each_segment (send_segment env)"

definition Natts_fts_message_response :: nat where "Natts_fts_message_response = 5"
definition Anum_fts_message_response_is_mirror_up :: nat where "Anum_fts_message_response_is_mirror_up = 0"
definition Anum_fts_message_response_is_in_sync :: nat where "Anum_fts_message_response_is_in_sync = 1"
definition Anum_fts_message_response_is_syncrep_enabled :: nat where "Anum_fts_message_response_is_syncrep_enabled = 2"
definition Anum_fts_message_response_is_role_mirror :: nat where "Anum_fts_message_response_is_role_mirror = 3"
definition Anum_fts_message_response_request_retry :: nat where "Anum_fts_message_response_request_retry = 4"
definition FTS_MESSAGE_RESPONSE_NTUPLES :: nat where "FTS_MESSAGE_RESPONSE_NTUPLES = 1"

definition probeRecordResponse :: "PGresult \<Rightarrow> fts_result" where
  "probeRecordResponse res =
     \<lparr>isPrimaryAlive = True,
      isMirrorAlive = (PQgetvalue res Anum_fts_message_response_is_mirror_up \<noteq> 0),
      isInSync = (PQgetvalue res Anum_fts_message_response_is_in_sync \<noteq> 0),
      isSyncRepEnabled = (PQgetvalue res Anum_fts_message_response_is_syncrep_enabled \<noteq> 0),
      isRoleMirror = (PQgetvalue res Anum_fts_message_response_is_role_mirror \<noteq> 0),
      retryRequested = (PQgetvalue res Anum_fts_message_response_request_retry \<noteq> 0)\<rparr>"

text \<open>The body of the loop of \<^verbatim>\<open>ftsReceive\<close>.\<close>

definition receive_segment :: "'c fts_env \<Rightarrow> 'c fts_segment_info \<Rightarrow> 'c fts_segment_info result" where
  "receive_segment env ftsInfo =
     (if messaging (seg_state ftsInfo) \<and> PQstatus env (seg_conn ftsInfo) = CONNECTION_OK \<and>
         poll_revents ftsInfo AND POLLIN \<noteq> 0
      then case PQconsumeInput env (the (seg_conn ftsInfo)) of
             (False, c) \<Rightarrow> fail_segment (ftsInfo\<lparr>seg_conn := Some c\<rparr>)
           | (True, c) \<Rightarrow>
               (case PQisBusy env c of
                  (True, c) \<Rightarrow> Inr (ftsInfo\<lparr>seg_conn := Some c\<rparr>)
                | (False, c) \<Rightarrow>
                    (case PQgetResult env c of
                       (None, c) \<Rightarrow> fail_segment (ftsInfo\<lparr>seg_conn := Some c\<rparr>)
                     | (Some res, c) \<Rightarrow>
                         if conn_status env c = CONNECTION_BAD then fail_segment (ftsInfo\<lparr>seg_conn := Some c\<rparr>)
                         else if \<not> tuples_ok res then fail_segment (ftsInfo\<lparr>seg_conn := Some c\<rparr>)
                         else if PQnfields res \<noteq> Natts_fts_message_response \<or> PQntuples res \<noteq> FTS_MESSAGE_RESPONSE_NTUPLES
                         then fail_segment (ftsInfo\<lparr>seg_conn := Some c\<rparr>)
                         else (case nextSuccessState (seg_state ftsInfo) of
                                 Inl e \<Rightarrow> Inl e
                               | Inr s \<Rightarrow> Inr (ftsInfo\<lparr>seg_conn := Some c, seg_result := probeRecordResponse res,
                                                    seg_state := s\<rparr>))))
      else Inr ftsInfo)"

definition ftsReceive :: "'c fts_env \<Rightarrow> 'c fts_segment_info list \<Rightarrow> 'c fts_segment_info list result" where
  "ftsReceive env = each_segment (receive_segment env)"

section \<open>Retrying\<close>

definition retryForFtsFailed :: "fts_guc \<Rightarrow> int \<Rightarrow> 'c fts_segment_info \<Rightarrow> 'c fts_segment_info" where
  "retryForFtsFailed guc now ftsInfo =
     (if retry_count ftsInfo = gp_fts_probe_retries guc then ftsInfo
      else ftsInfo\<lparr>retry_count := retry_count ftsInfo + 1,
             seg_state := (if seg_state ftsInfo = FTS_PROBE_SUCCESS \<or> seg_state ftsInfo = FTS_PROBE_FAILED
                           then FTS_PROBE_RETRY_WAIT
                           else if seg_state ftsInfo = FTS_SYNCREP_OFF_FAILED then FTS_SYNCREP_OFF_RETRY_WAIT
                           else FTS_PROMOTE_RETRY_WAIT),
             retryStartTime := now, seg_conn := None, poll_events := 0, poll_revents := 0,
             seg_result := no_result\<rparr>)"

text \<open>The body of the loop of \<^verbatim>\<open>processRetry\<close>.\<close>

definition retry_segment :: "fts_guc \<Rightarrow> int \<Rightarrow> 'c fts_segment_info \<Rightarrow> 'c fts_segment_info" where
  "retry_segment guc now ftsInfo =
     (case seg_state ftsInfo of
        FTS_PROBE_SUCCESS \<Rightarrow>
          if \<not> (retryRequested (seg_result ftsInfo) \<and> SEGMENT_IS_ALIVE (mirror_cdbinfo ftsInfo)) then ftsInfo
          else retryForFtsFailed guc now ftsInfo
      | FTS_PROBE_FAILED \<Rightarrow> retryForFtsFailed guc now ftsInfo
      | FTS_SYNCREP_OFF_FAILED \<Rightarrow> retryForFtsFailed guc now ftsInfo
      | FTS_PROMOTE_FAILED \<Rightarrow> retryForFtsFailed guc now ftsInfo
      | FTS_PROBE_RETRY_WAIT \<Rightarrow>
          if to_int32 (now - retryStartTime ftsInfo) < 1 then ftsInfo else ftsInfo\<lparr>seg_state := FTS_PROBE_SEGMENT\<rparr>
      | FTS_SYNCREP_OFF_RETRY_WAIT \<Rightarrow>
          if to_int32 (now - retryStartTime ftsInfo) < 1 then ftsInfo else ftsInfo\<lparr>seg_state := FTS_SYNCREP_OFF_SEGMENT\<rparr>
      | FTS_PROMOTE_RETRY_WAIT \<Rightarrow>
          if to_int32 (now - retryStartTime ftsInfo) < 1 then ftsInfo else ftsInfo\<lparr>seg_state := FTS_PROMOTE_SEGMENT\<rparr>
      | _ \<Rightarrow> ftsInfo)"

definition processRetry :: "fts_guc \<Rightarrow> 'c fts_env \<Rightarrow> 'c fts_segment_info list \<Rightarrow> 'c fts_segment_info list" where
  "processRetry guc env = map (retry_segment guc (time_retry env))"

section \<open>Updating the catalog\<close>

text \<open>What a cycle changes: the rows of \<^verbatim>\<open>gp_segment_configuration\<close> of the current warehouse, the rows
  appended to \<^verbatim>\<open>gp_configuration_history\<close> without their time, and the status bytes in shared memory
  that the dispatcher reads.\<close>

record fts_shared =
  gp_segment_configuration :: "GpSegConfigEntry list"
  gp_configuration_history :: "(int \<times> string) list"
  fts_status :: "int \<Rightarrow> uint8"

definition FTS_STATUS_SET_DOWN :: "uint8 \<Rightarrow> uint8" where "FTS_STATUS_SET_DOWN status = status OR 1"
definition FTS_STATUS_SET_UP :: "uint8 \<Rightarrow> uint8" where "FTS_STATUS_SET_UP status = status AND NOT 1"
definition FTS_STATUS_IS_DOWN :: "uint8 \<Rightarrow> bool" where "FTS_STATUS_IS_DOWN status \<longleftrightarrow> status AND 1 \<noteq> 0"

definition status_char :: "bool \<Rightarrow> char" where
  "status_char alive = (if alive then GP_SEGMENT_CONFIGURATION_STATUS_UP else GP_SEGMENT_CONFIGURATION_STATUS_DOWN)"

definition mode_char :: "bool \<Rightarrow> char" where
  "mode_char insync = (if insync then GP_SEGMENT_CONFIGURATION_MODE_INSYNC else GP_SEGMENT_CONFIGURATION_MODE_NOTINSYNC)"

text \<open>The scan by \<^verbatim>\<open>dbid\<close> finds at most one row: it is updated in place.\<close>

definition history_desc :: "int \<Rightarrow> int \<Rightarrow> char \<Rightarrow> bool \<Rightarrow> bool \<Rightarrow> string" where
  "history_desc dbid segindex role IsSegmentAlive IsInSync =
     take 1023 (''FTS: update role, status, and mode for dbid '' @ show_int dbid @ '' with contentid '' @ show_int segindex @
       '' to '' @ [role] @ '', '' @ [status_char IsSegmentAlive] @ '', and '' @ [mode_char IsInSync])"

definition probeWalRepUpdateConfig :: "int \<Rightarrow> int \<Rightarrow> char \<Rightarrow> bool \<Rightarrow> bool \<Rightarrow> fts_shared \<Rightarrow> fts_shared result" where
  "probeWalRepUpdateConfig dbid segindex role IsSegmentAlive IsInSync w =
     (let desc = history_desc dbid segindex role IsSegmentAlive IsInSync;
          rows = gp_segment_configuration w
      in if \<exists>r \<in> set rows. seg_dbid r = dbid
         then Inr (w\<lparr>gp_configuration_history := gp_configuration_history w @ [(dbid, desc)],
                gp_segment_configuration :=
                  map (\<lambda>r. if seg_dbid r = dbid
                           then r\<lparr>seg_role := role, seg_status := status_char IsSegmentAlive, seg_mode := mode_char IsInSync\<rparr>
                           else r) rows\<rparr>)
         else Inl (ERROR ''FTS cannot find dbid in gp_segment_configuration''))"

definition set_status :: "int \<Rightarrow> bool \<Rightarrow> fts_shared \<Rightarrow> fts_shared" where
  "set_status dbid alive w =
     w\<lparr>fts_status := (fts_status w)(dbid := (if alive then FTS_STATUS_SET_UP else FTS_STATUS_SET_DOWN) (fts_status w dbid))\<rparr>"

text \<open>An error in the transaction undoes its changes and ends the process.\<close>

definition updateConfiguration :: "GpSegConfigEntry \<Rightarrow> GpSegConfigEntry \<Rightarrow> char \<Rightarrow> char \<Rightarrow> bool \<Rightarrow> bool \<Rightarrow> bool \<Rightarrow>
    fts_shared \<Rightarrow> (bool \<times> fts_shared) result" where
  "updateConfiguration primary mirror newPrimaryRole newMirrorRole IsInSync IsPrimaryAlive IsMirrorAlive w =
     (let UpdateBoth = IsInSync \<noteq> SEGMENT_IS_IN_SYNC primary;
          UpdatePrimary = (IsPrimaryAlive \<noteq> SEGMENT_IS_ALIVE primary \<or> UpdateBoth);
          UpdateMirror = (IsMirrorAlive \<noteq> SEGMENT_IS_ALIVE mirror \<or> UpdateBoth)
      in if UpdatePrimary \<or> UpdateMirror
         then case (if UpdatePrimary
                    then probeWalRepUpdateConfig (seg_dbid primary) (seg_index primary) newPrimaryRole IsPrimaryAlive IsInSync w
                    else Inr w) of
                Inl e \<Rightarrow> Inl e
              | Inr w \<Rightarrow>
                  (case (if UpdateMirror
                         then probeWalRepUpdateConfig (seg_dbid mirror) (seg_index mirror) newMirrorRole IsMirrorAlive IsInSync w
                         else Inr w) of
                     Inl e \<Rightarrow> Inl e
                   | Inr w \<Rightarrow> Inr (True, set_status (seg_dbid mirror) IsMirrorAlive (set_status (seg_dbid primary) IsPrimaryAlive w)))
         else Inr (False, w))"

section \<open>Processing responses\<close>

definition ftsResponseReady :: "'c fts_segment_info \<Rightarrow> bool" where
  "ftsResponseReady ftsInfo \<longleftrightarrow> IsFtsMessageStateSuccess (seg_state ftsInfo) \<or> IsFtsMessageStateFailed (seg_state ftsInfo)"

text \<open>What \<^verbatim>\<open>processResponse\<close> does to every segment it has processed.\<close>

definition reset_segment :: "'c fts_segment_info \<Rightarrow> 'c fts_segment_info" where
  "reset_segment ftsInfo = ftsInfo\<lparr>seg_result := no_result, seg_conn := None, poll_events := 0, poll_revents := 0,
     retry_count := 0, timeout_count := 0\<rparr>"

text \<open>The branch for \<^verbatim>\<open>FTS_PROBE_SUCCESS\<close>.\<close>

definition process_probe_success :: "'c fts_segment_info \<Rightarrow> bool \<Rightarrow> bool \<Rightarrow> bool \<Rightarrow> fts_shared \<Rightarrow>
    ('c fts_segment_info \<times> bool \<times> fts_shared) result" where
  "process_probe_success ftsInfo IsPrimaryAlive IsMirrorAlive IsInSync w =
     (let primary = primary_cdbinfo ftsInfo; mirror = mirror_cdbinfo ftsInfo; res = seg_result ftsInfo;
          update = updateConfiguration primary mirror GP_SEGMENT_CONFIGURATION_ROLE_PRIMARY GP_SEGMENT_CONFIGURATION_ROLE_MIRROR
            IsInSync IsPrimaryAlive IsMirrorAlive w
      in if isSyncRepEnabled res \<and> \<not> IsMirrorAlive
         then if \<not> retryRequested res
              then map_sum id (\<lambda>(upd, w). (ftsInfo\<lparr>seg_state := FTS_SYNCREP_OFF_SEGMENT\<rparr>, upd, w)) update
              else Inr (ftsInfo\<lparr>seg_state := FTS_RESPONSE_PROCESSED\<rparr>, False, w)
         else if isRoleMirror res then Inr (ftsInfo\<lparr>seg_state := FTS_PROMOTE_SEGMENT\<rparr>, False, w)
         else map_sum id (\<lambda>(upd, w). (ftsInfo\<lparr>seg_state := FTS_RESPONSE_PROCESSED\<rparr>, upd, w)) update)"

text \<open>The branch for \<^verbatim>\<open>FTS_PROBE_FAILED\<close>.\<close>

definition process_probe_failed :: "'c fts_segment_info \<Rightarrow> bool \<Rightarrow> bool \<Rightarrow> bool \<Rightarrow> fts_shared \<Rightarrow>
    ('c fts_segment_info \<times> bool \<times> fts_shared) result" where
  "process_probe_failed ftsInfo IsPrimaryAlive IsMirrorAlive IsInSync w =
     (let primary = primary_cdbinfo ftsInfo; mirror = mirror_cdbinfo ftsInfo
      in if restart_state ftsInfo = PM_IN_RESETTING \<or> restart_state ftsInfo = PM_IN_RECOVERY_MAKING_PROGRESS
         then Inr (ftsInfo\<lparr>seg_state := FTS_RESPONSE_PROCESSED\<rparr>, False, w)
         else if SEGMENT_IS_IN_SYNC mirror
         then map_sum id (\<lambda>(upd, w). (ftsInfo\<lparr>seg_state := FTS_PROMOTE_SEGMENT, primary_cdbinfo := mirror,
                mirror_cdbinfo := primary\<rparr>, upd, w))
                (updateConfiguration primary mirror GP_SEGMENT_CONFIGURATION_ROLE_MIRROR GP_SEGMENT_CONFIGURATION_ROLE_PRIMARY
                  IsInSync IsPrimaryAlive IsMirrorAlive w)
         else Inr (ftsInfo\<lparr>seg_state := FTS_RESPONSE_PROCESSED\<rparr>, False, w))"

text \<open>The body of the loop of \<^verbatim>\<open>processResponse\<close>, for a segment whose response is ready.\<close>

definition response_segment :: "'c fts_segment_info \<Rightarrow> fts_shared \<Rightarrow> ('c fts_segment_info \<times> bool \<times> fts_shared) result" where
  "response_segment ftsInfo w =
     (let IsPrimaryAlive = isPrimaryAlive (seg_result ftsInfo);
          IsMirrorAlive = (if IsPrimaryAlive then isMirrorAlive (seg_result ftsInfo) else SEGMENT_IS_ALIVE (mirror_cdbinfo ftsInfo));
          IsInSync = (if IsPrimaryAlive then isInSync (seg_result ftsInfo) else False);
          processed = Inr (ftsInfo\<lparr>seg_state := FTS_RESPONSE_PROCESSED\<rparr>, False, w)
      in map_sum id (\<lambda>(ftsInfo, r). (reset_segment ftsInfo, r))
           (case seg_state ftsInfo of
              FTS_PROBE_SUCCESS \<Rightarrow> process_probe_success ftsInfo IsPrimaryAlive IsMirrorAlive IsInSync w
            | FTS_PROBE_FAILED \<Rightarrow> process_probe_failed ftsInfo IsPrimaryAlive IsMirrorAlive IsInSync w
            | FTS_SYNCREP_OFF_FAILED \<Rightarrow> processed
            | FTS_PROMOTE_FAILED \<Rightarrow> processed
            | FTS_PROMOTE_SUCCESS \<Rightarrow> processed
            | FTS_SYNCREP_OFF_SUCCESS \<Rightarrow> processed
            | _ \<Rightarrow> Inl (ERROR ''FTS invalid internal state'')))"

text \<open>The loop, from index \<open>i\<close>: it stops where the service is found inactive.\<close>

fun process_from :: "'c fts_env \<Rightarrow> nat \<Rightarrow> 'c fts_segment_info list \<Rightarrow> bool \<Rightarrow> fts_shared \<Rightarrow>
    ('c fts_segment_info list \<times> bool \<times> fts_shared) result" where
  "process_from env i [] upd w = Inr ([], upd, w)"
| "process_from env i (x # xs) upd w =
     (if \<not> active_at env i then Inr (x # xs, upd, w)
      else case (if ftsResponseReady x then response_segment x w else Inr (x, False, w)) of
             Inl e \<Rightarrow> Inl e
           | Inr (y, upd', w) \<Rightarrow>
               (case process_from env (i + 1) xs (upd \<or> upd') w of
                  Inl e \<Rightarrow> Inl e
                | Inr (ys, r) \<Rightarrow> Inr (y # ys, r)))"

definition processResponse :: "'c fts_env \<Rightarrow> 'c fts_segment_info list \<Rightarrow> fts_shared \<Rightarrow>
    ('c fts_segment_info list \<times> bool \<times> fts_shared) result" where
  "processResponse env context w = process_from env 0 context False w"

section \<open>A probe cycle\<close>

record CdbComponentDatabases =
  segment_db_info :: "GpSegConfigEntry list"
  total_segments :: nat

definition FtsGetPeerSegment :: "CdbComponentDatabases \<Rightarrow> int \<Rightarrow> int \<Rightarrow> GpSegConfigEntry option" where
  "FtsGetPeerSegment cdbs content dbid =
     find (\<lambda>segInfo. seg_index segInfo = content \<and> seg_dbid segInfo \<noteq> dbid) (segment_db_info cdbs)"

definition init_segment :: "GpSegConfigEntry \<Rightarrow> GpSegConfigEntry \<Rightarrow> 'c fts_segment_info" where
  "init_segment primary mirror =
     \<lparr>primary_cdbinfo = primary, mirror_cdbinfo = mirror, seg_result = no_result, seg_state = FTS_PROBE_SEGMENT,
      poll_events = 0, poll_revents = 0, fd_index = 0, startTime = 0, retryStartTime = 0, seg_conn = None,
      retry_count = 0, xlogrecptr = 0, restart_state = PM_NOT_IN_RESTART, timeout_count = 0\<rparr>"

text \<open>The loops run over the first \<^verbatim>\<open>num_pairs\<close> slots of the array. A slot behind the pairs found has
  null references to its segments, which the first loop follows.\<close>

definition FtsWalRepInitProbeContext :: "CdbComponentDatabases \<Rightarrow> 'c fts_segment_info list result" where
  "FtsWalRepInitProbeContext cdbs =
     (let primaries = filter SEGMENT_IS_ACTIVE_PRIMARY (segment_db_info cdbs);
          peer = (\<lambda>p. FtsGetPeerSegment cdbs (seg_index p) (seg_dbid p));
          pairs = map (\<lambda>p. init_segment p (the (peer p))) (filter (\<lambda>p. peer p \<noteq> None) primaries);
          num_pairs = int (total_segments cdbs) - int (length (filter (\<lambda>p. peer p = None) primaries))
      in if num_pairs \<le> int (length pairs) then Inr (take (nat num_pairs) pairs)
         else Inl (PANIC ''null reference to a segment''))"

text \<open>One round of the loop of \<^verbatim>\<open>FtsWalRepMessageSegments\<close>.\<close>

definition message_round :: "fts_guc \<Rightarrow> 'c fts_env \<Rightarrow> 'c fts_segment_info list \<Rightarrow> fts_shared \<Rightarrow>
    ('c fts_segment_info list \<times> bool \<times> fts_shared) result" where
  "message_round guc env context w =
     (case ftsConnect env context of
        Inl e \<Rightarrow> Inl e
      | Inr context \<Rightarrow>
     (case ftsPoll guc env context of
        Inl e \<Rightarrow> Inl e
      | Inr context \<Rightarrow>
     (case ftsSend env context of
        Inl e \<Rightarrow> Inl e
      | Inr context \<Rightarrow>
     (case ftsReceive env context of
        Inl e \<Rightarrow> Inl e
      | Inr context \<Rightarrow> processResponse env (processRetry guc env context) w))))"

text \<open>The loop, against the environments of its rounds. \<open>None\<close> is a cycle that does not end.\<close>

partial_function (option) message_loop :: "fts_guc \<Rightarrow> (nat \<Rightarrow> 'c fts_env) \<Rightarrow> nat \<Rightarrow> 'c fts_segment_info list \<Rightarrow> bool \<Rightarrow> fts_shared \<Rightarrow>
    (bool \<times> fts_shared) result option" where
  "message_loop guc E k context is_updated w =
     (if \<not> allDone context \<and> loop_active (E k)
      then case message_round guc (E k) context w of
             Inl e \<Rightarrow> Some (Inl e)
           | Inr (context, upd, w) \<Rightarrow> message_loop guc E (k + 1) context (is_updated \<or> upd) w
      else Some (Inr (is_updated, w)))"

definition FtsWalRepMessageSegments :: "fts_guc \<Rightarrow> (nat \<Rightarrow> 'c fts_env) \<Rightarrow> CdbComponentDatabases \<Rightarrow> fts_shared \<Rightarrow>
    (bool \<times> fts_shared) result option" where
  "FtsWalRepMessageSegments guc E cdbs w =
     (case FtsWalRepInitProbeContext cdbs of
        Inl e \<Rightarrow> Some (Inl e)
      | Inr context \<Rightarrow> message_loop guc E 0 context False w)"

end
