(* ===== verification/FtsProbeProps.thy ===== *)
theory FtsProbeProps
  imports FtsProbe
begin

text \<open>
  Lemmas on a round of the prober: what each step may do to a pair of segments, the invariant of the
  pairs between rounds, the catalog after an update, and that no round raises an error.
\<close>

section \<open>The loops over the pairs\<close>

lemma each_segment_Inr: "each_segment f xs = Inr ys \<longleftrightarrow> list_all2 (\<lambda>x y. f x = Inr y) xs ys"
proof (induction xs arbitrary: ys)
  case (Cons x xs)
  show ?case
  proof (cases "each_segment f xs")
    case (Inl e)
    then have "\<not> list_all2 (\<lambda>x y. f x = Inr y) xs zs" for zs using Cons.IH [of zs] by simp
    then show ?thesis using Inl by (auto simp: list_all2_Cons1 split: sum.splits)
  next
    case (Inr zs)
    then have "list_all2 (\<lambda>x y. f x = Inr y) xs ys' \<longleftrightarrow> ys' = zs" for ys' using Cons.IH [of ys'] by auto
    then show ?thesis using Inr by (auto simp: list_all2_Cons1 split: sum.splits)
  qed
qed auto

lemma each_segment_Inl: "each_segment f xs = Inl e \<Longrightarrow> \<exists>x \<in> set xs. f x = Inl e"
  by (induction xs) (auto split: sum.splits)

lemma collect_fds_spec:
  "list_all2 (\<lambda>x y. \<exists>n. y = x\<lparr>fd_index := n\<rparr>) xs (fst (collect_fds env nfds xs)) \<and>
   (snd (collect_fds env nfds xs) = [] \<longrightarrow> (\<forall>y \<in> set (fst (collect_fds env nfds xs)). \<not> polled y))"
proof (induction xs arbitrary: nfds)
  case (Cons x xs)
  have "polled (x\<lparr>fd_index := n\<rparr>) = polled x" for n by (simp add: polled_def)
  then show ?case using Cons.IH [of nfds] Cons.IH [of "nfds + 1"] by (auto simp: split_beta)
qed simp

text \<open>The poll step on one pair, with any descriptor index and any answer of \<^verbatim>\<open>poll\<close>.\<close>

definition poll_step :: "fts_guc \<Rightarrow> 'c fts_env \<Rightarrow> 'c fts_segment_info \<Rightarrow> 'c fts_segment_info \<Rightarrow> bool" where
  "poll_step guc env x y \<longleftrightarrow>
     (\<exists>n timed_out revents. poll_segment guc (time_poll env) timed_out revents (x\<lparr>fd_index := n\<rparr>) = Inr y)"

lemma poll_segment_unpolled: "\<not> polled x \<Longrightarrow> poll_segment guc now b revents x = Inr x"
  by (simp add: poll_segment_def)

lemma ftsPoll_steps:
  assumes "ftsPoll guc env xs = Inr ys"
  shows "list_all2 (poll_step guc env) xs ys"
proof (cases "collect_fds env 0 xs")
  case (Pair zs fds)
  note spec = collect_fds_spec [of xs env 0, unfolded Pair fst_conv snd_conv]
  have all: "list_all2 (poll_step guc env) xs ys"
    if "list_all2 (\<lambda>z y. poll_segment guc (time_poll env) b revents z = Inr y) zs ys" for b revents
    using list_all2_trans [OF _ conjunct1 [OF spec] that, of "poll_step guc env"] by (auto simp: poll_step_def)
  show ?thesis
  proof (cases "fds = []")
    case True
    then have "ys = zs" using assms Pair by (simp add: ftsPoll_def)
    moreover have "list_all2 (\<lambda>z y. poll_segment guc (time_poll env) True [] z = Inr y) zs zs"
      using spec True by (auto simp: list.rel_refl_strong poll_segment_unpolled)
    ultimately show ?thesis using all by blast
  next
    case False
    then show ?thesis using assms Pair all
      by (auto simp: ftsPoll_def each_segment_Inr split: prod.splits poll_outcome.splits)
  qed
qed

text \<open>The steps of a round on one pair before its response is processed, and the processing.\<close>

definition seg_round :: "fts_guc \<Rightarrow> 'c fts_env \<Rightarrow> 'c fts_segment_info \<Rightarrow> 'c fts_segment_info \<Rightarrow> bool" where
  "seg_round guc env x y \<longleftrightarrow>
     (\<exists>x1 x2 x3 x4. connect_segment env x = Inr x1 \<and> poll_step guc env x1 x2 \<and> send_segment env x2 = Inr x3 \<and>
        receive_segment env x3 = Inr x4 \<and> y = retry_segment guc (time_retry env) x4)"

lemma message_round_steps:
  assumes "message_round guc env xs w = Inr r"
  obtains ys where "list_all2 (seg_round guc env) xs ys" "process_from env 0 ys False w = Inr r"
proof -
  from assms obtain x1 x2 x3 x4 where
    s: "ftsConnect env xs = Inr x1" "ftsPoll guc env x1 = Inr x2" "ftsSend env x2 = Inr x3" "ftsReceive env x3 = Inr x4"
      "processResponse env (processRetry guc env x4) w = Inr r"
    by (auto simp: message_round_def split: sum.splits)
  have "list_all2 (\<lambda>x y. connect_segment env x = Inr y) xs x1" "list_all2 (\<lambda>x y. send_segment env x = Inr y) x2 x3"
    "list_all2 (\<lambda>x y. receive_segment env x = Inr y) x3 x4"
    using s by (auto simp: ftsConnect_def ftsSend_def ftsReceive_def each_segment_Inr)
  then have "list_all2 (seg_round guc env) xs (map (retry_segment guc (time_retry env)) x4)"
    using ftsPoll_steps [OF s(2)] unfolding list_all2_conv_all_nth seg_round_def by auto metis
  then show thesis using that s(5) by (simp add: processResponse_def processRetry_def)
qed

section \<open>What a step changes\<close>

text \<open>The message a state belongs to.\<close>

datatype fts_phase = Probing | Turning_off | Promoting | Processed

fun phase :: "FtsMessageState \<Rightarrow> fts_phase" where
  "phase FTS_PROBE_SEGMENT = Probing"
| "phase FTS_PROBE_RETRY_WAIT = Probing"
| "phase FTS_PROBE_SUCCESS = Probing"
| "phase FTS_PROBE_FAILED = Probing"
| "phase FTS_SYNCREP_OFF_SEGMENT = Turning_off"
| "phase FTS_SYNCREP_OFF_RETRY_WAIT = Turning_off"
| "phase FTS_SYNCREP_OFF_SUCCESS = Turning_off"
| "phase FTS_SYNCREP_OFF_FAILED = Turning_off"
| "phase FTS_PROMOTE_SEGMENT = Promoting"
| "phase FTS_PROMOTE_RETRY_WAIT = Promoting"
| "phase FTS_PROMOTE_SUCCESS = Promoting"
| "phase FTS_PROMOTE_FAILED = Promoting"
| "phase FTS_RESPONSE_PROCESSED = Processed"

definition waiting :: "FtsMessageState \<Rightarrow> bool" where
  "waiting s \<longleftrightarrow> s = FTS_PROBE_RETRY_WAIT \<or> s = FTS_SYNCREP_OFF_RETRY_WAIT \<or> s = FTS_PROMOTE_RETRY_WAIT"

lemmas state_classes = messaging_def waiting_def IsFtsMessageStateSuccess_def IsFtsMessageStateFailed_def

text \<open>A pair between steps that sends or has failed, with the reference of its segments and its phase.\<close>

definition same_pair :: "'c fts_segment_info \<Rightarrow> 'c fts_segment_info \<Rightarrow> bool" where
  "same_pair x y \<longleftrightarrow> primary_cdbinfo y = primary_cdbinfo x \<and> mirror_cdbinfo y = mirror_cdbinfo x \<and>
     phase (seg_state y) = phase (seg_state x)"

definition active_pair :: "'c fts_segment_info \<Rightarrow> bool" where
  "active_pair x \<longleftrightarrow> (messaging (seg_state x) \<or> IsFtsMessageStateFailed (seg_state x)) \<and> seg_result x = no_result"

definition idle_pair :: "'c fts_segment_info \<Rightarrow> bool" where
  "idle_pair x \<longleftrightarrow> (waiting (seg_state x) \<or> seg_state x = FTS_RESPONSE_PROCESSED) \<and> seg_result x = no_result \<and>
     seg_conn x = None \<and> poll_events x = 0"

lemma fail_active:
  assumes "active_pair x"
  obtains y where "fail_segment x = Inr y" "active_pair y" "same_pair x y" "retry_count y = retry_count x"
    "IsFtsMessageStateFailed (seg_state y)" "y = x\<lparr>seg_state := seg_state y\<rparr>"
  using assms that [of "x\<lparr>seg_state := _\<rparr>"]
  by (cases "seg_state x") (simp_all add: fail_segment_def nextFailedState_def active_pair_def same_pair_def state_classes)

text \<open>What the network may not do in these lemmas: libpq runs out of memory or answers
  \<^verbatim>\<open>PGRES_POLLING_ACTIVE\<close>, \<^verbatim>\<open>poll\<close> fails, or a segment reports its mirror in sync but not up.\<close>

definition calls_succeed :: "'c fts_env \<Rightarrow> bool" where
  "calls_succeed env \<longleftrightarrow> (\<forall>s. PQconnectStart env s \<noteq> None) \<and> (\<forall>c. fst (PQconnectPoll env c) \<noteq> PGRES_POLLING_ACTIVE) \<and>
     (\<forall>fds. fst (poll env fds) \<noteq> POLL_FAILED)"

definition answers_consistent :: "'c fts_env \<Rightarrow> bool" where
  "answers_consistent env \<longleftrightarrow>
     (\<forall>c res c'. PQgetResult env c = (Some res, c') \<longrightarrow> isInSync (probeRecordResponse res) \<longrightarrow> isMirrorAlive (probeRecordResponse res))"

definition keeps :: "'c fts_segment_info \<Rightarrow> 'c fts_segment_info \<Rightarrow> bool" where
  "keeps x y \<longleftrightarrow> same_pair x y \<and> retry_count y = retry_count x"

lemma keeps_refl [simp]: "keeps x x"
  by (simp add: keeps_def same_pair_def)

lemma keeps_trans: "keeps x y \<Longrightarrow> keeps y z \<Longrightarrow> keeps x z"
  by (simp add: keeps_def same_pair_def)

lemma fail_keeps:
  assumes "active_pair x" "fail_segment x = Inr y"
  shows "active_pair y" "keeps x y" "IsFtsMessageStateFailed (seg_state y)"
  using fail_active [OF assms(1)] assms(2) by (auto simp: keeps_def)

lemma check_frame:
  "seg_state (checkIfFailedDueToNormalRestart msg x) = seg_state x" "seg_result (checkIfFailedDueToNormalRestart msg x) = seg_result x"
  "primary_cdbinfo (checkIfFailedDueToNormalRestart msg x) = primary_cdbinfo x" "mirror_cdbinfo (checkIfFailedDueToNormalRestart msg x) = mirror_cdbinfo x"
  "retry_count (checkIfFailedDueToNormalRestart msg x) = retry_count x"
  by (auto simp: checkIfFailedDueToNormalRestart_def Let_def split: option.splits)

lemma active_frame:
  "active_pair x \<Longrightarrow> seg_state y = seg_state x \<Longrightarrow> seg_result y = seg_result x \<Longrightarrow> active_pair y"
  by (simp add: active_pair_def)

lemma keeps_frame:
  "primary_cdbinfo y = primary_cdbinfo x \<Longrightarrow> mirror_cdbinfo y = mirror_cdbinfo x \<Longrightarrow> seg_state y = seg_state x \<Longrightarrow>
   retry_count y = retry_count x \<Longrightarrow> keeps x y"
  by (simp add: keeps_def same_pair_def)

lemma fail_frame:
  assumes "active_pair x" "seg_state x' = seg_state x" "seg_result x' = seg_result x"
    "primary_cdbinfo x' = primary_cdbinfo x" "mirror_cdbinfo x' = mirror_cdbinfo x" "retry_count x' = retry_count x"
  obtains y where "fail_segment x' = Inr y" "active_pair y" "keeps x y"
proof -
  have x': "active_pair x'" "keeps x x'"
    using assms by (auto intro: active_frame keeps_frame)
  from fail_active [OF x'(1)] show thesis
    using that fail_keeps [OF x'(1)] keeps_trans [OF x'(2)] by metis
qed

lemma connect_start_total:
  assumes "calls_succeed env"
  obtains b y where "ftsConnectStart env x = Inr (b, y)" "seg_state y = seg_state x" "seg_result y = seg_result x"
    "primary_cdbinfo y = primary_cdbinfo x" "mirror_cdbinfo y = mirror_cdbinfo x" "retry_count y = retry_count x"
proof (cases "ftsConnectStart env x")
  case (Inl e)
  then have "PQconnectStart env (conninfo (primary_cdbinfo x)) = None"
    by (auto simp: ftsConnectStart_def split: option.splits if_splits)
  then show thesis using assms unfolding calls_succeed_def by metis
next
  case (Inr r)
  then show thesis using that [of "fst r" "snd r"] by (auto simp: ftsConnectStart_def split: option.splits if_splits)
qed

lemma connect_active:
  assumes "active_pair x" "calls_succeed env"
  obtains y where "connect_segment env x = Inr y" "active_pair y" "keeps x y"
proof (cases "messaging (seg_state x) \<and> \<not> (seg_conn x \<noteq> None \<and> PQstatus env (seg_conn x) = CONNECTION_OK)")
  case False
  then have "connect_segment env x = Inr x" by (auto simp: connect_segment_def)
  then show thesis using that assms(1) keeps_refl by blast
next
  case True
  let ?x = "x\<lparr>restart_state := PM_NOT_IN_RESTART\<rparr>"
  show thesis
  proof (cases "seg_conn x")
    case None
    obtain b y where y: "ftsConnectStart env ?x = Inr (b, y)" "seg_state y = seg_state x" "seg_result y = seg_result x"
      "primary_cdbinfo y = primary_cdbinfo x" "mirror_cdbinfo y = mirror_cdbinfo x" "retry_count y = retry_count x"
      by (rule connect_start_total [OF assms(2), of ?x]) auto
    obtain z where z: "fail_segment y = Inr z" "active_pair z" "keeps x z"
      by (rule fail_frame [OF assms(1), of y]) (use y in auto)
    have "active_pair y" "keeps x y" using y assms(1) by (auto intro: active_frame keeps_frame)
    moreover have "connect_segment env x = (if b then Inr y else Inr z)"
      using True None y(1) z(1) by (simp add: connect_segment_def)
    ultimately show thesis using that z by (cases b) auto
  next
    case (Some c)
    obtain st c' where p: "PQconnectPoll env c = (st, c')" "st \<noteq> PGRES_POLLING_ACTIVE"
      using assms(2) by (metis calls_succeed_def prod.collapse)
    obtain z where z: "fail_segment (?x\<lparr>seg_conn := Some c'\<rparr>) = Inr z" "active_pair z" "keeps x z"
      by (rule fail_frame [OF assms(1), of "?x\<lparr>seg_conn := Some c'\<rparr>"]) auto
    let ?z = "checkIfFailedDueToNormalRestart (PQerrorMessage env c') z"
    have z': "active_pair ?z" "keeps x ?z"
      using z(2,3) by (simp_all add: active_pair_def keeps_def same_pair_def check_frame)
    have "connect_segment env x =
        Inr (if poll_revents x AND (POLLOUT OR POLLIN) = 0 then ?x else
             case st of PGRES_POLLING_FAILED \<Rightarrow> ?z
             | PGRES_POLLING_OK \<Rightarrow> ?x\<lparr>seg_conn := Some c', poll_events := POLLOUT\<rparr>
             | PGRES_POLLING_READING \<Rightarrow> ?x\<lparr>seg_conn := Some c', poll_events := poll_events x OR POLLIN\<rparr>
             | _ \<Rightarrow> ?x\<lparr>seg_conn := Some c', poll_events := poll_events x OR POLLOUT\<rparr>)"
      using True Some p z(1) by (simp add: connect_segment_def split: PostgresPollingStatusType.splits)
    then show thesis
      using that z' p(2) assms(1) by (auto simp: active_pair_def keeps_def same_pair_def split: PostgresPollingStatusType.splits if_splits)
  qed
qed

lemma timeout_active:
  assumes "active_pair x"
  obtains y where "ftsCheckTimeout guc now x = Inr y" "active_pair y" "keeps x y"
proof (cases "ftsCheckTimeout guc now x = Inr x")
  case True
  then show thesis using that assms keeps_refl by blast
next
  case False
  then have "ftsCheckTimeout guc now x = fail_segment (x\<lparr>timeout_count := 0\<rparr>)"
    by (auto simp: ftsCheckTimeout_def split: if_splits)
  moreover obtain y where "fail_segment (x\<lparr>timeout_count := 0\<rparr>) = Inr y" "active_pair y" "keeps x y"
    by (rule fail_frame [OF assms, of "x\<lparr>timeout_count := 0\<rparr>"]) auto
  ultimately show thesis using that by simp
qed

lemma poll_active:
  assumes "active_pair x"
  obtains y where "poll_segment guc now b revents x = Inr y" "active_pair y" "keeps x y"
proof (cases "polled x")
  case False
  then show thesis using that assms keeps_refl by (simp add: poll_segment_def)
next
  case True
  let ?x = "x\<lparr>poll_revents := revents ! nat (fd_index x)\<rparr>"
  have x: "active_pair ?x" "keeps x ?x" using assms by (auto simp: active_pair_def keeps_def same_pair_def)
  obtain z where z: "fail_segment ?x = Inr z" "active_pair z" "keeps x z"
    by (rule fail_frame [OF assms, of ?x]) auto
  define y where "y = (if poll_revents ?x AND poll_events ?x \<noteq> 0 then ?x\<lparr>poll_events := 0\<rparr>
    else if poll_revents ?x \<noteq> 0 then z else ?x)"
  define y' where "y' = (if \<not> IsFtsMessageStateSuccess (seg_state y) \<and> b then y\<lparr>timeout_count := timeout_count y + 1\<rparr> else y)"
  have "active_pair y'" "keeps x y'"
    using x z(2,3) by (auto simp: y_def y'_def active_pair_def keeps_def same_pair_def)
  moreover have "poll_segment guc now b revents x = ftsCheckTimeout guc now y'"
    using True z(1) by (auto simp: poll_segment_def Let_def y_def y'_def)
  moreover obtain u where "ftsCheckTimeout guc now y' = Inr u" "active_pair u" "keeps y' u"
    by (rule timeout_active [OF calculation(1)])
  ultimately show thesis using that keeps_trans by metis
qed

lemma poll_step_active:
  assumes "poll_step guc env x y" "active_pair x"
  shows "active_pair y" "keeps x y"
proof -
  obtain n b revents where y: "poll_segment guc (time_poll env) b revents (x\<lparr>fd_index := n\<rparr>) = Inr y"
    using assms(1) by (auto simp: poll_step_def)
  have x: "active_pair (x\<lparr>fd_index := n\<rparr>)" "keeps x (x\<lparr>fd_index := n\<rparr>)"
    using assms(2) by (auto simp: active_pair_def keeps_def same_pair_def)
  obtain u where "poll_segment guc (time_poll env) b revents (x\<lparr>fd_index := n\<rparr>) = Inr u" "active_pair u"
    "keeps (x\<lparr>fd_index := n\<rparr>) u"
    by (rule poll_active [OF x(1)])
  then show "active_pair y" "keeps x y" using y keeps_trans [OF x(2)] by auto
qed

lemma send_active:
  assumes "active_pair x"
  obtains y where "send_segment env x = Inr y" "active_pair y" "keeps x y"
proof (cases "messaging (seg_state x) \<and> ready_to_send env x")
  case False
  then have "send_segment env x = Inr x" by (auto simp: send_segment_def)
  then show thesis using that assms keeps_refl by blast
next
  case True
  obtain ok c where s: "PQsendQuery env (the (seg_conn x)) (fts_message (message_type (seg_state x))
      (seg_dbid (primary_cdbinfo x)) (seg_index (primary_cdbinfo x))) = (ok, c)"
    by fastforce
  obtain z where z: "fail_segment (x\<lparr>seg_conn := Some c\<rparr>) = Inr z" "active_pair z" "keeps x z"
    by (rule fail_frame [OF assms, of "x\<lparr>seg_conn := Some c\<rparr>"]) auto
  have "send_segment env x = Inr (if ok then x\<lparr>seg_conn := Some c, poll_events := POLLIN\<rparr> else z)"
    using True s z(1) by (simp add: send_segment_def split: bool.splits)
  then show thesis using that z(2,3) assms by (auto simp: active_pair_def keeps_def same_pair_def split: if_splits)
qed

definition answered_pair :: "'c fts_segment_info \<Rightarrow> bool" where
  "answered_pair x \<longleftrightarrow> IsFtsMessageStateSuccess (seg_state x) \<and> isPrimaryAlive (seg_result x) \<and>
     (isInSync (seg_result x) \<longrightarrow> isMirrorAlive (seg_result x))"

lemma receive_active:
  assumes "active_pair x" "answers_consistent env"
  obtains y where "receive_segment env x = Inr y" "active_pair y \<or> answered_pair y" "keeps x y"
proof (cases "messaging (seg_state x) \<and> PQstatus env (seg_conn x) = CONNECTION_OK \<and> poll_revents x AND POLLIN \<noteq> 0")
  case False
  then have "receive_segment env x = Inr x" by (simp only: receive_segment_def if_False)
  then show thesis using that assms(1) keeps_refl by blast
next
  case True
  obtain ok1 c1 busy c2 res c3 where
    c: "PQconsumeInput env (the (seg_conn x)) = (ok1, c1)" "PQisBusy env c1 = (busy, c2)" "PQgetResult env c2 = (res, c3)"
    by (metis prod.collapse)
  have failing: "\<exists>z. fail_segment (x\<lparr>seg_conn := Some c'\<rparr>) = Inr z \<and> active_pair z \<and> keeps x z" for c'
    by (rule fail_frame [OF assms(1), of "x\<lparr>seg_conn := Some c'\<rparr>"]) auto
  obtain s where s: "nextSuccessState (seg_state x) = Inr s" "IsFtsMessageStateSuccess s" "phase s = phase (seg_state x)"
    using True by (auto simp: nextSuccessState_def state_classes)
  have R: "receive_segment env x =
      (if \<not> ok1 then fail_segment (x\<lparr>seg_conn := Some c1\<rparr>) else if busy then Inr (x\<lparr>seg_conn := Some c2\<rparr>)
       else case res of None \<Rightarrow> fail_segment (x\<lparr>seg_conn := Some c3\<rparr>)
       | Some r \<Rightarrow> if conn_status env c3 = CONNECTION_BAD \<or> \<not> tuples_ok r \<or> PQnfields r \<noteq> Natts_fts_message_response \<or>
             PQntuples r \<noteq> FTS_MESSAGE_RESPONSE_NTUPLES then fail_segment (x\<lparr>seg_conn := Some c3\<rparr>)
           else Inr (x\<lparr>seg_conn := Some c3, seg_result := probeRecordResponse r, seg_state := s\<rparr>))"
    using True c s(1) by (auto simp: receive_segment_def split: option.splits)
  have "(\<exists>c'. receive_segment env x = fail_segment (x\<lparr>seg_conn := Some c'\<rparr>)) \<or>
      receive_segment env x = Inr (x\<lparr>seg_conn := Some c2\<rparr>) \<or>
      (\<exists>r. res = Some r \<and>
        receive_segment env x = Inr (x\<lparr>seg_conn := Some c3, seg_result := probeRecordResponse r, seg_state := s\<rparr>))"
    unfolding R by (auto split: option.split if_split)
  then consider (fail) c' where "receive_segment env x = fail_segment (x\<lparr>seg_conn := Some c'\<rparr>)"
    | (busy) "receive_segment env x = Inr (x\<lparr>seg_conn := Some c2\<rparr>)"
    | (ok) r where "res = Some r"
        "receive_segment env x = Inr (x\<lparr>seg_conn := Some c3, seg_result := probeRecordResponse r, seg_state := s\<rparr>)"
    by blast
  then show thesis
  proof cases
    case fail
    then show thesis using failing that by metis
  next
    case busy
    then show thesis using that assms(1) by (auto simp: active_pair_def keeps_def same_pair_def)
  next
    case ok
    then have "isInSync (probeRecordResponse r) \<longrightarrow> isMirrorAlive (probeRecordResponse r)"
      using assms(2) c(3) unfolding answers_consistent_def by blast
    moreover have "isPrimaryAlive (probeRecordResponse r)" by (simp add: probeRecordResponse_def)
    ultimately show thesis using that [OF ok(2)] s(2,3) by (simp add: answered_pair_def keeps_def same_pair_def)
  qed
qed

lemma idle_steps:
  assumes "idle_pair x"
  shows "connect_segment env x = Inr x" "poll_segment guc now b revents x = Inr x" "send_segment env x = Inr x"
    "receive_segment env x = Inr x"
  using assms by (auto simp: idle_pair_def state_classes connect_segment_def poll_segment_def polled_def send_segment_def receive_segment_def)

lemma poll_step_idle:
  assumes "poll_step guc env x y" "idle_pair x"
  shows "idle_pair y" "keeps x y" "y = x\<lparr>fd_index := fd_index y\<rparr>"
proof -
  obtain n b revents where y: "poll_segment guc (time_poll env) b revents (x\<lparr>fd_index := n\<rparr>) = Inr y"
    using assms(1) by (auto simp: poll_step_def)
  have "idle_pair (x\<lparr>fd_index := n\<rparr>)" using assms(2) by (simp add: idle_pair_def)
  then have "y = x\<lparr>fd_index := n\<rparr>" using y idle_steps(2) by (metis sum.inject(2))
  then show "idle_pair y" "keeps x y" "y = x\<lparr>fd_index := fd_index y\<rparr>"
    using assms(2) by (auto simp: idle_pair_def keeps_def same_pair_def)
qed

section \<open>A round of a pair\<close>

text \<open>A pair between rounds, and a pair whose response is ready after the retries.\<close>

definition head_pair :: "fts_guc \<Rightarrow> 'c fts_segment_info \<Rightarrow> bool" where
  "head_pair guc x \<longleftrightarrow> retry_count x \<le> gp_fts_probe_retries guc \<and>
     (messaging (seg_state x) \<and> seg_result x = no_result \<or> idle_pair x)"

definition ready_pair :: "fts_guc \<Rightarrow> 'c fts_segment_info \<Rightarrow> bool" where
  "ready_pair guc x \<longleftrightarrow> answered_pair x \<or>
     IsFtsMessageStateFailed (seg_state x) \<and> seg_result x = no_result \<and> retry_count x = gp_fts_probe_retries guc"

lemma head_cases: "head_pair guc x \<Longrightarrow> active_pair x \<or> idle_pair x"
  by (auto simp: head_pair_def active_pair_def)

lemma retry_answered:
  assumes "answered_pair x" "retry_count x \<le> gp_fts_probe_retries guc"
  shows "same_pair x (retry_segment guc now x) \<and> (retry_segment guc now x = x \<or>
    waiting (seg_state (retry_segment guc now x)) \<and> head_pair guc (retry_segment guc now x))"
  using assms
  by (cases "seg_state x")
    (auto simp: retry_segment_def retryForFtsFailed_def answered_pair_def same_pair_def head_pair_def idle_pair_def state_classes)

lemma retry_active:
  assumes "active_pair x" "retry_count x \<le> gp_fts_probe_retries guc"
  shows "same_pair x (retry_segment guc now x) \<and>
    (head_pair guc (retry_segment guc now x) \<or> ready_pair guc (retry_segment guc now x) \<and> retry_segment guc now x = x)"
  using assms
  by (cases "seg_state x")
    (auto simp: retry_segment_def retryForFtsFailed_def active_pair_def same_pair_def head_pair_def idle_pair_def ready_pair_def state_classes)

lemma retry_idle:
  assumes "idle_pair x" "retry_count x \<le> gp_fts_probe_retries guc"
  shows "same_pair x (retry_segment guc now x) \<and> head_pair guc (retry_segment guc now x)"
  using assms
  by (cases "seg_state x") (auto simp: retry_segment_def idle_pair_def same_pair_def head_pair_def state_classes)

lemma same_pair_trans: "same_pair x y \<Longrightarrow> same_pair y z \<Longrightarrow> same_pair x z"
  by (simp add: same_pair_def)

lemma seg_round_spec:
  assumes "seg_round guc env x y" "head_pair guc x" "calls_succeed env" "answers_consistent env"
  shows "same_pair x y \<and> (head_pair guc y \<or> ready_pair guc y \<and> retry_count y = retry_count x)"
proof -
  obtain x1 x2 x3 x4 where s: "connect_segment env x = Inr x1" "poll_step guc env x1 x2" "send_segment env x2 = Inr x3"
      "receive_segment env x3 = Inr x4" "y = retry_segment guc (time_retry env) x4"
    using assms(1) by (auto simp: seg_round_def)
  have count: "retry_count x \<le> gp_fts_probe_retries guc" using assms(2) by (simp add: head_pair_def)
  from head_cases [OF assms(2)] show ?thesis
  proof
    assume x: "idle_pair x"
    have "x1 = x" using s(1) idle_steps(1) [OF x] by simp
    then have x2: "idle_pair x2" "keeps x x2" using poll_step_idle [OF s(2)] x by auto
    then have "x4 = x2" using s(3,4) idle_steps(3,4) [OF x2(1)] by simp
    then show ?thesis
      using retry_idle [OF x2(1), of guc "time_retry env"] x2(2) count s(5) by (auto simp: keeps_def intro: same_pair_trans)
  next
    assume x: "active_pair x"
    have x1: "active_pair x1" "keeps x x1"
      by (rule connect_active [OF x assms(3)], use s(1) in simp)+
    have x2: "active_pair x2" "keeps x x2" using poll_step_active [OF s(2) x1(1)] x1(2) keeps_trans by blast+
    have x3: "active_pair x3" "keeps x x3"
      by (rule send_active [OF x2(1), of env], use s(3) keeps_trans [OF x2(2)] in simp)+
    have x4: "active_pair x4 \<or> answered_pair x4" "keeps x x4"
      by (rule receive_active [OF x3(1) assms(4)], use s(4) keeps_trans [OF x3(2)] in simp)+
    then have "retry_count x4 \<le> gp_fts_probe_retries guc" using count by (simp add: keeps_def)
    then show ?thesis
      using x4 retry_active [of x4 guc "time_retry env"] retry_answered [of x4 guc "time_retry env"] s(5)
      by (auto simp: keeps_def ready_pair_def intro: same_pair_trans)
  qed
qed

section \<open>The catalog after an update\<close>

text \<open>A well-formed configuration: rows have distinct numbers and valid values, a primary is up, a pair
  has both roles and one mode, a segment in sync is up, and every content has a primary.\<close>

definition row_ok :: "GpSegConfigEntry \<Rightarrow> bool" where
  "row_ok r \<longleftrightarrow>
     (seg_role r = GP_SEGMENT_CONFIGURATION_ROLE_PRIMARY \<or> seg_role r = GP_SEGMENT_CONFIGURATION_ROLE_MIRROR) \<and>
     (seg_status r = GP_SEGMENT_CONFIGURATION_STATUS_UP \<or> seg_status r = GP_SEGMENT_CONFIGURATION_STATUS_DOWN) \<and>
     (seg_mode r = GP_SEGMENT_CONFIGURATION_MODE_INSYNC \<or> seg_mode r = GP_SEGMENT_CONFIGURATION_MODE_NOTINSYNC) \<and>
     (SEGMENT_IS_ACTIVE_PRIMARY r \<longrightarrow> SEGMENT_IS_ALIVE r) \<and> (SEGMENT_IS_IN_SYNC r \<longrightarrow> SEGMENT_IS_ALIVE r)"

definition config_ok :: "GpSegConfigEntry list \<Rightarrow> bool" where
  "config_ok C \<longleftrightarrow> distinct (map seg_dbid C) \<and> (\<forall>r \<in> set C. row_ok r) \<and>
     (\<forall>r \<in> set C. \<exists>q \<in> set C. seg_index q = seg_index r \<and> SEGMENT_IS_ACTIVE_PRIMARY q) \<and>
     (\<forall>r \<in> set C. \<forall>q \<in> set C. seg_index q = seg_index r \<and> q \<noteq> r \<longrightarrow> seg_role q \<noteq> seg_role r \<and> seg_mode q = seg_mode r)"

definition set_row :: "char \<Rightarrow> bool \<Rightarrow> bool \<Rightarrow> GpSegConfigEntry \<Rightarrow> GpSegConfigEntry" where
  "set_row role alive insync r = r\<lparr>seg_role := role, seg_status := status_char alive, seg_mode := mode_char insync\<rparr>"

definition set_pair :: "int \<Rightarrow> int \<Rightarrow> char \<Rightarrow> char \<Rightarrow> bool \<Rightarrow> bool \<Rightarrow> bool \<Rightarrow> GpSegConfigEntry \<Rightarrow> GpSegConfigEntry" where
  "set_pair p m rp rm insync pa ma r =
     (if seg_dbid r = p then set_row rp pa insync r else if seg_dbid r = m then set_row rm ma insync r else r)"

lemma set_row_simps [simp]:
  "seg_dbid (set_row role alive insync r) = seg_dbid r" "seg_index (set_row role alive insync r) = seg_index r"
  "seg_role (set_row role alive insync r) = role" "seg_status (set_row role alive insync r) = status_char alive"
  "seg_mode (set_row role alive insync r) = mode_char insync"
  by (simp_all add: set_row_def)

lemma set_pair_simps [simp]:
  "seg_dbid (set_pair p m rp rm insync pa ma r) = seg_dbid r" "seg_index (set_pair p m rp rm insync pa ma r) = seg_index r"
  by (simp_all add: set_pair_def)

text \<open>A row that already has the values is not changed.\<close>

lemma set_row_same:
  "seg_role r = role \<Longrightarrow> seg_status r = status_char alive \<Longrightarrow> seg_mode r = mode_char insync \<Longrightarrow> set_row role alive insync r = r"
  by (simp add: set_row_def)

definition pair_in :: "GpSegConfigEntry list \<Rightarrow> GpSegConfigEntry \<Rightarrow> GpSegConfigEntry \<Rightarrow> bool" where
  "pair_in C p m \<longleftrightarrow> p \<in> set C \<and> m \<in> set C \<and> seg_index m = seg_index p \<and> seg_dbid m \<noteq> seg_dbid p \<and>
     seg_role p = GP_SEGMENT_CONFIGURATION_ROLE_PRIMARY \<and> seg_role m = GP_SEGMENT_CONFIGURATION_ROLE_MIRROR"

lemma pair_values:
  assumes "config_ok C" "pair_in C p m"
  shows "seg_status p = status_char True" "seg_status m = status_char (SEGMENT_IS_ALIVE m)"
    "seg_mode p = mode_char (SEGMENT_IS_IN_SYNC p)" "seg_mode m = mode_char (SEGMENT_IS_IN_SYNC p)"
    "SEGMENT_IS_ALIVE p" "SEGMENT_IS_IN_SYNC m = SEGMENT_IS_IN_SYNC p" "SEGMENT_IS_IN_SYNC m \<Longrightarrow> SEGMENT_IS_ALIVE m"
proof -
  have "p \<noteq> m" using assms(2) by (auto simp: pair_in_def)
  then have "seg_mode m = seg_mode p" using assms by (auto simp: config_ok_def pair_in_def)
  then show "seg_status p = status_char True" "seg_status m = status_char (SEGMENT_IS_ALIVE m)"
    "seg_mode p = mode_char (SEGMENT_IS_IN_SYNC p)" "seg_mode m = mode_char (SEGMENT_IS_IN_SYNC p)"
    "SEGMENT_IS_ALIVE p" "SEGMENT_IS_IN_SYNC m = SEGMENT_IS_IN_SYNC p" "SEGMENT_IS_IN_SYNC m \<Longrightarrow> SEGMENT_IS_ALIVE m"
    using assms
    by (auto simp: config_ok_def row_ok_def pair_in_def status_char_def mode_char_def SEGMENT_IS_ALIVE_def SEGMENT_IS_IN_SYNC_def SEGMENT_IS_ACTIVE_PRIMARY_def)
qed

lemma row_unique: "distinct (map seg_dbid C) \<Longrightarrow> r \<in> set C \<Longrightarrow> q \<in> set C \<Longrightarrow> seg_dbid r = seg_dbid q \<Longrightarrow> r = q"
  by (auto simp: distinct_map inj_on_def)

lemma update_row:
  assumes "r \<in> set (gp_segment_configuration w)" "seg_dbid r = d"
  obtains w' where "probeWalRepUpdateConfig d i role alive insync w = Inr w'" "fts_status w' = fts_status w"
    "gp_segment_configuration w' =
       map (\<lambda>r. if seg_dbid r = d then set_row role alive insync r else r) (gp_segment_configuration w)"
proof (cases "probeWalRepUpdateConfig d i role alive insync w")
  case (Inl e)
  then show thesis using assms by (auto simp: probeWalRepUpdateConfig_def Let_def split: if_splits)
next
  case (Inr w')
  then show thesis using that by (auto simp: probeWalRepUpdateConfig_def Let_def set_row_def split: if_splits)
qed

definition status_ok :: "fts_shared \<Rightarrow> bool" where
  "status_ok w \<longleftrightarrow> (\<forall>r \<in> set (gp_segment_configuration w).
     FTS_STATUS_IS_DOWN (fts_status w (seg_dbid r)) \<longleftrightarrow> \<not> SEGMENT_IS_ALIVE r)"

lemma status_bits [simp]: "FTS_STATUS_IS_DOWN (FTS_STATUS_SET_DOWN s)" "\<not> FTS_STATUS_IS_DOWN (FTS_STATUS_SET_UP s)"
proof -
  have "FTS_STATUS_IS_DOWN v \<longleftrightarrow> bit v 0" for v
    by (simp add: FTS_STATUS_IS_DOWN_def and_one_eq bit_0 odd_iff_mod_2_eq_one)
  then show "FTS_STATUS_IS_DOWN (FTS_STATUS_SET_DOWN s)" "\<not> FTS_STATUS_IS_DOWN (FTS_STATUS_SET_UP s)"
    by (simp_all only: FTS_STATUS_SET_DOWN_def FTS_STATUS_SET_UP_def bit_or_iff bit_and_iff bit_not_iff bit_1_iff) auto
qed

lemma alive_set_row [simp]: "SEGMENT_IS_ALIVE (set_row role alive insync r) = alive"
  "SEGMENT_IS_IN_SYNC (set_row role alive insync r) = insync"
  "SEGMENT_IS_ACTIVE_PRIMARY (set_row role alive insync r) \<longleftrightarrow> role = GP_SEGMENT_CONFIGURATION_ROLE_PRIMARY"
  by (simp_all add: SEGMENT_IS_ALIVE_def SEGMENT_IS_IN_SYNC_def SEGMENT_IS_ACTIVE_PRIMARY_def status_char_def mode_char_def fts_chars)

lemma set_status_simps [simp]:
  "gp_segment_configuration (set_status d alive w) = gp_segment_configuration w"
  "FTS_STATUS_IS_DOWN (fts_status (set_status d alive w) d') \<longleftrightarrow> (if d' = d then \<not> alive else FTS_STATUS_IS_DOWN (fts_status w d'))"
  by (simp_all add: set_status_def)

text \<open>The two ways in which a response may change a pair: the primary stays, or the mirror in sync takes
  its place.\<close>

definition stays :: "char \<Rightarrow> char \<Rightarrow> bool \<Rightarrow> bool \<Rightarrow> bool" where
  "stays rp rm insync pa \<longleftrightarrow> rp = GP_SEGMENT_CONFIGURATION_ROLE_PRIMARY \<and> rm = GP_SEGMENT_CONFIGURATION_ROLE_MIRROR \<and> pa"

definition fails_over :: "GpSegConfigEntry \<Rightarrow> char \<Rightarrow> char \<Rightarrow> bool \<Rightarrow> bool \<Rightarrow> bool \<Rightarrow> bool" where
  "fails_over m rp rm insync pa ma \<longleftrightarrow> rp = GP_SEGMENT_CONFIGURATION_ROLE_MIRROR \<and> rm = GP_SEGMENT_CONFIGURATION_ROLE_PRIMARY \<and>
     \<not> pa \<and> \<not> insync \<and> ma \<and> SEGMENT_IS_IN_SYNC m"

lemma update_both:
  assumes "config_ok (gp_segment_configuration w)" "pair_in (gp_segment_configuration w) p m" "insync \<noteq> SEGMENT_IS_IN_SYNC p"
  obtains w' where "updateConfiguration p m rp rm insync pa ma w = Inr (True, w')"
    "gp_segment_configuration w' = map (set_pair (seg_dbid p) (seg_dbid m) rp rm insync pa ma) (gp_segment_configuration w)"
    "status_ok w \<longrightarrow> status_ok w'"
proof -
  let ?C = "gp_segment_configuration w"
  have pm: "p \<in> set ?C" "m \<in> set ?C" "seg_dbid m \<noteq> seg_dbid p" using assms(2) by (auto simp: pair_in_def)
  obtain w1 where w1: "probeWalRepUpdateConfig (seg_dbid p) (seg_index p) rp pa insync w = Inr w1" "fts_status w1 = fts_status w"
      "gp_segment_configuration w1 = map (\<lambda>r. if seg_dbid r = seg_dbid p then set_row rp pa insync r else r) ?C"
    by (rule update_row [OF pm(1) refl, of "seg_index p" rp pa insync])
  have m1: "m \<in> set (gp_segment_configuration w1)" unfolding w1(3) set_map by (rule image_eqI [OF _ pm(2)]) (simp add: pm(3))
  obtain w2 where
    w2: "probeWalRepUpdateConfig (seg_dbid m) (seg_index m) rm ma insync w1 = Inr w2" "fts_status w2 = fts_status w1"
      "gp_segment_configuration w2 =
        map (\<lambda>r. if seg_dbid r = seg_dbid m then set_row rm ma insync r else r) (gp_segment_configuration w1)"
    by (rule update_row [OF m1 refl, of "seg_index m" rm ma insync])
  let ?w = "set_status (seg_dbid m) ma (set_status (seg_dbid p) pa w2)"
  have C: "gp_segment_configuration ?w = map (set_pair (seg_dbid p) (seg_dbid m) rp rm insync pa ma) ?C"
    using w1(3) w2(3) pm(3) by (simp add: set_pair_def)
  have "updateConfiguration p m rp rm insync pa ma w = Inr (True, ?w)"
    using assms(3) w1(1) w2(1) by (simp add: updateConfiguration_def)
  moreover have "status_ok ?w" if "status_ok w"
    unfolding status_ok_def C using that pm(3) w1(2) w2(2) by (auto simp: status_ok_def set_pair_def)
  ultimately show thesis using that C by blast
qed

lemma update_stays:
  assumes "config_ok (gp_segment_configuration w)" "pair_in (gp_segment_configuration w) p m" "stays rp rm insync pa"
  obtains upd w' where "updateConfiguration p m rp rm insync pa ma w = Inr (upd, w')"
    "gp_segment_configuration w' = map (set_pair (seg_dbid p) (seg_dbid m) rp rm insync pa ma) (gp_segment_configuration w)"
    "status_ok w \<longrightarrow> status_ok w'" "\<not> upd \<longrightarrow> w' = w"
proof (cases "insync = SEGMENT_IS_IN_SYNC p")
  case False
  then show thesis using update_both [OF assms(1,2) False] that by metis
next
  case True
  let ?C = "gp_segment_configuration w"
  have pm: "p \<in> set ?C" "m \<in> set ?C" "seg_dbid m \<noteq> seg_dbid p" "seg_role p = rp" "seg_role m = rm" pa
    using assms(2,3) by (auto simp: pair_in_def stays_def)
  note vals = pair_values [OF assms(1,2)]
  have uniq: "r = p" if "r \<in> set ?C" "seg_dbid r = seg_dbid p" for r
    using row_unique [of ?C r p] that pm(1) assms(1) by (simp add: config_ok_def)
  have uniq_m: "r = m" if "r \<in> set ?C" "seg_dbid r = seg_dbid m" for r
    using row_unique [of ?C r m] that pm(2) assms(1) by (simp add: config_ok_def)
  have same: "set_row rp pa insync p = p" using vals pm True by (intro set_row_same) auto
  have other: "set_pair (seg_dbid p) (seg_dbid m) rp rm insync pa ma r = (if seg_dbid r = seg_dbid m then set_row rm ma insync r else r)"
    if "r \<in> set ?C" for r
    using uniq [OF that] same pm(3) by (auto simp: set_pair_def)
  show thesis
  proof (cases "ma = SEGMENT_IS_ALIVE m")
    case False
    obtain w1 where w1: "probeWalRepUpdateConfig (seg_dbid m) (seg_index m) rm ma insync w = Inr w1" "fts_status w1 = fts_status w"
        "gp_segment_configuration w1 = map (\<lambda>r. if seg_dbid r = seg_dbid m then set_row rm ma insync r else r) ?C"
      by (rule update_row [OF pm(2) refl, of "seg_index m" rm ma insync])
    let ?w = "set_status (seg_dbid m) ma (set_status (seg_dbid p) pa w1)"
    have "gp_segment_configuration ?w = map (set_pair (seg_dbid p) (seg_dbid m) rp rm insync pa ma) ?C"
      using w1(3) other by simp
    moreover have "updateConfiguration p m rp rm insync pa ma w = Inr (True, ?w)"
      using False True pm(6) w1(1) vals(5) by (simp add: updateConfiguration_def)
    moreover have "status_ok ?w" if "status_ok w"
      using that pm(3,6) w1(2,3) uniq vals(5) by (auto simp: status_ok_def)
    ultimately show thesis using that by blast
  next
    case ma: True
    have "set_row rm ma insync m = m" using vals pm ma True by (intro set_row_same) auto
    then have "map (set_pair (seg_dbid p) (seg_dbid m) rp rm insync pa ma) ?C = ?C"
      using other uniq_m by (intro map_idI) auto
    moreover have "updateConfiguration p m rp rm insync pa ma w = Inr (False, w)"
      using ma True pm(6) vals(5) by (simp add: updateConfiguration_def)
    ultimately show thesis using that by metis
  qed
qed

lemma config_roles:
  "config_ok C \<Longrightarrow> r \<in> set C \<Longrightarrow> q \<in> set C \<Longrightarrow> seg_index q = seg_index r \<Longrightarrow> q \<noteq> r \<Longrightarrow> seg_role q \<noteq> seg_role r"
  by (simp add: config_ok_def)

lemma config_set_pair:
  assumes "config_ok C" "pair_in C p m" "stays rp rm insync pa \<and> (insync \<longrightarrow> ma) \<or> fails_over m rp rm insync pa ma"
  shows "config_ok (map (set_pair (seg_dbid p) (seg_dbid m) rp rm insync pa ma) C)"
proof -
  let ?f = "set_pair (seg_dbid p) (seg_dbid m) rp rm insync pa ma"
  have d: "distinct (map seg_dbid C)" using assms(1) by (simp add: config_ok_def)
  have pm: "p \<in> set C" "m \<in> set C" "seg_index m = seg_index p" "seg_dbid m \<noteq> seg_dbid p" using assms(2) by (auto simp: pair_in_def)
  have f: "?f p = set_row rp pa insync p" "?f m = set_row rm ma insync m" using pm(4) by (auto simp: set_pair_def)
  have other: "?f r = r" if "r \<in> set C" "r \<noteq> p" "r \<noteq> m" for r
    using that row_unique [OF d _ pm(1)] row_unique [OF d _ pm(2)] by (auto simp: set_pair_def)
  have alone: "seg_index r \<noteq> seg_index p" if "r \<in> set C" "r \<noteq> p" "r \<noteq> m" for r
  proof
    assume i: "seg_index r = seg_index p"
    have "seg_role r \<noteq> seg_role p" by (rule config_roles [OF assms(1) pm(1) that(1) i that(2)])
    moreover have "seg_role r \<noteq> seg_role m" by (rule config_roles [OF assms(1) pm(2) that(1) _ that(3)]) (simp add: i pm(3))
    ultimately show False using that assms(1,2) by (auto simp: config_ok_def row_ok_def pair_in_def)
  qed
  have roles: "rp = GP_SEGMENT_CONFIGURATION_ROLE_PRIMARY \<and> rm = GP_SEGMENT_CONFIGURATION_ROLE_MIRROR \<or>
      rp = GP_SEGMENT_CONFIGURATION_ROLE_MIRROR \<and> rm = GP_SEGMENT_CONFIGURATION_ROLE_PRIMARY"
    "rp = GP_SEGMENT_CONFIGURATION_ROLE_PRIMARY \<longrightarrow> pa" "rm = GP_SEGMENT_CONFIGURATION_ROLE_PRIMARY \<longrightarrow> ma" "insync \<longrightarrow> pa \<and> ma"
    using assms(3) by (auto simp: stays_def fails_over_def fts_chars)
  have set: "set (map ?f C) = {set_row rp pa insync p, set_row rm ma insync m} \<union> (set C - {p, m})"
    using f other pm by (auto simp: image_iff) metis+
  have old: "\<exists>q \<in> set C - {p, m}. seg_index q = seg_index r \<and> SEGMENT_IS_ACTIVE_PRIMARY q" if r: "r \<in> set C - {p, m}" for r
  proof -
    obtain q where "q \<in> set C" "seg_index q = seg_index r" "SEGMENT_IS_ACTIVE_PRIMARY q"
      using r assms(1) by (auto simp: config_ok_def)
    moreover have "seg_index r \<noteq> seg_index p" using r alone [of r] by blast
    ultimately show ?thesis using pm(3) by auto
  qed
  have "row_ok (set_row rp pa insync p)" "row_ok (set_row rm ma insync m)"
    using roles by (auto simp: row_ok_def status_char_def mode_char_def)
  then have "\<forall>r \<in> set (map ?f C). row_ok r" unfolding set using assms(1) by (auto simp: config_ok_def)
  moreover have "\<forall>r \<in> set (map ?f C). \<exists>q \<in> set (map ?f C). seg_index q = seg_index r \<and> SEGMENT_IS_ACTIVE_PRIMARY q"
    unfolding set using roles(1) pm(3) old by fastforce
  moreover have "seg_role q \<noteq> seg_role r \<and> seg_mode q = seg_mode r"
    if rq: "r \<in> set (map ?f C)" "q \<in> set (map ?f C)" "seg_index q = seg_index r" "q \<noteq> r" for r q
  proof -
    let ?N = "{set_row rp pa insync p, set_row rm ma insync m}"
    have N: "seg_index s = seg_index p" if "s \<in> ?N" for s using that pm(3) by auto
    consider "r \<in> ?N" "q \<in> ?N" | "r \<in> ?N" "q \<in> set C - {p, m}" | "q \<in> ?N" "r \<in> set C - {p, m}"
      | "r \<in> set C - {p, m}" "q \<in> set C - {p, m}"
      using rq(1,2) unfolding set by blast
    then show ?thesis
    proof cases
      case 1
      then show ?thesis using rq(4) roles(1) by (auto simp: fts_chars)
    next
      case 2
      then show ?thesis using alone [of q] N [of r] rq(3) by simp
    next
      case 3
      then show ?thesis using alone [of r] N [of q] rq(3) by simp
    next
      case 4
      then show ?thesis using assms(1) rq(3,4) by (simp add: config_ok_def)
    qed
  qed
  moreover have "distinct (map seg_dbid (map ?f C))" using d by (simp add: comp_def)
  ultimately show ?thesis unfolding config_ok_def by blast
qed

text \<open>A change that touches the roles, states and modes of the rows of some contents only.\<close>

definition only_content :: "int set \<Rightarrow> GpSegConfigEntry list \<Rightarrow> GpSegConfigEntry list \<Rightarrow> bool" where
  "only_content I C C' \<longleftrightarrow> list_all2 (\<lambda>r r'. r' = r\<lparr>seg_role := seg_role r', seg_status := seg_status r', seg_mode := seg_mode r'\<rparr> \<and>
     (seg_index r \<notin> I \<longrightarrow> r' = r)) C C'"

lemma only_content_refl [simp]: "only_content I C C"
  by (simp add: only_content_def list.rel_refl_strong)

lemma only_content_set_pair:
  assumes "config_ok C" "pair_in C p m"
  shows "only_content {seg_index p} C (map (set_pair (seg_dbid p) (seg_dbid m) rp rm insync pa ma) C)"
proof -
  have d: "distinct (map seg_dbid C)" "p \<in> set C" "m \<in> set C" "seg_index m = seg_index p"
    using assms by (auto simp: config_ok_def pair_in_def)
  let ?f = "set_pair (seg_dbid p) (seg_dbid m) rp rm insync pa ma"
  have "?f r = r\<lparr>seg_role := seg_role (?f r), seg_status := seg_status (?f r), seg_mode := seg_mode (?f r)\<rparr>" for r
    by (simp add: set_pair_def set_row_def)
  moreover have "?f r = r" if "r \<in> set C" "seg_index r \<noteq> seg_index p" for r
    using row_unique [OF d(1) that(1) d(2)] row_unique [OF d(1) that(1) d(3)] d(4) that(2) by (auto simp: set_pair_def)
  ultimately show ?thesis
    unfolding only_content_def list_all2_map2 by (intro list.rel_refl_strong) blast
qed

lemma only_content_keeps:
  assumes "only_content I C C'" "r \<in> set C" "seg_index r \<notin> I"
  shows "r \<in> set C'"
  using assms by (auto simp: only_content_def list_all2_conv_all_nth in_set_conv_nth)

lemma only_content_row:
  assumes "only_content I C C'" "r \<in> set C"
  shows "\<exists>r' \<in> set C'. r' = r\<lparr>seg_role := seg_role r', seg_status := seg_status r', seg_mode := seg_mode r'\<rparr>"
proof -
  obtain n where n: "n < length C" "r = C ! n" using assms(2) by (auto simp: in_set_conv_nth)
  then have "C' ! n \<in> set C'" "C' ! n = r\<lparr>seg_role := seg_role (C' ! n), seg_status := seg_status (C' ! n), seg_mode := seg_mode (C' ! n)\<rparr>"
    using assms(1) by (auto simp: only_content_def list_all2_conv_all_nth)
  then show ?thesis by blast
qed

lemma only_content_trans:
  assumes "only_content I C C1" "only_content J C1 C2"
  shows "only_content (I \<union> J) C C2"
  unfolding only_content_def
proof (rule list_all2_trans [OF _ assms [unfolded only_content_def]])
  fix a b c :: GpSegConfigEntry
  assume b: "b = a\<lparr>seg_role := seg_role b, seg_status := seg_status b, seg_mode := seg_mode b\<rparr> \<and> (seg_index a \<notin> I \<longrightarrow> b = a)"
    and c: "c = b\<lparr>seg_role := seg_role c, seg_status := seg_status c, seg_mode := seg_mode c\<rparr> \<and> (seg_index b \<notin> J \<longrightarrow> c = b)"
  have "c = a\<lparr>seg_role := seg_role c, seg_status := seg_status c, seg_mode := seg_mode c\<rparr>"
    by (subst conjunct1 [OF c], subst conjunct1 [OF b]) simp
  then show "c = a\<lparr>seg_role := seg_role c, seg_status := seg_status c, seg_mode := seg_mode c\<rparr> \<and> (seg_index a \<notin> I \<union> J \<longrightarrow> c = a)"
    using b c by auto
qed

section \<open>Processing a response\<close>

definition has_row :: "GpSegConfigEntry list \<Rightarrow> GpSegConfigEntry \<Rightarrow> (GpSegConfigEntry \<Rightarrow> bool) \<Rightarrow> bool" where
  "has_row C s P \<longleftrightarrow> (\<exists>r \<in> set C. seg_dbid r = seg_dbid s \<and> seg_index r = seg_index s \<and> P r)"

text \<open>What the catalog says of a pair: while it is probed, its segments are rows; a primary told to turn
  off synchronous replication is the primary and its mirror is down; a segment told to take over is
  the primary.\<close>

definition linked :: "GpSegConfigEntry list \<Rightarrow> 'c fts_segment_info \<Rightarrow> bool" where
  "linked C x \<longleftrightarrow>
     (let p = primary_cdbinfo x; m = mirror_cdbinfo x
      in seg_index m = seg_index p \<and> seg_dbid m \<noteq> seg_dbid p \<and>
         (case phase (seg_state x) of
            Probing \<Rightarrow> pair_in C p m
          | Turning_off \<Rightarrow> has_row C p SEGMENT_IS_ACTIVE_PRIMARY \<and>
              has_row C m (\<lambda>r. seg_role r = GP_SEGMENT_CONFIGURATION_ROLE_MIRROR \<and> \<not> SEGMENT_IS_ALIVE r)
          | Promoting \<Rightarrow> has_row C p SEGMENT_IS_ACTIVE_PRIMARY \<and>
              has_row C m (\<lambda>r. seg_role r = GP_SEGMENT_CONFIGURATION_ROLE_MIRROR)
          | Processed \<Rightarrow> True))"

lemma linked_frame:
  assumes "linked C x" "only_content I C C'" "seg_index (primary_cdbinfo x) \<notin> I"
  shows "linked C' x"
proof -
  have "has_row C' s P" if "has_row C s P" "seg_index s = seg_index (primary_cdbinfo x)" for s P
    using that assms(3) only_content_keeps [OF assms(2)] unfolding has_row_def by metis
  moreover have "pair_in C' (primary_cdbinfo x) (mirror_cdbinfo x)" if "pair_in C (primary_cdbinfo x) (mirror_cdbinfo x)"
    using that assms(3) only_content_keeps [OF assms(2)] by (auto simp: pair_in_def)
  ultimately show ?thesis using assms(1) by (auto simp: linked_def Let_def split: fts_phase.splits)
qed

lemma linked_same: "same_pair x y \<Longrightarrow> linked C x \<Longrightarrow> linked C y"
  by (auto simp: linked_def same_pair_def)

end
