(* ===== verification/FtsCycle.thy ===== *)
theory FtsCycle
  imports FtsProbeProps
begin

text \<open>
  A probe cycle as a whole: every response leaves a well-formed configuration that agrees with the
  status in shared memory, no round raises an error, and a segment is promoted only after the catalog
  says that it is the primary.
\<close>

section \<open>A response\<close>

definition response_good :: "fts_guc \<Rightarrow> fts_shared \<Rightarrow> 'c fts_segment_info \<Rightarrow> 'c fts_segment_info \<Rightarrow> bool \<Rightarrow> fts_shared \<Rightarrow> bool" where
  "response_good guc w x y upd w' \<longleftrightarrow>
     head_pair guc y \<and> seg_index (primary_cdbinfo y) = seg_index (primary_cdbinfo x) \<and>
     config_ok (gp_segment_configuration w') \<and> linked (gp_segment_configuration w') y \<and>
     only_content {seg_index (primary_cdbinfo x)} (gp_segment_configuration w) (gp_segment_configuration w') \<and>
     (status_ok w \<longrightarrow> status_ok w') \<and> (\<not> upd \<longrightarrow> w' = w)"

lemma reset_head:
  "messaging (seg_state y) \<or> seg_state y = FTS_RESPONSE_PROCESSED \<Longrightarrow> head_pair guc (reset_segment y)"
  by (auto simp: head_pair_def reset_segment_def idle_pair_def)

lemma reset_simps [simp]:
  "seg_state (reset_segment y) = seg_state y" "primary_cdbinfo (reset_segment y) = primary_cdbinfo y"
  "mirror_cdbinfo (reset_segment y) = mirror_cdbinfo y"
  by (simp_all add: reset_segment_def)

lemma linked_reset [simp]: "linked C (reset_segment y) = linked C y"
  by (simp add: linked_def)

lemma good_unchanged:
  assumes "config_ok (gp_segment_configuration w)" "linked (gp_segment_configuration w) x"
    "s = FTS_RESPONSE_PROCESSED \<or> s = FTS_PROMOTE_SEGMENT \<and> phase (seg_state x) = Probing"
  shows "response_good guc w x (reset_segment (x\<lparr>seg_state := s\<rparr>)) False w"
  using assms
  by (auto simp: response_good_def reset_head messaging_def linked_def Let_def has_row_def pair_in_def SEGMENT_IS_ACTIVE_PRIMARY_def)

lemma has_row_map: "s \<in> set C \<Longrightarrow> seg_dbid (f s) = seg_dbid s \<Longrightarrow> seg_index (f s) = seg_index s \<Longrightarrow> P (f s) \<Longrightarrow> has_row (map f C) s P"
  by (auto simp: has_row_def)

lemma has_row_set_pair:
  assumes "pair_in C p m"
  shows "P (set_row rp pa insync p) \<Longrightarrow> has_row (map (set_pair (seg_dbid p) (seg_dbid m) rp rm insync pa ma) C) p P"
    "P (set_row rm ma insync m) \<Longrightarrow> has_row (map (set_pair (seg_dbid p) (seg_dbid m) rp rm insync pa ma) C) m P"
proof -
  have "p \<in> set C" "m \<in> set C" "set_pair (seg_dbid p) (seg_dbid m) rp rm insync pa ma p = set_row rp pa insync p"
    "set_pair (seg_dbid p) (seg_dbid m) rp rm insync pa ma m = set_row rm ma insync m"
    using assms by (auto simp: pair_in_def set_pair_def)
  then show "P (set_row rp pa insync p) \<Longrightarrow> has_row (map (set_pair (seg_dbid p) (seg_dbid m) rp rm insync pa ma) C) p P"
    "P (set_row rm ma insync m) \<Longrightarrow> has_row (map (set_pair (seg_dbid p) (seg_dbid m) rp rm insync pa ma) C) m P"
    by (auto intro!: has_row_map)
qed

definition same_roles :: "GpSegConfigEntry list \<Rightarrow> GpSegConfigEntry list \<Rightarrow> bool" where
  "same_roles C C' \<longleftrightarrow> map seg_role C' = map seg_role C"

lemma same_roles_stays:
  assumes "config_ok C" "pair_in C p m"
  shows "same_roles C (map (set_pair (seg_dbid p) (seg_dbid m) GP_SEGMENT_CONFIGURATION_ROLE_PRIMARY
    GP_SEGMENT_CONFIGURATION_ROLE_MIRROR insync pa ma) C)"
proof -
  have d: "distinct (map seg_dbid C)" "p \<in> set C" "m \<in> set C" using assms by (auto simp: config_ok_def pair_in_def)
  have "seg_role (set_pair (seg_dbid p) (seg_dbid m) GP_SEGMENT_CONFIGURATION_ROLE_PRIMARY
    GP_SEGMENT_CONFIGURATION_ROLE_MIRROR insync pa ma r) = seg_role r" if "r \<in> set C" for r
    using row_unique [OF d(1) that d(2)] row_unique [OF d(1) that d(3)] assms(2) by (auto simp: set_pair_def pair_in_def)
  then show ?thesis by (simp add: same_roles_def)
qed

lemma good_stays:
  assumes ok: "config_ok (gp_segment_configuration w)" and l: "linked (gp_segment_configuration w) x"
    and ph: "phase (seg_state x) = Probing" and st: "insync \<longrightarrow> ma"
    and s: "s = FTS_RESPONSE_PROCESSED \<or> s = FTS_SYNCREP_OFF_SEGMENT \<and> \<not> ma"
  obtains upd w' where
    "updateConfiguration (primary_cdbinfo x) (mirror_cdbinfo x) GP_SEGMENT_CONFIGURATION_ROLE_PRIMARY
       GP_SEGMENT_CONFIGURATION_ROLE_MIRROR insync True ma w = Inr (upd, w')"
    "response_good guc w x (reset_segment (x\<lparr>seg_state := s\<rparr>)) upd w'"
    "same_roles (gp_segment_configuration w) (gp_segment_configuration w')"
proof -
  let ?C = "gp_segment_configuration w" and ?p = "primary_cdbinfo x" and ?m = "mirror_cdbinfo x"
  let ?P = "GP_SEGMENT_CONFIGURATION_ROLE_PRIMARY" and ?M = "GP_SEGMENT_CONFIGURATION_ROLE_MIRROR"
  have p: "pair_in ?C ?p ?m" using l ph by (simp add: linked_def Let_def)
  have st': "stays ?P ?M insync True" by (simp add: stays_def)
  obtain upd w' where u: "updateConfiguration ?p ?m ?P ?M insync True ma w = Inr (upd, w')"
      "gp_segment_configuration w' = map (set_pair (seg_dbid ?p) (seg_dbid ?m) ?P ?M insync True ma) ?C"
      "status_ok w \<longrightarrow> status_ok w'" "\<not> upd \<longrightarrow> w' = w"
    by (rule update_stays [OF ok p st', of ma])
  have "config_ok (gp_segment_configuration w')"
    unfolding u(2) by (rule config_set_pair [OF ok p]) (use st in \<open>simp add: stays_def\<close>)
  moreover have "linked (gp_segment_configuration w') (x\<lparr>seg_state := s\<rparr>)"
    using s l unfolding u(2) by (auto simp: linked_def Let_def intro!: has_row_set_pair [OF p])
  moreover have "same_roles ?C (gp_segment_configuration w')"
    unfolding u(2) by (rule same_roles_stays [OF ok p])
  ultimately show thesis
    using that u s only_content_set_pair [OF ok p] by (auto simp: response_good_def reset_head messaging_def)
qed

lemma good_fails_over:
  assumes ok: "config_ok (gp_segment_configuration w)" and l: "linked (gp_segment_configuration w) x"
    and ph: "phase (seg_state x) = Probing" and sync: "SEGMENT_IS_IN_SYNC (mirror_cdbinfo x)"
  obtains w' where
    "updateConfiguration (primary_cdbinfo x) (mirror_cdbinfo x) GP_SEGMENT_CONFIGURATION_ROLE_MIRROR
       GP_SEGMENT_CONFIGURATION_ROLE_PRIMARY False False (SEGMENT_IS_ALIVE (mirror_cdbinfo x)) w = Inr (True, w')"
    "response_good guc w x (reset_segment (x\<lparr>seg_state := FTS_PROMOTE_SEGMENT, primary_cdbinfo := mirror_cdbinfo x,
       mirror_cdbinfo := primary_cdbinfo x\<rparr>)) True w'"
    "has_row (gp_segment_configuration w') (primary_cdbinfo x) (\<lambda>r. \<not> SEGMENT_IS_ALIVE r \<and> \<not> SEGMENT_IS_IN_SYNC r)"
proof -
  let ?C = "gp_segment_configuration w" and ?p = "primary_cdbinfo x" and ?m = "mirror_cdbinfo x"
  let ?P = "GP_SEGMENT_CONFIGURATION_ROLE_PRIMARY" and ?M = "GP_SEGMENT_CONFIGURATION_ROLE_MIRROR"
  have p: "pair_in ?C ?p ?m" using l ph by (simp add: linked_def Let_def)
  note vals = pair_values [OF ok p]
  have ma: "SEGMENT_IS_ALIVE ?m" "False \<noteq> SEGMENT_IS_IN_SYNC ?p" using vals(6,7) sync by auto
  obtain w' where u: "updateConfiguration ?p ?m ?M ?P False False True w = Inr (True, w')"
      "gp_segment_configuration w' = map (set_pair (seg_dbid ?p) (seg_dbid ?m) ?M ?P False False True) ?C"
      "status_ok w \<longrightarrow> status_ok w'"
    by (rule update_both [OF ok p ma(2), of ?M ?P False True])
  have "config_ok (gp_segment_configuration w')"
    unfolding u(2) by (rule config_set_pair [OF ok p]) (use sync in \<open>simp add: fails_over_def\<close>)
  moreover have "linked (gp_segment_configuration w') (x\<lparr>seg_state := FTS_PROMOTE_SEGMENT, primary_cdbinfo := ?m, mirror_cdbinfo := ?p\<rparr>)"
    using l unfolding u(2) by (auto simp: linked_def Let_def intro!: has_row_set_pair [OF p])
  moreover have "has_row (gp_segment_configuration w') ?p (\<lambda>r. \<not> SEGMENT_IS_ALIVE r \<and> \<not> SEGMENT_IS_IN_SYNC r)"
    unfolding u(2) by (rule has_row_set_pair [OF p]) simp
  moreover have "seg_index ?m = seg_index ?p" using p by (simp add: pair_in_def)
  ultimately show thesis
    using that ma(1) u only_content_set_pair [OF ok p] by (auto simp: response_good_def reset_head messaging_def)
qed

text \<open>A response that makes the mirror the primary.\<close>

definition failover :: "fts_guc \<Rightarrow> 'c fts_segment_info \<Rightarrow> 'c fts_segment_info \<Rightarrow> GpSegConfigEntry list \<Rightarrow> bool" where
  "failover guc x y C' \<longleftrightarrow>
     seg_state x = FTS_PROBE_FAILED \<and> retry_count x = gp_fts_probe_retries guc \<and>
     restart_state x \<noteq> PM_IN_RESETTING \<and> restart_state x \<noteq> PM_IN_RECOVERY_MAKING_PROGRESS \<and>
     SEGMENT_IS_IN_SYNC (mirror_cdbinfo x) \<and>
     seg_state y = FTS_PROMOTE_SEGMENT \<and> primary_cdbinfo y = mirror_cdbinfo x \<and> mirror_cdbinfo y = primary_cdbinfo x \<and>
     restart_state y = restart_state x \<and>
     has_row C' (primary_cdbinfo x) (\<lambda>r. \<not> SEGMENT_IS_ALIVE r \<and> \<not> SEGMENT_IS_IN_SYNC r)"

lemma response_spec:
  assumes ok: "config_ok (gp_segment_configuration w)" and l: "linked (gp_segment_configuration w) x" and r: "ready_pair guc x"
  obtains y upd w' where "response_segment x w = Inr (y, upd, w')" "response_good guc w x y upd w'"
    "same_roles (gp_segment_configuration w) (gp_segment_configuration w') \<or> failover guc x y (gp_segment_configuration w')"
proof -
  note found = that
  have plain: thesis if "response_segment x w = Inr (reset_segment (x\<lparr>seg_state := s\<rparr>), False, w)"
      "s = FTS_RESPONSE_PROCESSED \<or> s = FTS_PROMOTE_SEGMENT \<and> phase (seg_state x) = Probing" for s
    using found [OF that(1) good_unchanged [OF ok l that(2)]] by (simp add: same_roles_def)
  consider (success) "seg_state x = FTS_PROBE_SUCCESS" | (failed) "seg_state x = FTS_PROBE_FAILED"
    | (other) "phase (seg_state x) = Turning_off \<or> phase (seg_state x) = Promoting" "ftsResponseReady x"
    using r by (cases "seg_state x") (auto simp: ready_pair_def answered_pair_def state_classes ftsResponseReady_def)
  then show thesis
  proof cases
    case other
    then have "response_segment x w = Inr (reset_segment (x\<lparr>seg_state := FTS_RESPONSE_PROCESSED\<rparr>), False, w)"
      by (cases "seg_state x") (auto simp: response_segment_def ftsResponseReady_def state_classes)
    then show thesis using plain by blast
  next
    case success
    let ?res = "seg_result x"
    have a: "isPrimaryAlive ?res" "isInSync ?res \<longrightarrow> isMirrorAlive ?res" "phase (seg_state x) = Probing"
      using r success by (auto simp: ready_pair_def answered_pair_def state_classes)
    let ?s = "if isSyncRepEnabled ?res \<and> \<not> isMirrorAlive ?res then FTS_SYNCREP_OFF_SEGMENT else FTS_RESPONSE_PROCESSED"
    obtain upd w' where u: "updateConfiguration (primary_cdbinfo x) (mirror_cdbinfo x) GP_SEGMENT_CONFIGURATION_ROLE_PRIMARY
         GP_SEGMENT_CONFIGURATION_ROLE_MIRROR (isInSync ?res) True (isMirrorAlive ?res) w = Inr (upd, w')"
        "response_good guc w x (reset_segment (x\<lparr>seg_state := ?s\<rparr>)) upd w'"
        "same_roles (gp_segment_configuration w) (gp_segment_configuration w')"
      by (rule good_stays [OF ok l a(3,2), of ?s guc]) auto
    have R: "response_segment x w =
        (if isSyncRepEnabled ?res \<and> \<not> isMirrorAlive ?res \<and> retryRequested ?res
         then Inr (reset_segment (x\<lparr>seg_state := FTS_RESPONSE_PROCESSED\<rparr>), False, w)
         else if \<not> (isSyncRepEnabled ?res \<and> \<not> isMirrorAlive ?res) \<and> isRoleMirror ?res
         then Inr (reset_segment (x\<lparr>seg_state := FTS_PROMOTE_SEGMENT\<rparr>), False, w)
         else Inr (reset_segment (x\<lparr>seg_state := ?s\<rparr>), upd, w'))"
      using success a(1) u(1) by (cases "isMirrorAlive ?res") (simp_all add: response_segment_def process_probe_success_def Let_def)
    then show thesis
      using plain [of FTS_RESPONSE_PROCESSED] plain [of FTS_PROMOTE_SEGMENT] a(3) that [OF _ u(2)] u(3) by (auto split: if_splits)
  next
    case failed
    have a: "seg_result x = no_result" "retry_count x = gp_fts_probe_retries guc" "phase (seg_state x) = Probing"
      using r failed by (auto simp: ready_pair_def answered_pair_def state_classes)
    show thesis
    proof (cases "restart_state x = PM_IN_RESETTING \<or> restart_state x = PM_IN_RECOVERY_MAKING_PROGRESS \<or>
        \<not> SEGMENT_IS_IN_SYNC (mirror_cdbinfo x)")
      case True
      then have "response_segment x w = Inr (reset_segment (x\<lparr>seg_state := FTS_RESPONSE_PROCESSED\<rparr>), False, w)"
        using failed a(1) by (auto simp: response_segment_def process_probe_failed_def Let_def)
      then show thesis using plain by blast
    next
      case False
      then have sync: "SEGMENT_IS_IN_SYNC (mirror_cdbinfo x)" by simp
      let ?y = "reset_segment (x\<lparr>seg_state := FTS_PROMOTE_SEGMENT, primary_cdbinfo := mirror_cdbinfo x,
        mirror_cdbinfo := primary_cdbinfo x\<rparr>)"
      obtain w' where u: "updateConfiguration (primary_cdbinfo x) (mirror_cdbinfo x) GP_SEGMENT_CONFIGURATION_ROLE_MIRROR
           GP_SEGMENT_CONFIGURATION_ROLE_PRIMARY False False (SEGMENT_IS_ALIVE (mirror_cdbinfo x)) w = Inr (True, w')"
          "response_good guc w x ?y True w'"
          "has_row (gp_segment_configuration w') (primary_cdbinfo x) (\<lambda>r. \<not> SEGMENT_IS_ALIVE r \<and> \<not> SEGMENT_IS_IN_SYNC r)"
        by (rule good_fails_over [OF ok l a(3) sync])
      have "response_segment x w = Inr (?y, True, w')"
        using False failed a(1) u(1) by (simp add: response_segment_def process_probe_failed_def no_result_def Let_def)
      moreover have "failover guc x ?y (gp_segment_configuration w')"
        using False failed a(2) u(3) by (simp add: failover_def reset_segment_def)
      ultimately show thesis using that u(2) by blast
    qed
  qed
qed

section \<open>All responses of a round\<close>

abbreviation content :: "'c fts_segment_info \<Rightarrow> int" where
  "content x \<equiv> seg_index (primary_cdbinfo x)"

lemma head_not_ready: "head_pair guc x \<Longrightarrow> \<not> ftsResponseReady x"
  by (auto simp: head_pair_def idle_pair_def ftsResponseReady_def state_classes)

lemma ready_is_ready: "ready_pair guc x \<Longrightarrow> ftsResponseReady x"
  by (auto simp: ready_pair_def answered_pair_def ftsResponseReady_def)

lemma only_content_nth:
  assumes "only_content I C C'" "n < length C"
  shows "length C' = length C" "seg_index (C' ! n) = seg_index (C ! n)" "seg_dbid (C' ! n) = seg_dbid (C ! n)"
    "seg_index (C ! n) \<notin> I \<Longrightarrow> C' ! n = C ! n"
proof -
  have "C' ! n = (C ! n)\<lparr>seg_role := seg_role (C' ! n), seg_status := seg_status (C' ! n), seg_mode := seg_mode (C' ! n)\<rparr> \<and>
      (seg_index (C ! n) \<notin> I \<longrightarrow> C' ! n = C ! n)" "length C' = length C"
    using assms by (auto simp: only_content_def list_all2_conv_all_nth)
  then show "length C' = length C" "seg_index (C' ! n) = seg_index (C ! n)" "seg_dbid (C' ! n) = seg_dbid (C ! n)"
    "seg_index (C ! n) \<notin> I \<Longrightarrow> C' ! n = C ! n"
    by (metis GpSegConfigEntry.select_convs(1,2) GpSegConfigEntry.surjective GpSegConfigEntry.update_convs(3,4,5))+
qed

lemma failover_frame:
  assumes "failover guc x y C" "only_content I C C'" "content x \<notin> I"
  shows "failover guc x y C'"
proof -
  have "has_row C' (primary_cdbinfo x) P" if "has_row C (primary_cdbinfo x) P" for P
    using that assms(3) only_content_keeps [OF assms(2)] unfolding has_row_def by metis
  then show ?thesis using assms(1) by (simp add: failover_def)
qed

definition role_changes :: "fts_guc \<Rightarrow> 'c fts_segment_info list \<Rightarrow> 'c fts_segment_info list \<Rightarrow> GpSegConfigEntry list \<Rightarrow> GpSegConfigEntry list \<Rightarrow> bool" where
  "role_changes guc ys zs C C' \<longleftrightarrow>
     (\<forall>n < length C. seg_role (C' ! n) \<noteq> seg_role (C ! n) \<longrightarrow>
        (\<exists>k < length ys. content (ys ! k) = seg_index (C ! n) \<and> failover guc (ys ! k) (zs ! k) C'))"

definition round_good :: "fts_guc \<Rightarrow> 'c fts_segment_info list \<Rightarrow> bool \<Rightarrow> fts_shared \<Rightarrow> 'c fts_segment_info list \<Rightarrow> bool \<Rightarrow> fts_shared \<Rightarrow> bool" where
  "round_good guc ys upd w zs upd' w' \<longleftrightarrow>
     (let C = gp_segment_configuration w; C' = gp_segment_configuration w'
      in map content zs = map content ys \<and> (\<forall>z \<in> set zs. head_pair guc z \<and> linked C' z) \<and> config_ok C' \<and>
         only_content (set (map content ys)) C C' \<and> (status_ok w \<longrightarrow> status_ok w') \<and> (\<not> upd' \<longrightarrow> \<not> upd \<and> w' = w) \<and>
         role_changes guc ys zs C C')"

text \<open>One pair: its response is processed, or it has none.\<close>

lemma process_one:
  assumes "config_ok (gp_segment_configuration w)" "linked (gp_segment_configuration w) x" "head_pair guc x \<or> ready_pair guc x"
  obtains y upd w' where
    "(if ftsResponseReady x then response_segment x w else Inr (x, False, w)) = Inr (y, upd, w')"
    "response_good guc w x y upd w'"
    "same_roles (gp_segment_configuration w) (gp_segment_configuration w') \<or> failover guc x y (gp_segment_configuration w')"
proof (cases "ready_pair guc x")
  case True
  then show thesis using response_spec [OF assms(1,2) True] ready_is_ready [OF True] that by (metis (full_types))
next
  case False
  then have "head_pair guc x" using assms(3) by blast
  then have "(if ftsResponseReady x then response_segment x w else Inr (x, False, w)) = Inr (x, False, w)"
    "response_good guc w x x False w"
    using head_not_ready assms(1,2) by (auto simp: response_good_def)
  moreover have "same_roles (gp_segment_configuration w) (gp_segment_configuration w)" by (simp add: same_roles_def)
  ultimately show thesis by (intro that disjI1)
qed

lemma process_spec:
  assumes "config_ok (gp_segment_configuration w)" "distinct (map content ys)"
    "\<forall>y \<in> set ys. linked (gp_segment_configuration w) y \<and> (head_pair guc y \<or> ready_pair guc y)" "\<forall>i. active_at env i"
  shows "\<exists>zs upd' w'. process_from env i ys upd w = Inr (zs, upd', w') \<and> round_good guc ys upd w zs upd' w'"
  using assms
proof (induction ys arbitrary: i upd w)
  case Nil
  then show ?case by (simp add: round_good_def role_changes_def)
next
  case (Cons y ys)
  let ?C = "gp_segment_configuration w"
  have y: "linked ?C y" "head_pair guc y \<or> ready_pair guc y" using Cons.prems(3) by auto
  obtain y' u1 w1 where one: "(if ftsResponseReady y then response_segment y w else Inr (y, False, w)) = Inr (y', u1, w1)"
      "response_good guc w y y' u1 w1" "same_roles ?C (gp_segment_configuration w1) \<or> failover guc y y' (gp_segment_configuration w1)"
    by (rule process_one [OF Cons.prems(1) y])
  let ?C1 = "gp_segment_configuration w1"
  have g: "head_pair guc y'" "content y' = content y" "config_ok ?C1" "linked ?C1 y'" "only_content {content y} ?C ?C1"
    "status_ok w \<longrightarrow> status_ok w1" "\<not> u1 \<longrightarrow> w1 = w"
    using one(2) by (auto simp: response_good_def)
  have "content x \<notin> {content y}" if "x \<in> set ys" for x using Cons.prems(2) that by (auto simp: image_iff)
  then have rest: "\<forall>x \<in> set ys. linked ?C1 x \<and> (head_pair guc x \<or> ready_pair guc x)"
    using Cons.prems(3) linked_frame [OF _ g(5)] by auto
  obtain zs u2 w2 where tail: "process_from env (i + 1) ys (upd \<or> u1) w1 = Inr (zs, u2, w2)" "round_good guc ys (upd \<or> u1) w1 zs u2 w2"
    using Cons.IH [OF g(3) _ rest Cons.prems(4)] Cons.prems(2) by fastforce
  let ?C2 = "gp_segment_configuration w2"
  have t: "map content zs = map content ys" "\<forall>z \<in> set zs. head_pair guc z \<and> linked ?C2 z" "config_ok ?C2"
    "only_content (set (map content ys)) ?C1 ?C2" "status_ok w1 \<longrightarrow> status_ok w2" "\<not> u2 \<longrightarrow> \<not> (upd \<or> u1) \<and> w2 = w1"
    "role_changes guc ys zs ?C1 ?C2"
    using tail(2) by (auto simp: round_good_def Let_def)
  have fresh: "content y \<notin> set (map content ys)" using Cons.prems(2) by auto
  have "role_changes guc (y # ys) (y' # zs) ?C ?C2"
    unfolding role_changes_def
  proof (intro allI impI)
    fix n assume n: "n < length ?C" "seg_role (?C2 ! n) \<noteq> seg_role (?C ! n)"
    note c1 = only_content_nth [OF g(5) n(1)]
    have n1: "n < length ?C1" using c1(1) n(1) by simp
    note c2 = only_content_nth [OF t(4) n1]
    show "\<exists>k < length (y # ys). content ((y # ys) ! k) = seg_index (?C ! n) \<and> failover guc ((y # ys) ! k) ((y' # zs) ! k) ?C2"
    proof (cases "seg_role (?C2 ! n) = seg_role (?C1 ! n)")
      case False
      then obtain k where "k < length ys" "content (ys ! k) = seg_index (?C1 ! n)" "failover guc (ys ! k) (zs ! k) ?C2"
        using t(7) n1 unfolding role_changes_def by blast
      then show ?thesis using c1(2) by (intro exI [of _ "Suc k"]) simp
    next
      case True
      then have diff: "seg_role (?C1 ! n) \<noteq> seg_role (?C ! n)" using n(2) by simp
      have "map seg_role ?C1 ! n = seg_role (?C1 ! n)" "map seg_role ?C ! n = seg_role (?C ! n)" using n(1) n1 by auto
      then have "\<not> same_roles ?C ?C1" using diff unfolding same_roles_def by metis
      then have "failover guc y y' ?C2" using one(3) failover_frame [OF _ t(4) fresh] by blast
      moreover have "seg_index (?C ! n) = content y" using c1(4) diff by (cases "seg_index (?C ! n) = content y") auto
      ultimately show ?thesis by (intro exI [of _ 0]) simp
    qed
  qed
  moreover have "linked ?C2 y'" using linked_frame [OF g(4) t(4)] fresh g(2) by simp
  moreover have "only_content (set (map content (y # ys))) ?C ?C2"
    using only_content_trans [OF g(5) t(4)] by simp
  ultimately have "round_good guc (y # ys) upd w (y' # zs) u2 w2"
    using g t by (auto simp: round_good_def Let_def)
  moreover have "process_from env i (y # ys) upd w = Inr (y' # zs, u2, w2)"
    using Cons.prems(4) one(1) tail(1) by (simp del: if_split)
  ultimately show ?case by blast
qed

section \<open>A round raises no error\<close>

definition mid_pair :: "'c fts_segment_info \<Rightarrow> bool" where
  "mid_pair x \<longleftrightarrow> active_pair x \<or> idle_pair x"

lemma each_segment_total:
  assumes "\<forall>x \<in> set xs. P x" "\<And>x. P x \<Longrightarrow> \<exists>y. f x = Inr y \<and> Q y"
  shows "\<exists>ys. each_segment f xs = Inr ys \<and> (\<forall>y \<in> set ys. Q y)"
  using assms(1)
proof (induction xs)
  case (Cons x xs)
  then obtain y ys where "f x = Inr y" "Q y" "each_segment f xs = Inr ys" "\<forall>y \<in> set ys. Q y" using assms(2) by force
  then show ?case by simp
qed simp

lemma connect_mid:
  assumes "mid_pair x" "calls_succeed env"
  shows "\<exists>y. connect_segment env x = Inr y \<and> mid_pair y"
proof (cases "active_pair x")
  case True
  obtain y where "connect_segment env x = Inr y" "active_pair y" by (rule connect_active [OF True assms(2)])
  then show ?thesis by (auto simp: mid_pair_def)
next
  case False
  then have "idle_pair x" using assms(1) by (simp add: mid_pair_def)
  then show ?thesis using idle_steps(1) [of x] by (auto simp: mid_pair_def)
qed

lemma poll_mid:
  assumes "mid_pair x"
  shows "\<exists>y. poll_segment guc now b revents x = Inr y \<and> mid_pair y"
proof (cases "active_pair x")
  case True
  obtain y where "poll_segment guc now b revents x = Inr y" "active_pair y" by (rule poll_active [OF True])
  then show ?thesis by (auto simp: mid_pair_def)
next
  case False
  then have "idle_pair x" using assms(1) by (simp add: mid_pair_def)
  then show ?thesis using idle_steps(2) [of x] by (auto simp: mid_pair_def)
qed

lemma ftsPoll_mid:
  assumes "\<forall>x \<in> set xs. mid_pair x" "calls_succeed env"
  shows "\<exists>ys. ftsPoll guc env xs = Inr ys \<and> (\<forall>y \<in> set ys. mid_pair y)"
proof (cases "collect_fds env 0 xs")
  case (Pair zs fds)
  have "list_all2 (\<lambda>x y. \<exists>n. y = x\<lparr>fd_index := n\<rparr>) xs zs" using collect_fds_spec [of xs env 0] Pair by simp
  moreover have "mid_pair (x\<lparr>fd_index := n\<rparr>) = mid_pair x" for x :: "'a fts_segment_info" and n
    by (simp add: mid_pair_def active_pair_def idle_pair_def)
  ultimately have zs: "\<forall>z \<in> set zs. mid_pair z"
    using assms(1) by (auto simp: list_all2_conv_all_nth in_set_conv_nth) (metis nth_mem)
  obtain out revents where p: "poll env fds = (out, revents)" "out \<noteq> POLL_FAILED"
    using assms(2) by (metis calls_succeed_def prod.collapse)
  have "\<exists>ys. each_segment (poll_segment guc (time_poll env) b revents) zs = Inr ys \<and> (\<forall>y \<in> set ys. mid_pair y)" for b
    by (rule each_segment_total [OF zs]) (rule poll_mid)
  then show ?thesis using Pair zs p by (cases out) (auto simp: ftsPoll_def)
qed

lemma send_mid:
  assumes "mid_pair x"
  shows "\<exists>y. send_segment env x = Inr y \<and> mid_pair y"
proof (cases "active_pair x")
  case True
  obtain y where "send_segment env x = Inr y" "active_pair y" by (rule send_active [OF True])
  then show ?thesis by (auto simp: mid_pair_def)
next
  case False
  then have "idle_pair x" using assms(1) by (simp add: mid_pair_def)
  then show ?thesis using idle_steps(3) [of x] by (auto simp: mid_pair_def)
qed

lemma receive_mid:
  assumes "mid_pair x" "answers_consistent env"
  shows "\<exists>y. receive_segment env x = Inr y"
proof (cases "active_pair x")
  case True
  obtain y where "receive_segment env x = Inr y" by (rule receive_active [OF True assms(2)])
  then show ?thesis by blast
next
  case False
  then have "idle_pair x" using assms(1) by (simp add: mid_pair_def)
  then show ?thesis using idle_steps(4) [of x] by (auto simp: mid_pair_def)
qed

definition env_ok :: "'c fts_env \<Rightarrow> bool" where
  "env_ok env \<longleftrightarrow> calls_succeed env \<and> answers_consistent env \<and> (\<forall>i. active_at env i)"

definition cycle_inv :: "fts_guc \<Rightarrow> 'c fts_segment_info list \<Rightarrow> fts_shared \<Rightarrow> bool" where
  "cycle_inv guc xs w \<longleftrightarrow> config_ok (gp_segment_configuration w) \<and> distinct (map content xs) \<and>
     (\<forall>x \<in> set xs. head_pair guc x \<and> linked (gp_segment_configuration w) x)"

lemma round_steps_total:
  assumes "\<forall>x \<in> set xs. head_pair guc x" "env_ok env"
  obtains ys where "message_round guc env xs w = process_from env 0 ys False w" "list_all2 (seg_round guc env) xs ys"
proof -
  have xs: "\<forall>x \<in> set xs. mid_pair x" using assms(1) head_cases by (auto simp: mid_pair_def)
  have env: "calls_succeed env" "answers_consistent env" using assms(2) by (auto simp: env_ok_def)
  obtain x1 where x1: "ftsConnect env xs = Inr x1" "\<forall>x \<in> set x1. mid_pair x"
    using each_segment_total [OF xs, of "connect_segment env" mid_pair] connect_mid [OF _ env(1)] unfolding ftsConnect_def by blast
  obtain x2 where x2: "ftsPoll guc env x1 = Inr x2" "\<forall>x \<in> set x2. mid_pair x"
    using ftsPoll_mid [OF x1(2) env(1)] by blast
  obtain x3 where x3: "ftsSend env x2 = Inr x3" "\<forall>x \<in> set x3. mid_pair x"
    using each_segment_total [OF x2(2), of "send_segment env" mid_pair] send_mid unfolding ftsSend_def by blast
  obtain x4 where x4: "ftsReceive env x3 = Inr x4"
    using each_segment_total [OF x3(2), of "receive_segment env" "\<lambda>_. True"] receive_mid [OF _ env(2)] unfolding ftsReceive_def by blast
  have "list_all2 (seg_round guc env) xs (map (retry_segment guc (time_retry env)) x4)"
    using x1(1) x3(1) x4 ftsPoll_steps [OF x2(1)]
    unfolding ftsConnect_def ftsSend_def ftsReceive_def each_segment_Inr list_all2_conv_all_nth seg_round_def by auto metis
  moreover have "message_round guc env xs w = process_from env 0 (map (retry_segment guc (time_retry env)) x4) False w"
    using x1(1) x2(1) x3(1) x4 by (simp add: message_round_def processResponse_def processRetry_def)
  ultimately show thesis using that by blast
qed

lemma round_spec:
  assumes "cycle_inv guc xs w" "env_ok env"
  obtains ys zs upd w' where "list_all2 (seg_round guc env) xs ys" "message_round guc env xs w = Inr (zs, upd, w')"
    "process_from env 0 ys False w = Inr (zs, upd, w')" "round_good guc ys False w zs upd w'" "cycle_inv guc zs w'"
    "list_all2 same_pair xs ys" "list_all2 (\<lambda>x y. \<not> head_pair guc y \<longrightarrow> retry_count y = retry_count x) xs ys"
proof -
  have heads: "\<forall>x \<in> set xs. head_pair guc x" using assms(1) by (simp add: cycle_inv_def)
  obtain ys where ys: "message_round guc env xs w = process_from env 0 ys False w" "list_all2 (seg_round guc env) xs ys"
    by (rule round_steps_total [OF heads assms(2)])
  have env: "calls_succeed env" "answers_consistent env" "\<forall>i. active_at env i" using assms(2) by (auto simp: env_ok_def)
  have both: "list_all2 (\<lambda>x y. same_pair x y \<and> (head_pair guc y \<or> ready_pair guc y \<and> retry_count y = retry_count x)) xs ys"
    by (rule list.rel_mono_strong [OF ys(2)]) (use heads seg_round_spec [OF _ _ env(1,2)] in blast)
  then have same: "list_all2 same_pair xs ys" "list_all2 (\<lambda>x y. \<not> head_pair guc y \<longrightarrow> retry_count y = retry_count x) xs ys"
    by (auto simp: list_all2_conv_all_nth)
  have "map content ys = map content xs"
    using same(1) by (auto simp: list_all2_conv_all_nth same_pair_def intro: nth_equalityI)
  then have d: "distinct (map content ys)" using assms(1) by (simp add: cycle_inv_def)
  have "\<forall>y \<in> set ys. linked (gp_segment_configuration w) y \<and> (head_pair guc y \<or> ready_pair guc y)"
    using both assms(1) linked_same by (fastforce simp: cycle_inv_def list_all2_conv_all_nth in_set_conv_nth)
  then obtain zs upd w' where z: "process_from env 0 ys False w = Inr (zs, upd, w')" "round_good guc ys False w zs upd w'"
    using process_spec [OF _ d _ env(3)] assms(1) by (metis cycle_inv_def)
  then have "cycle_inv guc zs w'" using d by (auto simp: cycle_inv_def round_good_def Let_def)
  then show thesis using that [OF ys(2) _ z _ same] ys(1) z(1) by simp
qed

section \<open>The rounds of a cycle\<close>

text \<open>The state of the loop before round \<open>k\<close>, as long as no round fails.\<close>

fun cycle_state :: "fts_guc \<Rightarrow> (nat \<Rightarrow> 'c fts_env) \<Rightarrow> 'c fts_segment_info list \<Rightarrow> fts_shared \<Rightarrow> nat \<Rightarrow>
    'c fts_segment_info list \<times> bool \<times> fts_shared" where
  "cycle_state guc E xs w 0 = (xs, False, w)"
| "cycle_state guc E xs w (Suc k) =
     (case cycle_state guc E xs w k of (xs, upd, w) \<Rightarrow>
        (case message_round guc (E k) xs w of Inl _ \<Rightarrow> (xs, upd, w) | Inr (ys, upd', w') \<Rightarrow> (ys, upd \<or> upd', w')))"

lemma cycle_invariant:
  assumes "cycle_inv guc xs w" "\<forall>k. env_ok (E k)" "cycle_state guc E xs w k = (ys, upd, v)"
  shows "cycle_inv guc ys v" "map content ys = map content xs"
    "only_content (set (map content xs)) (gp_segment_configuration w) (gp_segment_configuration v)"
    "status_ok w \<longrightarrow> status_ok v" "\<not> upd \<longrightarrow> v = w"
proof -
  have "cycle_inv guc ys v \<and> map content ys = map content xs \<and>
    only_content (set (map content xs)) (gp_segment_configuration w) (gp_segment_configuration v) \<and>
    (status_ok w \<longrightarrow> status_ok v) \<and> (\<not> upd \<longrightarrow> v = w)"
    using assms(3)
  proof (induction k arbitrary: ys upd v)
    case 0
    then show ?case using assms(1) by simp
  next
    case (Suc k)
    obtain xs' upd' w' where k: "cycle_state guc E xs w k = (xs', upd', w')" by (metis prod_cases3)
    note ih = Suc.IH [OF k]
    obtain ms zs u v' where r: "list_all2 (seg_round guc (E k)) xs' ms" "message_round guc (E k) xs' w' = Inr (zs, u, v')"
        "process_from (E k) 0 ms False w' = Inr (zs, u, v')" "round_good guc ms False w' zs u v'" "cycle_inv guc zs v'"
        "list_all2 same_pair xs' ms"
      by (rule round_spec [OF conjunct1 [OF ih] spec [OF assms(2)]])
    have "map content ms = map content xs'" using r(6) by (auto simp: list_all2_conv_all_nth same_pair_def intro: nth_equalityI)
    moreover have "ys = zs" "upd = (upd' \<or> u)" "v = v'" using Suc.prems k r(2) by auto
    moreover have "only_content (set (map content xs) \<union> set (map content ms)) (gp_segment_configuration w) (gp_segment_configuration v')"
      by (rule only_content_trans [of _ _ "gp_segment_configuration w'"]) (use ih r(4) in \<open>auto simp: round_good_def Let_def\<close>)
    ultimately show ?case using ih r(4,5) by (auto simp: round_good_def Let_def)
  qed
  then show "cycle_inv guc ys v" "map content ys = map content xs"
    "only_content (set (map content xs)) (gp_segment_configuration w) (gp_segment_configuration v)"
    "status_ok w \<longrightarrow> status_ok v" "\<not> upd \<longrightarrow> v = w"
    by auto
qed

text \<open>The loop returns the state before the first round in which all pairs are done.\<close>

lemma cycle_loop_step:
  assumes "cycle_inv guc xs w" "\<forall>k. env_ok (E k) \<and> loop_active (E k)" "cycle_state guc E xs w k = (ys, upd, v)"
  shows "message_loop guc E k ys upd v =
     (if allDone ys then Some (Inr (upd, v))
      else case cycle_state guc E xs w (Suc k) of (ys, upd, v) \<Rightarrow> message_loop guc E (Suc k) ys upd v)"
proof -
  have inv: "cycle_inv guc ys v" by (rule cycle_invariant(1) [OF assms(1) _ assms(3)]) (use assms(2) in blast)
  have env: "env_ok (E k)" "loop_active (E k)" using assms(2) by auto
  obtain ms zs u v' where "message_round guc (E k) ys v = Inr (zs, u, v')"
    by (rule round_spec [OF inv env(1)])
  then show ?thesis using assms(3) env(2) by (subst message_loop.simps) simp
qed

lemma loop_returns:
  assumes "cycle_inv guc xs w" "\<forall>k. env_ok (E k) \<and> loop_active (E k)" "allDone (fst (cycle_state guc E xs w n))"
  shows "\<exists>k. message_loop guc E 0 xs False w = Some (Inr (snd (cycle_state guc E xs w k)))"
proof -
  have "\<exists>k. (case cycle_state guc E xs w (n - j) of (ys, upd, v) \<Rightarrow> message_loop guc E (n - j) ys upd v) =
      Some (Inr (snd (cycle_state guc E xs w k)))" if "j \<le> n" for j
    using that
  proof (induction j)
    case 0
    obtain ys upd v where s: "cycle_state guc E xs w n = (ys, upd, v)" by (metis prod_cases3)
    then show ?case using cycle_loop_step [OF assms(1,2) s] assms(3) by (auto intro!: exI [of _ n])
  next
    case (Suc j)
    obtain ys upd v where s: "cycle_state guc E xs w (n - Suc j) = (ys, upd, v)" by (metis prod_cases3)
    have next_state: "Suc (n - Suc j) = n - j" using Suc.prems by simp
    show ?case
    proof (cases "allDone ys")
      case True
      then show ?thesis using cycle_loop_step [OF assms(1,2) s] s by (auto intro!: exI [of _ "n - Suc j"])
    next
      case False
      then show ?thesis using cycle_loop_step [OF assms(1,2) s] s Suc.IH Suc.prems by (simp add: next_state del: cycle_state.simps)
    qed
  qed
  from this [of n] show ?thesis by simp
qed

lemma loop_result:
  assumes "cycle_inv guc xs w" "\<forall>k. env_ok (E k) \<and> loop_active (E k)" "message_loop guc E 0 xs False w = Some r"
  shows "\<exists>k. r = Inr (snd (cycle_state guc E xs w k)) \<and> allDone (fst (cycle_state guc E xs w k))"
proof -
  let ?P = "\<lambda>guc' E' k ys upd v r. guc' = guc \<longrightarrow> E' = E \<longrightarrow> cycle_state guc E xs w k = (ys, upd, v) \<longrightarrow>
      (\<exists>k. r = Inr (snd (cycle_state guc E xs w k)) \<and> allDone (fst (cycle_state guc E xs w k)))"
  have "?P guc E k ys upd v r" if "message_loop guc E k ys upd v = Some r" for k ys upd v r
  proof (rule message_loop.raw_induct [of ?P, OF _ that], goal_cases)
    case (1 f guc' E' k ys upd v r)
    show ?case
    proof (intro impI)
      assume e: "guc' = guc" "E' = E" and s: "cycle_state guc E xs w k = (ys, upd, v)"
      have inv: "cycle_inv guc ys v" by (rule cycle_invariant(1) [OF assms(1) _ s]) (use assms(2) in blast)
      have env: "env_ok (E k)" "loop_active (E k)" using assms(2) by auto
      obtain zs u v' where m: "message_round guc (E k) ys v = Inr (zs, u, v')"
        by (rule round_spec [OF inv env(1)])
      show "\<exists>k. r = Inr (snd (cycle_state guc E xs w k)) \<and> allDone (fst (cycle_state guc E xs w k))"
      proof (cases "allDone ys")
        case True
        then show ?thesis using 1(2) s by (auto intro!: exI [of _ k])
      next
        case False
        then have "f guc E (k + 1) zs (upd \<or> u) v' = Some r" using 1(2) e m env(2) by simp
        moreover have "cycle_state guc E xs w (k + 1) = (zs, upd \<or> u, v')" using s m by simp
        ultimately show ?thesis using 1(1) by blast
      qed
    qed
  qed
  then show ?thesis using assms(3) by fastforce
qed

end
