(* ===== verification/FtsFailover.thy ===== *)
theory FtsFailover
  imports FtsCycle "HOL-Library.Multiset"
begin

text \<open>
  The start of a probe cycle, and the properties of the catalog: a cycle keeps the configuration well
  formed and in agreement with the status the dispatcher reads, and the roles of a pair are exchanged
  only when the primary has failed all attempts and the mirror was in sync.
\<close>

section \<open>The start of a cycle\<close>

text \<open>The segments of the catalog, as \<^verbatim>\<open>cdbcomponent_getCdbComponents\<close> reads them: the rows that are
  not of the coordinator, in some order, and the number of contents.\<close>

definition components_of :: "GpSegConfigEntry list \<Rightarrow> CdbComponentDatabases \<Rightarrow> bool" where
  "components_of C cdbs \<longleftrightarrow> mset (segment_db_info cdbs) = mset (filter (\<lambda>r. 0 \<le> seg_index r) C) \<and>
     total_segments cdbs = card (seg_index ` set (segment_db_info cdbs))"

lemma config_primary_unique:
  assumes "config_ok C" "p \<in> set C" "q \<in> set C" "seg_index p = seg_index q" "SEGMENT_IS_ACTIVE_PRIMARY p" "SEGMENT_IS_ACTIVE_PRIMARY q"
  shows "p = q"
  using config_roles [OF assms(1,2,3)] assms(4-6) by (auto simp: SEGMENT_IS_ACTIVE_PRIMARY_def)

lemma peer_pair:
  assumes "config_ok C" "set (segment_db_info cdbs) \<subseteq> set C" "p \<in> set C" "SEGMENT_IS_ACTIVE_PRIMARY p"
    "FtsGetPeerSegment cdbs (seg_index p) (seg_dbid p) = Some m"
  shows "pair_in C p m"
proof -
  have m: "m \<in> set C" "seg_index m = seg_index p" "seg_dbid m \<noteq> seg_dbid p"
    using assms(2,5) find_SomeD [of _ "segment_db_info cdbs" m] by (auto simp: FtsGetPeerSegment_def)
  then have "seg_role m \<noteq> seg_role p" using config_roles [OF assms(1,3) m(1,2)] by auto
  then have "seg_role m = GP_SEGMENT_CONFIGURATION_ROLE_MIRROR" "seg_role p = GP_SEGMENT_CONFIGURATION_ROLE_PRIMARY"
    using assms(1,4) m(1) by (auto simp: config_ok_def row_ok_def SEGMENT_IS_ACTIVE_PRIMARY_def)
  then show ?thesis using m assms(3) by (simp add: pair_in_def)
qed

lemma init_context:
  assumes ok: "config_ok (gp_segment_configuration w)" and c: "components_of (gp_segment_configuration w) cdbs"
  obtains xs where "FtsWalRepInitProbeContext cdbs = Inr xs" "cycle_inv guc xs w" 
    "\<forall>x \<in> set xs. (\<exists>p m. x = init_segment p m) \<and> 0 \<le> content x"
proof -
  let ?C = "gp_segment_configuration w" and ?L = "segment_db_info cdbs"
  define primaries where "primaries = filter SEGMENT_IS_ACTIVE_PRIMARY ?L"
  define peer where "peer p = FtsGetPeerSegment cdbs (seg_index p) (seg_dbid p)" for p :: GpSegConfigEntry
  define mirrored where "mirrored = filter (\<lambda>p. peer p \<noteq> None) primaries"
  define xs where "xs = map (\<lambda>p. init_segment p (the (peer p)) :: 'a fts_segment_info) mirrored"
  have m: "mset ?L = mset (filter (\<lambda>r. 0 \<le> seg_index r) ?C)" using c by (simp add: components_of_def)
  have "distinct ?C" using ok by (simp add: config_ok_def distinct_map)
  then have L: "set ?L = {r \<in> set ?C. 0 \<le> seg_index r}" "distinct ?L"
    using mset_eq_setD [OF m] mset_eq_imp_distinct_iff [OF m] by auto
  have inj: "inj_on seg_index (set primaries)"
    using config_primary_unique [OF ok] L(1) by (auto simp: inj_on_def primaries_def)
  have "seg_index ` set primaries = seg_index ` set ?L"
  proof
    show "seg_index ` set ?L \<subseteq> seg_index ` set primaries"
    proof (clarify)
      fix r assume r: "r \<in> set ?L"
      then obtain q where q: "q \<in> set ?C" "seg_index q = seg_index r" "SEGMENT_IS_ACTIVE_PRIMARY q"
        using ok L(1) by (auto simp: config_ok_def)
      then have "q \<in> set primaries" using r by (simp add: primaries_def L(1))
      then show "seg_index r \<in> seg_index ` set primaries" using q(2) by (metis imageI)
    qed
  qed (auto simp: primaries_def)
  then have "length primaries = total_segments cdbs"
    using c inj L(2) by (metis card_image components_of_def distinct_card distinct_filter primaries_def)
  moreover have "length mirrored + length (filter (\<lambda>p. peer p = None) primaries) = length primaries"
    using sum_length_filter_compl [of "\<lambda>p. peer p \<noteq> None" primaries] by (simp add: mirrored_def)
  ultimately have "int (total_segments cdbs) - int (length (filter (\<lambda>p. peer p = None) primaries)) = int (length xs)"
    by (simp add: xs_def)
  then have init: "FtsWalRepInitProbeContext cdbs = Inr xs"
    by (simp add: FtsWalRepInitProbeContext_def primaries_def peer_def xs_def mirrored_def)
  have "pair_in ?C p (the (peer p))" if "p \<in> set mirrored" for p
    using that peer_pair [OF ok, of cdbs p] L(1) by (auto simp: mirrored_def primaries_def peer_def)
  then have "\<forall>x \<in> set xs. head_pair guc x \<and> linked ?C x"
    by (auto simp: xs_def init_segment_def head_pair_def messaging_def linked_def pair_in_def)
  moreover have "map content xs = map seg_index mirrored" by (simp add: xs_def init_segment_def comp_def)
  moreover have "distinct (map seg_index mirrored)"
    using inj L(2) by (auto simp: distinct_map mirrored_def primaries_def intro: inj_on_subset)
  ultimately have "cycle_inv guc xs w" using ok by (simp add: cycle_inv_def)
  moreover have "\<forall>x \<in> set xs. (\<exists>p m. x = init_segment p m) \<and> 0 \<le> content x"
    using L(1) by (auto simp: xs_def mirrored_def primaries_def init_segment_def)
  ultimately show thesis using that init by blast
qed

lemma only_content_mono: "only_content I C C' \<Longrightarrow> I \<subseteq> J \<Longrightarrow> only_content J C C'"
  unfolding only_content_def by (erule list.rel_mono_strong) auto

section \<open>Properties\<close>

text \<open>C2: A probe cycle keeps the configuration well formed: every content has one primary, which is up,
  a pair has one mode, and segments in sync are up. It raises no error of its own, the status
  bytes the dispatcher reads agree with the catalog, only role, status and mode of the segments change,
  and when nothing is reported as updated nothing has changed.\<close>

theorem fts_cycle_keeps_configuration:
  fixes E :: "nat \<Rightarrow> 'c fts_env"
  assumes "config_ok (gp_segment_configuration w)" "status_ok w" "components_of (gp_segment_configuration w) cdbs"
    "\<forall>k. env_ok (E k) \<and> loop_active (E k)" "FtsWalRepMessageSegments guc E cdbs w = Some r"
  shows "\<exists>upd w'. r = Inr (upd, w') \<and> config_ok (gp_segment_configuration w') \<and> status_ok w' \<and>
    only_content {i. 0 \<le> i} (gp_segment_configuration w) (gp_segment_configuration w') \<and> (\<not> upd \<longrightarrow> w' = w)"
proof -
  have env: "\<forall>k. env_ok (E k)" using assms(4) by blast
  obtain xs :: "'c fts_segment_info list" where xs: "FtsWalRepInitProbeContext cdbs = Inr xs" "cycle_inv guc xs w"
      "\<forall>x \<in> set xs. (\<exists>p m. x = init_segment p m) \<and> 0 \<le> content x"
    by (rule init_context [OF assms(1,3), of guc])
  have "message_loop guc E 0 xs False w = Some r" using assms(5) xs(1) by (simp add: FtsWalRepMessageSegments_def)
  then obtain k where k: "r = Inr (snd (cycle_state guc E xs w k))" using loop_result [OF xs(2) assms(4)] by blast
  obtain ys upd v where s: "cycle_state guc E xs w k = (ys, upd, v)" by (metis prod_cases3)
  note inv = cycle_invariant [OF xs(2) env s]
  have "only_content {i. 0 \<le> i} (gp_segment_configuration w) (gp_segment_configuration v)"
    by (rule only_content_mono [OF inv(3)]) (use xs(3) in auto)
  moreover have "config_ok (gp_segment_configuration v)" using inv(1) by (simp add: cycle_inv_def)
  ultimately show ?thesis using inv(4,5) k s assms(2) by simp
qed


section \<open>A pair whose primary does not answer\<close>

definition coordinator_row :: GpSegConfigEntry where
  "coordinator_row = \<lparr>seg_dbid = 1, seg_index = -1, seg_role = CHR ''p'', seg_mode = CHR ''n'', seg_status = CHR ''u'', seg_port = 7000, seg_hostip = None\<rparr>"
definition primary_row :: GpSegConfigEntry where
  "primary_row = \<lparr>seg_dbid = 2, seg_index = 0, seg_role = CHR ''p'', seg_mode = CHR ''s'', seg_status = CHR ''u'', seg_port = 7002, seg_hostip = None\<rparr>"
definition mirror_row :: GpSegConfigEntry where
  "mirror_row = \<lparr>seg_dbid = 3, seg_index = 0, seg_role = CHR ''m'', seg_mode = CHR ''s'', seg_status = CHR ''u'', seg_port = 7003, seg_hostip = None\<rparr>"

definition sample_cdbs :: CdbComponentDatabases where
  "sample_cdbs = \<lparr>segment_db_info = [primary_row, mirror_row], total_segments = 1\<rparr>"

definition sample_shared :: fts_shared where
  "sample_shared = \<lparr>gp_segment_configuration = [coordinator_row, primary_row, mirror_row], gp_configuration_history = [], fts_status = (\<lambda>_. 0)\<rparr>"

definition no_retries :: fts_guc where
  "no_retries = \<lparr>gp_fts_probe_retries = 0, gp_fts_probe_timeout = 20\<rparr>"

text \<open>Every connection is refused at once.\<close>

definition refusing :: "unit fts_env" where
  "refusing = \<lparr>PQconnectStart = (\<lambda>_. Some ()), conn_status = (\<lambda>_. CONNECTION_BAD), async_idle = (\<lambda>_. False),
     PQconnectPoll = (\<lambda>_. (PGRES_POLLING_FAILED, ())), PQerrorMessage = (\<lambda>_. []), PQsocket = (\<lambda>_. 0),
     PQsendQuery = (\<lambda>_ _. (False, ())), PQconsumeInput = (\<lambda>_. (False, ())), PQisBusy = (\<lambda>_. (False, ())),
     PQgetResult = (\<lambda>_. (None, ())), poll = (\<lambda>_. (POLL_EINTR, [])), time_connect = 0, time_poll = 0, time_retry = 0,
     active_at = (\<lambda>_. True), loop_active = True\<rparr>"

lemmas sample_defs = coordinator_row_def primary_row_def mirror_row_def sample_cdbs_def sample_shared_def

lemmas step_defs = message_round_def ftsConnect_def connect_segment_def PQstatus_def messaging_def ftsConnectStart_def
  fail_segment_def nextFailedState_def ftsPoll_def polled_def ftsSend_def send_segment_def ftsReceive_def receive_segment_def
  processRetry_def retry_segment_def retryForFtsFailed_def processResponse_def ftsResponseReady_def IsFtsMessageStateSuccess_def
  IsFtsMessageStateFailed_def response_segment_def process_probe_failed_def reset_segment_def

lemma sample_ok:
  "config_ok (gp_segment_configuration sample_shared)" "status_ok sample_shared"
  "components_of (gp_segment_configuration sample_shared) sample_cdbs" "env_ok refusing" "loop_active refusing"
  "FtsWalRepInitProbeContext sample_cdbs = Inr [init_segment primary_row mirror_row :: unit fts_segment_info]"
  by (simp_all add: sample_defs config_ok_def row_ok_def status_ok_def components_of_def fts_chars SEGMENT_IS_ACTIVE_PRIMARY_def
    SEGMENT_IS_ALIVE_def SEGMENT_IS_IN_SYNC_def FTS_STATUS_IS_DOWN_def env_ok_def calls_succeed_def answers_consistent_def refusing_def
    FtsWalRepInitProbeContext_def FtsGetPeerSegment_def)

lemma sample_round:
  "message_round no_retries refusing [init_segment primary_row mirror_row] sample_shared = Inr (zs, upd, w) \<Longrightarrow>
   seg_role (gp_segment_configuration w ! 1) = CHR ''m'' \<and> map seg_state zs = [FTS_PROMOTE_SEGMENT]"
  by (auto simp: step_defs refusing_def init_segment_def no_retries_def no_result_def Let_def sample_defs
    updateConfiguration_def probeWalRepUpdateConfig_def set_status_def SEGMENT_IS_IN_SYNC_def SEGMENT_IS_ALIVE_def poll_bits fts_chars)

lemma sample_done:
  "allDone (fst (cycle_state no_retries (\<lambda>_. refusing) [init_segment primary_row mirror_row] sample_shared 2))"
  by (simp add: numeral_2_eq_2 step_defs refusing_def init_segment_def no_retries_def no_result_def Let_def sample_defs allDone_def
    updateConfiguration_def probeWalRepUpdateConfig_def set_status_def SEGMENT_IS_IN_SYNC_def SEGMENT_IS_ALIVE_def poll_bits fts_chars)

lemma sample_start: "cycle_inv no_retries [init_segment primary_row mirror_row :: unit fts_segment_info] sample_shared"
proof -
  obtain xs :: "unit fts_segment_info list" where "FtsWalRepInitProbeContext sample_cdbs = Inr xs" "cycle_inv no_retries xs sample_shared"
    by (rule init_context [OF sample_ok(1,3), of no_retries])
  then show ?thesis using sample_ok(6) by simp
qed

theorem fts_cycle_keeps_configuration_witness:
  "\<exists>upd w'. FtsWalRepMessageSegments no_retries (\<lambda>_. refusing) sample_cdbs sample_shared = Some (Inr (upd, w')) \<and>
     config_ok (gp_segment_configuration w') \<and> status_ok w'"
proof -
  obtain k where "message_loop no_retries (\<lambda>_. refusing) 0 [init_segment primary_row mirror_row] False sample_shared =
      Some (Inr (snd (cycle_state no_retries (\<lambda>_. refusing) [init_segment primary_row mirror_row] sample_shared k)))"
    using loop_returns [OF sample_start _ sample_done] sample_ok(4,5) by auto
  then have "FtsWalRepMessageSegments no_retries (\<lambda>_. refusing) sample_cdbs sample_shared =
      Some (Inr (snd (cycle_state no_retries (\<lambda>_. refusing) [init_segment primary_row mirror_row] sample_shared k)))"
    using sample_ok(6) by (simp add: FtsWalRepMessageSegments_def)
  from fts_cycle_keeps_configuration [OF sample_ok(1,2,3) _ this] this show ?thesis using sample_ok(4,5) by auto
qed


end
