(* ===== verification/FtsLiveness.thy ===== *)
theory FtsLiveness
  imports FtsFailover
begin

text \<open>
  What a round does to one pair when every response arrives whole: the attempt goes on within its time
  limit, the pair waits for a retry, or its response is ready.
\<close>

section \<open>The network and the clock\<close>

text \<open>What libpq documents of its calls: the state of a connection changes only by calls on it, a new
  connection is not established yet, \<^verbatim>\<open>PQconnectPoll\<close> says when it is, and then it is idle, and a
  connection that took a query is still established.\<close>

definition libpq_contract :: "(nat \<Rightarrow> 'c fts_env) \<Rightarrow> bool" where
  "libpq_contract E \<longleftrightarrow>
     (\<forall>k. conn_status (E k) = conn_status (E 0) \<and> async_idle (E k) = async_idle (E 0)) \<and>
     (\<forall>k s c. PQconnectStart (E k) s = Some c \<longrightarrow> conn_status (E 0) c \<noteq> CONNECTION_OK) \<and>
     (\<forall>k c c'. PQconnectPoll (E k) c = (PGRES_POLLING_OK, c') \<longrightarrow> conn_status (E 0) c' = CONNECTION_OK \<and> async_idle (E 0) c') \<and>
     (\<forall>k c c'. PQconnectPoll (E k) c = (PGRES_POLLING_READING, c') \<or> PQconnectPoll (E k) c = (PGRES_POLLING_WRITING, c') \<longrightarrow>
        conn_status (E 0) c' \<noteq> CONNECTION_OK) \<and>
     (\<forall>k c q c'. PQsendQuery (E k) c q = (True, c') \<longrightarrow> conn_status (E 0) c' = CONNECTION_OK)"

text \<open>A response that has begun to arrive can be read as a whole.\<close>

definition whole_responses :: "(nat \<Rightarrow> 'c fts_env) \<Rightarrow> bool" where
  "whole_responses E \<longleftrightarrow> (\<forall>k c. \<not> fst (PQisBusy (E k) c))"

definition clock_advances :: "(nat \<Rightarrow> 'c fts_env) \<Rightarrow> bool" where
  "clock_advances E \<longleftrightarrow>
     (\<forall>k. time_connect (E k) \<le> time_poll (E k) \<and> time_poll (E k) \<le> time_retry (E k) \<and> time_retry (E k) \<le> time_connect (E (Suc k)) \<and>
        time_connect (E (Suc k)) - time_connect (E k) \<le> 2 ^ 29) \<and>
     (\<forall>t. \<exists>k. t < time_connect (E k))"

lemma to_int32_small: "- (2 ^ 31) \<le> i \<Longrightarrow> i < 2 ^ 31 \<Longrightarrow> to_int32 i = i"
  unfolding to_int32_def by (rule signed_take_bit_int_eq_self) simp_all

section \<open>A round of a pair that sends\<close>

definition events_ok :: "16 word \<Rightarrow> bool" where
  "events_ok e \<longleftrightarrow> e = POLLIN \<or> e = POLLOUT \<or> e = POLLIN OR POLLOUT"

definition some_event :: "16 word \<Rightarrow> bool" where
  "some_event r \<longleftrightarrow> r AND (POLLOUT OR POLLIN) \<noteq> 0"

text \<open>A pair before it is polled: it will be, and an established connection waits for the chance to write
  its message or for the response.\<close>

definition before_poll :: "'c fts_env \<Rightarrow> 'c fts_segment_info \<Rightarrow> bool" where
  "before_poll env x \<longleftrightarrow>
     (\<exists>c. seg_conn x = Some c \<and> events_ok (poll_events x) \<and>
        (conn_status env c = CONNECTION_OK \<longrightarrow> poll_events x = POLLOUT \<and> async_idle env c \<or> poll_events x = POLLIN))"

text \<open>The same pair between rounds.\<close>

definition link_ok :: "'c fts_env \<Rightarrow> 'c fts_segment_info \<Rightarrow> bool" where
  "link_ok env x \<longleftrightarrow>
     (case seg_conn x of
        None \<Rightarrow> poll_events x = 0
      | Some c \<Rightarrow> before_poll env x \<and> (poll_revents x = 0 \<or> poll_events x = POLLIN \<and> conn_status env c = CONNECTION_OK) \<or>
          conn_status env c \<noteq> CONNECTION_OK \<and> poll_events x = 0 \<and> some_event (poll_revents x))"

lemma events_polled: "events_ok (poll_events x) \<Longrightarrow> polled x"
  by (auto simp: events_ok_def polled_def poll_bits)

lemma connect_before_poll:
  assumes "messaging (seg_state x)" "link_ok env x" "connect_segment env x = Inr y"
    "\<And>s c. PQconnectStart env s = Some c \<Longrightarrow> conn_status env c \<noteq> CONNECTION_OK"
    "\<And>c c'. PQconnectPoll env c = (PGRES_POLLING_OK, c') \<Longrightarrow> conn_status env c' = CONNECTION_OK \<and> async_idle env c'"
    "\<And>c c'. PQconnectPoll env c = (PGRES_POLLING_READING, c') \<Longrightarrow> conn_status env c' \<noteq> CONNECTION_OK"
    "\<And>c c'. PQconnectPoll env c = (PGRES_POLLING_WRITING, c') \<Longrightarrow> conn_status env c' \<noteq> CONNECTION_OK"
  shows "\<not> messaging (seg_state y) \<or> seg_state y = seg_state x \<and> before_poll env y \<and>
    startTime y = (if seg_conn x = None then time_connect env else startTime x)"
proof (cases "seg_conn x")
  case None
  then have e: "poll_events x = 0" using assms(2) by (simp add: link_ok_def)
  obtain c where c: "PQconnectStart env (conninfo (primary_cdbinfo x)) = Some c"
    using assms(1,3) None by (auto simp: connect_segment_def ftsConnectStart_def Let_def split: option.splits)
  show ?thesis
  proof (cases "conn_status env c = CONNECTION_BAD")
    case True
    then show ?thesis using assms(1,3) None c
      by (auto simp: connect_segment_def ftsConnectStart_def Let_def fail_segment_def nextFailedState_def messaging_def)
  next
    case False
    then have "y = x\<lparr>restart_state := PM_NOT_IN_RESTART, seg_conn := Some c, poll_events := POLLOUT, startTime := time_connect env\<rparr>"
      using assms(1,3) None c e by (auto simp: connect_segment_def ftsConnectStart_def Let_def)
    then show ?thesis using None assms(4) [OF c] by (simp add: before_poll_def events_ok_def)
  qed
next
  case (Some c)
  let ?x = "x\<lparr>restart_state := PM_NOT_IN_RESTART\<rparr>"
  have frame: "before_poll env ?x = before_poll env x" by (simp add: before_poll_def)
  consider (ok) "conn_status env c = CONNECTION_OK" "before_poll env x"
    | (waits) "conn_status env c \<noteq> CONNECTION_OK" "before_poll env x" "poll_revents x = 0"
    | (polls) "conn_status env c \<noteq> CONNECTION_OK" "poll_events x = 0" "some_event (poll_revents x)"
    using assms(2) Some by (auto simp: link_ok_def)
  then show ?thesis
  proof cases
    case ok
    then have "y = x" using assms(3) Some by (simp add: connect_segment_def PQstatus_def)
    then show ?thesis using ok(2) Some by simp
  next
    case waits
    then have "y = ?x" using assms(1,3) Some by (simp add: connect_segment_def PQstatus_def)
    then show ?thesis using waits(2) frame Some by simp
  next
    case polls
    obtain st c' where p: "PQconnectPoll env c = (st, c')" by fastforce
    have y: "(case st of
         PGRES_POLLING_OK \<Rightarrow> Inr (?x\<lparr>seg_conn := Some c', poll_events := POLLOUT\<rparr>)
       | PGRES_POLLING_READING \<Rightarrow> Inr (?x\<lparr>seg_conn := Some c', poll_events := POLLIN\<rparr>)
       | PGRES_POLLING_WRITING \<Rightarrow> Inr (?x\<lparr>seg_conn := Some c', poll_events := POLLOUT\<rparr>)
       | PGRES_POLLING_FAILED \<Rightarrow>
           map_sum id (checkIfFailedDueToNormalRestart (PQerrorMessage env c')) (fail_segment (?x\<lparr>seg_conn := Some c'\<rparr>))
       | PGRES_POLLING_ACTIVE \<Rightarrow> Inl (ERROR ''FTS: invalid response to PQconnectPoll'')) = Inr y"
      using assms(1,3) Some polls p 
      by (cases st) (simp_all add: connect_segment_def PQstatus_def some_event_def Let_def)
    show ?thesis
    proof (cases st)
      case PGRES_POLLING_FAILED
      then show ?thesis using y assms(1)
        by (auto simp: fail_segment_def nextFailedState_def messaging_def check_frame)
    qed (use y Some p assms(5-7) in \<open>auto simp: before_poll_def events_ok_def\<close>)
  qed
qed

lemma fail_leaves: "fail_segment x = Inr y \<Longrightarrow> \<not> messaging (seg_state y)"
  by (cases "seg_state x") (auto simp: fail_segment_def nextFailedState_def messaging_def)

lemma timeout_leaves:
  assumes "ftsCheckTimeout guc now x = Inr y"
  shows "\<not> messaging (seg_state y) \<or> y = x \<and> (\<not> IsFtsMessageStateSuccess (seg_state x) \<longrightarrow> to_int32 (now - startTime x) \<le> gp_fts_probe_timeout guc)"
  using assms fail_leaves by (auto simp: ftsCheckTimeout_def split: if_splits)

definition after_poll :: "16 word \<Rightarrow> 16 word \<Rightarrow> 16 word \<Rightarrow> bool" where
  "after_poll events events' revents' \<longleftrightarrow> events' = events \<and> revents' = 0 \<or> events' = 0 \<and> revents' AND events \<noteq> 0"

lemma poll_waits:
  assumes "poll_step guc env x y" "messaging (seg_state x)" "events_ok (poll_events x)"
  shows "\<not> messaging (seg_state y) \<or>
    seg_state y = seg_state x \<and> seg_conn y = seg_conn x \<and> startTime y = startTime x \<and>
    to_int32 (time_poll env - startTime x) \<le> gp_fts_probe_timeout guc \<and> after_poll (poll_events x) (poll_events y) (poll_revents y)"
proof -
  obtain n b revents where p: "poll_segment guc (time_poll env) b revents (x\<lparr>fd_index := n\<rparr>) = Inr y"
    using assms(1) by (auto simp: poll_step_def)
  let ?r = "revents ! nat n"
  let ?x = "x\<lparr>fd_index := n, poll_revents := ?r\<rparr>"
  have polled: "polled (x\<lparr>fd_index := n\<rparr>)" using assms(3) by (auto intro: events_polled)
  show ?thesis
  proof (cases "?r \<noteq> 0 \<and> ?r AND poll_events x = 0")
    case True
    then obtain z where z: "fail_segment ?x = Inr z" "ftsCheckTimeout guc (time_poll env)
        (if \<not> IsFtsMessageStateSuccess (seg_state z) \<and> b then z\<lparr>timeout_count := timeout_count z + 1\<rparr> else z) = Inr y"
      using p polled by (auto simp: poll_segment_def Let_def split: if_splits sum.splits)
    then show ?thesis using timeout_leaves [OF z(2)] fail_leaves [OF z(1)] by (auto split: if_splits)
  next
    case False
    define z where "z = (if ?r AND poll_events x \<noteq> 0 then ?x\<lparr>poll_events := 0\<rparr> else ?x)"
    have s: "\<not> IsFtsMessageStateSuccess (seg_state z)" using assms(2) by (auto simp: z_def state_classes)
    have c: "ftsCheckTimeout guc (time_poll env) (if b then z\<lparr>timeout_count := timeout_count z + 1\<rparr> else z) = Inr y"
      using p polled False s by (auto simp: poll_segment_def Let_def z_def split: if_splits)
    show ?thesis
      using timeout_leaves [OF c] s False by (auto simp: z_def after_poll_def split: if_splits)
  qed
qed

text \<open>A pair after it was polled and its message was sent.\<close>

definition after_send :: "'c fts_env \<Rightarrow> 'c fts_segment_info \<Rightarrow> bool" where
  "after_send env x \<longleftrightarrow>
     (\<exists>c. seg_conn x = Some c \<and>
        (if conn_status env c = CONNECTION_OK
         then poll_revents x AND POLLIN \<noteq> 0 \<or> poll_events x = POLLIN \<or> poll_events x = POLLOUT \<and> async_idle env c \<and> poll_revents x = 0
         else events_ok (poll_events x) \<and> poll_revents x = 0 \<or> poll_events x = 0 \<and> some_event (poll_revents x)))"

lemma and_events: "r AND e \<noteq> 0 \<Longrightarrow> events_ok e \<Longrightarrow> some_event r"
  for r :: "16 word"
proof -
  assume a: "r AND e \<noteq> 0" "events_ok e"
  have "r AND POLLIN \<noteq> 0 \<or> r AND POLLOUT \<noteq> 0" using a by (auto simp: events_ok_def bit.conj_disj_distrib)
  moreover have "r AND (POLLOUT OR POLLIN) AND POLLIN = r AND POLLIN" "r AND (POLLOUT OR POLLIN) AND POLLOUT = r AND POLLOUT"
    by (simp_all add: poll_bits)
  ultimately show "some_event r" unfolding some_event_def by (metis and_zero_eq and.assoc zero_and_eq)
qed

lemma send_waits:
  assumes "messaging (seg_state x)" "before_poll env x0" "seg_conn x = seg_conn x0"
    "after_poll (poll_events x0) (poll_events x) (poll_revents x)" "send_segment env x = Inr y"
    "\<And>c q c'. PQsendQuery env c q = (True, c') \<Longrightarrow> conn_status env c' = CONNECTION_OK"
  shows "\<not> messaging (seg_state y) \<or> seg_state y = seg_state x \<and> startTime y = startTime x \<and> after_send env y"
proof -
  obtain c where c: "seg_conn x = Some c" "events_ok (poll_events x0)"
      "conn_status env c = CONNECTION_OK \<longrightarrow> poll_events x0 = POLLOUT \<and> async_idle env c \<or> poll_events x0 = POLLIN"
    using assms(2,3) by (auto simp: before_poll_def)
  show ?thesis
  proof (cases "ready_to_send env x")
    case True
    then show ?thesis
      using assms(1,5,6) c(1)
      by (auto simp: send_segment_def Let_def after_send_def split: prod.splits bool.splits dest!: fail_leaves)
  next
    case False
    then have "y = x" using assms(5) by (simp add: send_segment_def)
    moreover have "after_send env x"
      using False c assms(4) and_events [of "poll_revents x" "poll_events x0"]
      by (auto simp: after_send_def after_poll_def ready_to_send_def)
    ultimately show ?thesis by simp
  qed
qed

lemma receive_waits:
  assumes "messaging (seg_state x)" "after_send env x" "receive_segment env x = Inr y" "\<And>c. \<not> fst (PQisBusy env c)"
  shows "\<not> messaging (seg_state y) \<or> y = x \<and> link_ok env x"
proof (cases "PQstatus env (seg_conn x) = CONNECTION_OK \<and> poll_revents x AND POLLIN \<noteq> 0")
  case True
  obtain ok1 c1 busy c2 res c3 where
    c: "PQconsumeInput env (the (seg_conn x)) = (ok1, c1)" "PQisBusy env c1 = (busy, c2)" "PQgetResult env c2 = (res, c3)"
    by (metis prod.collapse)
  have "\<not> busy" using assms(4) [of c1] c(2) by simp
  moreover have "nextSuccessState (seg_state x) = Inr s \<Longrightarrow> \<not> messaging s" for s
    using assms(1) by (auto simp: nextSuccessState_def messaging_def)
  ultimately show ?thesis
    using True assms(1,3) c
    by (auto simp: receive_segment_def split: bool.splits option.splits if_splits sum.splits dest!: fail_leaves)
next
  case False
  then have "y = x" using assms(3) by (auto simp: receive_segment_def)
  moreover have "link_ok env x"
    using assms(2) False by (auto simp: after_send_def link_ok_def before_poll_def PQstatus_def events_ok_def split: if_splits)
  ultimately show ?thesis by simp
qed

section \<open>A round of a pair\<close>

lemma failed_stays:
  assumes "\<not> messaging (seg_state x)"
  shows "poll_step guc env x y \<Longrightarrow> \<not> messaging (seg_state y)" "send_segment env x = Inr y \<Longrightarrow> \<not> messaging (seg_state y)"
    "receive_segment env x = Inr y \<Longrightarrow> \<not> messaging (seg_state y)"
proof -
  assume "poll_step guc env x y"
  then obtain n b revents where p: "poll_segment guc (time_poll env) b revents (x\<lparr>fd_index := n\<rparr>) = Inr y"
    by (auto simp: poll_step_def)
  show "\<not> messaging (seg_state y)"
  proof (cases "polled (x\<lparr>fd_index := n\<rparr>)")
    case False
    then show ?thesis using p assms by (auto simp: poll_segment_def)
  next
    case True
    then show ?thesis
      using p assms by (auto simp: poll_segment_def Let_def split: if_splits sum.splits dest!: timeout_leaves fail_leaves)
  qed
next
  show "send_segment env x = Inr y \<Longrightarrow> \<not> messaging (seg_state y)" "receive_segment env x = Inr y \<Longrightarrow> \<not> messaging (seg_state y)"
    using assms by (auto simp: send_segment_def receive_segment_def)
qed

lemma contract_at:
  assumes "libpq_contract E"
  shows "PQconnectStart (E k) s = Some c \<Longrightarrow> conn_status (E k) c \<noteq> CONNECTION_OK"
    "PQconnectPoll (E k) c = (PGRES_POLLING_OK, c') \<Longrightarrow> conn_status (E k) c' = CONNECTION_OK \<and> async_idle (E k) c'"
    "PQconnectPoll (E k) c = (PGRES_POLLING_READING, c') \<Longrightarrow> conn_status (E k) c' \<noteq> CONNECTION_OK"
    "PQconnectPoll (E k) c = (PGRES_POLLING_WRITING, c') \<Longrightarrow> conn_status (E k) c' \<noteq> CONNECTION_OK"
    "PQsendQuery (E k) c q = (True, c') \<Longrightarrow> conn_status (E k) c' = CONNECTION_OK"
    "link_ok (E k) = link_ok (E 0)"
proof -
  have same: "conn_status (E k) = conn_status (E 0)" "async_idle (E k) = async_idle (E 0)"
    using assms by (simp_all only: libpq_contract_def)
  show "link_ok (E k) = link_ok (E 0)" by (simp add: fun_eq_iff link_ok_def before_poll_def same split: option.split)
qed (use assms in \<open>unfold libpq_contract_def, metis+\<close>)

definition attempt_goes_on :: "fts_guc \<Rightarrow> 'c fts_env \<Rightarrow> 'c fts_segment_info \<Rightarrow> 'c fts_segment_info \<Rightarrow> bool" where
  "attempt_goes_on guc env x y \<longleftrightarrow> seg_state y = seg_state x \<and> link_ok env y \<and> seg_conn y \<noteq> None \<and>
     startTime y = (if seg_conn x = None then time_connect env else startTime x) \<and>
     to_int32 (time_poll env - startTime y) \<le> gp_fts_probe_timeout guc"

lemma sending_steps:
  assumes "libpq_contract E" "whole_responses E" "env = E k" "messaging (seg_state x)" "link_ok env x"
    "connect_segment env x = Inr x1" "poll_step guc env x1 x2" "send_segment env x2 = Inr x3" "receive_segment env x3 = Inr x4"
  shows "\<not> messaging (seg_state x4) \<or> attempt_goes_on guc env x x4"
proof -
  note q = contract_at [OF assms(1), of k, folded assms(3)]
  have left: thesis if "\<not> messaging (seg_state x1) \<or> \<not> messaging (seg_state x2) \<or> \<not> messaging (seg_state x3)"
      "\<not> messaging (seg_state x4) \<Longrightarrow> thesis" for thesis
    using that failed_stays(1) [OF _ assms(7)] failed_stays(2) [OF _ assms(8)] failed_stays(3) [OF _ assms(9)] by blast
  have c: "\<not> messaging (seg_state x1) \<or> seg_state x1 = seg_state x \<and> before_poll env x1 \<and>
      startTime x1 = (if seg_conn x = None then time_connect env else startTime x)"
    by (rule connect_before_poll [OF assms(4,5,6)]) (rule q, assumption)+
  show ?thesis
  proof (cases "messaging (seg_state x1) \<and> messaging (seg_state x2) \<and> messaging (seg_state x3)")
    case False
    then show ?thesis using left by blast
  next
    case True
    have c: "seg_state x1 = seg_state x" "before_poll env x1" "startTime x1 = (if seg_conn x = None then time_connect env else startTime x)"
      using c True by auto
    have p: "seg_state x2 = seg_state x1" "seg_conn x2 = seg_conn x1" "startTime x2 = startTime x1"
        "to_int32 (time_poll env - startTime x1) \<le> gp_fts_probe_timeout guc" "after_poll (poll_events x1) (poll_events x2) (poll_revents x2)"
      using poll_waits [OF assms(7)] True c(2) by (auto simp: before_poll_def)
    have s: "seg_state x3 = seg_state x2" "startTime x3 = startTime x2" "after_send env x3"
      using send_waits [OF _ c(2) p(2,5) assms(8)] q(5) True by auto
    have "\<not> messaging (seg_state x4) \<or> x4 = x3 \<and> link_ok env x3"
      by (rule receive_waits [OF _ s(3) assms(9)]) (use True assms(2,3) in \<open>auto simp: whole_responses_def\<close>)
    moreover have "seg_conn x3 \<noteq> None" using s(3) by (auto simp: after_send_def)
    ultimately show ?thesis using c p s by (auto simp: attempt_goes_on_def)
  qed
qed

definition begins_waiting :: "fts_guc \<Rightarrow> 'c fts_env \<Rightarrow> 'c fts_segment_info \<Rightarrow> 'c fts_segment_info \<Rightarrow> bool" where
  "begins_waiting guc env x y \<longleftrightarrow> waiting (seg_state y) \<and> retry_count y = retry_count x + 1 \<and> retryStartTime y = time_retry env"

lemma leaving_retry:
  assumes "active_pair x \<or> answered_pair x" "\<not> messaging (seg_state x)"
  shows "begins_waiting guc env x (retry_segment guc (time_retry env) x) \<or>
    retry_segment guc (time_retry env) x = x \<and> ftsResponseReady x"
  using assms
  by (cases "seg_state x")
    (auto simp: begins_waiting_def retry_segment_def retryForFtsFailed_def active_pair_def answered_pair_def ftsResponseReady_def state_classes)

lemma sending_round:
  assumes "libpq_contract E" "whole_responses E" "env = E k" "env_ok env" "messaging (seg_state x)" "head_pair guc x" "link_ok env x"
    "seg_round guc env x y"
  shows "same_pair x y \<and>
    (attempt_goes_on guc env x y \<and> retry_count y = retry_count x \<or> begins_waiting guc env x y \<or> ftsResponseReady y)"
proof -
  obtain x1 x2 x3 x4 where s: "connect_segment env x = Inr x1" "poll_step guc env x1 x2" "send_segment env x2 = Inr x3"
      "receive_segment env x3 = Inr x4" "y = retry_segment guc (time_retry env) x4"
    using assms(8) by (auto simp: seg_round_def)
  have env: "calls_succeed env" "answers_consistent env" using assms(4) by (auto simp: env_ok_def)
  have x: "active_pair x" using assms(5,6) by (auto simp: head_pair_def active_pair_def idle_pair_def state_classes)
  have x1: "active_pair x1" "keeps x x1"
    by (rule connect_active [OF x env(1)], use s(1) in simp)+
  have x2: "active_pair x2" "keeps x x2" using poll_step_active [OF s(2) x1(1)] x1(2) keeps_trans by blast+
  have x3: "active_pair x3" "keeps x x3"
    by (rule send_active [OF x2(1), of env], use s(3) keeps_trans [OF x2(2)] in simp)+
  have x4: "active_pair x4 \<or> answered_pair x4" "keeps x x4"
    by (rule receive_active [OF x3(1) env(2)], use s(4) keeps_trans [OF x3(2)] in simp)+
  have same: "same_pair x y" using seg_round_spec [OF assms(8,6) env] by blast
  have "retry_count x4 = retry_count x" using x4(2) by (simp add: keeps_def)
  moreover have "messaging (seg_state x4) \<Longrightarrow> y = x4" using s(5) by (cases "seg_state x4") (auto simp: retry_segment_def messaging_def)
  ultimately show ?thesis
    using same sending_steps [OF assms(1-3,5,7) s(1-4)] leaving_retry [OF x4(1), of guc env] s(5)
    by (cases "messaging (seg_state x4)") (auto simp: begins_waiting_def)
qed

end
