(* ===== verification/FtsTermination.thy ===== *)
theory FtsTermination
  imports FtsLiveness
begin

text \<open>
  A probe cycle ends when the clock advances and every response arrives whole, and does not end when
  a segment sends a part of its response and stops: the time limit is checked only for the segments
  that are polled, and a segment with a part of its response is not polled again.
\<close>

section \<open>Progress of a pair\<close>

lemma response_moves:
  assumes "response_segment y w = Inr (z, u, w')"
  shows "seg_conn z = None" "poll_events z = 0" "poll_revents z = 0" "retry_count z = 0"
    "seg_state z = FTS_RESPONSE_PROCESSED \<or> messaging (seg_state z) \<and> phase (seg_state y) = Probing \<and> phase (seg_state z) \<noteq> Probing"
proof -
  obtain y' where y': "z = reset_segment y'"
    using assms by (auto simp: response_segment_def Let_def map_sum_def split: sum.splits)
  then show "seg_conn z = None" "poll_events z = 0" "poll_revents z = 0" "retry_count z = 0" by (simp_all add: reset_segment_def)
  show "seg_state z = FTS_RESPONSE_PROCESSED \<or> messaging (seg_state z) \<and> phase (seg_state y) = Probing \<and> phase (seg_state z) \<noteq> Probing"
    using assms
    by (cases "seg_state y")
      (auto simp: response_segment_def process_probe_success_def process_probe_failed_def Let_def map_sum_def messaging_def
        split: sum.splits if_splits)
qed

lemma process_pointwise:
  assumes "process_from env i ys upd w = Inr (zs, upd', w')" "\<forall>i. active_at env i"
  shows "list_all2 (\<lambda>y z. if ftsResponseReady y then \<exists>w u w'. response_segment y w = Inr (z, u, w') else z = y) ys zs"
  using assms(1)
proof (induction ys arbitrary: i upd w zs)
  case (Cons y ys)
  then obtain z u1 w1 zs' where "(if ftsResponseReady y then response_segment y w else Inr (y, False, w)) = Inr (z, u1, w1)"
      "process_from env (i + 1) ys (upd \<or> u1) w1 = Inr (zs', upd', w')" "zs = z # zs'"
    using assms(2) by (auto split: sum.splits prod.splits simp del: if_split)
  then show ?case using Cons.IH by (auto split: if_splits)
qed simp

text \<open>How far a pair is from the end of the cycle.\<close>

definition rank :: "fts_guc \<Rightarrow> 'c fts_segment_info \<Rightarrow> nat" where
  "rank guc x =
     (if seg_state x = FTS_RESPONSE_PROCESSED then 0
      else (if phase (seg_state x) = Probing then 2 else 1) * (3 * gp_fts_probe_retries guc + 3) +
        3 * (gp_fts_probe_retries guc - retry_count x) +
        (if waiting (seg_state x) then 2 else if seg_conn x = None then 1 else 0))"

text \<open>Until when a pair may stay as it is.\<close>

definition due :: "fts_guc \<Rightarrow> 'c fts_segment_info \<Rightarrow> int" where
  "due guc x = (if waiting (seg_state x) then retryStartTime x else startTime x + gp_fts_probe_timeout guc)"

definition timely :: "fts_guc \<Rightarrow> (nat \<Rightarrow> 'c fts_env) \<Rightarrow> nat \<Rightarrow> 'c fts_segment_info \<Rightarrow> bool" where
  "timely guc E k x \<longleftrightarrow>
     (messaging (seg_state x) \<longrightarrow> link_ok (E 0) x \<and> (seg_conn x \<noteq> None \<longrightarrow> startTime x \<le> time_connect (E k))) \<and>
     (waiting (seg_state x) \<longrightarrow> retryStartTime x \<le> time_connect (E k)) \<and>
     (waiting (seg_state x) \<or> seg_conn x \<noteq> None \<longrightarrow> time_connect (E k) \<le> due guc x + 2 ^ 29)"

text \<open>A round brings a pair closer to the end, or its time is not over.\<close>

definition progress :: "fts_guc \<Rightarrow> (nat \<Rightarrow> 'c fts_env) \<Rightarrow> nat \<Rightarrow> 'c fts_segment_info \<Rightarrow> 'c fts_segment_info \<Rightarrow> bool" where
  "progress guc E k x z \<longleftrightarrow> timely guc E (Suc k) z \<and>
     (rank guc z < rank guc x \<or> rank guc z = 0 \<or>
      rank guc z = rank guc x \<and> due guc z = due guc x \<and> time_connect (E k) \<le> due guc x)"

lemma clock_order:
  assumes "clock_advances E"
  shows "time_connect (E k) \<le> time_poll (E k)" "time_poll (E k) \<le> time_retry (E k)" "time_retry (E k) \<le> time_connect (E (Suc k))"
    "time_connect (E (Suc k)) \<le> time_connect (E k) + 2 ^ 29"
proof -
  have "time_connect (E k) \<le> time_poll (E k) \<and> time_poll (E k) \<le> time_retry (E k) \<and> time_retry (E k) \<le> time_connect (E (Suc k)) \<and>
      time_connect (E (Suc k)) - time_connect (E k) \<le> 2 ^ 29"
    using assms unfolding clock_advances_def by blast
  then show "time_connect (E k) \<le> time_poll (E k)" "time_poll (E k) \<le> time_retry (E k)" "time_retry (E k) \<le> time_connect (E (Suc k))"
    "time_connect (E (Suc k)) \<le> time_connect (E k) + 2 ^ 29"
    by linarith+
qed

lemma waiting_progress:
  assumes "clock_advances E" "waiting (seg_state x)" "idle_pair x" "timely guc E k x" "seg_round guc (E k) x y"
  shows "\<not> ftsResponseReady y \<and> progress guc E k x y"
proof -
  obtain x1 x2 x3 x4 where s: "connect_segment (E k) x = Inr x1" "poll_step guc (E k) x1 x2" "send_segment (E k) x2 = Inr x3"
      "receive_segment (E k) x3 = Inr x4" "y = retry_segment guc (time_retry (E k)) x4"
    using assms(5) by (auto simp: seg_round_def)
  have "x1 = x" using s(1) idle_steps(1) [OF assms(3)] by simp
  then have x2: "idle_pair x2" "x2 = x\<lparr>fd_index := fd_index x2\<rparr>" using poll_step_idle [OF s(2)] assms(3) by auto
  then have "x4 = x2" using s(3,4) idle_steps(3,4) [OF x2(1)] by simp
  then have y: "y = retry_segment guc (time_retry (E k)) (x\<lparr>fd_index := fd_index x2\<rparr>)" using s(5) x2(2) by simp
  note t = clock_order [OF assms(1), of k]
  have "to_int32 (time_retry (E k) - retryStartTime x) = time_retry (E k) - retryStartTime x"
    by (rule to_int32_small) (use t assms(2,4) in \<open>simp_all add: timely_def due_def\<close>)
  then show ?thesis
    using y t assms(2,3,4)
    by (cases "seg_state x")
      (auto simp: retry_segment_def state_classes idle_pair_def ftsResponseReady_def progress_def timely_def due_def rank_def link_ok_def)
qed

lemma rank_less:
  assumes "retry_count z \<le> gp_fts_probe_retries guc"
    "phase (seg_state z) = phase (seg_state x) \<and> retry_count x < retry_count z \<and> seg_state x \<noteq> FTS_RESPONSE_PROCESSED \<or>
     phase (seg_state x) = Probing \<and> phase (seg_state z) \<noteq> Probing \<or>
     phase (seg_state z) = phase (seg_state x) \<and> retry_count z = retry_count x \<and> messaging (seg_state x) \<and> messaging (seg_state z) \<and>
       seg_conn x = None \<and> seg_conn z \<noteq> None"
  shows "rank guc z < rank guc x"
proof -
  let ?R = "gp_fts_probe_retries guc"
  define bz bx :: nat where "bz = (if waiting (seg_state z) then 2 else if seg_conn z = None then 1 else 0)"
    and "bx = (if waiting (seg_state x) then 2 else if seg_conn x = None then 1 else 0)"
  note b_def = bz_def bx_def
  have b: "bz \<le> 2" "bx \<le> 2" by (simp_all add: b_def)
  consider (retry) "phase (seg_state z) = phase (seg_state x)" "retry_count x < retry_count z" "seg_state x \<noteq> FTS_RESPONSE_PROCESSED"
    | (moves) "phase (seg_state x) = Probing" "phase (seg_state z) \<noteq> Probing"
    | (connects) "phase (seg_state z) = phase (seg_state x)" "retry_count z = retry_count x" "messaging (seg_state x)" "messaging (seg_state z)"
       "seg_conn x = None" "seg_conn z \<noteq> None"
    using assms(2) by (elim disjE conjE) simp_all
  then show ?thesis
  proof cases
    case retry
    have "3 * (?R - retry_count z) + bz < 3 * (?R - retry_count x) + bx" using retry(2) assms(1) b by linarith
    then show ?thesis using retry unfolding rank_def b_def by simp
  next
    case moves
    have "seg_state x \<noteq> FTS_RESPONSE_PROCESSED" using moves(1) by auto
    then have x: "rank guc x = 2 * (3 * ?R + 3) + 3 * (?R - retry_count x) + bx" using moves(1) by (simp add: rank_def b_def)
    have "rank guc z \<le> 1 * (3 * ?R + 3) + 3 * (?R - retry_count z) + bz" using moves(2) by (simp add: rank_def b_def)
    also have "\<dots> < 2 * (3 * ?R + 3)" using b(1) by simp
    also have "\<dots> \<le> rank guc x" unfolding x by simp
    finally show ?thesis .
  next
    case connects
    then show ?thesis by (auto simp: rank_def state_classes)
  qed
qed

lemma response_progress:
  assumes "response_segment y w = Inr (z, u, w')" "same_pair x y" "messaging (seg_state x)"
  shows "progress guc E k x z"
proof -
  note r = response_moves [OF assms(1)]
  have "timely guc E (Suc k) z" using r by (auto simp: timely_def link_ok_def state_classes)
  moreover have "rank guc z = 0 \<or> rank guc z < rank guc x"
  proof (cases "seg_state z = FTS_RESPONSE_PROCESSED")
    case False
    then have "phase (seg_state x) = Probing" "phase (seg_state z) \<noteq> Probing" using r(5) assms(2) by (auto simp: same_pair_def)
    then show ?thesis using r(4) rank_less [of z guc x] by simp
  qed (simp add: rank_def)
  ultimately show ?thesis by (auto simp: progress_def)
qed

lemma begins_progress:
  assumes "clock_advances E" "begins_waiting guc (E k) x y" "same_pair x y" "messaging (seg_state x)" "idle_pair y"
    "retry_count y \<le> gp_fts_probe_retries guc"
  shows "progress guc E k x y"
proof -
  note t = clock_order [OF assms(1), of k]
  have w: "waiting (seg_state y)" "retry_count y = retry_count x + 1" "retryStartTime y = time_retry (E k)"
    using assms(2) by (auto simp: begins_waiting_def)
  have "rank guc y < rank guc x" using w assms(3,4,6) by (intro rank_less) (auto simp: same_pair_def state_classes)
  moreover have "timely guc E (Suc k) y" using w t assms(5) by (auto simp: timely_def due_def state_classes)
  ultimately show ?thesis by (simp add: progress_def)
qed

lemma attempt_progress:
  assumes "clock_advances E" "libpq_contract E" "attempt_goes_on guc (E k) x y" "retry_count y = retry_count x"
    "messaging (seg_state x)" "timely guc E k x" "retry_count x \<le> gp_fts_probe_retries guc"
    "0 \<le> gp_fts_probe_timeout guc" "gp_fts_probe_timeout guc \<le> 3600"
  shows "progress guc E k x y"
proof -
  note t = clock_order [OF assms(1), of k]
  have a: "seg_state y = seg_state x" "link_ok (E 0) y" "seg_conn y \<noteq> None"
      "startTime y = (if seg_conn x = None then time_connect (E k) else startTime x)"
      "to_int32 (time_poll (E k) - startTime y) \<le> gp_fts_probe_timeout guc"
    using assms(3) contract_at(6) [OF assms(2), of k] by (auto simp: attempt_goes_on_def)
  have nw: "\<not> waiting (seg_state x)" using assms(5) by (auto simp: state_classes)
  have st: "startTime y \<le> time_connect (E k)" "time_connect (E k) \<le> startTime y + gp_fts_probe_timeout guc + 2 ^ 29"
    using a(4) assms(5,6,8) nw by (auto simp: timely_def due_def split: if_splits)
  have "to_int32 (time_poll (E k) - startTime y) = time_poll (E k) - startTime y"
    by (rule to_int32_small) (use st t assms(9) in simp_all)
  then have lim: "time_poll (E k) \<le> startTime y + gp_fts_probe_timeout guc" using a(5) by simp
  have "timely guc E (Suc k) y" using a lim st t assms(5) nw by (auto simp: timely_def due_def)
  moreover have "rank guc y < rank guc x \<or> rank guc y = rank guc x \<and> due guc y = due guc x \<and> time_connect (E k) \<le> due guc x"
  proof (cases "seg_conn x")
    case None
    then have "rank guc y < rank guc x" using a assms(4,5,7) by (intro rank_less) auto
    then show ?thesis by blast
  next
    case (Some c)
    then have st: "startTime y = startTime x" using a(4) by simp
    have "rank guc y = rank guc x" using Some a(1,3) assms(4) by (auto simp: rank_def)
    moreover have "due guc y = due guc x" "time_connect (E k) \<le> due guc x" using a(1) st lim t(1) nw by (simp_all add: due_def)
    ultimately show ?thesis by blast
  qed
  ultimately show ?thesis by (auto simp: progress_def)
qed

text \<open>One round of a pair, with the processing of its response.\<close>

definition responded :: "'c fts_segment_info \<Rightarrow> 'c fts_segment_info \<Rightarrow> bool" where
  "responded y z \<longleftrightarrow> (if ftsResponseReady y then \<exists>w u w'. response_segment y w = Inr (z, u, w') else z = y)"

lemma pair_progress:
  assumes "clock_advances E" "libpq_contract E" "whole_responses E" "0 \<le> gp_fts_probe_timeout guc" "gp_fts_probe_timeout guc \<le> 3600"
    "env_ok (E k)" "head_pair guc x" "timely guc E k x" "seg_round guc (E k) x y" "responded y z" "head_pair guc z"
  shows "progress guc E k x z"
proof -
  consider (sends) "messaging (seg_state x)" | (waits) "waiting (seg_state x)" "idle_pair x"
    | (ended) "seg_state x = FTS_RESPONSE_PROCESSED" "idle_pair x"
    using assms(7) by (auto simp: head_pair_def idle_pair_def)
  then show ?thesis
  proof cases
    case waits
    then show ?thesis using waiting_progress [OF assms(1) waits assms(8,9)] assms(10) by (simp add: responded_def)
  next
    case ended
    obtain x1 x2 x3 x4 where s: "connect_segment (E k) x = Inr x1" "poll_step guc (E k) x1 x2" "send_segment (E k) x2 = Inr x3"
        "receive_segment (E k) x3 = Inr x4" "y = retry_segment guc (time_retry (E k)) x4"
      using assms(9) by (auto simp: seg_round_def)
    have "x1 = x" using s(1) idle_steps(1) [OF ended(2)] by simp
    then have x2: "idle_pair x2" "x2 = x\<lparr>fd_index := fd_index x2\<rparr>" using poll_step_idle [OF s(2)] ended(2) by auto
    then have "x4 = x2" using s(3,4) idle_steps(3,4) [OF x2(1)] by simp
    moreover have "seg_state x2 = FTS_RESPONSE_PROCESSED" using x2(2) ended(1) by (metis fts_segment_info.ext_inject fts_segment_info.surjective fts_segment_info.update_convs(7))
    ultimately have "y = x2" "z = x2" using s(5) assms(10) by (auto simp: retry_segment_def responded_def ftsResponseReady_def state_classes)
    then show ?thesis using \<open>seg_state x2 = FTS_RESPONSE_PROCESSED\<close> x2(1)
      by (simp add: progress_def timely_def rank_def state_classes idle_pair_def)
  next
    case sends
    have l: "link_ok (E k) x" using assms(8) sends contract_at(6) [OF assms(2), of k] by (simp add: timely_def)
    note r = sending_round [OF assms(2,3) refl assms(6) sends assms(7) l assms(9)]
    have cnt: "retry_count x \<le> gp_fts_probe_retries guc" using assms(7) by (simp add: head_pair_def)
    show ?thesis
    proof (cases "ftsResponseReady y")
      case True
      then show ?thesis using response_progress r sends assms(10) unfolding responded_def by metis
    next
      case False
      then have z: "z = y" using assms(10) by (simp add: responded_def)
      have "begins_waiting guc (E k) x y \<Longrightarrow> idle_pair y"
        using assms(11) z by (auto simp: begins_waiting_def head_pair_def state_classes)
      then show ?thesis
        using r False z attempt_progress [OF assms(1,2) _ _ sends assms(8) cnt assms(4,5)] begins_progress [OF assms(1) _ _ sends] assms(11)
        by (auto simp: head_pair_def)
    qed
  qed
qed

section \<open>The end of a cycle\<close>

lemma clock_mono:
  assumes "clock_advances E"
  shows "time_connect (E j) \<le> time_connect (E (j + d))"
proof (induction d)
  case (Suc d)
  then show ?case using clock_order(1-3) [OF assms, of "j + d"] by simp
qed simp

lemma rank_decreases:
  assumes "clock_advances E" "\<forall>k. progress guc E k (f k) (f (Suc k))" "rank guc (f k) \<noteq> 0"
  shows "\<exists>d. rank guc (f (k + d)) < rank guc (f k)"
proof (rule ccontr)
  assume "\<nexists>d. rank guc (f (k + d)) < rank guc (f k)"
  then have no: "\<not> rank guc (f (k + d)) < rank guc (f k)" for d by blast
  have same: "rank guc (f (k + d)) = rank guc (f k) \<and> due guc (f (k + d)) = due guc (f k)" for d
  proof (induction d)
    case (Suc d)
    have "progress guc E (k + d) (f (k + d)) (f (k + Suc d))" using assms(2) by simp
    then show ?case using Suc no [of "Suc d"] assms(3) unfolding progress_def by linarith
  qed simp
  have late: "time_connect (E (k + d)) \<le> due guc (f k)" for d
  proof -
    have "progress guc E (k + d) (f (k + d)) (f (k + Suc d))" using assms(2) by simp
    then show ?thesis using same [of d] same [of "Suc d"] assms(3) unfolding progress_def by linarith
  qed
  obtain n where "due guc (f k) < time_connect (E n)" using assms(1) unfolding clock_advances_def by blast
  also have "\<dots> \<le> time_connect (E (k + n))" using clock_mono [OF assms(1), of n k] by (simp add: add.commute)
  finally show False using late [of n] by simp
qed

lemma rank_vanishes:
  assumes "clock_advances E" "\<forall>k. progress guc E k (f k) (f (Suc k))"
  shows "\<exists>m. \<forall>k \<ge> m. rank guc (f k) = 0"
proof -
  have "\<exists>m. rank guc (f m) = 0" if "rank guc (f k) = r" for k r
    using that
  proof (induction r arbitrary: k rule: less_induct)
    case (less r)
    show ?case
    proof (cases "rank guc (f k) = 0")
      case False
      then obtain d where "rank guc (f (k + d)) < r" using rank_decreases [OF assms False] less.prems by auto
      then show ?thesis using less.IH by blast
    qed blast
  qed
  then obtain m where m: "rank guc (f m) = 0" by blast
  have "rank guc (f (m + d)) = 0" for d
  proof (induction d)
    case (Suc d)
    have "progress guc E (m + d) (f (m + d)) (f (m + Suc d))" using assms(2) by simp
    then show ?case using Suc unfolding progress_def by linarith
  qed (simp add: m)
  then show ?thesis by (intro exI [of _ m]) (metis le_iff_add)
qed

lemma cycle_progress:
  assumes "cycle_inv guc xs w" "\<forall>k. env_ok (E k)" "clock_advances E" "libpq_contract E" "whole_responses E"
    "0 \<le> gp_fts_probe_timeout guc" "gp_fts_probe_timeout guc \<le> 3600" "\<forall>x \<in> set xs. timely guc E 0 x"
  shows "(\<forall>x \<in> set (fst (cycle_state guc E xs w k)). timely guc E k x) \<and>
    list_all2 (progress guc E k) (fst (cycle_state guc E xs w k)) (fst (cycle_state guc E xs w (Suc k)))"
proof (induction k)
  have step: "list_all2 (progress guc E k) (fst (cycle_state guc E xs w k)) (fst (cycle_state guc E xs w (Suc k)))"
    if t: "\<forall>x \<in> set (fst (cycle_state guc E xs w k)). timely guc E k x" for k
  proof -
    obtain ys upd v where s: "cycle_state guc E xs w k = (ys, upd, v)" by (metis prod_cases3)
    note inv = cycle_invariant(1) [OF assms(1,2) s]
    obtain ms zs upd' v' where r: "list_all2 (seg_round guc (E k)) ys ms" "message_round guc (E k) ys v = Inr (zs, upd', v')"
        "process_from (E k) 0 ms False v = Inr (zs, upd', v')" "round_good guc ms False v zs upd' v'" "cycle_inv guc zs v'"
      by (rule round_spec [OF inv spec [OF assms(2)]])
    have "\<forall>i. active_at (E k) i" "env_ok (E k)" using assms(2) by (auto simp: env_ok_def)
    note q = process_pointwise [OF r(3) this(1), folded responded_def] and e = this(2)
    have "list_all2 (progress guc E k) ys zs"
      unfolding list_all2_conv_all_nth
    proof (intro conjI allI impI)
      show "length ys = length zs" using q r(1) by (simp add: list_all2_conv_all_nth)
      fix n assume n: "n < length ys"
      then have m: "ys ! n \<in> set ys" "zs ! n \<in> set zs" "seg_round guc (E k) (ys ! n) (ms ! n)" "responded (ms ! n) (zs ! n)"
        using q r(1) by (auto simp: list_all2_conv_all_nth)
      show "progress guc E k (ys ! n) (zs ! n)"
        by (rule pair_progress [OF assms(3,4,5,6,7) e _ _ m(3,4)]) (use m(1,2) inv r(5) t s in \<open>auto simp: cycle_inv_def\<close>)
    qed
    then show ?thesis using s r(2) by simp
  qed
  {
    case 0
    then show ?case using step [of 0] assms(8) by simp
  next
    case (Suc k)
    have "\<forall>x \<in> set (fst (cycle_state guc E xs w (Suc k))). timely guc E (Suc k) x"
      using conjunct2 [OF Suc] unfolding list_all2_conv_all_nth progress_def by (metis in_set_conv_nth)
    then show ?case using step [of "Suc k"] by blast
  }
qed

lemma all_eventually:
  assumes "\<forall>n < (l :: nat). \<exists>m. \<forall>k \<ge> (m :: nat). P n k"
  shows "\<exists>m. \<forall>n < l. \<forall>k \<ge> m. P n k"
  using assms
proof (induction l)
  case (Suc l)
  then obtain m m' where "\<forall>n < l. \<forall>k \<ge> m. P n k" "\<forall>k \<ge> m'. P l k" by (metis less_Suc_eq)
  then show ?case by (intro exI [of _ "max m m'"]) (auto simp: less_Suc_eq)
qed simp

lemma rank_zero: "rank guc x = 0 \<longleftrightarrow> seg_state x = FTS_RESPONSE_PROCESSED"
  by (simp add: rank_def)

text \<open>C3: A probe cycle ends, without an error of its own, when the clock advances, libpq keeps its contract and every
  response that begins to arrive can be read whole. Lost messages, refused or silent connections and
  failed segments only make it retry: every attempt is bounded by \<^verbatim>\<open>gp_fts_probe_timeout\<close> (0 to 3600 seconds,
  as its definition allows) and their number by \<^verbatim>\<open>gp_fts_probe_retries\<close>.\<close>

theorem fts_cycle_ends:
  fixes E :: "nat \<Rightarrow> 'c fts_env"
  assumes "config_ok (gp_segment_configuration w)" "components_of (gp_segment_configuration w) cdbs"
    "\<forall>k. env_ok (E k) \<and> loop_active (E k)" "libpq_contract E" "whole_responses E" "clock_advances E"
    "0 \<le> gp_fts_probe_timeout guc" "gp_fts_probe_timeout guc \<le> 3600"
  shows "\<exists>upd w'. FtsWalRepMessageSegments guc E cdbs w = Some (Inr (upd, w'))"
proof -
  obtain xs :: "'c fts_segment_info list" where xs: "FtsWalRepInitProbeContext cdbs = Inr xs" "cycle_inv guc xs w"
      "\<forall>x \<in> set xs. (\<exists>p m. x = init_segment p m) \<and> 0 \<le> content x"
    by (rule init_context [OF assms(1,2), of guc])
  have start: "\<forall>x \<in> set xs. timely guc E 0 x"
    using xs(3) by (auto simp: timely_def link_ok_def init_segment_def waiting_def)
  have env: "\<forall>k. env_ok (E k)" using assms(3) by blast
  let ?s = "\<lambda>k. fst (cycle_state guc E xs w k)"
  note p = conjunct2 [OF cycle_progress [OF xs(2) env assms(6,4,5,7,8) start]]
  have len: "length (?s k) = length xs" for k
  proof (induction k)
    case (Suc k)
    then show ?case using list_all2_lengthD [OF p [of k]] by simp
  qed simp
  have "\<exists>m. \<forall>k \<ge> m. rank guc (?s k ! n) = 0" if n: "n < length xs" for n
  proof (rule rank_vanishes [OF assms(6)], rule allI)
    fix k
    show "progress guc E k (?s k ! n) (?s (Suc k) ! n)" by (rule list_all2_nthD [OF p]) (simp only: len n)
  qed
  then have "\<exists>m. \<forall>n < length xs. \<forall>k \<ge> m. rank guc (?s k ! n) = 0" by (intro all_eventually allI impI)
  then obtain m where "\<forall>n < length xs. rank guc (?s m ! n) = 0" by (meson order_refl)
  then have "allDone (?s m)" unfolding allDone_def list_all_length len rank_zero .
  then obtain k where "message_loop guc E 0 xs False w = Some (Inr (snd (cycle_state guc E xs w k)))"
    using loop_returns [OF xs(2) assms(3)] by blast
  then have "FtsWalRepMessageSegments guc E cdbs w = Some (Inr (snd (cycle_state guc E xs w k)))"
    using xs(1) by (simp add: FtsWalRepMessageSegments_def)
  then show ?thesis by (cases "snd (cycle_state guc E xs w k)") simp
qed

section \<open>Segments that do not answer\<close>

text \<open>A clock that advances by a second in each round, and segments that take no connection and do not
  refuse it either.\<close>

definition ticking :: "'c fts_env \<Rightarrow> nat \<Rightarrow> 'c fts_env" where
  "ticking env k = env\<lparr>time_connect := int k, time_poll := int k, time_retry := int k\<rparr>"

lemma ticking_advances: "clock_advances (ticking env)"
proof -
  have "\<exists>k. t < time_connect (ticking env k)" for t
    by (rule exI [of _ "nat (t + 1)"]) (simp add: ticking_def)
  then show ?thesis by (simp add: clock_advances_def ticking_def)
qed

definition silent :: "unit fts_env" where
  "silent = refusing\<lparr>conn_status := (\<lambda>_. CONNECTION_STARTED), poll := (\<lambda>fds. (POLL_READY 0, map (\<lambda>_. 0) fds))\<rparr>"

theorem fts_cycle_ends_witness:
  "\<exists>upd w'. FtsWalRepMessageSegments no_retries (ticking silent) sample_cdbs sample_shared = Some (Inr (upd, w'))"
proof (rule fts_cycle_ends [OF sample_ok(1,3)])
  show "\<forall>k. env_ok (ticking silent k) \<and> loop_active (ticking silent k)"
    by (simp add: silent_def refusing_def ticking_def env_ok_def calls_succeed_def answers_consistent_def)
qed (simp_all add: ticking_advances libpq_contract_def whole_responses_def ticking_def silent_def refusing_def no_retries_def)

text \<open>A segment that takes the connection and the message, and sends a part of its response only. The
  connection is the truth value of being established.\<close>

definition stalling :: "bool fts_env" where
  "stalling = \<lparr>PQconnectStart = (\<lambda>_. Some False), conn_status = (\<lambda>c. if c then CONNECTION_OK else CONNECTION_STARTED),
     async_idle = (\<lambda>c. c), PQconnectPoll = (\<lambda>_. (PGRES_POLLING_OK, True)), PQerrorMessage = (\<lambda>_. []), PQsocket = (\<lambda>_. 0),
     PQsendQuery = (\<lambda>_ _. (True, True)), PQconsumeInput = (\<lambda>c. (True, c)), PQisBusy = (\<lambda>c. (True, c)),
     PQgetResult = (\<lambda>c. (None, c)), poll = (\<lambda>fds. (POLL_READY (length fds), map snd fds)), time_connect = 0, time_poll = 0,
     time_retry = 0, active_at = (\<lambda>_. True), loop_active = True\<rparr>"

definition gp_fts_defaults :: fts_guc where
  "gp_fts_defaults = \<lparr>gp_fts_probe_retries = 5, gp_fts_probe_timeout = 20\<rparr>"

definition stalled :: "bool fts_segment_info \<Rightarrow> bool" where
  "stalled x \<longleftrightarrow> seg_state x = FTS_PROBE_SEGMENT \<and> seg_conn x = Some True \<and> poll_events x = 0 \<and> poll_revents x = POLLIN"

lemma stalled_round:
  "stalled x \<Longrightarrow> message_round guc (ticking stalling k) [x] w = Inr ([x\<lparr>fd_index := - 1\<rparr>], False, w)"
  by (cases x) (simp add: step_defs stalled_def ticking_def stalling_def ready_to_send_def poll_bits Let_def)

lemma stalling_start:
  "\<exists>x. cycle_state gp_fts_defaults (ticking stalling) [init_segment primary_row mirror_row] sample_shared (Suc (Suc (Suc 0))) = ([x], False, sample_shared) \<and> stalled x"
  "\<not> allDone (fst (cycle_state gp_fts_defaults (ticking stalling) [init_segment primary_row mirror_row] sample_shared 0))"
  "\<not> allDone (fst (cycle_state gp_fts_defaults (ticking stalling) [init_segment primary_row mirror_row] sample_shared (Suc 0)))"
  "\<not> allDone (fst (cycle_state gp_fts_defaults (ticking stalling) [init_segment primary_row mirror_row] sample_shared (Suc (Suc 0))))"
  by (simp_all add: step_defs ticking_def stalling_def init_segment_def gp_fts_defaults_def Let_def allDone_def
    poll_bits poll_segment_def ftsCheckTimeout_def to_int32_small ready_to_send_def stalled_def)

lemma stalling_goes_on:
  "\<exists>x. cycle_state gp_fts_defaults (ticking stalling) [init_segment primary_row mirror_row] sample_shared (Suc (Suc (Suc k))) = ([x], False, sample_shared) \<and> stalled x"
proof (induction k)
  case 0
  then show ?case using stalling_start(1) by simp
next
  case (Suc k)
  then obtain x where x: "cycle_state gp_fts_defaults (ticking stalling) [init_segment primary_row mirror_row] sample_shared (Suc (Suc (Suc k))) =
      ([x], False, sample_shared)" "stalled x" by blast
  have "stalled (x\<lparr>fd_index := - 1\<rparr>)" using x(2) by (simp add: stalled_def)
  then show ?case using x(1) stalled_round [OF x(2), of gp_fts_defaults "Suc (Suc (Suc k))" sample_shared] by (subst cycle_state.simps(2)) simp
qed

text \<open>C4: A primary that sends a part of its response and stops, its connection still open, makes the prober
  loop for ever with the default parameters, although the clock advances, libpq keeps its contract and nothing
  fails: \<^verbatim>\<open>gp_fts_probe_timeout\<close> is checked only for segments that are polled, and the segment is not, because
  its \<^verbatim>\<open>poll_events\<close> were cleared when the part arrived.\<close>

theorem fts_cycle_hangs_on_partial_response:
  "(\<forall>k. env_ok (ticking stalling k) \<and> loop_active (ticking stalling k)) \<and> libpq_contract (ticking stalling) \<and>
   clock_advances (ticking stalling) \<and> FtsWalRepMessageSegments gp_fts_defaults (ticking stalling) sample_cdbs sample_shared = None"
proof -
  let ?xs = "[init_segment primary_row mirror_row] :: bool fts_segment_info list"
  let ?s = "cycle_state gp_fts_defaults (ticking stalling) ?xs sample_shared"
  have env: "\<forall>k. env_ok (ticking stalling k) \<and> loop_active (ticking stalling k)"
    by (simp add: stalling_def ticking_def env_ok_def calls_succeed_def answers_consistent_def)
  obtain ys :: "bool fts_segment_info list" where ys: "FtsWalRepInitProbeContext sample_cdbs = Inr ys" "cycle_inv gp_fts_defaults ys sample_shared"
    by (rule init_context [OF sample_ok(1,3), of gp_fts_defaults])
  have init: "FtsWalRepInitProbeContext sample_cdbs = Inr ?xs"
    by (simp add: sample_defs FtsWalRepInitProbeContext_def FtsGetPeerSegment_def SEGMENT_IS_ACTIVE_PRIMARY_def fts_chars)
  have "\<not> allDone (fst (?s n))" for n
  proof (cases "n < 3")
    case True
    then have "n = 0 \<or> n = Suc 0 \<or> n = Suc (Suc 0)" by linarith
    then show ?thesis using stalling_start(2-4) by blast
  next
    case False
    then have "n = Suc (Suc (Suc (n - 3)))" by simp
    then show ?thesis using stalling_goes_on [of "n - 3"] by (auto simp: allDone_def stalled_def simp del: cycle_state.simps)
  qed
  then have "message_loop gp_fts_defaults (ticking stalling) 0 ?xs False sample_shared = None"
    using loop_result [OF _ env, of gp_fts_defaults ?xs sample_shared] ys init by (metis option.exhaust sum.inject(2))
  then have "FtsWalRepMessageSegments gp_fts_defaults (ticking stalling) sample_cdbs sample_shared = None"
    using init by (simp add: FtsWalRepMessageSegments_def)
  moreover have "libpq_contract (ticking stalling)" by (simp add: libpq_contract_def ticking_def stalling_def)
  ultimately show ?thesis using env ticking_advances by blast
qed

end
