(* ===== verification/FtsWire.thy ===== *)
theory FtsWire
  imports FtsProbe "HOL-Library.Monad_Syntax"
begin

text \<open>
  The response of a segment on the wire: the messages \<^verbatim>\<open>SendFtsResponse\<close> writes and the functions of
  libpq that read them for the prober.
\<close>

section \<open>Writing messages\<close>

type_synonym bytes = "uint8 list"

text \<open>\<^verbatim>\<open>pq_sendint\<close> with the constant sizes of its calls is one of the first three. Strings are ASCII and
  are not converted.\<close>

definition pq_sendint8 :: "bytes \<Rightarrow> uint8 \<Rightarrow> bytes" where
  "pq_sendint8 buf i = buf @ [i]"

definition pq_sendint16 :: "bytes \<Rightarrow> uint16 \<Rightarrow> bytes" where
  "pq_sendint16 buf i = buf @ [ucast (drop_bit 8 i), ucast i]"

definition pq_sendint32 :: "bytes \<Rightarrow> uint32 \<Rightarrow> bytes" where
  "pq_sendint32 buf i = buf @ [ucast (drop_bit 24 i), ucast (drop_bit 16 i), ucast (drop_bit 8 i), ucast i]"

definition char_byte :: "char \<Rightarrow> uint8" where
  "char_byte c = word_of_nat (of_char c)"

definition pq_sendstring :: "bytes \<Rightarrow> string \<Rightarrow> bytes" where
  "pq_sendstring buf str = buf @ map char_byte str @ [0]"

definition BOOLOID :: uint32 where "BOOLOID = 16"

record FtsResponse =
  IsMirrorUp :: bool
  IsInSync :: bool
  IsSyncRepEnabled :: bool
  IsRoleMirror :: bool
  RequestRetry :: bool

text \<open>The description of a column: the seven calls \<^verbatim>\<open>SendFtsResponse\<close> repeats for each of them, and the
  two calls for its value.\<close>

definition send_column :: "bytes \<Rightarrow> string \<Rightarrow> nat \<Rightarrow> bytes" where
  "send_column buf name attnum =
     (let buf = pq_sendstring buf name;
          buf = pq_sendint32 buf 0;
          buf = pq_sendint16 buf (word_of_nat attnum);
          buf = pq_sendint32 buf BOOLOID;
          buf = pq_sendint16 buf 1;
          buf = pq_sendint32 buf (- 1)
      in pq_sendint16 buf 0)"

definition send_value :: "bytes \<Rightarrow> bool \<Rightarrow> bytes" where
  "send_value buf b = pq_sendint8 (pq_sendint32 buf 1) (if b then 1 else 0)"

text \<open>The messages sent: their types and bodies. \<^verbatim>\<open>EndCommand\<close> sends the last one.\<close>

definition SendFtsResponse :: "FtsResponse \<Rightarrow> string \<Rightarrow> (char \<times> bytes) list" where
  "SendFtsResponse response messagetype =
     (let T = pq_sendint16 [] (word_of_nat Natts_fts_message_response);
          T = send_column T ''is_mirror_up'' Anum_fts_message_response_is_mirror_up;
          T = send_column T ''is_in_sync'' Anum_fts_message_response_is_in_sync;
          T = send_column T ''is_syncrep_enabled'' Anum_fts_message_response_is_syncrep_enabled;
          T = send_column T ''is_role_mirror'' Anum_fts_message_response_is_role_mirror;
          T = send_column T ''request_retry'' Anum_fts_message_response_request_retry;
          D = pq_sendint16 [] (word_of_nat Natts_fts_message_response);
          D = send_value D (IsMirrorUp response);
          D = send_value D (IsInSync response);
          D = send_value D (IsSyncRepEnabled response);
          D = send_value D (IsRoleMirror response);
          D = send_value D (RequestRetry response)
      in [(CHR ''T'', T), (CHR ''D'', D), (CHR ''C'', pq_sendstring [] messagetype)])"

section \<open>Reading messages\<close>

text \<open>The readers of libpq on the rest of the input buffer; \<open>None\<close> is \<^verbatim>\<open>EOF\<close>.\<close>

definition pqGetInt2 :: "bytes \<Rightarrow> (uint16 \<times> bytes) option" where
  "pqGetInt2 buf =
     (case buf of b1 # b0 # rest \<Rightarrow> Some (push_bit 8 (ucast b1) OR ucast b0, rest) | _ \<Rightarrow> None)"

definition pqGetInt4 :: "bytes \<Rightarrow> (uint32 \<times> bytes) option" where
  "pqGetInt4 buf =
     (case buf of
        b3 # b2 # b1 # b0 # rest \<Rightarrow>
          Some (push_bit 24 (ucast b3) OR push_bit 16 (ucast b2) OR push_bit 8 (ucast b1) OR ucast b0, rest)
      | _ \<Rightarrow> None)"

definition pqGets :: "bytes \<Rightarrow> (bytes \<times> bytes) option" where
  "pqGets buf =
     (case dropWhile (\<lambda>b. b \<noteq> 0) buf of [] \<Rightarrow> None | _ # rest \<Rightarrow> Some (takeWhile (\<lambda>b. b \<noteq> 0) buf, rest))"

definition pqSkipnchar :: "nat \<Rightarrow> bytes \<Rightarrow> bytes option" where
  "pqSkipnchar len buf = (if length buf < len then None else Some (drop len buf))"

record PGresAttDesc =
  att_name :: bytes
  tableid :: uint32
  columnid :: uint16
  att_format :: uint16
  typid :: uint32
  typlen :: uint16
  atttypmod :: uint32

definition get_attr :: "bytes \<Rightarrow> (PGresAttDesc \<times> bytes) option" where
  "get_attr buf =
     do {
       (name, buf) \<leftarrow> pqGets buf;
       (tableid, buf) \<leftarrow> pqGetInt4 buf;
       (columnid, buf) \<leftarrow> pqGetInt2 buf;
       (typid, buf) \<leftarrow> pqGetInt4 buf;
       (typlen, buf) \<leftarrow> pqGetInt2 buf;
       (atttypmod, buf) \<leftarrow> pqGetInt4 buf;
       (format, buf) \<leftarrow> pqGetInt2 buf;
       Some (\<lparr>att_name = name, tableid = tableid, columnid = columnid, att_format = format, typid = typid,
              typlen = typlen, atttypmod = atttypmod\<rparr>, buf)
     }"

fun get_times :: "nat \<Rightarrow> (bytes \<Rightarrow> ('a \<times> bytes) option) \<Rightarrow> bytes \<Rightarrow> ('a list \<times> bytes) option" where
  "get_times 0 f buf = Some ([], buf)"
| "get_times (Suc n) f buf =
     do {
       (x, buf) \<leftarrow> f buf;
       (xs, buf) \<leftarrow> get_times n f buf;
       Some (x # xs, buf)
     }"

text \<open>The result under construction: its columns, whether it is all binary, and its rows. A null value
  is \<open>None\<close>. Memory does not run out, and the query is a simple one outside single-row mode.\<close>

record pg_result =
  attDescs :: "PGresAttDesc list"
  binary :: bool
  tuples :: "bytes option list list"

definition getRowDescriptions :: "bytes \<Rightarrow> (string, pg_result \<times> bytes) sum" where
  "getRowDescriptions buf =
     (case do { (nfields, buf) \<leftarrow> pqGetInt2 buf; get_times (unat nfields) get_attr buf } of
        None \<Rightarrow> Inl ''insufficient data in T message''
      | Some (descs, buf) \<Rightarrow>
          Inr (\<lparr>attDescs = descs, binary = (descs \<noteq> [] \<and> (\<forall>d \<in> set descs. att_format d = 1)), tuples = []\<rparr>, buf))"

text \<open>A value: a negative length is a null, and nothing is skipped for the lengths up to zero.\<close>

definition get_value :: "bytes \<Rightarrow> (bytes option \<times> bytes) option" where
  "get_value buf =
     do {
       (vlen, buf) \<leftarrow> pqGetInt4 buf;
       if sint vlen > 0
       then do { rest \<leftarrow> pqSkipnchar (unat vlen) buf; Some (Some (take (unat vlen) buf), rest) }
       else Some (if sint vlen < 0 then None else Some [], buf)
     }"

definition getAnotherTuple :: "pg_result \<Rightarrow> bytes \<Rightarrow> (string, pg_result \<times> bytes) sum" where
  "getAnotherTuple result buf =
     (case pqGetInt2 buf of
        None \<Rightarrow> Inl ''insufficient data in D message''
      | Some (tupnfields, buf) \<Rightarrow>
          if unat tupnfields \<noteq> length (attDescs result) then Inl ''unexpected field count in D message''
          else case get_times (length (attDescs result)) get_value buf of
                 None \<Rightarrow> Inl ''insufficient data in D message''
               | Some (row, buf) \<Rightarrow> Inr (result\<lparr>tuples := tuples result @ [row]\<rparr>, buf))"

text \<open>The accessors the prober uses on a result. Values end with a zero byte, and a null reads as the
  empty string.\<close>

definition pg_first_byte :: "bytes option \<Rightarrow> uint8" where
  "pg_first_byte v = (case v of Some (b # _) \<Rightarrow> b | _ \<Rightarrow> 0)"

definition as_PGresult :: "pg_result \<Rightarrow> PGresult" where
  "as_PGresult result =
     \<lparr>tuples_ok = True, PQntuples = length (tuples result), PQnfields = length (attDescs result),
      PQgetvalue = (\<lambda>i. pg_first_byte (hd (tuples result) ! i))\<rparr>"

section \<open>A response is read as it was sent\<close>

lemma get_sent_int16: "pqGetInt2 (pq_sendint16 [] i @ rest) = Some (i, rest)"
proof -
  have "push_bit 8 (ucast (ucast (drop_bit 8 i) :: uint8)) OR ucast (ucast i :: uint8) = i"
    by (rule bit_word_eqI) (auto simp: bit_simps not_le)
  then show ?thesis by (simp add: pqGetInt2_def pq_sendint16_def)
qed

lemma get_sent_int32: "pqGetInt4 (pq_sendint32 [] i @ rest) = Some (i, rest)"
proof -
  let ?w = "push_bit 24 (ucast (ucast (drop_bit 24 i) :: uint8)) OR push_bit 16 (ucast (ucast (drop_bit 16 i) :: uint8)) OR
      push_bit 8 (ucast (ucast (drop_bit 8 i) :: uint8)) OR ucast (ucast i :: uint8) :: uint32"
  have "?w = i"
  proof (rule bit_word_eqI)
    fix n assume n: "n < LENGTH(32)"
    then consider "n < 8" | "8 \<le> n" "n < 16" | "16 \<le> n" "n < 24" | "24 \<le> n" "n < 32" by force
    then show "bit ?w n = bit i n"
      by cases (auto simp: bit_simps)
  qed
  then show ?thesis by (simp add: pqGetInt4_def pq_sendint32_def)
qed

lemma char_byte_zero: "char_byte c = 0 \<longleftrightarrow> of_char c = (0 :: nat)"
proof -
  have "(of_char c :: nat) < 2 ^ LENGTH(8)" by simp
  then show ?thesis unfolding char_byte_def word_of_nat_eq_0_iff by (metis dvd_0_right nat_dvd_not_less neq0_conv)
qed

lemma get_sent_string:
  assumes "\<forall>c \<in> set s. of_char c \<noteq> (0 :: nat)"
  shows "pqGets (pq_sendstring [] s @ rest) = Some (map char_byte s, rest)"
  using assms by (simp add: pqGets_def pq_sendstring_def takeWhile_append dropWhile_append char_byte_zero)

text \<open>The writers only append.\<close>

lemma send_append:
  "pq_sendint8 buf b = buf @ pq_sendint8 [] b" "pq_sendint16 buf h = buf @ pq_sendint16 [] h" "pq_sendint32 buf i = buf @ pq_sendint32 [] i"
  "pq_sendstring buf s = buf @ pq_sendstring [] s"
  by (simp_all add: pq_sendint8_def pq_sendint16_def pq_sendint32_def pq_sendstring_def)

lemma column_append: "send_column buf name attnum = buf @ send_column [] name attnum"
  by (simp add: send_column_def Let_def pq_sendint16_def pq_sendint32_def pq_sendstring_def)

lemma value_append: "send_value buf b = buf @ send_value [] b"
  by (simp add: send_value_def pq_sendint32_def pq_sendint8_def)

lemma get_sent_column:
  assumes "\<forall>c \<in> set name. of_char c \<noteq> (0 :: nat)"
  shows "get_attr (send_column [] name attnum @ rest) =
    Some (\<lparr>att_name = map char_byte name, tableid = 0, columnid = word_of_nat attnum, att_format = 0, typid = BOOLOID,
           typlen = 1, atttypmod = - 1\<rparr>, rest)"
proof -
  have sent: "send_column [] name attnum = pq_sendstring [] name @ pq_sendint32 [] 0 @ pq_sendint16 [] (word_of_nat attnum) @
      pq_sendint32 [] BOOLOID @ pq_sendint16 [] 1 @ pq_sendint32 [] (- 1) @ pq_sendint16 [] 0"
    by (simp add: send_column_def Let_def pq_sendint16_def pq_sendint32_def pq_sendstring_def)
  show ?thesis
    unfolding sent get_attr_def append_assoc using assms by (simp add: get_sent_string get_sent_int16 get_sent_int32)
qed

lemma get_sent_value: "get_value (send_value [] b @ rest) = Some (Some [if b then 1 else 0], rest)"
proof -
  have sent: "send_value [] b = pq_sendint32 [] 1 @ [if b then 1 else 0]"
    by (simp add: send_value_def pq_sendint32_def pq_sendint8_def)
  show ?thesis unfolding sent get_value_def append_assoc by (simp add: get_sent_int32 pqSkipnchar_def)
qed

text \<open>The first two messages of a response.\<close>

definition response_columns :: "(string \<times> nat) list" where
  "response_columns = [(''is_mirror_up'', Anum_fts_message_response_is_mirror_up), (''is_in_sync'', Anum_fts_message_response_is_in_sync),
     (''is_syncrep_enabled'', Anum_fts_message_response_is_syncrep_enabled),
     (''is_role_mirror'', Anum_fts_message_response_is_role_mirror), (''request_retry'', Anum_fts_message_response_request_retry)]"

definition response_values :: "FtsResponse \<Rightarrow> bool list" where
  "response_values r = [IsMirrorUp r, IsInSync r, IsSyncRepEnabled r, IsRoleMirror r, RequestRetry r]"

lemma response_messages:
  "SendFtsResponse r messagetype =
     [(CHR ''T'', pq_sendint16 [] 5 @ concat (map (\<lambda>(name, attnum). send_column [] name attnum) response_columns)),
      (CHR ''D'', pq_sendint16 [] 5 @ concat (map (send_value []) (response_values r))), (CHR ''C'', pq_sendstring [] messagetype)]"
proof -
  have T: "send_column (send_column (send_column (send_column (send_column buf n1 a1) n2 a2) n3 a3) n4 a4) n5 a5 =
      buf @ send_column [] n1 a1 @ send_column [] n2 a2 @ send_column [] n3 a3 @ send_column [] n4 a4 @ send_column [] n5 a5"
    for buf n1 a1 n2 a2 n3 a3 n4 a4 n5 a5
    using column_append [of buf] column_append [of "buf @ _"] by simp
  have D: "send_value (send_value (send_value (send_value (send_value buf v1) v2) v3) v4) v5 =
      buf @ send_value [] v1 @ send_value [] v2 @ send_value [] v3 @ send_value [] v4 @ send_value [] v5" for buf v1 v2 v3 v4 v5
    using value_append [of buf] value_append [of "buf @ _"] by simp
  show ?thesis
    unfolding SendFtsResponse_def Let_def T D
    by (simp add: response_columns_def response_values_def Natts_fts_message_response_def)
qed

lemma get_times_map:
  assumes "\<And>x rest. x \<in> set xs \<Longrightarrow> f (g x @ rest) = Some (h x, rest)"
  shows "get_times (length xs) f (concat (map g xs) @ rest) = Some (map h xs, rest)"
  using assms by (induction xs) auto

lemma response_read:
  "\<exists>t d c columns result.
     SendFtsResponse r messagetype = [(CHR ''T'', t), (CHR ''D'', d), (CHR ''C'', c)] \<and>
     (\<forall>rest. getRowDescriptions (t @ rest) = Inr (columns, rest)) \<and>
     (\<forall>rest. getAnotherTuple columns (d @ rest) = Inr (result, rest)) \<and>
     tuples_ok (as_PGresult result) \<and> PQnfields (as_PGresult result) = Natts_fts_message_response \<and>
     PQntuples (as_PGresult result) = FTS_MESSAGE_RESPONSE_NTUPLES \<and>
     probeRecordResponse (as_PGresult result) =
       \<lparr>isPrimaryAlive = True, isMirrorAlive = IsMirrorUp r, isInSync = IsInSync r, isSyncRepEnabled = IsSyncRepEnabled r,
        isRoleMirror = IsRoleMirror r, retryRequested = RequestRetry r\<rparr>"
proof -
  let ?col = "\<lambda>(name, attnum). \<lparr>att_name = map char_byte name, tableid = 0, columnid = word_of_nat attnum, att_format = 0,
    typid = BOOLOID, typlen = 1, atttypmod = - 1\<rparr>"
  let ?columns = "\<lparr>attDescs = map ?col response_columns, binary = False, tuples = []\<rparr>"
  let ?row = "map (\<lambda>b. Some [if b then 1 else 0 :: uint8]) (response_values r)"
  let ?result = "?columns\<lparr>tuples := [?row]\<rparr>"
  have len: "length response_columns = 5" "length (response_values r) = 5"
    by (simp_all add: response_columns_def response_values_def)
  have format: "\<not> (\<forall>d \<in> set (map ?col response_columns). att_format d = 1)" by (simp add: response_columns_def)
  let ?send = "\<lambda>(name, attnum). send_column [] name attnum"
  have col: "get_attr (?send x @ rest) = Some (?col x, rest)" if "x \<in> set response_columns" for x rest
    using that get_sent_column by (auto simp: response_columns_def)
  have T: "get_times 5 get_attr (concat (map ?send response_columns) @ rest) = Some (map ?col response_columns, rest)" for rest
    using get_times_map [of response_columns get_attr ?send ?col rest, OF col] unfolding len .
  note D = get_times_map [of "response_values r" get_value "send_value []" "\<lambda>b. Some [if b then 1 else 0]", OF get_sent_value, unfolded len]
  have "getRowDescriptions ((pq_sendint16 [] 5 @ concat (map (\<lambda>(name, attnum). send_column [] name attnum) response_columns)) @ rest) =
      Inr (?columns, rest)" for rest
    unfolding getRowDescriptions_def append_assoc using format by (simp add: get_sent_int16 T del: set_map)
  moreover have "getAnotherTuple ?columns ((pq_sendint16 [] 5 @ concat (map (send_value []) (response_values r))) @ rest) =
      Inr (?result, rest)" for rest
    unfolding getAnotherTuple_def append_assoc by (simp add: get_sent_int16 D len)
  moreover have "tuples_ok (as_PGresult ?result)" "PQnfields (as_PGresult ?result) = Natts_fts_message_response"
      "PQntuples (as_PGresult ?result) = FTS_MESSAGE_RESPONSE_NTUPLES"
      "probeRecordResponse (as_PGresult ?result) =
       \<lparr>isPrimaryAlive = True, isMirrorAlive = IsMirrorUp r, isInSync = IsInSync r, isSyncRepEnabled = IsSyncRepEnabled r,
        isRoleMirror = IsRoleMirror r, retryRequested = RequestRetry r\<rparr>"
    by (simp_all add: as_PGresult_def response_columns_def response_values_def Natts_fts_message_response_def
      FTS_MESSAGE_RESPONSE_NTUPLES_def probeRecordResponse_def pg_first_byte_def Anum_fts_message_response_is_mirror_up_def
      Anum_fts_message_response_is_in_sync_def Anum_fts_message_response_is_syncrep_enabled_def
      Anum_fts_message_response_is_role_mirror_def Anum_fts_message_response_request_retry_def)
  ultimately show ?thesis unfolding response_messages by blast
qed

text \<open>C9: The prober reads a response as the segment sent it: libpq finds one row of five columns in its
  messages, the shape \<^verbatim>\<open>ftsReceive\<close> asks for, and \<^verbatim>\<open>probeRecordResponse\<close> reads the five flags from it, whatever
  follows in the input buffer.\<close>

theorem fts_response_roundtrip:
  "\<exists>t d c columns result.
     SendFtsResponse r messagetype = [(CHR ''T'', t), (CHR ''D'', d), (CHR ''C'', c)] \<and>
     (\<forall>rest. getRowDescriptions (t @ rest) = Inr (columns, rest)) \<and>
     (\<forall>rest. getAnotherTuple columns (d @ rest) = Inr (result, rest)) \<and>
     tuples_ok (as_PGresult result) \<and> PQnfields (as_PGresult result) = Natts_fts_message_response \<and>
     PQntuples (as_PGresult result) = FTS_MESSAGE_RESPONSE_NTUPLES \<and>
     probeRecordResponse (as_PGresult result) =
       \<lparr>isPrimaryAlive = True, isMirrorAlive = IsMirrorUp r, isInSync = IsInSync r, isSyncRepEnabled = IsSyncRepEnabled r,
        isRoleMirror = IsRoleMirror r, retryRequested = RequestRetry r\<rparr>"
  by (rule response_read)

text \<open>The result libpq makes of the messages of a response.\<close>

definition result_of :: "(char \<times> bytes) list \<Rightarrow> PGresult option" where
  "result_of messages =
     (case messages of
        (tT, t) # (tD, d) # _ \<Rightarrow>
          if tT = CHR ''T'' \<and> tD = CHR ''D''
          then case getRowDescriptions t of
                 Inl _ \<Rightarrow> None
               | Inr (columns, _) \<Rightarrow> (case getAnotherTuple columns d of Inl _ \<Rightarrow> None | Inr (result, _) \<Rightarrow> Some (as_PGresult result))
          else None
      | _ \<Rightarrow> None)"

lemma result_of_response:
  obtains res where "result_of (SendFtsResponse r messagetype) = Some res" "tuples_ok res" "PQnfields res = Natts_fts_message_response"
    "PQntuples res = FTS_MESSAGE_RESPONSE_NTUPLES"
    "probeRecordResponse res = \<lparr>isPrimaryAlive = True, isMirrorAlive = IsMirrorUp r, isInSync = IsInSync r,
       isSyncRepEnabled = IsSyncRepEnabled r, isRoleMirror = IsRoleMirror r, retryRequested = RequestRetry r\<rparr>"
proof -
  from response_read [of r messagetype] obtain t d c columns result where
    m: "SendFtsResponse r messagetype = [(CHR ''T'', t), (CHR ''D'', d), (CHR ''C'', c)]" and
    t: "\<And>rest. getRowDescriptions (t @ rest) = Inr (columns, rest)" and d: "\<And>rest. getAnotherTuple columns (d @ rest) = Inr (result, rest)" and
    res: "tuples_ok (as_PGresult result)" "PQnfields (as_PGresult result) = Natts_fts_message_response"
      "PQntuples (as_PGresult result) = FTS_MESSAGE_RESPONSE_NTUPLES"
      "probeRecordResponse (as_PGresult result) = \<lparr>isPrimaryAlive = True, isMirrorAlive = IsMirrorUp r, isInSync = IsInSync r,
       isSyncRepEnabled = IsSyncRepEnabled r, isRoleMirror = IsRoleMirror r, retryRequested = RequestRetry r\<rparr>"
    by blast
  have "result_of (SendFtsResponse r messagetype) = Some (as_PGresult result)"
    using m t [of "[]"] d [of "[]"] by (simp add: result_of_def)
  then show thesis using that res by blast
qed

end
