(* ===== verification/GpReplication.thy ===== *)
theory GpReplication
  imports FtsWire
begin

text \<open>
  What a primary knows of its mirror: the slots of the processes that send the log, the record of the
  replication in shared memory, and the status a probe reports
  (\<^verbatim>\<open>src/backend/replication/gp_replication.c\<close> and the parts of \<^verbatim>\<open>walsender.c\<close> that call it).
\<close>

section \<open>State\<close>

datatype WalSndState = WALSNDSTATE_STARTUP | WALSNDSTATE_BACKUP | WALSNDSTATE_CATCHUP | WALSNDSTATE_STREAMING | WALSNDSTATE_STOPPING

record WalSnd =
  snd_pid :: nat
  snd_state :: WalSndState
  caughtup_within_range :: bool
  is_for_gp_walreceiver :: bool
  snd_write :: uint64

record FTSReplicationStatus =
  rep_name :: string
  rep_in_use :: bool
  con_attempt_count :: uint32
  replica_disconnected_at :: int

text \<open>The shared memory of a segment these functions use, and the setting \<^verbatim>\<open>synchronous_standby_names\<close>
  as the configuration file has it, with whether a signal to read the file again is pending.\<close>

record fts_primary =
  walsnds :: "WalSnd list"
  replications :: "FTSReplicationStatus list"
  sync_standbys_defined :: bool
  synchronous_standby_names :: string
  reload_pending :: bool

record replication_guc =
  gp_fts_replication_attempt_count :: uint32
  gp_fts_mark_mirror_down_grace_period :: int
  PMAcceptingConnectionsStartTime :: int

definition NAMEDATALEN :: nat where "NAMEDATALEN = 64"
definition GP_WALRECEIVER_APPNAME :: string where "GP_WALRECEIVER_APPNAME = ''gp_walreceiver''"
definition max_replication_status :: nat where "max_replication_status = 1"

definition FTSReplicationStatusShmemInit :: "FTSReplicationStatus list" where
  "FTSReplicationStatusShmemInit =
     replicate max_replication_status \<lparr>rep_name = [], rep_in_use = False, con_attempt_count = 0, replica_disconnected_at = 0\<rparr>"

section \<open>The record of the replication\<close>

text \<open>The name is stored from the variable \<^verbatim>\<open>application_name\<close>, which the caller passes as \<^verbatim>\<open>app_name\<close> too.
  \<^verbatim>\<open>strncmp\<close> and \<^verbatim>\<open>strlcpy\<close> are bounded by \<^verbatim>\<open>NAMEDATALEN\<close>.\<close>

definition FTSReplicationStatusCreateIfNotExist ::
    "string \<Rightarrow> string \<Rightarrow> FTSReplicationStatus list \<Rightarrow> FTSReplicationStatus list result" where
  "FTSReplicationStatusCreateIfNotExist application_name app_name reps =
     (if \<exists>slot \<in> set reps. rep_in_use slot \<and> take NAMEDATALEN app_name = take NAMEDATALEN (rep_name slot) then Inr reps
      else case find (\<lambda>i. \<not> rep_in_use (reps ! i)) [0..<length reps] of
             Some i \<Rightarrow>
               Inr (reps[i := (reps ! i)\<lparr>rep_in_use := True, rep_name := take (NAMEDATALEN - 1) application_name,
                                          con_attempt_count := 0, replica_disconnected_at := 0\<rparr>])
           | None \<Rightarrow> Inl (FATAL ''number of requested standby connections exceeds max_replication_status''))"

definition FTSReplicationStatusDrop :: "string \<Rightarrow> FTSReplicationStatus list \<Rightarrow> FTSReplicationStatus list" where
  "FTSReplicationStatusDrop app_name reps =
     map (\<lambda>slot. if rep_in_use slot \<and> app_name = rep_name slot then slot\<lparr>rep_in_use := False, rep_name := []\<rparr> else slot) reps"

text \<open>A record is named by its index; \<open>None\<close> is the null pointer.\<close>

definition RetrieveFTSReplicationStatus :: "string \<Rightarrow> FTSReplicationStatus list \<Rightarrow> nat option" where
  "RetrieveFTSReplicationStatus app_name reps =
     find (\<lambda>i. rep_in_use (reps ! i) \<and> app_name = rep_name (reps ! i)) [0..<length reps]"

definition rep_adjust ::
    "(FTSReplicationStatus \<Rightarrow> FTSReplicationStatus) \<Rightarrow> nat option \<Rightarrow> FTSReplicationStatus list \<Rightarrow> FTSReplicationStatus list" where
  "rep_adjust f status reps = (case status of None \<Rightarrow> reps | Some i \<Rightarrow> reps[i := f (reps ! i)])"

definition FTSReplicationStatusMarkDisconnect :: "int \<Rightarrow> nat option \<Rightarrow> FTSReplicationStatus list \<Rightarrow> FTSReplicationStatus list" where
  "FTSReplicationStatusMarkDisconnect now =
     rep_adjust (\<lambda>r. r\<lparr>con_attempt_count := con_attempt_count r + 1, replica_disconnected_at := now\<rparr>)"

definition FTSReplicationStatusClearAttempts :: "nat option \<Rightarrow> FTSReplicationStatus list \<Rightarrow> FTSReplicationStatus list" where
  "FTSReplicationStatusClearAttempts = rep_adjust (\<lambda>r. r\<lparr>con_attempt_count := 0\<rparr>)"

definition FTSReplicationStatusClearDisconnectTime :: "nat option \<Rightarrow> FTSReplicationStatus list \<Rightarrow> FTSReplicationStatus list" where
  "FTSReplicationStatusClearDisconnectTime = rep_adjust (\<lambda>r. r\<lparr>replica_disconnected_at := 0\<rparr>)"

definition FTSReplicationStatusRetrieveAttempts :: "nat option \<Rightarrow> FTSReplicationStatus list \<Rightarrow> uint32" where
  "FTSReplicationStatusRetrieveAttempts status reps = (case status of None \<Rightarrow> 0 | Some i \<Rightarrow> con_attempt_count (reps ! i))"

definition FTSReplicationStatusRetrieveDisconnectTime :: "nat option \<Rightarrow> FTSReplicationStatus list \<Rightarrow> int" where
  "FTSReplicationStatusRetrieveDisconnectTime status reps = (case status of None \<Rightarrow> 0 | Some i \<Rightarrow> replica_disconnected_at (reps ! i))"

definition is_mirror_up :: "WalSnd \<Rightarrow> bool" where
  "is_mirror_up walsender \<longleftrightarrow> snd_pid walsender \<noteq> 0 \<and>
     (snd_state walsender = WALSNDSTATE_CATCHUP \<and> snd_write walsender \<noteq> 0 \<or> snd_state walsender = WALSNDSTATE_STREAMING)"

text \<open>Assertions are compiled out: a missing record is passed on as the null pointer.\<close>

definition FTSReplicationStatusUpdateForWalState ::
    "int \<Rightarrow> string \<Rightarrow> WalSndState \<Rightarrow> WalSnd \<Rightarrow> FTSReplicationStatus list \<Rightarrow> FTSReplicationStatus list" where
  "FTSReplicationStatusUpdateForWalState now app_name state MyWalSnd reps =
     (let status = RetrieveFTSReplicationStatus app_name reps
      in if is_mirror_up MyWalSnd
         then let reps = FTSReplicationStatusClearDisconnectTime status reps
              in if state = WALSNDSTATE_STREAMING then FTSReplicationStatusClearAttempts status reps else reps
         else if FTSReplicationStatusRetrieveDisconnectTime status reps = 0 then FTSReplicationStatusMarkDisconnect now status reps
         else reps)"

definition FTSReplicationStatusMarkDisconnectForReplication ::
    "int \<Rightarrow> string \<Rightarrow> FTSReplicationStatus list \<Rightarrow> FTSReplicationStatus list" where
  "FTSReplicationStatusMarkDisconnectForReplication now app_name reps =
     FTSReplicationStatusMarkDisconnect now (RetrieveFTSReplicationStatus app_name reps) reps"

definition FTSGetReplicationDisconnectTime :: "replication_guc \<Rightarrow> string \<Rightarrow> FTSReplicationStatus list \<Rightarrow> int" where
  "FTSGetReplicationDisconnectTime guc app_name reps =
     (case RetrieveFTSReplicationStatus app_name reps of
        None \<Rightarrow> 0
      | Some i \<Rightarrow>
          if FTSReplicationStatusRetrieveAttempts (Some i) reps \<le> gp_fts_replication_attempt_count guc
          then FTSReplicationStatusRetrieveDisconnectTime (Some i) reps else 0)"

section \<open>The status of the mirror\<close>

definition is_probe_retry_needed :: "replication_guc \<Rightarrow> int \<Rightarrow> FTSReplicationStatus list \<Rightarrow> bool" where
  "is_probe_retry_needed guc now reps =
     (let delta = now - max (FTSGetReplicationDisconnectTime guc GP_WALRECEIVER_APPNAME reps) (PMAcceptingConnectionsStartTime guc)
      in delta < gp_fts_mark_mirror_down_grace_period guc \<and> 0 \<le> delta)"

text \<open>The response with its fields set, and whether the primary is ready for synchronous replication.\<close>

definition GetMirrorStatus :: "replication_guc \<Rightarrow> int \<Rightarrow> fts_primary \<Rightarrow> FtsResponse \<Rightarrow> FtsResponse \<times> bool" where
  "GetMirrorStatus guc now p response =
     (let (up, insync, ready) =
            (case find is_for_gp_walreceiver (walsnds p) of
               None \<Rightarrow> (False, False, False)
             | Some walsender \<Rightarrow>
                 let is_up = is_mirror_up walsender; is_streaming = (snd_state walsender = WALSNDSTATE_STREAMING)
                 in (is_up, is_up \<and> is_streaming,
                     is_up \<and> (snd_state walsender = WALSNDSTATE_STREAMING \<or>
                               snd_state walsender = WALSNDSTATE_CATCHUP \<and> caughtup_within_range walsender)))
      in (response\<lparr>IsMirrorUp := up, IsInSync := insync, IsSyncRepEnabled := sync_standbys_defined p,
            RequestRetry := (\<not> up \<and> is_probe_retry_needed guc now (replications p))\<rparr>, ready))"

definition SetSyncStandbysDefined :: "fts_primary \<Rightarrow> fts_primary" where
  "SetSyncStandbysDefined p =
     (if \<not> sync_standbys_defined p then p\<lparr>synchronous_standby_names := ''*'', reload_pending := True\<rparr> else p)"

definition UnsetSyncStandbysDefined :: "fts_primary \<Rightarrow> fts_primary" where
  "UnsetSyncStandbysDefined p =
     (let p = (if sync_standbys_defined p then p\<lparr>synchronous_standby_names := [], reload_pending := True\<rparr> else p)
      in p\<lparr>replications := FTSReplicationStatusDrop GP_WALRECEIVER_APPNAME (replications p)\<rparr>)"

text \<open>The effect of the signal in the checkpointer, which reads the file again; waiting backends are not
  modelled.\<close>

definition SyncRepUpdateSyncStandbysDefined :: "fts_primary \<Rightarrow> fts_primary" where
  "SyncRepUpdateSyncStandbysDefined p =
     p\<lparr>sync_standbys_defined := (synchronous_standby_names p \<noteq> []), reload_pending := False\<rparr>"

section \<open>The processes that send the log\<close>

text \<open>A process with number \<open>MyProcPid\<close> takes the first free slot; its index is returned.\<close>

definition InitWalSenderSlot :: "nat \<Rightarrow> string \<Rightarrow> fts_primary \<Rightarrow> (nat \<times> fts_primary) option" where
  "InitWalSenderSlot MyProcPid application_name p =
     (case find (\<lambda>i. snd_pid (walsnds p ! i) = 0) [0..<length (walsnds p)] of
        None \<Rightarrow> None
      | Some i \<Rightarrow>
          Some (i, p\<lparr>walsnds := (walsnds p)[i := \<lparr>snd_pid = MyProcPid, snd_state = WALSNDSTATE_STARTUP,
            caughtup_within_range = False, is_for_gp_walreceiver = (application_name = GP_WALRECEIVER_APPNAME), snd_write = 0\<rparr>]\<rparr>))"

text \<open>The call of \<^verbatim>\<open>StartReplication\<close> that concerns the record.\<close>

definition StartReplication_status :: "string \<Rightarrow> nat \<Rightarrow> fts_primary \<Rightarrow> fts_primary result" where
  "StartReplication_status application_name my p =
     (if is_for_gp_walreceiver (walsnds p ! my)
      then map_sum id (\<lambda>reps. p\<lparr>replications := reps\<rparr>)
             (FTSReplicationStatusCreateIfNotExist application_name application_name (replications p))
      else Inr p)"

definition WalSndSetState :: "int \<Rightarrow> string \<Rightarrow> nat \<Rightarrow> WalSndState \<Rightarrow> fts_primary \<Rightarrow> fts_primary" where
  "WalSndSetState now application_name my state p =
     (if snd_state (walsnds p ! my) = state then p
      else let p = p\<lparr>walsnds := (walsnds p)[my := (walsnds p ! my)\<lparr>snd_state := state\<rparr>]\<rparr>
           in if \<not> is_for_gp_walreceiver (walsnds p ! my) then p
              else p\<lparr>replications := FTSReplicationStatusUpdateForWalState now application_name state (walsnds p ! my) (replications p)\<rparr>)"

text \<open>On a segment; a coordinator wakes the waiting backends too.\<close>

definition WalSndKill :: "int \<Rightarrow> string \<Rightarrow> nat \<Rightarrow> fts_primary \<Rightarrow> fts_primary" where
  "WalSndKill now application_name my p =
     (let p = (if is_for_gp_walreceiver (walsnds p ! my)
               then p\<lparr>replications := FTSReplicationStatusMarkDisconnectForReplication now application_name (replications p)\<rparr> else p)
      in p\<lparr>walsnds := (walsnds p)[my := (walsnds p ! my)\<lparr>snd_pid := 0\<rparr>]\<rparr>)"

end
