(* ===== verification/FtsMessageHandler.thy ===== *)
theory FtsMessageHandler
  imports GpReplication
begin

text \<open>
  The handlers of the messages of the prober on a segment
  (\<^verbatim>\<open>src/backend/fts/ftsmessagehandler.c\<close>), in the default configuration with the prober inside
  the server.
\<close>

section \<open>Reading a message\<close>

text \<open>The conversions of \<^verbatim>\<open>sscanf\<close> in \<^verbatim>\<open>FTS_MSG_FORMAT\<close>: \<^verbatim>\<open>%s\<close>, a literal and \<^verbatim>\<open>%d\<close>, which stores the value of
  \<^verbatim>\<open>strtol\<close> as an \<^verbatim>\<open>int\<close>. A blank in the format skips blanks.\<close>

definition scan_word :: "string \<Rightarrow> (string \<times> string) option" where
  "scan_word s =
     (let s = dropWhile is_blank s; w = takeWhile (\<lambda>c. \<not> is_blank c) s
      in if w = [] then None else Some (w, dropWhile (\<lambda>c. \<not> is_blank c) s))"

definition scan_literal :: "string \<Rightarrow> string \<Rightarrow> string option" where
  "scan_literal t s = (if prefix t s then Some (drop (length t) s) else None)"

definition dec_digit :: "char \<Rightarrow> nat option" where
  "dec_digit c = (let n = of_char c :: nat in if 48 \<le> n \<and> n \<le> 57 then Some (n - 48) else None)"

fun scan_digits :: "nat \<Rightarrow> string \<Rightarrow> nat \<times> string" where
  "scan_digits v [] = (v, [])"
| "scan_digits v (c # s) = (case dec_digit c of Some d \<Rightarrow> scan_digits (10 * v + d) s | None \<Rightarrow> (v, c # s))"

definition strtol_value :: "bool \<Rightarrow> nat \<Rightarrow> int" where
  "strtol_value neg v = (if neg then max (- (2 ^ 63)) (- int v) else min (2 ^ 63 - 1) (int v))"

definition scan_int :: "string \<Rightarrow> (int \<times> string) option" where
  "scan_int s =
     (let s = dropWhile is_blank s;
          neg = (s \<noteq> [] \<and> hd s = CHR ''-'');
          s = (if s \<noteq> [] \<and> (hd s = CHR ''-'' \<or> hd s = CHR ''+'') then tl s else s)
      in if s = [] \<or> dec_digit (hd s) = None then None
         else case scan_digits 0 s of (v, rest) \<Rightarrow> Some (to_int32 (strtol_value neg v), rest))"

definition scan_message :: "string \<Rightarrow> (string \<times> int \<times> int) option" where
  "scan_message s =
     do {
       (word, s) \<leftarrow> scan_word s;
       s \<leftarrow> scan_literal ''dbid='' (dropWhile is_blank s);
       (dbid, s) \<leftarrow> scan_int s;
       s \<leftarrow> scan_literal ''contid='' (dropWhile is_blank s);
       (contid, s) \<leftarrow> scan_int s;
       Some (word, dbid, contid)
     }"

section \<open>The check of the disk\<close>

text \<open>The outcomes of the system calls: opening the file, creating it, and the lengths and contents read
  and written.\<close>

datatype open_outcome = OPEN_OK | OPEN_ENOENT | OPEN_EINVAL | OPEN_FAILED

record io_env =
  BLCKSZ :: nat
  open_outcome :: open_outcome
  create_ok :: bool
  read_length :: int
  read_data :: bytes
  seek_ok :: bool
  write_length :: int

definition FTS_PROBE_MAGIC_STRING :: string where
  "FTS_PROBE_MAGIC_STRING = ''FtS PrObEr MaGiC StRiNg, pRoBiNg cHeCk.......''"

definition io_failure :: "io_env \<Rightarrow> bool" where
  "io_failure io =
     (let magic = map char_byte FTS_PROBE_MAGIC_STRING @ [0]
      in case open_outcome io of
           OPEN_ENOENT \<Rightarrow> \<not> create_ok io \<or> write_length io \<noteq> int (BLCKSZ io)
         | OPEN_EINVAL \<Rightarrow> False
         | OPEN_FAILED \<Rightarrow> True
         | OPEN_OK \<Rightarrow>
             read_length io \<noteq> int (BLCKSZ io) \<or> take (length magic) (read_data io) \<noteq> magic \<or> \<not> seek_ok io \<or>
             write_length io \<noteq> int (BLCKSZ io))"

text \<open>Whether the file was removed, and the result.\<close>

definition checkIODataDirectory :: "io_env \<Rightarrow> bool \<times> bool result" where
  "checkIODataDirectory io =
     (let failure = io_failure io; fd_open = (open_outcome io = OPEN_OK \<or> open_outcome io = OPEN_ENOENT \<and> create_ok io)
      in (fd_open \<and> failure, if failure then Inl (ERROR ''disk IO check during FTS probe failed'') else Inr failure))"

section \<open>Replication slots\<close>

record ReplicationSlot =
  slot_in_use :: bool
  slot_name :: string
  restart_lsn :: uint64
  active_pid :: nat

definition INTERNAL_WAL_REPLICATION_SLOT_NAME :: string where
  "INTERNAL_WAL_REPLICATION_SLOT_NAME = ''internal_wal_replication_slot''"

text \<open>The index of the new slot, and the slots. Writing the slot to disk succeeds.\<close>

definition ReplicationSlotCreate :: "nat \<Rightarrow> string \<Rightarrow> ReplicationSlot list \<Rightarrow> (nat \<times> ReplicationSlot list) result" where
  "ReplicationSlotCreate MyProcPid name slots =
     (if \<exists>s \<in> set slots. slot_in_use s \<and> name = slot_name s then Inl (ERROR ''replication slot already exists'')
      else case find (\<lambda>i. \<not> slot_in_use (slots ! i)) [0..<length slots] of
             None \<Rightarrow> Inl (ERROR ''all replication slots are in use'')
           | Some i \<Rightarrow>
               Inr (i, slots[i := \<lparr>slot_in_use = True, slot_name = take (NAMEDATALEN - 1) name, restart_lsn = 0, active_pid = MyProcPid\<rparr>]))"

text \<open>The required log is there at the first attempt, from the last redo point on.\<close>

definition ReplicationSlotReserveWal :: "uint64 \<Rightarrow> ReplicationSlot \<Rightarrow> ReplicationSlot" where
  "ReplicationSlotReserveWal redo slot = slot\<lparr>restart_lsn := redo\<rparr>"

definition ReplicationSlotRelease :: "ReplicationSlot \<Rightarrow> ReplicationSlot" where
  "ReplicationSlotRelease slot = slot\<lparr>active_pid := 0\<rparr>"

definition CreateReplicationSlotOnPromote :: "nat \<Rightarrow> uint64 \<Rightarrow> string \<Rightarrow> ReplicationSlot list \<Rightarrow> ReplicationSlot list result" where
  "CreateReplicationSlotOnPromote MyProcPid redo name slots =
     (case (case find (\<lambda>i. slot_in_use (slots ! i) \<and> name = slot_name (slots ! i)) (rev [0..<length slots]) of
              Some i \<Rightarrow> Inr (i, slots)
            | None \<Rightarrow> ReplicationSlotCreate MyProcPid name slots) of
        Inl e \<Rightarrow> Inl e
      | Inr (i, slots) \<Rightarrow>
          Inr (if restart_lsn (slots ! i) = 0
               then let slot = ReplicationSlotReserveWal redo (slots ! i)
                    in slots[i := if active_pid slot \<noteq> 0 then ReplicationSlotRelease slot else slot]
               else slots))"

section \<open>The handlers\<close>

datatype DBState = DB_STARTUP | DB_SHUTDOWNED | DB_SHUTDOWNED_IN_RECOVERY | DB_SHUTDOWNING | DB_IN_CRASH_RECOVERY | DB_IN_ARCHIVE_RECOVERY | DB_IN_PRODUCTION

record fts_segment =
  primary_state :: fts_primary
  am_mirror :: bool
  GpIdentity_dbid :: int
  GpIdentity_segindex :: int
  replication_slots :: "ReplicationSlot list"
  db_state :: DBState
  RedoRecPtr :: uint64
  promote_signal :: bool

definition no_response :: FtsResponse where
  "no_response = \<lparr>IsMirrorUp = False, IsInSync = False, IsSyncRepEnabled = False, IsRoleMirror = False, RequestRetry = False\<rparr>"

definition HandleFtsWalRepProbe ::
    "replication_guc \<Rightarrow> int \<Rightarrow> io_env \<Rightarrow> fts_segment \<Rightarrow> fts_segment \<times> (char \<times> bytes) list result" where
  "HandleFtsWalRepProbe guc now io seg =
     (let (response, seg) =
            (if am_mirror seg then (no_response\<lparr>IsRoleMirror := True\<rparr>, seg)
             else let (response, ready_for_syncrep) = GetMirrorStatus guc now (primary_state seg) no_response
                  in if \<not> IsSyncRepEnabled response \<and> ready_for_syncrep
                     then (response\<lparr>IsSyncRepEnabled := True\<rparr>, seg\<lparr>primary_state := SetSyncStandbysDefined (primary_state seg)\<rparr>)
                     else (response, seg))
      in case snd (checkIODataDirectory io) of
           Inl e \<Rightarrow> (seg, Inl e)
         | Inr _ \<Rightarrow> (seg, Inr (SendFtsResponse response FTS_MSG_PROBE)))"

definition HandleFtsWalRepSyncRepOff :: "replication_guc \<Rightarrow> int \<Rightarrow> fts_segment \<Rightarrow> fts_segment \<times> (char \<times> bytes) list result" where
  "HandleFtsWalRepSyncRepOff guc now seg =
     (let seg = seg\<lparr>primary_state := UnsetSyncStandbysDefined (primary_state seg)\<rparr>;
          (response, _) = GetMirrorStatus guc now (primary_state seg) no_response
      in (seg, Inr (SendFtsResponse response FTS_MSG_SYNCREP_OFF)))"

definition HandleFtsWalRepPromote :: "nat \<Rightarrow> fts_segment \<Rightarrow> fts_segment \<times> (char \<times> bytes) list result" where
  "HandleFtsWalRepPromote MyProcPid seg =
     (let response = no_response\<lparr>IsRoleMirror := am_mirror seg\<rparr>;
          sent = Inr (SendFtsResponse response FTS_MSG_PROMOTE)
      in if db_state seg = DB_IN_ARCHIVE_RECOVERY \<and> RedoRecPtr seg \<noteq> 0
         then let seg = seg\<lparr>primary_state := UnsetSyncStandbysDefined (primary_state seg)\<rparr>
              in case CreateReplicationSlotOnPromote MyProcPid (RedoRecPtr seg) INTERNAL_WAL_REPLICATION_SLOT_NAME (replication_slots seg) of
                   Inl e \<Rightarrow> (seg, Inl e)
                 | Inr slots \<Rightarrow> (seg\<lparr>replication_slots := slots, promote_signal := True\<rparr>, sent)
         else (seg, sent))"

text \<open>A message for another segment is only warned about. The first word of the message is copied to a
  buffer of \<^verbatim>\<open>FTS_MSG_MAX_LEN\<close> bytes without a limit; a longer word overwrites the stack.\<close>

definition HandleFtsMessage ::
    "replication_guc \<Rightarrow> int \<Rightarrow> io_env \<Rightarrow> nat \<Rightarrow> string \<Rightarrow> fts_segment \<Rightarrow> fts_segment \<times> (char \<times> bytes) list result" where
  "HandleFtsMessage guc now io MyProcPid query_string seg =
     (if (case scan_word query_string of Some (word, _) \<Rightarrow> FTS_MSG_MAX_LEN \<le> length word | None \<Rightarrow> False)
      then (seg, Inl (PANIC ''write past message_type''))
      else case scan_message query_string of
             None \<Rightarrow> (seg, Inl (ERROR ''received invalid FTS query''))
           | Some _ \<Rightarrow>
               if prefix FTS_MSG_PROBE query_string then HandleFtsWalRepProbe guc now io seg
               else if prefix FTS_MSG_SYNCREP_OFF query_string then HandleFtsWalRepSyncRepOff guc now seg
               else if prefix FTS_MSG_PROMOTE query_string then HandleFtsWalRepPromote MyProcPid seg
               else (seg, Inl (ERROR ''received unknown FTS query'')))"

end
