(* ===== verification/FtsHandlerProps.thy ===== *)
theory FtsHandlerProps
  imports FtsMessageHandler FtsFailover
begin

text \<open>
  The two sides of the fault tolerance service: the messages of the prober reach the handlers they are
  for, and the responses satisfy what the prober relies on.
\<close>

section \<open>Messages\<close>

lemma dec_digit_char: "d < 10 \<Longrightarrow> dec_digit (digit_char d) = Some d"
  by (simp add: dec_digit_def digit_char_def)

lemma show_nat_digits: "\<forall>c \<in> set (show_nat n). \<exists>d < 10. c = digit_char d"
proof (induction n rule: show_nat.induct)
  case (1 n)
  show ?case
  proof (cases "n < 10")
    case True
    then show ?thesis by (subst show_nat.simps) auto
  next
    case False
    then have "show_nat n = show_nat (n div 10) @ [digit_char (n mod 10)]" by (subst show_nat.simps) simp
    moreover have "\<exists>d < 10. digit_char (n mod 10) = digit_char d" by (rule exI [of _ "n mod 10"]) simp
    ultimately show ?thesis using 1 False by auto
  qed
qed

lemma show_nat_value: "foldl (\<lambda>v c. 10 * v + the (dec_digit c)) 0 (show_nat n) = n"
proof (induction n rule: show_nat.induct)
  case (1 n)
  show ?case
  proof (cases "n < 10")
    case True
    then show ?thesis by (subst show_nat.simps) (simp add: dec_digit_char)
  next
    case False
    then have "show_nat n = show_nat (n div 10) @ [digit_char (n mod 10)]" by (subst show_nat.simps) simp
    then show ?thesis using 1 False by (simp add: dec_digit_char)
  qed
qed

lemma scan_digits_append:
  assumes "\<forall>c \<in> set ds. \<exists>d < 10. c = digit_char d"
  shows "scan_digits v (ds @ rest) = scan_digits (foldl (\<lambda>v c. 10 * v + the (dec_digit c)) v ds) rest"
  using assms by (induction ds arbitrary: v) (auto simp: dec_digit_char)

lemma show_nat_nonempty: "show_nat n \<noteq> []"
  by (subst show_nat.simps) simp

lemma scan_show_nat:
  assumes "rest = [] \<or> dec_digit (hd rest) = None"
  shows "scan_digits 0 (show_nat n @ rest) = (n, rest)"
proof -
  have "scan_digits v rest = (v, rest)" for v using assms by (cases rest) auto
  then show ?thesis using scan_digits_append [OF show_nat_digits, of 0 n rest] show_nat_value by simp
qed

lemma digit_char_class:
  assumes "d < 10"
  shows "\<not> is_blank (digit_char d)" "digit_char d \<noteq> CHR ''-''" "digit_char d \<noteq> CHR ''+''"
proof -
  have n: "(of_char (digit_char d) :: nat) = 48 + d" using assms by (simp add: digit_char_def)
  then show "\<not> is_blank (digit_char d)" by (simp add: is_blank_def)
  show "digit_char d \<noteq> CHR ''-''"
  proof
    assume "digit_char d = CHR ''-''"
    then show False using n by simp
  qed
  show "digit_char d \<noteq> CHR ''+''"
  proof
    assume "digit_char d = CHR ''+''"
    then show False using n by simp
  qed
qed

lemma scan_show_int:
  assumes "- (2 ^ 31) \<le> i" "i < 2 ^ 31" "rest = [] \<or> dec_digit (hd rest) = None"
  shows "scan_int (show_int i @ rest) = Some (i, rest)"
proof -
  have hd: "\<exists>d < 10. hd (show_nat n) = digit_char d" for n using show_nat_digits [of n] show_nat_nonempty [of n] by auto
  have small: "to_int32 i = i" unfolding to_int32_def by (rule signed_take_bit_int_eq_self) (use assms(1,2) in simp_all)
  note val = scan_show_nat [OF assms(3)]
  show ?thesis
  proof (cases "i < 0")
    case True
    let ?n = "nat (- i)"
    obtain d where d: "d < 10" "hd (show_nat ?n) = digit_char d" using hd by blast
    have "dropWhile is_blank (show_int i @ rest) = CHR ''-'' # show_nat ?n @ rest" using True by (simp add: show_int_def is_blank_def)
    moreover have "hd (show_nat ?n @ rest) = digit_char d" using d show_nat_nonempty by simp
    moreover have "strtol_value True ?n = i" using True assms(1) by (simp add: strtol_value_def)
    ultimately show ?thesis
      using d val [of ?n] small show_nat_nonempty [of ?n] by (simp add: scan_int_def Let_def dec_digit_char)
  next
    case False
    let ?n = "nat i"
    obtain d where d: "d < 10" "hd (show_nat ?n) = digit_char d" using hd by blast
    have h: "hd (show_nat ?n @ rest) = digit_char d" "show_nat ?n @ rest \<noteq> []" using d show_nat_nonempty by simp_all
    then have "dropWhile is_blank (show_int i @ rest) = show_nat ?n @ rest"
      using False digit_char_class(1) [OF d(1)] by (cases "show_nat ?n @ rest") (auto simp: show_int_def)
    moreover have "strtol_value False ?n = i" using False assms(2) by (simp add: strtol_value_def)
    ultimately show ?thesis
      using d h val [of ?n] small digit_char_class [OF d(1)] show_nat_nonempty [of ?n]
      by (simp add: scan_int_def Let_def dec_digit_char)
  qed
qed

lemma length_show_nat: "n < 10 ^ k \<Longrightarrow> 0 < k \<Longrightarrow> length (show_nat n) \<le> k"
proof (induction n arbitrary: k rule: show_nat.induct)
  case (1 n)
  show ?case
  proof (cases "n < 10")
    case True
    then show ?thesis using 1(3) by (subst show_nat.simps) simp
  next
    case False
    then obtain j where k: "k = Suc j" "0 < j" using 1(2) by (cases k; cases "k - 1") auto
    have "n div 10 < 10 ^ j" using 1(2) k(1) by (simp add: less_mult_imp_div_less mult.commute)
    moreover have "show_nat n = show_nat (n div 10) @ [digit_char (n mod 10)]" using False by (subst show_nat.simps) simp
    ultimately show ?thesis using 1(1) [OF False _ k(2)] k(1) by simp
  qed
qed

lemma length_show_int:
  assumes "- (2 ^ 31) \<le> i" "i < 2 ^ 31"
  shows "length (show_int i) \<le> 11"
proof -
  have "nat i < 10 ^ 10" "nat (- i) < 10 ^ 10" using assms by simp_all
  then show ?thesis using length_show_nat [of "nat i" 10] length_show_nat [of "nat (- i)" 10] by (auto simp: show_int_def)
qed

lemma message_whole:
  assumes "- (2 ^ 31) \<le> dbid" "dbid < 2 ^ 31" "- (2 ^ 31) \<le> contid" "contid < 2 ^ 31"
  shows "fts_message (message_type s) dbid contid = message_type s @ '' dbid='' @ show_int dbid @ '' contid='' @ show_int contid"
proof -
  have "length (message_type s) \<le> 11"
    by (simp add: message_type_def FTS_MSG_PROBE_def FTS_MSG_SYNCREP_OFF_def FTS_MSG_PROMOTE_def)
  then show ?thesis
    using length_show_int [OF assms(1,2)] length_show_int [OF assms(3,4)] by (simp add: fts_message_def FTS_MSG_MAX_LEN_def)
qed

lemma scan_typed_word:
  "scan_word (message_type s @ CHR '' '' # rest) = Some (message_type s, CHR '' '' # rest)"
  by (simp add: scan_word_def Let_def message_type_def FTS_MSG_PROBE_def FTS_MSG_SYNCREP_OFF_def FTS_MSG_PROMOTE_def is_blank_def)

lemma scan_sent_message:
  assumes "- (2 ^ 31) \<le> dbid" "dbid < 2 ^ 31" "- (2 ^ 31) \<le> contid" "contid < 2 ^ 31"
  shows "scan_message (fts_message (message_type s) dbid contid) = Some (message_type s, dbid, contid)"
proof -
  have d: "scan_int (show_int dbid @ '' contid='' @ show_int contid) = Some (dbid, '' contid='' @ show_int contid)"
    by (rule scan_show_int [OF assms(1,2)]) (simp add: dec_digit_def)
  have c: "scan_int (show_int contid) = Some (contid, [])" using scan_show_int [OF assms(3,4), of "[]"] by simp
  have "dropWhile is_blank ('' dbid='' @ t) = ''dbid='' @ t" "dropWhile is_blank ('' contid='' @ t) = ''contid='' @ t" for t
    by (simp_all add: is_blank_def)
  then show ?thesis
    using scan_typed_word [of s "''dbid='' @ show_int dbid @ '' contid='' @ show_int contid"] d c
    unfolding message_whole [OF assms] scan_message_def by (simp add: scan_literal_def)
qed

text \<open>C8: A message of the prober reaches the handler it is for: the handler reads back the type, the number and the content
  of the segment from the text of the message, the text is never cut off, and the first word is what is sent
  in that state, so a probe is not taken for a promotion.\<close>

theorem fts_message_reaches_handler:
  assumes "messaging s" "- (2 ^ 31) \<le> dbid" "dbid < 2 ^ 31" "- (2 ^ 31) \<le> contid" "contid < 2 ^ 31"
  shows "scan_message (fts_message (message_type s) dbid contid) = Some (message_type s, dbid, contid) \<and>
    HandleFtsMessage guc now io MyProcPid (fts_message (message_type s) dbid contid) seg =
      (if s = FTS_PROBE_SEGMENT then HandleFtsWalRepProbe guc now io seg
       else if s = FTS_SYNCREP_OFF_SEGMENT then HandleFtsWalRepSyncRepOff guc now seg
       else HandleFtsWalRepPromote MyProcPid seg)"
proof -
  note m = message_whole [OF assms(2-5), of s]
  have "scan_word (fts_message (message_type s) dbid contid) = Some (message_type s, '' dbid='' @ show_int dbid @ '' contid='' @ show_int contid)"
    unfolding m using scan_typed_word [of s] by simp
  moreover have "length (message_type s) < FTS_MSG_MAX_LEN"
    by (simp add: message_type_def FTS_MSG_PROBE_def FTS_MSG_SYNCREP_OFF_def FTS_MSG_PROMOTE_def FTS_MSG_MAX_LEN_def)
  moreover have "prefix FTS_MSG_PROBE (fts_message (message_type s) dbid contid) = (s = FTS_PROBE_SEGMENT)"
      "prefix FTS_MSG_SYNCREP_OFF (fts_message (message_type s) dbid contid) = (s = FTS_SYNCREP_OFF_SEGMENT)"
      "prefix FTS_MSG_PROMOTE (fts_message (message_type s) dbid contid) = (s = FTS_PROMOTE_SEGMENT)"
    using assms(1) unfolding m
    by (auto simp: message_type_def FTS_MSG_PROBE_def FTS_MSG_SYNCREP_OFF_def FTS_MSG_PROMOTE_def messaging_def)
  ultimately show ?thesis
    using scan_sent_message [OF assms(2-5), of s] assms(1) by (auto simp: HandleFtsMessage_def messaging_def)
qed

text \<open>The buffer of the handler has no room for a first word of its size.\<close>

lemma fts_message_word_overflow:
  assumes "FTS_MSG_MAX_LEN \<le> length w" "\<forall>c \<in> set w. \<not> is_blank c" "rest = [] \<or> is_blank (hd rest)"
  shows "HandleFtsMessage guc now io MyProcPid (w @ rest) seg = (seg, Inl (PANIC ''write past message_type''))"
proof -
  have "w \<noteq> []" using assms(1) by (auto simp: FTS_MSG_MAX_LEN_def)
  then have d: "dropWhile is_blank (w @ rest) = w @ rest" using assms(2) by (cases w) auto
  have t: "takeWhile (\<lambda>c. \<not> is_blank c) (w @ rest) = w" using assms(2,3) by (cases rest) (simp_all add: takeWhile_append)
  then have "scan_word (w @ rest) = Some (w, dropWhile (\<lambda>c. \<not> is_blank c) (w @ rest))"
    using d \<open>w \<noteq> []\<close> by (simp add: scan_word_def Let_def)
  then show ?thesis using assms(1) by (simp add: HandleFtsMessage_def)
qed

section \<open>Responses\<close>

text \<open>What every response of a segment satisfies.\<close>

definition response_ok :: "FtsResponse \<Rightarrow> bool" where
  "response_ok r \<longleftrightarrow> (IsInSync r \<longrightarrow> IsMirrorUp r) \<and> (RequestRetry r \<longrightarrow> \<not> IsMirrorUp r) \<and>
     (IsRoleMirror r \<longrightarrow> \<not> IsMirrorUp r \<and> \<not> IsSyncRepEnabled r \<and> \<not> RequestRetry r)"

lemma status_response_ok:
  assumes "GetMirrorStatus guc now p no_response = (r, ready)"
  shows "response_ok r" "\<not> IsRoleMirror r"
  using assms by (auto simp: GetMirrorStatus_def no_response_def response_ok_def Let_def split: option.splits)

lemma handler_response_ok:
  assumes "HandleFtsMessage guc now io MyProcPid query seg = (seg', Inr messages)"
  shows "\<exists>r messagetype. response_ok r \<and> messages = SendFtsResponse r messagetype"
proof -
  have probe: "\<exists>r t. response_ok r \<and> ms = SendFtsResponse r t" if p: "HandleFtsWalRepProbe guc now io seg = (s', Inr ms)" for s' ms
  proof (cases "am_mirror seg")
    case True
    then show ?thesis using p by (auto simp: HandleFtsWalRepProbe_def response_ok_def no_response_def split: sum.splits intro!: exI)
  next
    case False
    obtain r ready where g: "GetMirrorStatus guc now (primary_state seg) no_response = (r, ready)" by (metis surj_pair)
    have "response_ok (r\<lparr>IsSyncRepEnabled := True\<rparr>)" using status_response_ok [OF g] by (simp add: response_ok_def)
    then show ?thesis using False p g status_response_ok(1) [OF g]
      by (auto simp: HandleFtsWalRepProbe_def Let_def split: sum.splits if_splits)
  qed
  have off: "\<exists>r t. response_ok r \<and> ms = SendFtsResponse r t" if p: "HandleFtsWalRepSyncRepOff guc now seg = (s', Inr ms)" for s' ms
  proof -
    obtain r ready where g: "GetMirrorStatus guc now (UnsetSyncStandbysDefined (primary_state seg)) no_response = (r, ready)"
      by (metis surj_pair)
    then show ?thesis using p status_response_ok(1) [OF g] by (auto simp: HandleFtsWalRepSyncRepOff_def Let_def)
  qed
  have promote: "\<exists>r t. response_ok r \<and> ms = SendFtsResponse r t" if p: "HandleFtsWalRepPromote MyProcPid seg = (s', Inr ms)" for s' ms
  proof -
    have "response_ok (no_response\<lparr>IsRoleMirror := am_mirror seg\<rparr>)" by (simp add: response_ok_def no_response_def)
    then show ?thesis using p by (auto simp: HandleFtsWalRepPromote_def Let_def split: if_splits sum.splits)
  qed
  show ?thesis
    using assms probe off promote by (auto simp: HandleFtsMessage_def split: if_splits option.splits)
qed

text \<open>The prober's libpq returns errors, which have no values, and responses of segments in any state.\<close>

definition answers_from_segments :: "'c fts_env \<Rightarrow> bool" where
  "answers_from_segments env \<longleftrightarrow>
     (\<forall>c res c'. PQgetResult env c = (Some res, c') \<longrightarrow> (\<forall>i. PQgetvalue res i = 0) \<or>
        (\<exists>guc now io MyProcPid query seg seg' messages.
           HandleFtsMessage guc now io MyProcPid query seg = (seg', Inr messages) \<and> result_of messages = Some res))"

text \<open>C7: Whatever state the segments are in, the results the prober reads are well formed: a mirror reported in sync is reported up, a
  retry is requested only for a mirror that is not, and a segment that is a mirror itself reports nothing else.
  This is what the lemmas on the probe cycle assume of the answers.\<close>

theorem fts_answers_well_formed:
  assumes "answers_from_segments env"
  shows "answers_consistent env \<and>
    (\<forall>c res c'. PQgetResult env c = (Some res, c') \<longrightarrow>
       (retryRequested (probeRecordResponse res) \<longrightarrow> \<not> isMirrorAlive (probeRecordResponse res)) \<and>
       (isRoleMirror (probeRecordResponse res) \<longrightarrow> \<not> isMirrorAlive (probeRecordResponse res) \<and>
          \<not> isSyncRepEnabled (probeRecordResponse res) \<and> \<not> retryRequested (probeRecordResponse res)))"
proof -
  have "(isInSync (probeRecordResponse res) \<longrightarrow> isMirrorAlive (probeRecordResponse res)) \<and>
      (retryRequested (probeRecordResponse res) \<longrightarrow> \<not> isMirrorAlive (probeRecordResponse res)) \<and>
      (isRoleMirror (probeRecordResponse res) \<longrightarrow> \<not> isMirrorAlive (probeRecordResponse res) \<and>
          \<not> isSyncRepEnabled (probeRecordResponse res) \<and> \<not> retryRequested (probeRecordResponse res))"
    if "PQgetResult env c = (Some res, c')" for c res c'
  proof (cases "\<forall>i. PQgetvalue res i = 0")
    case True
    then show ?thesis by (simp add: probeRecordResponse_def)
  next
    case False
    then obtain guc now io MyProcPid query seg seg' messages where
      m: "HandleFtsMessage guc now io MyProcPid query seg = (seg', Inr messages)" "result_of messages = Some res"
      using assms \<open>PQgetResult env c = (Some res, c')\<close> unfolding answers_from_segments_def by blast
    obtain r t where r: "response_ok r" "messages = SendFtsResponse r t" using handler_response_ok [OF m(1)] by blast
    obtain res' where "result_of (SendFtsResponse r t) = Some res'"
      "probeRecordResponse res' = \<lparr>isPrimaryAlive = True, isMirrorAlive = IsMirrorUp r, isInSync = IsInSync r,
         isSyncRepEnabled = IsSyncRepEnabled r, isRoleMirror = IsRoleMirror r, retryRequested = RequestRetry r\<rparr>"
      by (rule result_of_response)
    then show ?thesis using r m(2) by (simp add: response_ok_def)
  qed
  then show ?thesis unfolding answers_consistent_def by blast
qed

definition sample_segment :: fts_segment where
  "sample_segment =
     \<lparr>primary_state = \<lparr>walsnds = [], replications = FTSReplicationStatusShmemInit, sync_standbys_defined = False,
        synchronous_standby_names = [], reload_pending = False\<rparr>,
      am_mirror = True, GpIdentity_dbid = 3, GpIdentity_segindex = 0,
      replication_slots = [\<lparr>slot_in_use = False, slot_name = [], restart_lsn = 0, active_pid = 0\<rparr>],
      db_state = DB_IN_ARCHIVE_RECOVERY, RedoRecPtr = 1000, promote_signal = False\<rparr>"

definition answering :: "unit fts_env" where
  "answering = refusing\<lparr>PQgetResult := (\<lambda>_. (result_of (SendFtsResponse (no_response\<lparr>IsRoleMirror := True\<rparr>) FTS_MSG_PROMOTE), ()))\<rparr>"

lemma sample_promotes:
  "HandleFtsWalRepPromote 7 sample_segment =
     (sample_segment\<lparr>replication_slots := [\<lparr>slot_in_use = True, slot_name = INTERNAL_WAL_REPLICATION_SLOT_NAME, restart_lsn = 1000, active_pid = 0\<rparr>],
        promote_signal := True\<rparr>, Inr (SendFtsResponse (no_response\<lparr>IsRoleMirror := True\<rparr>) FTS_MSG_PROMOTE))"
  by (simp add: HandleFtsWalRepPromote_def sample_segment_def UnsetSyncStandbysDefined_def FTSReplicationStatusDrop_def
    FTSReplicationStatusShmemInit_def max_replication_status_def CreateReplicationSlotOnPromote_def ReplicationSlotCreate_def
    ReplicationSlotReserveWal_def ReplicationSlotRelease_def INTERNAL_WAL_REPLICATION_SLOT_NAME_def NAMEDATALEN_def Let_def)

lemma sample_handles:
  "HandleFtsMessage guc now io 7 ''PROMOTE dbid=3 contid=0'' sample_segment = HandleFtsWalRepPromote 7 sample_segment"
  by (simp add: HandleFtsMessage_def scan_message_def scan_word_def scan_literal_def scan_int_def dec_digit_def is_blank_def Let_def
    FTS_MSG_MAX_LEN_def FTS_MSG_PROBE_def FTS_MSG_SYNCREP_OFF_def FTS_MSG_PROMOTE_def)

theorem fts_message_reaches_handler_witness:
  "\<forall>guc now io. HandleFtsMessage guc now io 7 (fts_message (message_type FTS_PROMOTE_SEGMENT) 3 0) sample_segment =
     (sample_segment\<lparr>replication_slots := [\<lparr>slot_in_use = True, slot_name = INTERNAL_WAL_REPLICATION_SLOT_NAME, restart_lsn = 1000, active_pid = 0\<rparr>],
        promote_signal := True\<rparr>, Inr (SendFtsResponse (no_response\<lparr>IsRoleMirror := True\<rparr>) FTS_MSG_PROMOTE))"
proof (intro allI)
  fix guc now io
  show "HandleFtsMessage guc now io 7 (fts_message (message_type FTS_PROMOTE_SEGMENT) 3 0) sample_segment =
     (sample_segment\<lparr>replication_slots := [\<lparr>slot_in_use = True, slot_name = INTERNAL_WAL_REPLICATION_SLOT_NAME, restart_lsn = 1000, active_pid = 0\<rparr>],
        promote_signal := True\<rparr>, Inr (SendFtsResponse (no_response\<lparr>IsRoleMirror := True\<rparr>) FTS_MSG_PROMOTE))"
    using fts_message_reaches_handler [of FTS_PROMOTE_SEGMENT 3 0 guc now io 7 sample_segment] sample_promotes by (simp add: messaging_def)
qed

theorem fts_answers_well_formed_witness: "answers_consistent answering"
proof -
  have "answers_from_segments answering"
    unfolding answers_from_segments_def answering_def
    using sample_handles sample_promotes by (auto simp del: One_nat_def) blast
  then show ?thesis using fts_answers_well_formed [of answering] by blast
qed

section \<open>Promotion\<close>

lemma find_rev_upt:
  "find P (rev [0..<n]) = Some i \<longleftrightarrow> i < n \<and> P i \<and> (\<forall>j. i < j \<and> j < n \<longrightarrow> \<not> P j)"
proof (induction n)
  case (Suc n)
  then show ?case by (auto simp: less_Suc_eq)
qed simp

lemma find_rev_upt_none: "find P (rev [0..<n]) = None \<longleftrightarrow> (\<forall>i < n. \<not> P i)"
  by (auto simp: find_None_iff)

lemma slot_created_once:
  assumes "CreateReplicationSlotOnPromote pid redo INTERNAL_WAL_REPLICATION_SLOT_NAME slots = Inr slots'" "redo \<noteq> 0"
  shows "CreateReplicationSlotOnPromote pid' redo' INTERNAL_WAL_REPLICATION_SLOT_NAME slots' = Inr slots'"
    "\<exists>slot \<in> set slots'. slot_in_use slot \<and> slot_name slot = INTERNAL_WAL_REPLICATION_SLOT_NAME \<and> restart_lsn slot \<noteq> 0"
proof -
  let ?name = INTERNAL_WAL_REPLICATION_SLOT_NAME
  let ?mine = "\<lambda>slots i. slot_in_use (slots ! i) \<and> ?name = slot_name (slots ! i)"
  have name: "take (NAMEDATALEN - 1) ?name = ?name" by (simp add: INTERNAL_WAL_REPLICATION_SLOT_NAME_def NAMEDATALEN_def)
  obtain i mid where i: "i < length mid" "length mid = length slots" "?mine mid i" "\<forall>j. i < j \<and> j < length mid \<longrightarrow> \<not> ?mine mid j"
    and slots': "slots' = (if restart_lsn (mid ! i) = 0
        then mid[i := if active_pid (mid ! i) \<noteq> 0 then ReplicationSlotRelease (ReplicationSlotReserveWal redo (mid ! i))
                       else ReplicationSlotReserveWal redo (mid ! i)] else mid)"
  proof (cases "find (?mine slots) (rev [0..<length slots])")
    case (Some i)
    then show thesis using that [of i slots] assms(1) find_rev_upt [of "?mine slots" "length slots" i]
      by (auto simp: CreateReplicationSlotOnPromote_def ReplicationSlotReserveWal_def Let_def)
  next
    case None
    obtain i mid where c: "ReplicationSlotCreate pid ?name slots = Inr (i, mid)"
      using assms(1) unfolding CreateReplicationSlotOnPromote_def None by (auto split: sum.splits)
    then have c': "i < length slots" "mid = slots[i := \<lparr>slot_in_use = True, slot_name = ?name, restart_lsn = 0, active_pid = pid\<rparr>]"
      using name by (auto simp: ReplicationSlotCreate_def find_Some_iff split: if_splits option.splits)
    have "\<not> ?mine mid j" if "i < j" "j < length mid" for j using None that c' by (auto simp: find_rev_upt_none)
    moreover have "slots' = (if restart_lsn (mid ! i) = 0
        then mid[i := if active_pid (mid ! i) \<noteq> 0 then ReplicationSlotRelease (ReplicationSlotReserveWal redo (mid ! i))
                       else ReplicationSlotReserveWal redo (mid ! i)] else mid)"
      using assms(1) c unfolding CreateReplicationSlotOnPromote_def None
      by (auto simp: ReplicationSlotReserveWal_def Let_def split: if_splits)
    ultimately show thesis using that [of i mid] c' by simp
  qed
  have after: "length slots' = length mid" "?mine slots' i" "restart_lsn (slots' ! i) \<noteq> 0" "\<forall>j. i < j \<and> j < length mid \<longrightarrow> \<not> ?mine slots' j"
    using i assms(2) unfolding slots' by (auto simp: ReplicationSlotReserveWal_def ReplicationSlotRelease_def)
  then have "find (?mine slots') (rev [0..<length slots']) = Some i" using i(1) by (auto simp: find_rev_upt)
  then show "CreateReplicationSlotOnPromote pid' redo' ?name slots' = Inr slots'"
    using after(3) by (simp add: CreateReplicationSlotOnPromote_def)
  show "\<exists>slot \<in> set slots'. slot_in_use slot \<and> slot_name slot = ?name \<and> restart_lsn slot \<noteq> 0"
    using after(1,2,3) i(1) by (metis nth_mem)
qed

lemma unset_twice: "UnsetSyncStandbysDefined (UnsetSyncStandbysDefined p) = UnsetSyncStandbysDefined p"
  by (auto simp: UnsetSyncStandbysDefined_def FTSReplicationStatusDrop_def Let_def)



end
