(* ===== verification/MirrorStatus.thy ===== *)
theory MirrorStatus
  imports FtsHandlerProps
begin

text \<open>
  The record of the replication and the slots of the processes that send the log, under any interleaving
  of these processes with the messages of the prober: the grace period of a mirror that loses its
  connection, and two interleavings in which the primary reports a mirror wrongly.
\<close>

section \<open>Steps of a primary\<close>

text \<open>A process takes a slot, starts to replicate, changes its state, hears of the mirror, or ends; a probe
  or a request to turn off synchronous replication is handled; the configuration is read again; time
  passes. The application name of a process is the one its slot was taken with.\<close>

inductive mirror_step :: "replication_guc \<Rightarrow> fts_primary \<times> int \<Rightarrow> fts_primary \<times> int \<Rightarrow> bool" for guc where
  connect: "InitWalSenderSlot pid app p = Some (i, p') \<Longrightarrow> 0 < pid \<Longrightarrow> mirror_step guc (p, t) (p', t)"
| start: "i < length (walsnds p) \<Longrightarrow> snd_pid (walsnds p ! i) \<noteq> 0 \<Longrightarrow> is_for_gp_walreceiver (walsnds p ! i) = (app = GP_WALRECEIVER_APPNAME) \<Longrightarrow>
    StartReplication_status app i p = Inr p' \<Longrightarrow> mirror_step guc (p, t) (p', t)"
| state: "i < length (walsnds p) \<Longrightarrow> snd_pid (walsnds p ! i) \<noteq> 0 \<Longrightarrow> is_for_gp_walreceiver (walsnds p ! i) = (app = GP_WALRECEIVER_APPNAME) \<Longrightarrow>
    mirror_step guc (p, t) (WalSndSetState t app i s p, t)"
| reply: "i < length (walsnds p) \<Longrightarrow> snd_pid (walsnds p ! i) \<noteq> 0 \<Longrightarrow>
    mirror_step guc (p, t) (p\<lparr>walsnds := (walsnds p)[i := (walsnds p ! i)\<lparr>snd_write := l, caughtup_within_range := b\<rparr>]\<rparr>, t)"
| kill: "i < length (walsnds p) \<Longrightarrow> snd_pid (walsnds p ! i) \<noteq> 0 \<Longrightarrow> is_for_gp_walreceiver (walsnds p ! i) = (app = GP_WALRECEIVER_APPNAME) \<Longrightarrow>
    mirror_step guc (p, t) (WalSndKill t app i p, t)"
| probe: "primary_state seg = p \<Longrightarrow> mirror_step guc (p, t) (primary_state (fst (HandleFtsWalRepProbe guc t io seg)), t)"
| syncrep_off: "primary_state seg = p \<Longrightarrow> mirror_step guc (p, t) (primary_state (fst (HandleFtsWalRepSyncRepOff guc t seg)), t)"
| reload: "reload_pending p \<Longrightarrow> mirror_step guc (p, t) (SyncRepUpdateSyncStandbysDefined p, t)"
| tick: "t \<le> t' \<Longrightarrow> mirror_step guc (p, t) (p, t')"

definition initial_primary :: "nat \<Rightarrow> bool \<Rightarrow> fts_primary" where
  "initial_primary max_wal_senders syncrep =
     \<lparr>walsnds = replicate max_wal_senders \<lparr>snd_pid = 0, snd_state = WALSNDSTATE_STARTUP, caughtup_within_range = False,
        is_for_gp_walreceiver = False, snd_write = 0\<rparr>,
      replications = FTSReplicationStatusShmemInit, sync_standbys_defined = syncrep,
      synchronous_standby_names = (if syncrep then ''*'' else []), reload_pending = False\<rparr>"

definition reachable_primary :: "replication_guc \<Rightarrow> fts_primary \<times> int \<Rightarrow> bool" where
  "reachable_primary guc q \<longleftrightarrow> (\<exists>n b t. (mirror_step guc)\<^sup>*\<^sup>* (initial_primary n b, t) q)"

section \<open>The record\<close>

definition record_inv :: "fts_primary \<Rightarrow> bool" where
  "record_inv p \<longleftrightarrow> length (replications p) = 1 \<and> (rep_in_use (replications p ! 0) \<longrightarrow> rep_name (replications p ! 0) = GP_WALRECEIVER_APPNAME)"

lemma one_element: "length xs = 1 \<Longrightarrow> xs = [xs ! 0]"
  by (cases xs) auto

lemma name_short: "take (NAMEDATALEN - 1) GP_WALRECEIVER_APPNAME = GP_WALRECEIVER_APPNAME"
  by (simp add: NAMEDATALEN_def GP_WALRECEIVER_APPNAME_def)

text \<open>The one record, when it is in use.\<close>

definition the_record :: "fts_primary \<Rightarrow> FTSReplicationStatus option" where
  "the_record p = (if rep_in_use (replications p ! 0) then Some (replications p ! 0) else None)"

lemma retrieve_record:
  assumes "record_inv p"
  shows "RetrieveFTSReplicationStatus GP_WALRECEIVER_APPNAME (replications p) = (if rep_in_use (replications p ! 0) then Some 0 else None)"
  using assms by (auto simp: record_inv_def RetrieveFTSReplicationStatus_def)

lemma start_total:
  assumes "record_inv p" "is_for_gp_walreceiver (walsnds p ! i) = (app = GP_WALRECEIVER_APPNAME)"
  obtains p' where "StartReplication_status app i p = Inr p'" "record_inv p'"
proof (cases "app = GP_WALRECEIVER_APPNAME")
  case False
  then show thesis using that assms by (simp add: StartReplication_status_def)
next
  case True
  obtain r where r: "replications p = [r]" "rep_in_use r \<longrightarrow> rep_name r = GP_WALRECEIVER_APPNAME"
    using assms(1) one_element by (auto simp: record_inv_def)
  show thesis
  proof (cases "rep_in_use r")
    case in_use: True
    then show thesis using that [of p] assms True r by (simp add: StartReplication_status_def FTSReplicationStatusCreateIfNotExist_def)
  next
    case free: False
    let ?r = "r\<lparr>rep_in_use := True, rep_name := GP_WALRECEIVER_APPNAME, con_attempt_count := 0, replica_disconnected_at := 0\<rparr>"
    have "StartReplication_status app i p = Inr (p\<lparr>replications := [?r]\<rparr>)"
      using assms(2) True r free name_short by (simp add: StartReplication_status_def FTSReplicationStatusCreateIfNotExist_def)
    then show thesis by (rule that) (simp add: record_inv_def)
  qed
qed

lemma rep_adjust_inv:
  assumes "record_inv p" "\<And>r. rep_in_use (f r) = rep_in_use r" "\<And>r. rep_name (f r) = rep_name r"
  shows "record_inv (p\<lparr>replications := rep_adjust f status (replications p)\<rparr>)"
proof (cases status)
  case None
  then show ?thesis using assms(1) by (simp add: rep_adjust_def)
next
  case (Some i)
  then show ?thesis using assms by (cases i) (auto simp: rep_adjust_def record_inv_def)
qed

lemma record_inv_frame: "replications p' = replications p \<Longrightarrow> record_inv p' = record_inv p"
  by (simp add: record_inv_def)

lemma set_state_inv:
  assumes "record_inv p"
  shows "record_inv (WalSndSetState t app i s p)"
proof -
  define q where "q = p\<lparr>walsnds := (walsnds p)[i := (walsnds p ! i)\<lparr>snd_state := s\<rparr>]\<rparr>"
  have q: "record_inv q" using assms by (simp add: record_inv_def q_def)
  note keep = FTSReplicationStatusClearDisconnectTime_def FTSReplicationStatusClearAttempts_def FTSReplicationStatusMarkDisconnect_def
  let ?st = "RetrieveFTSReplicationStatus app (replications q)"
  have clear: "record_inv (q\<lparr>replications := FTSReplicationStatusClearDisconnectTime ?st (replications q)\<rparr>)"
    "record_inv (q\<lparr>replications := FTSReplicationStatusMarkDisconnect t ?st (replications q)\<rparr>)"
    unfolding keep by (rule rep_adjust_inv [OF q], simp, simp)+
  have both: "record_inv (q\<lparr>replications := FTSReplicationStatusClearAttempts ?st (FTSReplicationStatusClearDisconnectTime ?st (replications q))\<rparr>)"
    using rep_adjust_inv [OF clear(1), of "\<lambda>r. r\<lparr>con_attempt_count := 0\<rparr>" ?st] by (simp add: keep)
  have "record_inv (q\<lparr>replications := FTSReplicationStatusUpdateForWalState t app s (walsnds q ! i) (replications q)\<rparr>)"
    using clear both q by (simp add: FTSReplicationStatusUpdateForWalState_def Let_def)
  then show ?thesis using assms q by (simp add: WalSndSetState_def Let_def q_def)
qed

lemma kill_inv:
  assumes "record_inv p"
  shows "record_inv (WalSndKill t app i p)"
proof -
  have "record_inv (p\<lparr>replications := FTSReplicationStatusMarkDisconnectForReplication t app (replications p)\<rparr>)"
    unfolding FTSReplicationStatusMarkDisconnectForReplication_def FTSReplicationStatusMarkDisconnect_def
    by (rule rep_adjust_inv [OF assms]) simp_all
  then show ?thesis using assms by (auto simp: WalSndKill_def Let_def record_inv_def)
qed

lemma probe_replications:
  "replications (primary_state (fst (HandleFtsWalRepProbe guc t io seg))) = replications (primary_state seg)"
  "walsnds (primary_state (fst (HandleFtsWalRepProbe guc t io seg))) = walsnds (primary_state seg)"
  by (auto simp: HandleFtsWalRepProbe_def Let_def SetSyncStandbysDefined_def split: prod.splits sum.splits if_splits)

lemma drop_inv:
  assumes "record_inv p"
  shows "record_inv (UnsetSyncStandbysDefined p)"
  using assms by (auto simp: record_inv_def UnsetSyncStandbysDefined_def FTSReplicationStatusDrop_def Let_def)

lemma syncrep_off_state: "primary_state (fst (HandleFtsWalRepSyncRepOff guc t seg)) = UnsetSyncStandbysDefined (primary_state seg)"
  by (simp add: HandleFtsWalRepSyncRepOff_def Let_def split: prod.splits)

lemma step_inv: "mirror_step guc q q' \<Longrightarrow> record_inv (fst q) \<Longrightarrow> record_inv (fst q')"
proof (induction rule: mirror_step.induct)
  case (connect pid app p i p' t)
  then show ?case by (auto simp: InitWalSenderSlot_def record_inv_def split: option.splits)
next
  case (start i p app p' t)
  then obtain p'' where "StartReplication_status app i p = Inr p''" "record_inv p''"
    using start_total [of p i app] by auto
  then show ?case using start.hyps(4) by simp
next
  case (probe seg p t io)
  then show ?case using record_inv_frame [OF probe_replications(1)] by simp
next
  case (reply i p t l b)
  then show ?case using record_inv_frame [of "p\<lparr>walsnds := _\<rparr>" p] by simp
next
  case (reload p t)
  then show ?case using record_inv_frame [of "SyncRepUpdateSyncStandbysDefined p" p] by (simp add: SyncRepUpdateSyncStandbysDefined_def)
qed (auto simp: set_state_inv kill_inv drop_inv syncrep_off_state)

lemma step_time: "mirror_step guc q q' \<Longrightarrow> snd q \<le> snd q'"
  by (induction rule: mirror_step.induct) auto

lemma reachable_record: "reachable_primary guc q \<Longrightarrow> record_inv (fst q)"
proof -
  assume "reachable_primary guc q"
  then obtain n b t where r: "(mirror_step guc)\<^sup>*\<^sup>* (initial_primary n b, t) q" by (auto simp: reachable_primary_def)
  have "record_inv (fst (initial_primary n b, t))"
    by (simp add: record_inv_def initial_primary_def FTSReplicationStatusShmemInit_def max_replication_status_def)
  with r show ?thesis by (induction rule: rtranclp_induct) (auto intro: step_inv)
qed

section \<open>The grace period\<close>

text \<open>Steps that leave the record alone: probes, the passing of time, processes that do not replicate to the
  mirror or have not come that far.\<close>

definition quiet_run :: "replication_guc \<Rightarrow> fts_primary \<times> int \<Rightarrow> fts_primary \<times> int \<Rightarrow> bool" where
  "quiet_run guc = (\<lambda>q q'. mirror_step guc q q' \<and> replications (fst q') = replications (fst q))\<^sup>*\<^sup>*"

lemma quiet_keeps:
  assumes "quiet_run guc q q'"
  shows "replications (fst q') = replications (fst q)" "snd q \<le> snd q'"
proof -
  have "replications (fst q') = replications (fst q) \<and> snd q \<le> snd q'"
    using assms unfolding quiet_run_def
    by (induction rule: rtranclp_induct) (auto dest: step_time)
  then show "replications (fst q') = replications (fst q)" "snd q \<le> snd q'" by auto
qed

lemma killed_record:
  assumes "record_inv p" "is_for_gp_walreceiver (walsnds p ! i)" "the_record p = Some r"
  shows "replications (WalSndKill t GP_WALRECEIVER_APPNAME i p) = [r\<lparr>con_attempt_count := con_attempt_count r + 1, replica_disconnected_at := t\<rparr>]"
proof -
  have r: "replications p = [r]" "rep_in_use r" using assms(1,3) one_element by (auto simp: record_inv_def the_record_def split: if_splits)
  then show ?thesis using assms(2) retrieve_record [OF assms(1)]
    by (simp add: WalSndKill_def Let_def FTSReplicationStatusMarkDisconnectForReplication_def FTSReplicationStatusMarkDisconnect_def rep_adjust_def)
qed

lemma grace_retry:
  assumes "replications p = [r]" "rep_in_use r" "rep_name r = GP_WALRECEIVER_APPNAME" "con_attempt_count r \<le> gp_fts_replication_attempt_count guc"
    "replica_disconnected_at r \<le> now" "now - replica_disconnected_at r < gp_fts_mark_mirror_down_grace_period guc"
    "PMAcceptingConnectionsStartTime guc \<le> now"
  shows "is_probe_retry_needed guc now (replications p)"
  using assms by (simp add: is_probe_retry_needed_def FTSGetReplicationDisconnectTime_def RetrieveFTSReplicationStatus_def
    FTSReplicationStatusRetrieveAttempts_def FTSReplicationStatusRetrieveDisconnectTime_def Let_def)

lemma probe_response:
  assumes "HandleFtsWalRepProbe guc now io seg = (seg', Inr messages)" "\<not> am_mirror seg"
  obtains r where "messages = SendFtsResponse r FTS_MSG_PROBE"
    "IsMirrorUp r \<or> RequestRetry r = is_probe_retry_needed guc now (replications (primary_state seg))"
proof -
  obtain r ready where g: "GetMirrorStatus guc now (primary_state seg) no_response = (r, ready)" by (metis surj_pair)
  then have retry: "IsMirrorUp r \<or> RequestRetry r = is_probe_retry_needed guc now (replications (primary_state seg))"
    by (auto simp: GetMirrorStatus_def Let_def split: option.splits)
  have "messages = SendFtsResponse (if \<not> IsSyncRepEnabled r \<and> ready then r\<lparr>IsSyncRepEnabled := True\<rparr> else r) FTS_MSG_PROBE"
    using assms g by (auto simp: HandleFtsWalRepProbe_def Let_def split: sum.splits if_splits)
  then show thesis using that retry by (auto split: if_splits)
qed


text \<open>With synchronous replication off the prober does not heed the request.\<close>

definition retry_result :: "bool \<Rightarrow> fts_result" where
  "retry_result syncrep = \<lparr>isPrimaryAlive = True, isMirrorAlive = False, isInSync = False, isSyncRepEnabled = syncrep,
     isRoleMirror = False, retryRequested = True\<rparr>"


section \<open>A primary that replicates\<close>

definition replication_defaults :: replication_guc where
  "replication_defaults = \<lparr>gp_fts_replication_attempt_count = 10, gp_fts_mark_mirror_down_grace_period = 30, PMAcceptingConnectionsStartTime = 0\<rparr>"

definition no_sender :: WalSnd where
  "no_sender = \<lparr>snd_pid = 0, snd_state = WALSNDSTATE_STARTUP, caughtup_within_range = False, is_for_gp_walreceiver = False, snd_write = 0\<rparr>"

definition mirror_sender :: "nat \<Rightarrow> WalSndState \<Rightarrow> WalSnd" where
  "mirror_sender pid st = \<lparr>snd_pid = pid, snd_state = st, caughtup_within_range = False, is_for_gp_walreceiver = True, snd_write = 0\<rparr>"

definition mirror_record :: "uint32 \<Rightarrow> int \<Rightarrow> FTSReplicationStatus" where
  "mirror_record attempts since =
     \<lparr>rep_name = GP_WALRECEIVER_APPNAME, rep_in_use = True, con_attempt_count = attempts, replica_disconnected_at = since\<rparr>"

definition no_record :: FTSReplicationStatus where
  "no_record = \<lparr>rep_name = [], rep_in_use = False, con_attempt_count = 0, replica_disconnected_at = 0\<rparr>"

definition replicating :: "WalSnd list \<Rightarrow> FTSReplicationStatus \<Rightarrow> fts_primary" where
  "replicating senders r =
     \<lparr>walsnds = senders, replications = [r], sync_standbys_defined = True, synchronous_standby_names = ''*'', reload_pending = False\<rparr>"

definition primary_segment :: "fts_primary \<Rightarrow> fts_segment" where
  "primary_segment p = sample_segment\<lparr>primary_state := p, am_mirror := False, db_state := DB_IN_PRODUCTION\<rparr>"

definition disk_unchecked :: io_env where
  "disk_unchecked = \<lparr>BLCKSZ = 32768, open_outcome = OPEN_EINVAL, create_ok = False, read_length = 0, read_data = [], seek_ok = False, write_length = 0\<rparr>"

lemmas run_defs = replicating_def mirror_sender_def mirror_record_def no_record_def no_sender_def InitWalSenderSlot_def StartReplication_status_def
  FTSReplicationStatusCreateIfNotExist_def WalSndSetState_def WalSndKill_def FTSReplicationStatusUpdateForWalState_def
  RetrieveFTSReplicationStatus_def FTSReplicationStatusClearDisconnectTime_def FTSReplicationStatusClearAttempts_def
  FTSReplicationStatusRetrieveDisconnectTime_def FTSReplicationStatusMarkDisconnect_def FTSReplicationStatusMarkDisconnectForReplication_def
  rep_adjust_def is_mirror_up_def Let_def

lemma reach_next: "reachable_primary guc q \<Longrightarrow> mirror_step guc q q' \<Longrightarrow> reachable_primary guc q'"
  by (auto simp: reachable_primary_def intro: rtranclp.rtrancl_into_rtrancl)

lemma reach_start: "reachable_primary guc (replicating (replicate n no_sender) no_record, t)"
proof -
  have "initial_primary n True = replicating (replicate n no_sender) no_record"
    by (simp add: initial_primary_def replicating_def no_sender_def no_record_def FTSReplicationStatusShmemInit_def max_replication_status_def)
  then show ?thesis unfolding reachable_primary_def by (metis rtranclp.rtrancl_refl)
qed

lemma step_connect:
  "mirror_step guc (replicating (xs @ no_sender # ys) r, t) (replicating (xs @ mirror_sender pid WALSNDSTATE_STARTUP # ys) r, t)"
  if "0 < pid" "\<forall>x \<in> set xs. snd_pid x \<noteq> 0"
proof (rule mirror_step.connect [of pid GP_WALRECEIVER_APPNAME _ "length xs"])
  have "find (\<lambda>i. snd_pid ((xs @ no_sender # ys) ! i) = 0) [0..<length (xs @ no_sender # ys)] = Some (length xs)"
    using that(2) by (auto simp: find_Some_iff nth_append no_sender_def intro!: exI [of _ "length xs"])
  then show "InitWalSenderSlot pid GP_WALRECEIVER_APPNAME (replicating (xs @ no_sender # ys) r) =
      Some (length xs, replicating (xs @ mirror_sender pid WALSNDSTATE_STARTUP # ys) r)"
    by (simp add: InitWalSenderSlot_def replicating_def mirror_sender_def)
qed (rule that(1))

lemma step_start:
  assumes "i < length ss" "ss ! i = mirror_sender pid st" "0 < pid" "r = no_record \<and> r' = mirror_record 0 0 \<or> r = mirror_record a d \<and> r' = r"
  shows "mirror_step guc (replicating ss r, t) (replicating ss r', t)"
proof (rule mirror_step.start [of i _ GP_WALRECEIVER_APPNAME])
  show "StartReplication_status GP_WALRECEIVER_APPNAME i (replicating ss r) = Inr (replicating ss r')"
    using assms name_short by (auto simp: run_defs)
qed (use assms in \<open>simp_all add: replicating_def mirror_sender_def\<close>)

lemma step_stream:
  assumes "i < length ss" "ss ! i = mirror_sender pid WALSNDSTATE_STARTUP" "0 < pid"
    "r = no_record \<and> r' = no_record \<or> r = mirror_record a d \<and> r' = mirror_record 0 0"
  shows "mirror_step guc (replicating ss r, t) (replicating (ss[i := mirror_sender pid WALSNDSTATE_STREAMING]) r', t)"
proof -
  have "WalSndSetState t GP_WALRECEIVER_APPNAME i WALSNDSTATE_STREAMING (replicating ss r) =
      replicating (ss[i := mirror_sender pid WALSNDSTATE_STREAMING]) r'"
    using assms by (auto simp: run_defs)
  then show ?thesis
    using mirror_step.state [of i "replicating ss r" GP_WALRECEIVER_APPNAME guc t WALSNDSTATE_STREAMING] assms
    by (simp add: replicating_def mirror_sender_def)
qed

lemma kill_record:
  assumes "i < length ss" "ss ! i = mirror_sender pid st"
  shows "WalSndKill t GP_WALRECEIVER_APPNAME i (replicating ss (mirror_record a d)) =
      replicating (ss[i := mirror_sender 0 st]) (mirror_record (a + 1) t)"
    "WalSndKill t GP_WALRECEIVER_APPNAME i (replicating ss no_record) = replicating (ss[i := mirror_sender 0 st]) no_record"
  using assms by (simp_all add: run_defs)

lemma step_kill:
  assumes "i < length ss" "ss ! i = mirror_sender pid st" "0 < pid"
  shows "mirror_step guc (replicating ss (mirror_record a d), t) (replicating (ss[i := mirror_sender 0 st]) (mirror_record (a + 1) t), t)"
  using mirror_step.kill [of i "replicating ss (mirror_record a d)" GP_WALRECEIVER_APPNAME guc t] kill_record(1) [OF assms(1,2)] assms
  by (simp add: replicating_def mirror_sender_def)

lemma streaming_reachable: "reachable_primary guc (replicating [mirror_sender 11 WALSNDSTATE_STREAMING] (mirror_record 0 0), t)"
proof -
  let ?s = "\<lambda>st. [mirror_sender 11 st]"
  have "reachable_primary guc (replicating [no_sender] no_record, t)" using reach_start [of guc 1] by simp
  then have "reachable_primary guc (replicating (?s WALSNDSTATE_STARTUP) no_record, t)"
    by (rule reach_next) (use step_connect [of 11 "[]"] in simp)
  then have "reachable_primary guc (replicating (?s WALSNDSTATE_STARTUP) (mirror_record 0 0), t)"
    by (rule reach_next) (rule step_start [of 0 _ 11], simp_all)
  then show ?thesis
    by (rule reach_next)
      (use step_stream [of 0 "?s WALSNDSTATE_STARTUP" 11 "mirror_record 0 0" "mirror_record 0 0" 0 0] in simp)
qed



section \<open>Mirrors reported wrongly\<close>

lemma two_senders:
  "reachable_primary guc (replicating [mirror_sender 0 WALSNDSTATE_STREAMING, mirror_sender 12 WALSNDSTATE_STREAMING] (mirror_record 0 0), t)"
proof -
  let ?ss = "\<lambda>p1 s1 x. [mirror_sender p1 s1, x]" and ?up = WALSNDSTATE_STARTUP and ?st = WALSNDSTATE_STREAMING
  have "reachable_primary guc (replicating [no_sender, no_sender] no_record, t)" using reach_start [of guc 2] by (simp add: numeral_2_eq_2)
  then have "reachable_primary guc (replicating (?ss 11 ?up no_sender) no_record, t)"
    by (rule reach_next) (use step_connect [of 11 "[]" guc "[no_sender]"] in simp)
  then have "reachable_primary guc (replicating (?ss 11 ?up no_sender) (mirror_record 0 0), t)"
    by (rule reach_next) (rule step_start [of 0 _ 11], simp_all)
  then have "reachable_primary guc (replicating (?ss 11 ?st no_sender) (mirror_record 0 0), t)"
    by (rule reach_next) (use step_stream [of 0 "?ss 11 ?up no_sender" 11 "mirror_record 0 0" "mirror_record 0 0" 0 0] in simp)
  then have "reachable_primary guc (replicating (?ss 11 ?st (mirror_sender 12 ?up)) (mirror_record 0 0), t)"
    by (rule reach_next) (use step_connect [of 12 "[mirror_sender 11 ?st]" guc "[]"] in \<open>simp add: mirror_sender_def\<close>)
  then have "reachable_primary guc (replicating (?ss 0 ?st (mirror_sender 12 ?up)) (mirror_record 1 t), t)"
    by (rule reach_next) (use step_kill [of 0 "?ss 11 ?st (mirror_sender 12 ?up)" 11 ?st guc 0 0 t] in simp)
  then have "reachable_primary guc (replicating (?ss 0 ?st (mirror_sender 12 ?up)) (mirror_record 1 t), t)"
    by (rule reach_next) (rule step_start [of 1 _ 12 ?up _ _ 1 t], simp_all)
  then show ?thesis
    by (rule reach_next) (use step_stream [of 1 "?ss 0 ?st (mirror_sender 12 ?up)" 12 "mirror_record 1 t" "mirror_record 0 0" 1 t] in simp)
qed

text \<open>The record is dropped while the process replicates; synchronous replication goes off and on again.\<close>

lemma dropped_record: "reachable_primary guc (replicating [mirror_sender 11 WALSNDSTATE_STREAMING] no_record, t)"
proof -
  let ?s = "\<lambda>st. [mirror_sender 11 st]" and ?up = WALSNDSTATE_STARTUP and ?st = WALSNDSTATE_STREAMING
  let ?p = "\<lambda>st r d names pending. \<lparr>walsnds = ?s st, replications = [r], sync_standbys_defined = d, synchronous_standby_names = names, reload_pending = pending\<rparr>"
  have "reachable_primary guc (replicating [no_sender] no_record, t)" using reach_start [of guc 1] by simp
  then have "reachable_primary guc (replicating (?s ?up) no_record, t)"
    by (rule reach_next) (use step_connect [of 11 "[]"] in simp)
  then have "reachable_primary guc (replicating (?s ?up) (mirror_record 0 0), t)"
    by (rule reach_next) (rule step_start [of 0 _ 11], simp_all)
  then have "reachable_primary guc (?p ?up no_record True [] True, t)"
    by (rule reach_next) (use mirror_step.syncrep_off [of "primary_segment (replicating (?s ?up) (mirror_record 0 0))" _ guc t] in
      \<open>simp add: syncrep_off_state primary_segment_def UnsetSyncStandbysDefined_def FTSReplicationStatusDrop_def replicating_def mirror_record_def no_record_def Let_def\<close>)
  then have "reachable_primary guc (?p ?up no_record False [] False, t)"
    by (rule reach_next) (use mirror_step.reload [of "?p ?up no_record True [] True" guc t] in \<open>simp add: SyncRepUpdateSyncStandbysDefined_def\<close>)
  then have "reachable_primary guc (?p ?st no_record False [] False, t)"
    by (rule reach_next) (use mirror_step.state [of 0 "?p ?up no_record False [] False" GP_WALRECEIVER_APPNAME guc t ?st] in \<open>simp add: run_defs\<close>)
  then have "reachable_primary guc (?p ?st no_record False ''*'' True, t)"
    by (rule reach_next) (use mirror_step.probe [of "primary_segment (?p ?st no_record False [] False)" _ guc t disk_unchecked] in
      \<open>simp add: primary_segment_def sample_segment_def HandleFtsWalRepProbe_def GetMirrorStatus_def mirror_sender_def is_mirror_up_def
        SetSyncStandbysDefined_def disk_unchecked_def checkIODataDirectory_def io_failure_def no_response_def Let_def\<close>)
  then have "reachable_primary guc (?p ?st no_record True ''*'' False, t)"
    by (rule reach_next) (use mirror_step.reload [of "?p ?st no_record False ''*'' True" guc t] in \<open>simp add: SyncRepUpdateSyncStandbysDefined_def\<close>)
  then show ?thesis by (simp add: replicating_def)
qed

text \<open>C6: A primary can report its mirror wrongly, with the default parameters. In the first state a mirror in sync is reported down without a
  request for a retry: it came back before the old process ended, and the slot that process left behind is
  still marked as the mirror's and comes first. In the second state a mirror in sync loses its connection and
  gets no grace period: the record of its replication was dropped with a late request to turn off
  synchronous replication while its process was running, and no running process makes a new one.\<close>

theorem mirror_reported_wrongly:
  "(\<exists>p. reachable_primary replication_defaults (p, 100) \<and>
      (\<exists>walsender \<in> set (walsnds p). is_for_gp_walreceiver walsender \<and> is_mirror_up walsender \<and> snd_state walsender = WALSNDSTATE_STREAMING) \<and>
      \<not> IsMirrorUp (fst (GetMirrorStatus replication_defaults 100 p no_response)) \<and>
      \<not> RequestRetry (fst (GetMirrorStatus replication_defaults 100 p no_response))) \<and>
   (\<exists>p. reachable_primary replication_defaults (p, 100) \<and> IsInSync (fst (GetMirrorStatus replication_defaults 100 p no_response)) \<and>
      \<not> RequestRetry (fst (GetMirrorStatus replication_defaults 100 (WalSndKill 100 GP_WALRECEIVER_APPNAME 0 p) no_response)) \<and>
      \<not> IsMirrorUp (fst (GetMirrorStatus replication_defaults 100 (WalSndKill 100 GP_WALRECEIVER_APPNAME 0 p) no_response)))"
proof
  let ?p = "replicating [mirror_sender 0 WALSNDSTATE_STREAMING, mirror_sender 12 WALSNDSTATE_STREAMING] (mirror_record 0 0)"
  have "\<exists>walsender \<in> set (walsnds ?p). is_for_gp_walreceiver walsender \<and> is_mirror_up walsender \<and> snd_state walsender = WALSNDSTATE_STREAMING"
      "\<not> IsMirrorUp (fst (GetMirrorStatus replication_defaults 100 ?p no_response))"
      "\<not> RequestRetry (fst (GetMirrorStatus replication_defaults 100 ?p no_response))"
    by (simp_all add: replicating_def mirror_sender_def mirror_record_def is_mirror_up_def GetMirrorStatus_def replication_defaults_def
      is_probe_retry_needed_def FTSGetReplicationDisconnectTime_def RetrieveFTSReplicationStatus_def FTSReplicationStatusRetrieveAttempts_def
      FTSReplicationStatusRetrieveDisconnectTime_def Let_def)
  then show "\<exists>p. reachable_primary replication_defaults (p, 100) \<and>
      (\<exists>walsender \<in> set (walsnds p). is_for_gp_walreceiver walsender \<and> is_mirror_up walsender \<and> snd_state walsender = WALSNDSTATE_STREAMING) \<and>
      \<not> IsMirrorUp (fst (GetMirrorStatus replication_defaults 100 p no_response)) \<and>
      \<not> RequestRetry (fst (GetMirrorStatus replication_defaults 100 p no_response))"
    using two_senders by blast
next
  let ?p = "replicating [mirror_sender 11 WALSNDSTATE_STREAMING] no_record"
  have k: "WalSndKill 100 GP_WALRECEIVER_APPNAME 0 ?p = replicating [mirror_sender 0 WALSNDSTATE_STREAMING] no_record"
    using kill_record(2) [of 0 "[mirror_sender 11 WALSNDSTATE_STREAMING]"] by simp
  have "IsInSync (fst (GetMirrorStatus replication_defaults 100 ?p no_response))"
    by (simp add: replicating_def mirror_sender_def no_record_def is_mirror_up_def GetMirrorStatus_def Let_def)
  moreover have "\<not> RequestRetry (fst (GetMirrorStatus replication_defaults 100 (WalSndKill 100 GP_WALRECEIVER_APPNAME 0 ?p) no_response))"
      "\<not> IsMirrorUp (fst (GetMirrorStatus replication_defaults 100 (WalSndKill 100 GP_WALRECEIVER_APPNAME 0 ?p) no_response))"
    unfolding k
    by (simp_all add: replicating_def mirror_sender_def no_record_def is_mirror_up_def GetMirrorStatus_def replication_defaults_def
      is_probe_retry_needed_def FTSGetReplicationDisconnectTime_def RetrieveFTSReplicationStatus_def Let_def)
  ultimately show "\<exists>p. reachable_primary replication_defaults (p, 100) \<and> IsInSync (fst (GetMirrorStatus replication_defaults 100 p no_response)) \<and>
      \<not> RequestRetry (fst (GetMirrorStatus replication_defaults 100 (WalSndKill 100 GP_WALRECEIVER_APPNAME 0 p) no_response)) \<and>
      \<not> IsMirrorUp (fst (GetMirrorStatus replication_defaults 100 (WalSndKill 100 GP_WALRECEIVER_APPNAME 0 p) no_response))"
    using dropped_record by blast
qed

end
