(* ===== verification/Spec2Isabelle.thy ===== *)
theory Spec2Isabelle
  imports BitmapsetProps FreeSpaceMapContract VisibilityMVCC DeadlockVictims CdbHash FtsTermination MirrorStatus
begin

text \<open>Verification of parts of Apache Cloudberry.\<close>

end
